(* ===== verification/Prelude.thy ===== *)
theory Prelude
  imports Main "HOL-Library.AList"
begin

text \<open>
  Shared vocabulary of the development: results that may be a thrown error, the insertion-ordered
  \<open>Map\<close> and \<open>Set\<close> of JavaScript, and the list lemmas the components share.

  A JavaScript \<open>Map\<close> is an association list kept in insertion order: \<open>AList.update\<close> overwrites an
  existing key in place and appends a new one at the end, exactly as \<open>Map.prototype.set\<close> does. A
  JavaScript \<open>Set\<close> is a duplicate-free list in insertion order. The locale \<open>js_map\<close> states what
  the clients of a \<open>Map\<close> rely on; it is interpreted on the association list.
\<close>

named_theorems js_map_simps \<open>lookup after set, keys after set\<close>
named_theorems step_defs \<open>definitions of the operations of a state machine\<close>

type_synonym ('k, 'v) js_map = "('k \<times> 'v) list"
type_synonym 'a js_set = "'a list"

section \<open>Results\<close>

text \<open>A call that may throw returns \<open>Inl\<close> of what it throws, or \<open>Inr\<close> of its value.\<close>

definition bind_result :: "'e + 'a \<Rightarrow> ('a \<Rightarrow> 'e + 'b) \<Rightarrow> 'e + 'b" where
  "bind_result m f = (case m of Inl e \<Rightarrow> Inl e | Inr x \<Rightarrow> f x)"

lemma bind_result_simps [simp]:
  "bind_result (Inl e) f = Inl e"
  "bind_result (Inr x) f = f x"
  by (simp_all add: bind_result_def)

lemma bind_result_Inr_iff:
  "bind_result m f = Inr y \<longleftrightarrow> (\<exists>x. m = Inr x \<and> f x = Inr y)"
  by (cases m) auto

definition is_Inr :: "'e + 'a \<Rightarrow> bool" where
  "is_Inr m = (case m of Inl _ \<Rightarrow> False | Inr _ \<Rightarrow> True)"

lemma is_Inr_simps [simp]: "is_Inr (Inr x)" "\<not> is_Inr (Inl e)"
  by (simp_all add: is_Inr_def)

section \<open>Map and Set\<close>

definition map_get :: "('k, 'v) js_map \<Rightarrow> 'k \<Rightarrow> 'v option" where
  "map_get m k = map_of m k"

definition map_set :: "'k \<Rightarrow> 'v \<Rightarrow> ('k, 'v) js_map \<Rightarrow> ('k, 'v) js_map" where
  "map_set k v m = AList.update k v m"

definition map_keys :: "('k, 'v) js_map \<Rightarrow> 'k list" where
  "map_keys m = map fst m"

definition set_add :: "'a \<Rightarrow> 'a js_set \<Rightarrow> 'a js_set" where
  "set_add x s = (if x \<in> set s then s else s @ [x])"

lemma set_set_add [simp]: "set (set_add x s) = insert x (set s)"
  by (auto simp: set_add_def)

lemma distinct_set_add [simp]: "distinct s \<Longrightarrow> distinct (set_add x s)"
  by (auto simp: set_add_def)

text \<open>What a client of a \<open>Map\<close> relies on.\<close>

locale ordered_map =
  fixes get :: "'m \<Rightarrow> 'k \<Rightarrow> 'v option"
    and put :: "'k \<Rightarrow> 'v \<Rightarrow> 'm \<Rightarrow> 'm"
    and keys :: "'m \<Rightarrow> 'k list"
  assumes get_put: "get (put k v m) = (get m)(k \<mapsto> v)"
    and set_keys: "set (keys m) = dom (get m)"
    and distinct_put: "distinct (keys m) \<Longrightarrow> distinct (keys (put k v m))"
begin

lemma get_put_same [simp]: "get (put k v m) k = Some v"
  by (simp add: get_put)

lemma get_put_other: "k' \<noteq> k \<Longrightarrow> get (put k v m) k' = get m k'"
  by (simp add: get_put)

lemma keys_put: "set (keys (put k v m)) = insert k (set (keys m))"
  by (simp add: set_keys get_put)

lemma get_fold_put_notin:
  "k \<notin> f ` set xs \<Longrightarrow> get (fold (\<lambda>x. put (f x) (g x)) xs m) k = get m k"
  by (induction xs arbitrary: m) (auto simp: get_put)

lemma distinct_fold_put:
  "distinct (keys m) \<Longrightarrow> distinct (keys (fold (\<lambda>x. put (f x) (g x)) xs m))"
  by (induction xs arbitrary: m) (auto simp: distinct_put)

end

interpretation jsm: ordered_map map_get map_set map_keys
proof unfold_locales
  fix k :: 'k and v :: 'v and m :: "('k, 'v) js_map"
  show "map_get (map_set k v m) = (map_get m)(k \<mapsto> v)"
    by (rule ext) (simp add: map_get_def map_set_def update_conv')
  show "set (map_keys m) = dom (map_get m)"
    unfolding map_get_def map_keys_def by (simp add: dom_map_of_conv_image_fst)
  show "distinct (map_keys m) \<Longrightarrow> distinct (map_keys (map_set k v m))"
    by (simp add: map_set_def map_keys_def distinct_update)
qed

lemmas map_set_simps [js_map_simps] = jsm.get_put jsm.get_put_same jsm.get_put_other jsm.keys_put

lemma map_get_Nil [simp]: "map_get [] k = None"
  by (simp add: map_get_def)

section \<open>Lists\<close>

text \<open>\<open>Array.prototype.find\<close>: the first element that satisfies the test.\<close>

lemma find_Some_in: "List.find P xs = Some x \<Longrightarrow> x \<in> set xs \<and> P x"
  by (induction xs) (auto split: if_splits)

lemma find_None_all: "List.find P xs = None \<longleftrightarrow> (\<forall>x\<in>set xs. \<not> P x)"
  by (induction xs) auto

text \<open>\<open>Array.prototype.flatMap\<close>.\<close>

definition flat_map :: "('a \<Rightarrow> 'b list) \<Rightarrow> 'a list \<Rightarrow> 'b list" where
  "flat_map f xs = concat (map f xs)"

lemma set_flat_map [simp]: "set (flat_map f xs) = (\<Union>x\<in>set xs. set (f x))"
  by (simp add: flat_map_def)

lemma flat_map_simps [simp]:
  "flat_map f [] = []"
  "flat_map f (x # xs) = f x @ flat_map f xs"
  by (simp_all add: flat_map_def)

lemma flat_map_eq_Nil [simp]: "flat_map f xs = [] \<longleftrightarrow> (\<forall>x\<in>set xs. f x = [])"
  by (induction xs) auto

end
