(* ===== verification/Js_Rounding.thy ===== *)
theory Js_Rounding
  imports Js_Number
begin

text \<open>
  Facts about rounding to a double: exactness on integers up to \<open>2 ^ 53\<close>, monotonicity against
  such integers, the error bound, and the arithmetic of safe integers that follows from them.
\<close>

section \<open>The exponent\<close>

lemma powi_two_pos [simp]: "0 < (2 :: rat) powi e"
  by simp

lemma powi_two_nonpos: "e \<le> 0 \<Longrightarrow> (2 :: rat) powi e = 1 / 2 ^ nat (- e)"
  by (cases "e = 0") (simp_all add: power_int_def power_one_over)

lemma powi_two_mono: "a \<le> b \<Longrightarrow> (2 :: rat) powi a \<le> 2 powi b"
  by (intro power_int_increasing) auto

lemma powi_two_less: "(2 :: rat) powi a < 2 powi b \<Longrightarrow> a < b"
  by (meson leD not_le_imp_less powi_two_mono)

lemma ilog2_bounds:
  assumes "0 < x"
  shows "2 powi ilog2 x \<le> x" and "x < 2 powi (ilog2 x + 1)"
proof -
  obtain p q where pq: "quotient_of x = (p, q)" by force
  have q: "0 < q" using quotient_of_denom_pos [OF pq] .
  have x: "x = of_int p / of_int q" by (rule quotient_of_div [OF pq])
  have p: "0 < p" using assms q by (simp add: x zero_less_divide_iff)
  have lift: "2 powi (bitlen k - 1) \<le> (of_int k :: rat) \<and> (of_int k :: rat) < 2 powi bitlen k"
    if "0 < k" for k
  proof -
    have 1: "0 < bitlen k" using that bitlen_def bitlen_eq_zero_iff linorder_not_less by auto
    have b: "2 ^ nat (bitlen k - 1) \<le> k" "k < 2 ^ nat (bitlen k)"
      using bitlen_bounds [OF that] by auto
    have "(of_int (2 ^ nat (bitlen k - 1)) :: rat) \<le> of_int k" using b(1) by (subst of_int_le_iff)
    moreover have "(of_int k :: rat) < of_int (2 ^ nat (bitlen k))" using b(2) by (subst of_int_less_iff)
    ultimately show ?thesis using 1 by (simp add: power_int_def)
  qed
  define d where "d = bitlen p - bitlen q"
  have up: "x < 2 powi (d + 1)"
  proof -
    have "of_int p < (2 :: rat) powi (d + 1) * 2 powi (bitlen q - 1)"
      using lift [OF p] by (simp add: d_def flip: power_int_add)
    also have "\<dots> \<le> 2 powi (d + 1) * of_int q"
      using lift [OF q] by (intro mult_left_mono) auto
    finally show ?thesis using q by (simp add: x divide_less_eq)
  qed
  have low: "2 powi (d - 1) \<le> x"
  proof -
    have "(2 :: rat) powi (d - 1) * of_int q \<le> 2 powi (d - 1) * 2 powi bitlen q"
      using lift [OF q] by (intro mult_left_mono) auto
    also have "\<dots> \<le> of_int p" using lift [OF p] by (simp add: d_def flip: power_int_add)
    finally show ?thesis using q by (simp add: x le_divide_eq)
  qed
  have il: "ilog2 x = (if 2 powi d \<le> x then d else d - 1)"
    by (simp add: ilog2_def pq d_def)
  show "2 powi ilog2 x \<le> x" using low by (simp add: il)
  show "x < 2 powi (ilog2 x + 1)" using up by (simp add: il)
qed

lemma ilog2_less:
  assumes "0 < x" and "x < 2 powi k"
  shows "ilog2 x < k"
  using ilog2_bounds(1) [OF assms(1)] assms(2) by (meson le_less_trans powi_two_less)

lemma ilog2_ge:
  assumes "0 < x" and "2 powi k \<le> x"
  shows "k \<le> ilog2 x"
  using ilog2_bounds(2) [OF assms(1)] assms(2) powi_two_less [of k "ilog2 x + 1"] by force

lemma of_int_pow_cancel:
  "(of_int n :: rat) \<le> 2 ^ k \<longleftrightarrow> n \<le> 2 ^ k"
  "(2 :: rat) ^ k \<le> of_int n \<longleftrightarrow> 2 ^ k \<le> n"
  "(of_int n :: rat) < 2 ^ k \<longleftrightarrow> n < 2 ^ k"
  "(of_int n :: rat) = 2 ^ k \<longleftrightarrow> n = 2 ^ k"
  by (simp_all)

section \<open>Rounding to an integer\<close>

lemma round_even_ge: "of_int k \<le> y \<Longrightarrow> k \<le> round_even y"
  by (simp add: round_even_def Let_def le_floor_iff) linarith

lemma round_even_le: "y \<le> of_int k \<Longrightarrow> round_even y \<le> k"
  unfolding round_even_def Let_def by (auto simp: not_less) linarith+

lemma round_even_int [simp]: "round_even (of_int k) = k"
  by (simp add: antisym round_even_ge round_even_le)

lemma round_even_err: "\<bar>of_int (round_even y) - y\<bar> \<le> 1 / 2"
  using floor_correct [of y] by (simp add: round_even_def Let_def abs_le_iff)

section \<open>Rounding to a double\<close>

lemma round_double_0 [simp]: "round_double 0 = 0"
  by (simp add: round_double_def)

lemma ulp_exp_small:
  assumes "x \<noteq> 0" and "\<bar>x\<bar> < 2 powi k" and "-1021 \<le> k"
  shows "ulp_exp x \<le> k - 53"
  using ilog2_less [of "\<bar>x\<bar>" k] assms by (auto simp: ulp_exp_def)

lemma round_double_exact:
  assumes "x = of_int n * 2 powi ulp_exp x"
  shows "round_double x = x"
proof (cases "x = 0")
  case False
  have "x / 2 powi ulp_exp x = of_int n"
    by (subst assms) simp
  then show ?thesis using assms False by (simp add: round_double_def Let_def)
qed simp

lemma round_double_int:
  assumes "\<bar>n\<bar> \<le> 2 ^ 53"
  shows "round_double (of_int n) = of_int n"
proof (cases "\<bar>n\<bar> = 2 ^ 53")
  case True
  have pw: "(2 :: rat) powi 53 = 2 ^ 53" "(2 :: rat) powi 54 = 2 ^ 54"
    by (simp_all only: power_int_numeral)
  have ab: "\<bar>of_int n :: rat\<bar> = 2 ^ 53"
    using True by (simp only: of_int_pow_cancel flip: of_int_abs)
  have "ilog2 \<bar>of_int n :: rat\<bar> = 53"
  proof (rule antisym)
    show "ilog2 \<bar>of_int n :: rat\<bar> \<le> 53"
      using ilog2_less [of "\<bar>of_int n :: rat\<bar>" 54] unfolding ab pw by simp
    show "53 \<le> ilog2 \<bar>of_int n :: rat\<bar>"
      by (rule ilog2_ge) (simp_all add: ab pw)
  qed
  then have u: "ulp_exp (of_int n) = 1" by (simp add: ulp_exp_def)
  have "even \<bar>n\<bar>" unfolding True by simp
  then have "2 dvd n" by simp
  then obtain m where m: "n = 2 * m" by (rule dvdE)
  have "(of_int n :: rat) = of_int m * 2 powi ulp_exp (of_int n)"
    unfolding u by (simp add: m)
  then show ?thesis by (rule round_double_exact)
next
  case False
  show ?thesis
  proof (cases "n = 0")
    case nz: False
    have lt: "\<bar>n\<bar> < 2 ^ 53" using False assms by simp
    have "\<bar>of_int n :: rat\<bar> < 2 ^ 53"
        using lt by (simp only: of_int_pow_cancel flip: of_int_abs)
    then have "\<bar>of_int n :: rat\<bar> < 2 powi 53" by (simp only: power_int_numeral)
    then have e: "ulp_exp (of_int n :: rat) \<le> 0"
      using ulp_exp_small [of "of_int n" 53] nz by simp
    define e' where "e' = nat (- ulp_exp (of_int n :: rat))"
    have "(2 :: rat) powi ulp_exp (of_int n) = 1 / 2 ^ e'"
      unfolding e'_def using e by (rule powi_two_nonpos)
    then have "(of_int n :: rat) = of_int (n * 2 ^ e') * 2 powi ulp_exp (of_int n)"
      by simp
    then show ?thesis by (rule round_double_exact)
  qed simp
qed

lemma round_even_minus: "round_even (- y) = - round_even y"
proof (cases "of_int \<lfloor>y\<rfloor> = y")
  case True
  then obtain k where "y = of_int k" by metis
  then show ?thesis by (metis of_int_minus round_even_int)
next
  case False
  then have "of_int \<lfloor>y\<rfloor> < y" using of_int_floor_le [of y] by linarith
  then have "\<lfloor>- y\<rfloor> = - \<lfloor>y\<rfloor> - 1"
    using floor_correct [of y] by (intro floor_unique) auto
  then show ?thesis by (auto simp: round_even_def Let_def)
qed

lemma round_double_minus: "round_double (- x) = - round_double x"
  by (simp add: round_double_def Let_def ulp_exp_def round_even_minus)

text \<open>Rounding does not cross an integer that a double holds.\<close>

lemma round_double_ge_int:
  assumes "of_int n \<le> x" and "0 \<le> n" and "n \<le> 2 ^ 53"
  shows "of_int n \<le> round_double x"
proof (cases "x = 0")
  case True
  then show ?thesis using assms by simp
next
  case False
  then have x: "0 < x" using assms by (metis le_less of_int_0_le_iff order_trans)
  define u :: rat where "u = 2 powi ulp_exp x"
  have u0: "0 < u" by (simp add: u_def)
  have rd: "round_double x = of_int (round_even (x / u)) * u"
    using False by (simp add: round_double_def u_def Let_def)
  show ?thesis
  proof (cases "ulp_exp x \<le> 0")
    case True
    define e where "e = nat (- ulp_exp x)"
    have u: "u = 1 / 2 ^ e"
      unfolding u_def e_def using True by (rule powi_two_nonpos)
    have "of_int (n * 2 ^ e) \<le> x / u"
      using assms(1) by (simp add: u mult_right_mono)
    then have "n * 2 ^ e \<le> round_even (x / u)" by (rule round_even_ge)
    then have "(of_int (n * 2 ^ e) :: rat) \<le> of_int (round_even (x / u))" by (subst of_int_le_iff)
    then show ?thesis by (simp add: rd u field_simps)
  next
    case False
    then have il: "ulp_exp x = ilog2 x - 52" "1 \<le> ulp_exp x"
      using x by (auto simp: ulp_exp_def)
    have "2 powi ilog2 x \<le> x" by (rule ilog2_bounds [OF x])
    moreover have "(2 :: rat) powi ilog2 x = 2 ^ 52 * u"
      unfolding u_def il(1) by (simp add: power_int_diff)
    ultimately have "of_int (2 ^ 52) \<le> x / u" using u0 by (simp add: le_divide_eq)
    then have "2 ^ 52 \<le> round_even (x / u)" by (rule round_even_ge)
    then have r: "(2 ^ 52 :: rat) \<le> of_int (round_even (x / u))"
      by (simp only: of_int_pow_cancel)
    have "(2 :: rat) \<le> u"
      using powi_two_mono [OF il(2)] by (simp add: u_def)
    then have "(2 :: rat) ^ 52 * 2 \<le> of_int (round_even (x / u)) * u"
      using r by (intro mult_mono) auto
    moreover have "(of_int n :: rat) \<le> 2 ^ 53"
      using assms(3) by (simp only: of_int_pow_cancel)
    ultimately show ?thesis by (simp add: rd)
  qed
qed

lemma round_double_nonneg: "0 \<le> x \<Longrightarrow> 0 \<le> round_double x"
  using round_double_ge_int [of 0 x] by simp

lemma round_double_le_int_nonneg:
  assumes "x \<le> of_int n" and "0 \<le> n" and "n \<le> 2 ^ 53"
  shows "round_double x \<le> of_int n"
proof (cases "0 < x")
  case False
  then have "0 \<le> round_double (- x)" by (intro round_double_nonneg) simp
  then show ?thesis using assms(2) by (simp add: round_double_minus order_trans [of _ 0])
next
  case x: True
  show ?thesis
  proof (cases "x = of_int n")
    case True
    then show ?thesis using assms round_double_int [of n] by simp
  next
    case False
    have "(of_int n :: rat) \<le> 2 ^ 53" using assms(3) by (simp only: of_int_pow_cancel)
    then have "\<bar>x\<bar> < 2 powi 53" using assms(1) False x by (simp only: power_int_numeral)
    then have e: "ulp_exp x \<le> 0" using ulp_exp_small [of x 53] x by simp
    define e' where "e' = nat (- ulp_exp x)"
    define u :: rat where "u = 2 powi ulp_exp x"
    have u: "u = 1 / 2 ^ e'" unfolding u_def e'_def using e by (rule powi_two_nonpos)
    have "x / u \<le> of_int (n * 2 ^ e')" using assms(1) by (simp add: u mult_right_mono)
    then have "round_even (x / u) \<le> n * 2 ^ e'" by (rule round_even_le)
    then have "(of_int (round_even (x / u)) :: rat) \<le> of_int (n * 2 ^ e')" by (subst of_int_le_iff)
    then have "of_int (round_even (x / u)) * u \<le> of_int n" by (simp add: u field_simps)
    then show ?thesis using x by (simp add: round_double_def u_def Let_def)
  qed
qed

lemma round_double_le_int:
  assumes "x \<le> of_int n" and "\<bar>n\<bar> \<le> 2 ^ 53"
  shows "round_double x \<le> of_int n"
proof (cases "0 \<le> n")
  case True
  then show ?thesis using assms by (intro round_double_le_int_nonneg) simp_all
next
  case False
  then have "of_int (- n) \<le> round_double (- x)"
    using assms by (intro round_double_ge_int) simp_all
  then show ?thesis by (simp add: round_double_minus)
qed

lemma round_double_ge_int':
  assumes "of_int n \<le> x" and "\<bar>n\<bar> \<le> 2 ^ 53"
  shows "of_int n \<le> round_double x"
  using round_double_le_int [of "- x" "- n"] assms by (simp add: round_double_minus)

lemma round_double_err:
  assumes "\<bar>x\<bar> < 2 powi k" and "-1021 \<le> k"
  shows "\<bar>round_double x - x\<bar> \<le> 2 powi (k - 54)"
proof (cases "x = 0")
  case False
  define u :: rat where "u = 2 powi ulp_exp x"
  have u0: "0 < u" by (simp add: u_def)
  have "u \<le> 2 powi (k - 53)"
    unfolding u_def using ulp_exp_small [OF False assms] by (rule powi_two_mono)
  moreover have "(2 :: rat) powi (k - 53) = 2 * 2 powi (k - 54)"
    using power_int_add_1 [of "2 :: rat" "k - 54"] by simp
  moreover have "\<bar>of_int (round_even (x / u)) - x / u\<bar> * u \<le> 1 / 2 * u"
    using round_even_err [of "x / u"] u0 by (intro mult_right_mono) auto
  moreover have "\<bar>of_int (round_even (x / u)) - x / u\<bar> * u = \<bar>round_double x - x\<bar>"
  proof -
    have "\<bar>of_int (round_even (x / u)) - x / u\<bar> * u = \<bar>(of_int (round_even (x / u)) - x / u) * u\<bar>"
      using u0 by (simp add: abs_mult)
    also have "(of_int (round_even (x / u)) - x / u) * u = round_double x - x"
      using False u0 by (simp add: round_double_def Let_def left_diff_distrib flip: u_def)
    finally show ?thesis .
  qed
  ultimately show ?thesis by linarith
qed simp

section \<open>Safe integers\<close>

locale safe_rounding =
  fixes fl :: "rat \<Rightarrow> rat"
  assumes fl_int: "\<bar>n\<bar> \<le> 2 ^ 53 \<Longrightarrow> fl (of_int n) = of_int n"
    and fl_ge: "of_int n \<le> x \<Longrightarrow> \<bar>n\<bar> \<le> 2 ^ 53 \<Longrightarrow> of_int n \<le> fl x"
    and fl_le: "x \<le> of_int n \<Longrightarrow> \<bar>n\<bar> \<le> 2 ^ 53 \<Longrightarrow> fl x \<le> of_int n"
    and fl_err: "\<bar>x\<bar> < 2 ^ 40 \<Longrightarrow> \<bar>fl x - x\<bar> \<le> 1 / 2 ^ 14"
begin

text \<open>A rounded integer is safe exactly when the integer itself is.\<close>

lemma safe_iff: "\<bar>fl (of_int n)\<bar> \<le> of_int max_safe \<longleftrightarrow> \<bar>n\<bar> \<le> max_safe"
proof (cases "\<bar>n\<bar> \<le> 2 ^ 53")
  case True
  have "\<bar>fl (of_int n)\<bar> = (of_int \<bar>n\<bar> :: rat)" using True by (simp add: fl_int)
  then show ?thesis by (simp only: of_int_le_iff)
next
  case False
  consider "2 ^ 53 \<le> n" | "n \<le> - (2 ^ 53)" using False by linarith
  then have "of_int (2 ^ 53) \<le> \<bar>fl (of_int n)\<bar>"
  proof cases
    case 1
    then have "of_int (2 ^ 53) \<le> fl (of_int n)" by (intro fl_ge) simp_all
    then show ?thesis by linarith
  next
    case 2
    then have "fl (of_int n) \<le> of_int (- (2 ^ 53))" by (intro fl_le) simp_all
    then show ?thesis by (simp add: abs_if split: if_splits)
  qed
  then show ?thesis using False by (simp add: max_safe_def)
qed

text \<open>Dividing by a small divisor and taking the floor is integer division.\<close>

lemma floor_div:
  assumes "0 \<le> m" and "m \<le> max_safe" and "0 < d" and "d < 2 ^ 14" and "m < d * 2 ^ 40"
  shows "\<lfloor>fl (of_int m / of_int d)\<rfloor> = m div d"
proof (rule floor_unique)
  define q r where "q = m div d" and "r = m mod d"
  have m: "m = d * q + r" by (simp add: q_def r_def)
  have r: "0 \<le> r" "r < d" using assms(3) by (simp_all add: r_def)
  have q0: "0 \<le> q" using assms by (simp add: q_def pos_imp_zdiv_nonneg_iff)
  have "d * q < d * 2 ^ 40" using m r assms(5) by linarith
  then have q: "q < 2 ^ 40" using assms(3) by simp
  have d0: "0 < (of_int d :: rat)" using assms(3) by simp
  have x: "of_int m / of_int d = (of_int q :: rat) + of_int r / of_int d"
    using d0 by (simp add: m add_divide_distrib)
  have "of_int q \<le> fl (of_int m / of_int d)"
    using q q0 r d0 unfolding x by (intro fl_ge) simp_all
  then show "of_int (m div d) \<le> fl (of_int m / of_int d)" by (simp add: q_def)
  have rd: "(of_int r :: rat) / of_int d \<le> 1 - 1 / of_int d"
  proof -
    have "r \<le> d - 1" using r(2) by simp
    then have "(of_int r :: rat) \<le> of_int (d - 1)" by (subst of_int_le_iff)
    then have "(of_int r :: rat) / of_int d \<le> of_int (d - 1) / of_int d"
      using d0 by (intro divide_right_mono) simp_all
    then show ?thesis using d0 by (simp add: diff_divide_distrib)
  qed
  have "(of_int d :: rat) < 2 ^ 14" using assms(4) by (simp only: of_int_pow_cancel)
  then have inv: "(1 :: rat) / 2 ^ 14 < 1 / of_int d" using d0 by (intro divide_strict_left_mono) auto
  have "(of_int q :: rat) + 1 \<le> 2 ^ 40"
  proof -
    have "q + 1 \<le> 2 ^ 40" using q by simp
    then have "(of_int (q + 1) :: rat) \<le> 2 ^ 40" by (simp only: of_int_pow_cancel)
    then show ?thesis by (simp only: of_int_add of_int_1)
  qed
  moreover have "0 \<le> (of_int q :: rat)" "0 \<le> (of_int r :: rat) / of_int d" "0 < 1 / (of_int d :: rat)"
    using q0 r d0 by simp_all
  ultimately have "\<bar>of_int m / of_int d\<bar> < (2 :: rat) ^ 40" using rd unfolding x by linarith
  then have "\<bar>fl (of_int m / of_int d) - of_int m / of_int d\<bar> \<le> 1 / 2 ^ 14" by (rule fl_err)
  then have "fl (of_int m / of_int d) < of_int q + 1" using rd inv unfolding x by linarith
  then show "fl (of_int m / of_int d) < of_int (m div d) + 1" by (simp add: q_def)
qed

end

interpretation dbl: safe_rounding round_double
proof unfold_locales
  show "\<bar>x\<bar> < 2 ^ 40 \<Longrightarrow> \<bar>round_double x - x\<bar> \<le> 1 / 2 ^ 14" for x
    using round_double_err [of x 40] by (simp add: power_int_def power_one_over)
qed (fact round_double_int round_double_ge_int' round_double_le_int)+

section \<open>Safe integers as JavaScript numbers\<close>

named_theorems safe_int \<open>safe-integer tests and exact arithmetic on safe integers\<close>

lemma pow53: "max_safe < 2 ^ 53" "(2 :: int) ^ 53 = max_safe + 1"
  by (simp_all add: max_safe_def)

lemma is_safe_jint [safe_int]: "is_safe_integer_num (jint n) \<longleftrightarrow> \<bar>n\<bar> \<le> max_safe"
proof -
  have "\<bar>of_int n :: rat\<bar> = of_int \<bar>n\<bar>" by simp
  then show ?thesis by (simp only: is_safe_integer_num.simps floor_of_int of_int_le_iff) simp
qed

lemma is_safe_Fin_obtain:
  assumes "is_safe_integer_num x"
  obtains n where "x = jint n" and "\<bar>n\<bar> \<le> max_safe"
proof (cases x)
  case (Fin a)
  then obtain n where "a = of_int n" using assms by auto
  then show ?thesis using assms Fin is_safe_jint that by metis
qed (use assms in simp_all)

lemma to_num_small:
  assumes "\<bar>x\<bar> \<le> 2 ^ 53"
  shows "to_num x = Fin (round_double x)"
proof -
  have lt: "(2 :: rat) ^ 53 < 2 ^ 1024" by (rule power_strict_increasing) simp_all
  have "round_double x \<le> of_int (2 ^ 53)" using assms by (intro round_double_le_int) simp_all
  then have a: "\<not> 2 ^ 1024 \<le> round_double x"
    using lt by (simp only: of_int_power of_int_numeral not_le)
  have "of_int (- (2 ^ 53)) \<le> round_double x"
    using assms by (intro round_double_ge_int') simp_all
  then have b: "\<not> round_double x \<le> - (2 ^ 1024)"
    using lt by (simp only: of_int_minus of_int_power of_int_numeral not_le)
  show ?thesis by (simp only: to_num_def Let_def a b if_False)
qed

lemma to_num_exact [safe_int]:
  assumes "\<bar>n\<bar> \<le> max_safe"
  shows "to_num (of_int n) = jint n"
proof -
  have n: "\<bar>n\<bar> \<le> 2 ^ 53" using assms pow53(1) by linarith
  then have "\<bar>of_int n :: rat\<bar> \<le> 2 ^ 53" by (simp only: of_int_pow_cancel flip: of_int_abs)
  then show ?thesis using round_double_int [OF n] by (simp only: to_num_small)
qed

lemma is_safe_to_num [safe_int]:
  "is_safe_integer_num (to_num (of_int n)) \<longleftrightarrow> \<bar>n\<bar> \<le> max_safe"
proof
  assume "\<bar>n\<bar> \<le> max_safe"
  then show "is_safe_integer_num (to_num (of_int n))" by (simp only: to_num_exact is_safe_jint)
next
  assume a: "is_safe_integer_num (to_num (of_int n))"
  then have "to_num (of_int n) = Fin (round_double (of_int n))"
    by (auto simp: to_num_def Let_def split: if_splits)
  then have "\<bar>round_double (of_int n)\<bar> \<le> of_int max_safe" using a by simp
  then show "\<bar>n\<bar> \<le> max_safe" by (simp only: dbl.safe_iff)
qed

lemma js_add_safe_iff [safe_int]:
  "is_safe_integer_num (js_add (jint m) (jint n)) \<longleftrightarrow> \<bar>m + n\<bar> \<le> max_safe"
  using is_safe_to_num [of "m + n"] by simp

lemma js_add_exact [safe_int]:
  "\<bar>m + n\<bar> \<le> max_safe \<Longrightarrow> js_add (jint m) (jint n) = jint (m + n)"
  using to_num_exact [of "m + n"] by simp

lemma js_sub_exact [safe_int]:
  "\<bar>m - n\<bar> \<le> max_safe \<Longrightarrow> js_sub (jint m) (jint n) = jint (m - n)"
  using to_num_exact [of "m - n"] by (simp add: js_sub_def)

lemma trunc_rat_floor:
  assumes "0 < k"
  shows "k \<le> \<lfloor>r\<rfloor> \<Longrightarrow> k \<le> \<bar>trunc_rat r\<bar>" and "k \<le> \<lfloor>- r\<rfloor> \<Longrightarrow> k \<le> \<bar>trunc_rat r\<bar>"
proof -
  have neg: "\<lfloor>x\<rfloor> < k" if "x \<le> 0" for x :: rat
    using that assms by (simp add: floor_less_iff order_le_less_trans)
  show "k \<le> \<lfloor>r\<rfloor> \<Longrightarrow> k \<le> \<bar>trunc_rat r\<bar>" using neg [of r] unfolding trunc_rat_def by auto
  show "k \<le> \<lfloor>- r\<rfloor> \<Longrightarrow> k \<le> \<bar>trunc_rat r\<bar>" using neg [of "- r"] unfolding trunc_rat_def by auto
qed

lemma js_trunc_safe_iff [safe_int]:
  "is_safe_integer_num (js_trunc (to_num (of_int n))) \<longleftrightarrow> \<bar>n\<bar> \<le> max_safe"
proof (cases "\<bar>n\<bar> \<le> max_safe")
  case True
  have "js_trunc (jint n) = jint n" by (simp add: trunc_rat_def)
  then show ?thesis using True by (simp only: to_num_exact is_safe_jint)
next
  case False
  then consider "2 ^ 53 \<le> n" | "n \<le> - (2 ^ 53)" using pow53(2) by linarith
  then have "2 ^ 53 \<le> \<bar>trunc_rat (round_double (of_int n))\<bar>"
  proof cases
    case 1
    then have "of_int (2 ^ 53) \<le> round_double (of_int n)"
      by (intro round_double_ge_int') (simp_all only: of_int_le_iff, simp)
    then have "2 ^ 53 \<le> \<lfloor>round_double (of_int n)\<rfloor>" by (simp only: le_floor_iff)
    then show ?thesis by (rule trunc_rat_floor(1) [rotated]) simp
  next
    case 2
    then have "round_double (of_int n) \<le> of_int (- (2 ^ 53))"
      by (intro round_double_le_int) (simp_all only: of_int_le_iff, simp)
    then have "of_int (2 ^ 53) \<le> - round_double (of_int n)" by simp
    then have "2 ^ 53 \<le> \<lfloor>- round_double (of_int n)\<rfloor>" by (simp only: le_floor_iff)
    then show ?thesis by (rule trunc_rat_floor(2) [rotated]) simp
  qed
  then have "\<not> \<bar>trunc_rat (round_double (of_int n))\<bar> \<le> max_safe" using pow53(1) by linarith
  then have "\<not> is_safe_integer_num (jint (trunc_rat (round_double (of_int n))))"
    unfolding is_safe_jint .
  moreover have "js_trunc (to_num (of_int n)) \<in> {PInf, NInf, jint (trunc_rat (round_double (of_int n)))}"
    by (simp add: to_num_def Let_def)
  ultimately have "\<not> is_safe_integer_num (js_trunc (to_num (of_int n)))" by fastforce
  then show ?thesis using False by simp
qed

lemma js_mul_safe_iff [safe_int]:
  "is_safe_integer_num (js_mul (jint m) (jint n)) \<longleftrightarrow> \<bar>m * n\<bar> \<le> max_safe"
  using is_safe_to_num [of "m * n"] by simp

lemma js_mul_exact [safe_int]:
  "\<bar>m * n\<bar> \<le> max_safe \<Longrightarrow> js_mul (jint m) (jint n) = jint (m * n)"
  using to_num_exact [of "m * n"] by simp

text \<open>\<open>Math.floor(m / d)\<close> and \<open>m % d\<close> on a non-negative safe integer and a small divisor.\<close>

lemma js_floor_div [safe_int]:
  assumes "0 \<le> m" and "m \<le> max_safe" and "0 < d" and "d < 2 ^ 14" and "m < d * 2 ^ 40"
  shows "js_floor (js_div (jint m) (jint d)) = jint (m div d)"
proof -
  have d: "(1 :: rat) \<le> of_int d" using assms(3) by simp
  have "(of_int m :: rat) / of_int d \<le> of_int m / 1"
    using assms(1) d by (intro divide_left_mono) simp_all
  moreover have "(of_int m :: rat) \<le> 2 ^ 53"
    using assms(2) pow53(1) by (simp only: of_int_pow_cancel)
  moreover have "0 \<le> (of_int m :: rat) / of_int d" using assms(1) d by simp
  ultimately have "\<bar>of_int m / of_int d :: rat\<bar> \<le> 2 ^ 53" by linarith
  then have "to_num (of_int m / of_int d) = Fin (round_double (of_int m / of_int d))"
    by (rule to_num_small)
  then show ?thesis using dbl.floor_div [OF assms] assms(3) by simp
qed

lemma js_mod_nonneg [safe_int]:
  assumes "0 \<le> m" and "0 < d"
  shows "js_mod (jint m) (jint d) = jint (m mod d)"
proof -
  have nn: "\<not> (of_int m / of_int d :: rat) < 0" using assms by (simp add: not_less)
  have "trunc_rat (of_int m / of_int d) = m div d"
    using nn by (simp add: trunc_rat_def floor_divide_of_int_eq)
  then show ?thesis using assms by (simp add: minus_mult_div_eq_mod flip: of_int_mult of_int_diff)
qed

lemma js_abs_jint [safe_int]: "js_abs (jint n) = jint \<bar>n\<bar>"
  by simp

lemma js_lt_jint [safe_int]: "js_lt (jint m) (jint n) \<longleftrightarrow> m < n"
  by simp

end
