(* ===== verification/Js_Value.thy ===== *)
theory Js_Value
  imports Js_Rounding
begin

text \<open>
  JavaScript values as the code handles them when a field is typed \<open>unknown\<close>, and the string
  operations of the language that the code calls. A string is a list of UTF-16 code units in the
  Latin-1 range (\<open>char\<close>), so \<open>length\<close> is what \<open>.length\<close> counts. An object is its list of own
  properties; two objects or arrays read from separately parsed JSON are never the same reference,
  which is what \<open>===\<close> compares.
\<close>

datatype jsval =
    JUndef
  | JNull
  | JBool bool
  | JNum jsnum
  | JStr string
  | JArr "jsval list"
  | JObj "(string \<times> jsval) list"

fun js_typeof :: "jsval \<Rightarrow> string" where
  "js_typeof JUndef = ''undefined''"
| "js_typeof JNull = ''object''"
| "js_typeof (JBool _) = ''boolean''"
| "js_typeof (JNum _) = ''number''"
| "js_typeof (JStr _) = ''string''"
| "js_typeof (JArr _) = ''object''"
| "js_typeof (JObj _) = ''object''"

text \<open>\<open>v.k\<close> for a named key that is not a built-in property.\<close>

fun js_get :: "jsval \<Rightarrow> string \<Rightarrow> jsval" where
  "js_get (JObj kvs) k = (case map_of kvs k of None \<Rightarrow> JUndef | Some v \<Rightarrow> v)"
| "js_get _ k = JUndef"

text \<open>\<open>typeof v === 'object' && v !== null\<close>.\<close>

fun is_object :: "jsval \<Rightarrow> bool" where
  "is_object (JArr _) = True"
| "is_object (JObj _) = True"
| "is_object _ = False"

fun is_array :: "jsval \<Rightarrow> bool" where
  "is_array (JArr _) = True"
| "is_array _ = False"

text \<open>\<open>a === b\<close> for values of separately parsed documents.\<close>

fun strict_eq :: "jsval \<Rightarrow> jsval \<Rightarrow> bool" where
  "strict_eq JUndef JUndef = True"
| "strict_eq JNull JNull = True"
| "strict_eq (JBool a) (JBool b) = (a = b)"
| "strict_eq (JNum a) (JNum b) = js_num_eq a b"
| "strict_eq (JStr a) (JStr b) = (a = b)"
| "strict_eq _ _ = False"

text \<open>\<open>Number.isSafeInteger(v)\<close> for any value.\<close>

fun is_safe_integer :: "jsval \<Rightarrow> bool" where
  "is_safe_integer (JNum n) = is_safe_integer_num n"
| "is_safe_integer _ = False"

fun num_of :: "jsval \<Rightarrow> jsnum" where
  "num_of (JNum n) = n"
| "num_of _ = NaN"

text \<open>The name of a type field: \<open>typeof v.type === 'string' ? v.type : ''\<close>.\<close>

fun string_or_empty :: "jsval \<Rightarrow> string" where
  "string_or_empty (JStr s) = s"
| "string_or_empty _ = []"

section \<open>Characters and trimming\<close>

definition code_of :: "char \<Rightarrow> nat" where
  "code_of c = of_char c"

text \<open>The whitespace of \<open>\<backslash>s\<close> and \<open>trim()\<close> in the Latin-1 range.\<close>

definition is_ws :: "char \<Rightarrow> bool" where
  "is_ws c = (code_of c \<in> {9, 10, 11, 12, 13, 32, 160})"

definition js_trim :: "string \<Rightarrow> string" where
  "js_trim s = rev (dropWhile is_ws (rev (dropWhile is_ws s)))"

definition is_digit :: "char \<Rightarrow> bool" where
  "is_digit c = (48 \<le> code_of c \<and> code_of c \<le> 57)"

definition digit_val :: "char \<Rightarrow> int" where
  "digit_val c = of_char c - 48"

text \<open>\<open>toUpperCase\<close> for the letters whose upper case is again in the Latin-1 range.\<close>

fun upper_char :: "char \<Rightarrow> string" where
  "upper_char c = (let n = code_of c in
     if (97 \<le> n \<and> n \<le> 122) \<or> (224 \<le> n \<and> n \<le> 254 \<and> n \<noteq> 247) then [char_of (n - 32)]
     else if n = 223 then ''SS'' else [c])"

definition js_upper :: "string \<Rightarrow> string" where
  "js_upper s = concat (map upper_char s)"

lemma js_trim_ends:
  assumes "js_trim s \<noteq> []"
  shows "\<not> is_ws (hd (js_trim s))" and "\<not> is_ws (last (js_trim s))"
proof -
  let ?d = "dropWhile is_ws s"
  have ne: "dropWhile is_ws (rev ?d) \<noteq> []" using assms by (simp add: js_trim_def)
  then have d: "?d \<noteq> []" by (metis dropWhile.simps(1) rev.simps(1))
  show "\<not> is_ws (last (js_trim s))"
    using hd_dropWhile [OF ne] by (simp add: js_trim_def last_rev)
  have "last (dropWhile is_ws (rev ?d)) = last (rev ?d)" using ne by (metis last_appendR takeWhile_dropWhile_id)
  then show "\<not> is_ws (hd (js_trim s))"
    using hd_dropWhile [OF d] d by (simp add: js_trim_def hd_rev last_rev)
qed

section \<open>Decimal numbers\<close>

definition span_digits :: "string \<Rightarrow> string \<times> string" where
  "span_digits s = (takeWhile is_digit s, dropWhile is_digit s)"

definition digits_val :: "string \<Rightarrow> int" where
  "digits_val ds = foldl (\<lambda>a c. 10 * a + digit_val c) 0 ds"

definition frac_val :: "string \<Rightarrow> rat" where
  "frac_val ds = of_int (digits_val ds) / 10 ^ length ds"

fun strip_sign :: "string \<Rightarrow> int \<times> string" where
  "strip_sign [] = (1, [])"
| "strip_sign (c # r) = (if c = CHR ''-'' then (-1, r) else if c = CHR ''+'' then (1, r) else (1, c # r))"

text \<open>
  The value a string spells under \<open>/^[+-]?\<backslash>d+(\<backslash>.\<backslash>d+)?$/\<close>, or \<open>None\<close> when the pattern does not
  match.
\<close>

definition parse_quantity :: "string \<Rightarrow> rat option" where
  "parse_quantity s = (let (sg, r) = strip_sign s; (d, r1) = span_digits r in
     if d = [] then None
     else case r1 of
       [] \<Rightarrow> Some (of_int sg * of_int (digits_val d))
     | c # r2 \<Rightarrow> (let (f, r3) = span_digits r2 in
         if c = CHR ''.'' \<and> f \<noteq> [] \<and> r3 = []
         then Some (of_int sg * (of_int (digits_val d) + frac_val f)) else None))"

text \<open>
  The value a string spells under \<open>/^[+-]?(\<backslash>d+\<backslash>.?\<backslash>d*|\<backslash>.\<backslash>d+)([eE][+-]?\<backslash>d+)?$/\<close>.
\<close>

definition parse_mantissa :: "string \<Rightarrow> (rat \<times> string) option" where
  "parse_mantissa s = (let (d, r) = span_digits s in
     case r of
       [] \<Rightarrow> if d = [] then None else Some (of_int (digits_val d), [])
     | c # r1 \<Rightarrow>
         if c = CHR ''.'' then
           (let (f, r2) = span_digits r1 in
            if d = [] \<and> f = [] then None
            else Some (of_int (digits_val d) + frac_val f, r2))
         else if d = [] then None else Some (of_int (digits_val d), r))"

fun parse_exponent :: "string \<Rightarrow> int option" where
  "parse_exponent [] = Some 0"
| "parse_exponent (c # r) =
     (if c = CHR ''e'' \<or> c = CHR ''E'' then
        (let (sg, r1) = strip_sign r; (d, r2) = span_digits r1 in
         if d \<noteq> [] \<and> r2 = [] then Some (sg * digits_val d) else None)
      else None)"

definition parse_decimal :: "string \<Rightarrow> rat option" where
  "parse_decimal s = (let (sg, r) = strip_sign s in
     case parse_mantissa r of
       None \<Rightarrow> None
     | Some (m, r1) \<Rightarrow> (case parse_exponent r1 of
         None \<Rightarrow> None
       | Some e \<Rightarrow> Some (of_int sg * m * 10 powi e)))"

section \<open>Numbers as strings\<close>

function show_nat :: "int \<Rightarrow> string" where
  "show_nat n = (if n < 10 then [char_of (48 + n)] else show_nat (n div 10) @ [char_of (48 + n mod 10)])"
  by pat_completeness auto
termination
  by (relation "measure nat") auto

declare show_nat.simps [simp del]

definition show_int :: "int \<Rightarrow> string" where
  "show_int n = (if n < 0 then CHR ''-'' # show_nat (- n) else show_nat n)"

text \<open>\<open>n\<close> with \<open>10 ^ (n - 1) \<le> x < 10 ^ n\<close>, for a positive \<open>x\<close>.\<close>

definition dec_exp :: "rat \<Rightarrow> int" where
  "dec_exp x = (if 1 \<le> x then int (length (show_nat \<lfloor>x\<rfloor>))
     else let a = int (length (show_nat \<lfloor>1 / x\<rfloor>)) in
       if 10 powi (a - 1) = 1 / x then 2 - a else 1 - a)"

text \<open>
  The fewest significant digits \<open>s\<close> (with their count and the decimal exponent) that still read
  back as \<open>x\<close>: \<open>Number::toString\<close> of the language standard. Seventeen digits always do.
\<close>

fun shortest :: "nat \<Rightarrow> rat \<Rightarrow> int \<Rightarrow> nat \<Rightarrow> int \<times> int" where
  "shortest 0 x n k = (\<lfloor>x / 10 powi (n - int k)\<rfloor>, n)"
| "shortest (Suc m) x n k =
     (let t = x / 10 powi (n - int k); lo = \<lfloor>t\<rfloor>; hi = lo + 1;
          ok = (\<lambda>s. 0 < s \<and> round_double (of_int s * 10 powi (n - int k)) = x);
          near = (if t - of_int lo \<le> 1 / 2 then [lo, hi] else [hi, lo])
      in case filter ok near of
           s # _ \<Rightarrow> if s = 10 ^ k then (1, n + 1) else (s, n)
         | [] \<Rightarrow> shortest m x n (Suc k))"

definition exponent_suffix :: "int \<Rightarrow> string" where
  "exponent_suffix e = ''e'' @ (if e < 0 then ''-'' else ''+'') @ show_nat \<bar>e\<bar>"

definition show_pos :: "rat \<Rightarrow> string" where
  "show_pos x = (let (s, n) = shortest 17 x (dec_exp x) 1; ds = show_nat s; k = int (length ds) in
     if k \<le> n \<and> n \<le> 21 then ds @ replicate (nat (n - k)) (CHR ''0'')
     else if 0 < n \<and> n \<le> 21 then take (nat n) ds @ ''.'' @ drop (nat n) ds
     else if -6 < n \<and> n \<le> 0 then ''0.'' @ replicate (nat (- n)) (CHR ''0'') @ ds
     else if k = 1 then ds @ exponent_suffix (n - 1)
     else take 1 ds @ ''.'' @ drop 1 ds @ exponent_suffix (n - 1))"

fun num_to_string :: "jsnum \<Rightarrow> string" where
  "num_to_string NaN = ''NaN''"
| "num_to_string PInf = ''Infinity''"
| "num_to_string NInf = ''-Infinity''"
| "num_to_string (Fin x) =
     (if x = 0 then ''0'' else if x < 0 then ''-'' @ show_pos (- x) else show_pos x)"

section \<open>Truthiness and JSON.stringify\<close>

fun js_truthy :: "jsval \<Rightarrow> bool" where
  "js_truthy JUndef = False"
| "js_truthy JNull = False"
| "js_truthy (JBool b) = b"
| "js_truthy (JNum n) = (n \<noteq> Fin 0 \<and> n \<noteq> NaN)"
| "js_truthy (JStr s) = (s \<noteq> [])"
| "js_truthy _ = True"

fun hex_digit :: "int \<Rightarrow> char" where
  "hex_digit n = char_of (if n < 10 then 48 + n else 87 + n)"

definition json_char :: "char \<Rightarrow> string" where
  "json_char c = (let n = int (code_of c) in
     if n = 34 then [CHR 0x5C, CHR 0x22]
     else if n = 92 then [CHR 0x5C, CHR 0x5C]
     else if n = 8 then [CHR 0x5C, CHR ''b'']
     else if n = 9 then [CHR 0x5C, CHR ''t'']
     else if n = 10 then [CHR 0x5C, CHR ''n'']
     else if n = 12 then [CHR 0x5C, CHR ''f'']
     else if n = 13 then [CHR 0x5C, CHR ''r'']
     else if n < 32 then CHR 0x5C # ''u00'' @ [hex_digit (n div 16), hex_digit (n mod 16)]
     else [c])"

definition json_string :: "string \<Rightarrow> string" where
  "json_string s = CHR 0x22 # concat (map json_char s) @ [CHR 0x22]"

definition join :: "string \<Rightarrow> string list \<Rightarrow> string" where
  "join sep parts = (case parts of [] \<Rightarrow> [] | p # ps \<Rightarrow> p @ concat (map (\<lambda>q. sep @ q) ps))"

text \<open>An undefined property is left out of an object and is \<open>null\<close> in an array.\<close>

fun stringify :: "jsval \<Rightarrow> string" where
  "stringify JUndef = ''null''"
| "stringify JNull = ''null''"
| "stringify (JBool b) = (if b then ''true'' else ''false'')"
| "stringify (JNum n) = (if is_finite_num n then num_to_string n else ''null'')"
| "stringify (JStr s) = json_string s"
| "stringify (JArr vs) = ''['' @ join '','' (map stringify vs) @ '']''"
| "stringify (JObj kvs) = ''{'' @ join '',''
     (concat (map (\<lambda>kv. if snd kv = JUndef then [] else [json_string (fst kv) @ '':'' @ stringify (snd kv)]) kvs)) @ ''}''"

text \<open>\<open>s.split(c)\<close> for a separator of one character.\<close>

fun split_on :: "char \<Rightarrow> string \<Rightarrow> string list" where
  "split_on c [] = [[]]"
| "split_on c (d # s) = (if d = c then [] # split_on c s
     else case split_on c s of [] \<Rightarrow> [[d]] | p # ps \<Rightarrow> (d # p) # ps)"

end
