(* ===== verification/Money.thy ===== *)
theory Money
  imports Js_Value
begin

text \<open>
  Money arithmetic of the backend (\<open>src/common/money\<close>, \<open>src/common/text/measure.ts\<close>): a percentage
  of an amount, the line total, and the step from a published price configuration to a delta.
  Amounts are doubles as in the code; \<open>Inl\<close> is a thrown \<open>RangeError\<close>.
\<close>

datatype range_error = RangeError string

section \<open>percentage.ts\<close>

definition BASIS_POINTS_DIVISOR :: jsnum where
  "BASIS_POINTS_DIVISOR = Fin 10000"

definition percentageOf :: "jsnum \<Rightarrow> jsnum \<Rightarrow> range_error + jsnum" where
  "percentageOf minor basisPoints =
     (if \<not> is_safe_integer_num minor \<or> \<not> is_safe_integer_num basisPoints
      then Inl (RangeError ''Money arithmetic takes integer minor units and integer basis points.'')
      else let numerator = js_mul minor basisPoints in
        if \<not> is_safe_integer_num numerator
        then Inl (RangeError ''Percentage intermediate exceeds the safe integer range.'')
        else let magnitude = js_abs numerator;
                 quotient = js_floor (js_div magnitude BASIS_POINTS_DIVISOR);
                 remainder = js_mod magnitude BASIS_POINTS_DIVISOR;
                 rounded = (if js_le BASIS_POINTS_DIVISOR (js_mul remainder (Fin 2))
                            then js_add quotient (Fin 1) else quotient)
             in Inr (if js_lt numerator (Fin 0) then js_neg rounded else rounded))"

section \<open>line-total.ts\<close>

definition clampToZero :: "jsnum \<Rightarrow> range_error + jsnum" where
  "clampToZero totalMinor =
     (if \<not> is_safe_integer_num totalMinor
      then Inl (RangeError ''A line total must be an integer number of minor units.'')
      else Inr (if js_lt totalMinor (Fin 0) then Fin 0 else totalMinor))"

text \<open>The loop of \<open>sumDeltas\<close>: the total is checked after every step.\<close>

fun sum_loop :: "jsnum \<Rightarrow> jsnum list \<Rightarrow> range_error + jsnum" where
  "sum_loop tot [] = clampToZero tot"
| "sum_loop tot (delta # rest) =
     (if \<not> is_safe_integer_num delta
      then Inl (RangeError ''A price delta must be an integer number of minor units.'')
      else let tot' = js_add tot delta in
        if \<not> is_safe_integer_num tot'
        then Inl (RangeError ''The line total exceeded the safe integer range.'')
        else sum_loop tot' rest)"

definition sumDeltas :: "jsnum \<Rightarrow> jsnum list \<Rightarrow> range_error + jsnum" where
  "sumDeltas baseMinor deltaMinor =
     (if \<not> is_safe_integer_num baseMinor
      then Inl (RangeError ''A base price must be an integer number of minor units.'')
      else sum_loop baseMinor deltaMinor)"

section \<open>measure.ts\<close>

text \<open>\<open>OUTER_WHITESPACE\<close> is the whitespace of \<open>\<backslash>s\<close>, which already holds both added characters.\<close>

definition normalise :: "string \<Rightarrow> string" where
  "normalise text = js_trim text"

text \<open>
  The grapheme clusters of \<open>Intl.Segmenter\<close>. Among the Latin-1 characters no character extends
  another; the only cluster of two is a carriage return and its line feed.
\<close>

fun grapheme_count :: "string \<Rightarrow> nat" where
  "grapheme_count [] = 0"
| "grapheme_count [c] = 1"
| "grapheme_count (c # d # r) =
     (if code_of c = 13 \<and> code_of d = 10 then Suc (grapheme_count r)
      else Suc (grapheme_count (d # r)))"

definition measure_text :: "string \<Rightarrow> nat" where
  "measure_text text = (let normalised = normalise text in
     if normalised = [] then 0 else grapheme_count normalised)"

section \<open>price-config-delta.ts\<close>

definition PRICED_TYPES :: "string list" where
  "PRICED_TYPES = [''fixed'', ''percentage'', ''per_char'', ''per_unit'', ''tiered'']"

record price_config_delta =
  deltaMinor :: jsnum
  unpriced :: "string option"

abbreviation no_charge :: price_config_delta where
  "no_charge \<equiv> \<lparr>deltaMinor = Fin 0, unpriced = None\<rparr>"

abbreviation not_priced :: "string \<Rightarrow> price_config_delta" where
  "not_priced t \<equiv> \<lparr>deltaMinor = Fin 0, unpriced = Some t\<rparr>"

abbreviation charge :: "jsnum \<Rightarrow> price_config_delta" where
  "charge d \<equiv> \<lparr>deltaMinor = d, unpriced = None\<rparr>"

definition priceConfigDelta :: "jsval \<Rightarrow> jsnum \<Rightarrow> range_error + price_config_delta" where
  "priceConfigDelta config baseMinor =
     (if \<not> is_safe_integer_num baseMinor
      then Inl (RangeError ''A base price must be an integer number of minor units.'')
      else if \<not> is_object config then Inr no_charge
      else let type = string_or_empty (js_get config ''type'') in
        if type = ''fixed'' then
          (let amount = js_get config ''amount_minor'' in
           Inr (if is_safe_integer amount then charge (num_of amount) else not_priced type))
        else if type = ''percentage'' then
          (let points = js_get config ''basis_points'' in
           if \<not> is_safe_integer points then Inr (not_priced type)
           else case percentageOf baseMinor (num_of points) of
                  Inr d \<Rightarrow> Inr (charge d)
                | Inl (RangeError _) \<Rightarrow> Inr (not_priced type))
        else Inr \<lparr>deltaMinor = Fin 0, unpriced = (if type = [] then None else Some type)\<rparr>)"

definition ABSOLUTE_MAX_QUANTITY :: jsnum where
  "ABSOLUTE_MAX_QUANTITY = Fin 1000000"

definition perUnitDelta :: "jsval \<Rightarrow> string \<Rightarrow> price_config_delta" where
  "perUnitDelta pricing answer =
     (let amount = js_get pricing ''amount_minor'';
          type = string_or_empty (js_get pricing ''type'') in
      if \<not> is_safe_integer amount then no_charge
      else case parse_quantity answer of
        None \<Rightarrow> no_charge
      | Some q \<Rightarrow>
        (let units = to_num q in
         if \<not> is_finite_num units \<or> js_le units (Fin 0) then no_charge
         else if js_lt ABSOLUTE_MAX_QUANTITY units then not_priced type
         else if \<not> is_safe_integer_num (js_trunc units) then not_priced type
         else let product = js_mul units (num_of amount) in
           if \<not> is_safe_integer_num (js_trunc product) then not_priced type
           else let magnitude = js_abs product;
                    floored = js_floor magnitude;
                    rounded = (if js_le (Fin (1 / 2)) (js_sub magnitude floored)
                               then js_add floored (Fin 1) else floored)
                in charge (if js_lt product (Fin 0) then js_neg rounded else rounded)))"

text \<open>The loop of \<open>tierAmount\<close>: the best lower bound so far and its amount.\<close>

fun tier_loop :: "jsnum \<Rightarrow> jsnum option \<Rightarrow> jsnum option \<Rightarrow> jsval list \<Rightarrow> jsnum option" where
  "tier_loop quantity bestMin amount [] = amount"
| "tier_loop quantity bestMin amount (entry # rest) =
     (let mn = js_get entry ''min_quantity''; amt = js_get entry ''amount_minor'' in
      if \<not> is_safe_integer mn \<or> \<not> is_safe_integer amt \<or> js_lt quantity (num_of mn)
      then tier_loop quantity bestMin amount rest
      else if (case bestMin of None \<Rightarrow> True | Some b \<Rightarrow> js_lt b (num_of mn))
      then tier_loop quantity (Some (num_of mn)) (Some (num_of amt)) rest
      else tier_loop quantity bestMin amount rest)"

fun tierAmount :: "jsval \<Rightarrow> jsnum \<Rightarrow> jsnum option" where
  "tierAmount (JArr tiers) quantity = tier_loop quantity None None tiers"
| "tierAmount _ quantity = None"

definition tieredDelta :: "jsval \<Rightarrow> string \<Rightarrow> price_config_delta" where
  "tieredDelta pricing answer =
     (let type = string_or_empty (js_get pricing ''type'') in
      case parse_quantity answer of
        None \<Rightarrow> no_charge
      | Some q \<Rightarrow>
        (let quantity = to_num q in
         if \<not> is_finite_num quantity then no_charge
         else case tierAmount (js_get pricing ''tiers'') quantity of
           None \<Rightarrow> \<lparr>deltaMinor = Fin 0, unpriced = (if js_lt (Fin 0) quantity then Some type else None)\<rparr>
         | Some amount \<Rightarrow>
             perUnitDelta (JObj [(''type'', JStr type), (''amount_minor'', JNum amount)]) answer))"

definition optionPricingDelta :: "jsval \<Rightarrow> string \<Rightarrow> price_config_delta" where
  "optionPricingDelta pricing answer =
     (if \<not> is_object pricing then no_charge
      else let type = string_or_empty (js_get pricing ''type'') in
        if type = [] \<or> type = ''fixed'' then no_charge
        else if type = ''per_unit'' then perUnitDelta pricing answer
        else if type = ''tiered'' then tieredDelta pricing answer
        else if type \<noteq> ''per_char'' then not_priced type
        else let amount = js_get pricing ''amount_minor'' in
          if \<not> is_safe_integer amount then no_charge
          else let fc = js_get pricing ''free_characters'';
                   free = (if is_safe_integer fc \<and> js_lt (Fin 0) (num_of fc) then num_of fc else Fin 0);
                   charged = js_sub (Fin (of_nat (measure_text answer))) free
               in if js_le charged (Fin 0) then no_charge
                  else let delta = js_mul charged (num_of amount) in
                    if \<not> is_safe_integer_num delta then not_priced type else charge delta)"

end
