(* ===== verification/Money_Correct.thy ===== *)
theory Money_Correct
  imports Money "HOL-Library.Multiset"
begin

text \<open>
  Correctness of the money arithmetic: on doubles it computes exactly the integer specification or
  throws, percentages round half away from zero, totals do not depend on the order of the deltas,
  and option-level prices charge what their formula says.
\<close>

section \<open>Percentages\<close>

text \<open>Specification: \<open>n / d\<close> rounded half away from zero.\<close>

definition half_away :: "int \<Rightarrow> int \<Rightarrow> int" where
  "half_away n d = sgn n * ((2 * \<bar>n\<bar> + d) div (2 * d))"

lemma half_away_by_remainder:
  fixes n d :: int
  assumes "0 < d"
  shows "(if d \<le> n mod d * 2 then n div d + 1 else n div d) = (2 * n + d) div (2 * d)"
proof -
  define q r where "q = n div d" and "r = n mod d"
  have n: "n = d * q + r" using mult_div_mod_eq [of d n] by (simp only: q_def r_def)
  have r: "0 \<le> r" "r < d" using assms by (simp_all add: r_def)
  have e: "2 * n + d = (2 * r + d) + (2 * d) * q" by (simp add: n algebra_simps)
  have "(2 * n + d) div (2 * d) = q + (2 * r + d) div (2 * d)"
    using assms unfolding e by simp
  also have "(2 * r + d) div (2 * d) = (if d \<le> r * 2 then 1 else 0)"
  proof (cases "d \<le> r * 2")
    case True
    have "(2 * r + d) div (2 * d) = 1"
      using r True by (intro int_div_pos_eq [where r = "2 * r - d"]) auto
    then show ?thesis using True by simp
  next
    case False
    then show ?thesis using r by (simp add: div_pos_pos_trivial)
  qed
  finally show ?thesis by (simp add: q_def r_def)
qed

lemma half_away_nearest:
  assumes "0 < d"
  shows "2 * \<bar>d * half_away n d - n\<bar> \<le> d"
    and "2 * \<bar>d * half_away n d - n\<bar> = d \<Longrightarrow> \<bar>n\<bar> < d * \<bar>half_away n d\<bar>"
proof -
  define h where "h = (2 * \<bar>n\<bar> + d) div (2 * d)"
  define t where "t = (2 * \<bar>n\<bar> + d) mod (2 * d)"
  have eq: "2 * \<bar>n\<bar> + d = (2 * d) * h + t" by (simp add: h_def t_def)
  have t: "0 \<le> t" "t < 2 * d" using assms by (simp_all add: t_def)
  have h0: "0 \<le> h" using assms by (simp add: h_def pos_imp_zdiv_nonneg_iff)
  have dh: "2 * (d * h - \<bar>n\<bar>) = d - t" using eq by (simp add: algebra_simps)
  have ha: "half_away n d = sgn n * h" by (simp add: half_away_def h_def)
  have abs: "\<bar>d * half_away n d - n\<bar> = \<bar>d * h - \<bar>n\<bar>\<bar>"
    using h_def assms by (cases n "0 :: int" rule: linorder_cases) (simp_all add: ha abs_minus_commute half_away_def)
  show "2 * \<bar>d * half_away n d - n\<bar> \<le> d" using dh t unfolding abs by linarith
  show "\<bar>n\<bar> < d * \<bar>half_away n d\<bar>" if "2 * \<bar>d * half_away n d - n\<bar> = d"
  proof -
    have pos: "0 < X" if "2 * \<bar>X\<bar> = d" "2 * X = d - t" for X :: int
      using that t assms by linarith
    have pos: "0 < d * h - \<bar>n\<bar>" using that dh unfolding abs by (rule pos)
    then have "n \<noteq> 0 \<or> 0 < d * h" by auto
    then show ?thesis using pos h0 h_def assms
      by (cases n "0 :: int" rule: linorder_cases) (auto simp: ha abs_mult div_pos_pos_trivial)
  qed
qed

lemma percentageOf_jint:
  assumes "\<bar>m\<bar> \<le> max_safe" and "\<bar>b\<bar> \<le> max_safe" and "\<bar>m * b\<bar> \<le> max_safe"
  shows "percentageOf (jint m) (jint b) = Inr (jint (half_away (m * b) 10000))"
proof -
  define n where "n = m * b"
  have n: "\<bar>n\<bar> \<le> max_safe" using assms(3) by (simp add: n_def)
  have num: "js_mul (jint m) (jint b) = jint n"
    using js_mul_exact [OF assms(3)] by (simp only: n_def)
  have D: "BASIS_POINTS_DIVISOR = jint 10000" by (simp add: BASIS_POINTS_DIVISOR_def)
  have q: "js_floor (js_div (jint \<bar>n\<bar>) (jint 10000)) = jint (\<bar>n\<bar> div 10000)"
    using n by (intro js_floor_div) (simp_all add: max_safe_def)
  have r: "js_mod (jint \<bar>n\<bar>) (jint 10000) = jint (\<bar>n\<bar> mod 10000)"
    by (rule js_mod_nonneg) simp_all
  have r2: "js_mul (jint (\<bar>n\<bar> mod 10000)) (Fin 2) = jint (\<bar>n\<bar> mod 10000 * 2)"
    using js_mul_exact [of "\<bar>n\<bar> mod 10000" 2] by (simp add: max_safe_def abs_mult)
  have dv: "\<bar>n\<bar> div 10000 + 1 \<le> max_safe"
    using n by (simp add: max_safe_def)
  have q1: "js_add (jint (\<bar>n\<bar> div 10000)) (Fin 1) = jint (\<bar>n\<bar> div 10000 + 1)"
    using js_add_exact [of "\<bar>n\<bar> div 10000" 1] dv by (simp add: pos_imp_zdiv_nonneg_iff)
  have le: "js_le (jint 10000) (jint k) \<longleftrightarrow> 10000 \<le> k" for k
    by (simp only: js_le_def js_lt.simps js_num_eq.simps of_int_less_iff of_int_eq_iff) auto
  have lt: "js_lt (jint n) (Fin 0) \<longleftrightarrow> n < 0" by simp
  have "percentageOf (jint m) (jint b)
      = Inr (if n < 0 then js_neg (jint ((2 * \<bar>n\<bar> + 10000) div 20000))
             else jint ((2 * \<bar>n\<bar> + 10000) div 20000))"
    using half_away_by_remainder [of 10000 "\<bar>n\<bar>", simplified] assms(1,2) n
    unfolding percentageOf_def is_safe_jint num D Let_def js_abs_jint q r r2 le q1 lt
    by (auto simp only: if_False not_not simp_thms split: if_splits)
  then show ?thesis by (simp add: half_away_def sgn_if flip: n_def)
qed

lemma percentageOf_unsafe:
  assumes "\<bar>m\<bar> \<le> max_safe" and "\<bar>b\<bar> \<le> max_safe" and "\<not> \<bar>m * b\<bar> \<le> max_safe"
  shows "percentageOf (jint m) (jint b)
    = Inl (RangeError ''Percentage intermediate exceeds the safe integer range.'')"
  using assms unfolding percentageOf_def Let_def is_safe_jint js_mul_safe_iff by simp

lemma percentageOf_Inr:
  assumes a: "percentageOf x y = Inr z"
  shows "\<exists>m b. x = jint m \<and> y = jint b \<and> \<bar>m\<bar> \<le> max_safe \<and> \<bar>b\<bar> \<le> max_safe \<and> \<bar>m * b\<bar> \<le> max_safe
      \<and> z = jint (half_away (m * b) 10000)"
proof -
  have "is_safe_integer_num x" "is_safe_integer_num y"
    using a by (auto simp: percentageOf_def split: if_splits)
  then obtain m b where xy: "x = jint m" "\<bar>m\<bar> \<le> max_safe" "y = jint b" "\<bar>b\<bar> \<le> max_safe"
    by (metis is_safe_Fin_obtain)
  have "\<bar>m * b\<bar> \<le> max_safe" using a xy percentageOf_unsafe by (metis Inl_Inr_False)
  then show ?thesis using a xy percentageOf_jint by (metis Inr_inject)
qed

text \<open>
  C32. A percentage is exact integer arithmetic: \<open>percentageOf\<close> returns a value exactly when both
  operands are safe integers whose product is safe, and the value is then their product over 10000
  rounded half away from zero, although the code divides and takes the remainder in doubles.
\<close>

theorem percentageOf_exact:
  "percentageOf x y = Inr z \<longleftrightarrow>
   (\<exists>m b. x = jint m \<and> y = jint b \<and> \<bar>m\<bar> \<le> max_safe \<and> \<bar>b\<bar> \<le> max_safe \<and> \<bar>m * b\<bar> \<le> max_safe
      \<and> z = jint (half_away (m * b) 10000))"
  using percentageOf_Inr by (auto simp only: percentageOf_jint)

section \<open>Line totals\<close>

text \<open>Every delta is a safe integer, and so is the running total after every step.\<close>

fun sums_safe :: "int \<Rightarrow> int list \<Rightarrow> bool" where
  "sums_safe b [] = (\<bar>b\<bar> \<le> max_safe)"
| "sums_safe b (e # es) = (\<bar>b\<bar> \<le> max_safe \<and> \<bar>e\<bar> \<le> max_safe \<and> sums_safe (b + e) es)"

lemma sums_safe_prefix:
  "sums_safe b es \<longleftrightarrow> (\<forall>e\<in>set es. \<bar>e\<bar> \<le> max_safe)
     \<and> (\<forall>k\<le>length es. \<bar>b + sum_list (take k es)\<bar> \<le> max_safe)"
proof (induction es arbitrary: b)
  case (Cons e es)
  have "(\<forall>k\<le>length (e # es). P k) \<longleftrightarrow> P 0 \<and> (\<forall>k\<le>length es. P (Suc k))" for P
    using not0_implies_Suc by (metis Suc_le_mono le0 length_Cons)
  note split = this [of "\<lambda>k. \<bar>b + sum_list (take k (e # es))\<bar> \<le> max_safe"]
  have "sums_safe b (e # es) \<longleftrightarrow> \<bar>b\<bar> \<le> max_safe \<and> \<bar>e\<bar> \<le> max_safe \<and> (\<forall>e\<in>set es. \<bar>e\<bar> \<le> max_safe)
      \<and> (\<forall>k\<le>length es. \<bar>b + e + sum_list (take k es)\<bar> \<le> max_safe)"
    using Cons.IH by simp
  then show ?case unfolding split by (simp add: add.assoc) blast
qed simp

lemma sums_safe_start: "sums_safe b es \<Longrightarrow> \<bar>b\<bar> \<le> max_safe"
  by (cases es) simp_all

lemma clampToZero_jint: "\<bar>b\<bar> \<le> max_safe \<Longrightarrow> clampToZero (jint b) = Inr (jint (max 0 b))"
  unfolding clampToZero_def is_safe_jint by (auto simp: max_def)

lemma sum_loop_jint:
  "sums_safe b es \<Longrightarrow> sum_loop (jint b) (map jint es) = Inr (jint (max 0 (b + sum_list es)))"
proof (induction es arbitrary: b)
  case Nil
  then show ?case by (simp add: clampToZero_jint)
next
  case (Cons e es)
  have be: "\<bar>b + e\<bar> \<le> max_safe" using Cons.prems sums_safe_start [of "b + e" es] by simp
  then have add: "js_add (jint b) (jint e) = jint (b + e)" by (rule js_add_exact)
  have "\<bar>e\<bar> \<le> max_safe" using Cons.prems by simp
  then show ?case
    using Cons.prems Cons.IH [of "b + e"] be
    unfolding list.map sum_loop.simps Let_def add is_safe_jint by (simp add: add.assoc)
qed

lemma sum_loop_Inr:
  "\<bar>b\<bar> \<le> max_safe \<Longrightarrow> sum_loop (jint b) ds = Inr z \<Longrightarrow> \<exists>es. ds = map jint es \<and> sums_safe b es"
proof (induction ds arbitrary: b)
  case Nil
  then show ?case by (intro exI [of _ "[]"]) simp
next
  case (Cons d ds)
  have "is_safe_integer_num d" using Cons.prems(2) by (simp split: if_splits)
  then obtain e where e: "d = jint e" "\<bar>e\<bar> \<le> max_safe" by (metis is_safe_Fin_obtain)
  have "is_safe_integer_num (js_add (jint b) (jint e))"
    using Cons.prems(2) unfolding e(1) sum_loop.simps Let_def by (metis Inl_Inr_False)
  then have be: "\<bar>b + e\<bar> \<le> max_safe" by (simp only: js_add_safe_iff)
  then have add: "js_add (jint b) (jint e) = jint (b + e)" by (rule js_add_exact)
  have "sum_loop (jint (b + e)) ds = Inr z"
    using Cons.prems(2) be e(2) unfolding e(1) sum_loop.simps Let_def add is_safe_jint by simp
  then obtain es where "ds = map jint es" "sums_safe (b + e) es" using Cons.IH be by blast
  then have "d # ds = map jint (e # es)" "sums_safe b (e # es)"
    using e Cons.prems(1) by simp_all
  then show ?case by (intro exI [of _ "e # es"] conjI)
qed

lemma sumDeltas_iff:
  "sumDeltas x ds = Inr z \<longleftrightarrow>
   (\<exists>b es. x = jint b \<and> ds = map jint es \<and> (\<forall>e\<in>set es. \<bar>e\<bar> \<le> max_safe)
      \<and> (\<forall>k\<le>length es. \<bar>b + sum_list (take k es)\<bar> \<le> max_safe)
      \<and> z = jint (max 0 (b + sum_list es)))"
  (is "_ \<longleftrightarrow> ?R")
proof
  assume a: "sumDeltas x ds = Inr z"
  then have "is_safe_integer_num x" and l: "sum_loop x ds = Inr z"
    by (auto simp: sumDeltas_def split: if_splits)
  then obtain b where b: "x = jint b" "\<bar>b\<bar> \<le> max_safe" by (metis is_safe_Fin_obtain)
  then obtain es where es: "ds = map jint es" "sums_safe b es" using l sum_loop_Inr by blast
  then have "z = jint (max 0 (b + sum_list es))" using l sum_loop_jint b(1) by simp
  then show ?R using b(1) es sums_safe_prefix by blast
next
  assume ?R
  then obtain b es where x: "x = jint b" "ds = map jint es" "z = jint (max 0 (b + sum_list es))"
    and s: "sums_safe b es" using sums_safe_prefix by blast
  have "is_safe_integer_num x" using sums_safe_start [OF s] by (simp only: x is_safe_jint)
  then show "sumDeltas x ds = Inr z"
    using sum_loop_jint [OF s] by (simp add: sumDeltas_def x)
qed

text \<open>
  A line total is the exact integer sum floored at zero. \<open>sumDeltas\<close> returns exactly when the
  base and every delta are safe integers and no partial sum leaves the safe range; it throws
  otherwise, so no rounded total is ever charged.
\<close>

theorem sumDeltas_exact:
  "sumDeltas x ds = Inr z \<longleftrightarrow>
   (\<exists>b es. x = jint b \<and> ds = map jint es \<and> (\<forall>e\<in>set es. \<bar>e\<bar> \<le> max_safe)
      \<and> (\<forall>k\<le>length es. \<bar>b + sum_list (take k es)\<bar> \<le> max_safe)
      \<and> z = jint (max 0 (b + sum_list es)))"
  by (rule sumDeltas_iff)

theorem sumDeltas_exact_witness: "sumDeltas (jint 100) [jint 250, jint (- 30)] = Inr (jint 320)"
proof -
  have "\<forall>k\<le>length [250, - 30 :: int]. \<bar>100 + sum_list (take k [250, - 30])\<bar> \<le> max_safe"
    by (auto simp: max_safe_def le_Suc_eq)
  then have "\<exists>b es. jint 100 = jint b \<and> [jint 250, jint (- 30)] = map jint es \<and> (\<forall>e\<in>set es. \<bar>e\<bar> \<le> max_safe)
      \<and> (\<forall>k\<le>length es. \<bar>b + sum_list (take k es)\<bar> \<le> max_safe) \<and> jint 320 = jint (max 0 (b + sum_list es))"
    by (intro exI [of _ 100] exI [of _ "[250, - 30]"]) (simp add: max_safe_def)
  then show ?thesis by (simp only: sumDeltas_exact)
qed

text \<open>
  The order of the deltas is not observable in the amount: two orders of the same deltas that
  both return give the same total.
\<close>

theorem sumDeltas_order:
  assumes "mset ds = mset ds'" and "sumDeltas x ds = Inr z" and "sumDeltas x ds' = Inr z'"
  shows "z = z'"
proof -
  obtain b es where 1: "x = jint b" "ds = map jint es" "z = jint (max 0 (b + sum_list es))"
    using assms(2) sumDeltas_iff by blast
  obtain b' es' where 2: "x = jint b'" "ds' = map jint es'" "z' = jint (max 0 (b' + sum_list es'))"
    using assms(3) sumDeltas_iff by blast
  have b: "b = b'" using 1(1) 2(1) by simp
  have "mset (map jint es) = mset (map jint es')" using assms(1) 1(2) 2(2) by simp
  then have "image_mset jint (mset es) = image_mset jint (mset es')" by simp
  moreover have "inj (image_mset jint)" by (intro multiset.inj_map) (simp add: inj_def)
  ultimately have "mset es = mset es'" by (rule injD [rotated])
  then have "sum_list es = sum_list es'" by (simp flip: sum_mset_sum_list)
  then show ?thesis using 1(3) 2(3) b by simp
qed

lemma sumDeltas_jint:
  "sums_safe b es \<Longrightarrow> sumDeltas (jint b) (map jint es) = Inr (jint (max 0 (b + sum_list es)))"
  unfolding sumDeltas_def is_safe_jint using sums_safe_start sum_loop_jint by simp

lemma sumDeltas_order_witness:
  "sumDeltas (Fin 100) [Fin 25, Fin (-40)] = Inr (Fin 85) \<and> sumDeltas (Fin 100) [Fin (-40), Fin 25] = Inr (Fin 85)
   \<and> (Fin 85 :: jsnum) = Fin 85"
proof -
  have 1: "sumDeltas (Fin 100) [Fin 25, Fin (-40)] = Inr (Fin 85)"
    "sumDeltas (Fin 100) [Fin (-40), Fin 25] = Inr (Fin 85)"
    using sumDeltas_jint [of 100 "[25, -40]"] sumDeltas_jint [of 100 "[-40, 25]"]
    by (simp_all add: max_safe_def)
  then show ?thesis using sumDeltas_order [OF _ 1] by simp
qed

text \<open>Whether a total is returned at all does depend on the order.\<close>

lemma sumDeltas_order_throws:
  "\<not> is_Inr (sumDeltas (jint 1) [jint max_safe, jint (- max_safe)])"
  "sumDeltas (jint 1) [jint (- max_safe), jint max_safe] = Inr (jint 1)"
proof -
  show "\<not> is_Inr (sumDeltas (jint 1) [jint max_safe, jint (- max_safe)])"
    using sumDeltas_iff [of "jint 1" "[jint max_safe, jint (- max_safe)]"]
    by (cases "sumDeltas (jint 1) [jint max_safe, jint (- max_safe)]") (auto simp: Cons_eq_map_conv dest!: spec [of _ 1])
  show "sumDeltas (jint 1) [jint (- max_safe), jint max_safe] = Inr (jint 1)"
    using sumDeltas_jint [of 1 "[- max_safe, max_safe]"] by (simp add: max_safe_def)
qed

section \<open>Line prices\<close>

fun rat_of :: "jsnum \<Rightarrow> rat" where
  "rat_of (Fin x) = x"
| "rat_of _ = 0"

lemma half_away_le:
  assumes "\<bar>n\<bar> \<le> max_safe"
  shows "\<bar>half_away n 10000\<bar> \<le> max_safe"
proof -
  have "2 * \<bar>10000 * half_away n 10000 - n\<bar> \<le> 10000" by (rule half_away_nearest) simp
  then have "10000 * half_away n 10000 - n \<le> 5000" "- (10000 * half_away n 10000 - n) \<le> 5000"
    by (simp_all add: abs_le_iff)
  moreover have "n \<le> 9007199254740991" "- n \<le> 9007199254740991"
    using assms by (simp_all add: max_safe_def abs_le_iff)
  ultimately show ?thesis unfolding max_safe_def abs_le_iff by linarith
qed

lemma percentageOf_safe:
  assumes "percentageOf a b = Inr d"
  shows "is_safe_integer_num d"
proof -
  obtain m n where "d = jint (half_away (m * n) 10000)" and s: "\<bar>m * n\<bar> \<le> max_safe"
    using percentageOf_Inr [OF assms] by blast
  then show ?thesis using half_away_le by (simp only: is_safe_jint)
qed

text \<open>
  C17. Pricing a published configuration on a safe base amount never throws, a configuration that
  cannot be priced charges nothing, and what is charged is a safe integer.
\<close>

theorem priceConfigDelta_total:
  assumes "is_safe_integer_num baseMinor"
  shows "\<exists>d. priceConfigDelta config baseMinor = Inr d \<and> is_safe_integer_num (deltaMinor d)
    \<and> (unpriced d \<noteq> None \<longrightarrow> deltaMinor d = Fin 0)"
proof -
  have safe0: "is_safe_integer_num (Fin 0)" by (simp add: max_safe_def)
  have num: "is_safe_integer v \<Longrightarrow> is_safe_integer_num (num_of v)" for v by (cases v) simp_all
  define t where "t = string_or_empty (js_get config ''type'')"
  define ok where "ok r \<longleftrightarrow> (\<exists>d. r = Inr d \<and> is_safe_integer_num (deltaMinor d)
    \<and> (unpriced d \<noteq> None \<longrightarrow> deltaMinor d = Fin 0))" for r :: "range_error + price_config_delta"
  have ok: "ok (Inr no_charge)" "ok (Inr (not_priced u))" "is_safe_integer_num c \<Longrightarrow> ok (Inr (charge c))"
    "ok (Inr \<lparr>deltaMinor = Fin 0, unpriced = w\<rparr>)" for u c w
    using safe0 by (simp_all add: ok_def del: is_safe_integer_num.simps)
  have "ok (priceConfigDelta config baseMinor)"
  proof (cases "is_object config \<and> t = ''percentage''")
    case True
    then show ?thesis
      using assms ok percentageOf_safe num by (auto simp: priceConfigDelta_def Let_def t_def split: sum.split range_error.split
        simp del: is_safe_integer_num.simps)
  next
    case False
    then show ?thesis
      using assms ok num by (auto simp: priceConfigDelta_def Let_def t_def simp del: is_safe_integer_num.simps)
  qed
  then show ?thesis by (simp only: ok_def)
qed

lemma priceConfigDelta_total_witness:
  "\<exists>d. priceConfigDelta (JObj [(''type'', JStr ''percentage''), (''basis_points'', JNum (Fin 1250))]) (Fin 1999) = Inr d
    \<and> is_safe_integer_num (deltaMinor d) \<and> (unpriced d \<noteq> None \<longrightarrow> deltaMinor d = Fin 0)"
  by (rule priceConfigDelta_total) (simp add: max_safe_def)


lemma measure_le: "measure_text s \<le> length s"
proof -
  have g: "grapheme_count s \<le> length s" for s by (induction s rule: grapheme_count.induct) auto
  have "length (js_trim s) \<le> length s"
    unfolding js_trim_def length_rev by (metis length_dropWhile_le length_rev order_trans)
  then show ?thesis using g [of "js_trim s"] by (simp add: measure_text_def normalise_def Let_def)
qed

text \<open>
  A per-character price charges its amount for every grapheme of the trimmed answer beyond the
  free allowance, exactly, and reports the answer unpriced when that product is not a safe integer.
  A missing, fractional or negative allowance is none.
\<close>

theorem per_char_price:
  assumes "is_object pricing" and "js_get pricing ''type'' = JStr ''per_char''"
    and "js_get pricing ''amount_minor'' = JNum (jint a)" and "\<bar>a\<bar> \<le> max_safe"
    and "free = (case js_get pricing ''free_characters'' of
           JNum v \<Rightarrow> if is_safe_integer_num v then \<lfloor>rat_of v\<rfloor> else 0 | _ \<Rightarrow> 0)"
    and "int (length answer) \<le> max_safe"
  shows "optionPricingDelta pricing answer =
    (let n = max 0 (int (measure_text answer) - max 0 free) in
     if \<bar>n * a\<bar> \<le> max_safe then charge (jint (n * a)) else not_priced ''per_char'')"
proof -
  obtain f where f: "\<bar>f\<bar> \<le> max_safe"
    "(let fc = js_get pricing ''free_characters'' in
      if is_safe_integer fc \<and> js_lt (Fin 0) (num_of fc) then num_of fc else Fin 0) = jint (max 0 f)"
    "max 0 free = max 0 f"
  proof (cases "is_safe_integer (js_get pricing ''free_characters'')")
    case True
    then obtain v where v: "js_get pricing ''free_characters'' = JNum v" "is_safe_integer_num v"
      by (cases "js_get pricing ''free_characters''") (simp_all del: is_safe_integer_num.simps)
    then obtain k where k: "v = jint k" "\<bar>k\<bar> \<le> max_safe" by (metis is_safe_Fin_obtain)
    have "free = k" using v by (simp only: assms(5) jsval.case if_True) (simp add: k)
    then show ?thesis using k v by (intro that [of k]) (simp_all add: max_def)
  next
    case False
    then have "free = 0"
      by (cases "js_get pricing ''free_characters''") (simp_all add: assms(5) del: is_safe_integer_num.simps)
    then show ?thesis using False by (intro that [of 0]) (simp_all add: max_safe_def)
  qed
  define c where "c = int (measure_text answer) - max 0 f"
  have c: "\<bar>c\<bar> \<le> max_safe"
    using assms(6) f(1) measure_le [of answer] unfolding c_def max_safe_def by linarith
  have sub: "js_sub (Fin (of_nat (measure_text answer))) (jint (max 0 f)) = jint c"
    using js_sub_exact [of "int (measure_text answer)" "max 0 f"] c by (simp add: c_def)
  have le: "js_le (jint c) (Fin 0) \<longleftrightarrow> c \<le> 0" by (auto simp: js_le_def)
  have am: "is_safe_integer (JNum (jint a))" using assms(4) by (simp only: is_safe_integer.simps is_safe_jint)
  have "optionPricingDelta pricing answer =
     (if c \<le> 0 then no_charge else if \<bar>c * a\<bar> \<le> max_safe then charge (jint (c * a)) else not_priced ''per_char'')"
    using assms(1,2) am js_mul_exact [of c a] f(2)
    unfolding optionPricingDelta_def assms(2,3) Let_def num_of.simps
    by (simp add: sub le js_mul_safe_iff del: js_mul.simps is_safe_integer.simps is_safe_integer_num.simps)
  then show ?thesis using c unfolding f(3) by (auto simp: Let_def c_def max_def max_safe_def)
qed


lemma per_char_price_witness:
  "optionPricingDelta (JObj [(''type'', JStr ''per_char''), (''amount_minor'', JNum (jint 50)),
      (''free_characters'', JNum (jint 3))]) ''  Happy Day '' = charge (jint 300)"
  by (subst per_char_price [where a = 50 and free = 3])
    (simp_all add: max_safe_def measure_text_def normalise_def js_trim_def is_ws_def code_of_def)

lemma perUnit_jint:
  assumes "js_get pricing ''amount_minor'' = JNum (jint a)" and "\<bar>a\<bar> \<le> max_safe"
    and "parse_quantity answer = Some (of_int q)" and "0 < q" and "q \<le> 1000000"
  shows "perUnitDelta pricing answer = (if \<bar>q * a\<bar> \<le> max_safe then charge (jint (q * a))
    else not_priced (string_or_empty (js_get pricing ''type'')))"
proof -
  have q: "\<bar>q\<bar> \<le> max_safe" using assms(4,5) by (simp add: max_safe_def)
  have am: "is_safe_integer (JNum (jint a))" using assms(2) by (simp only: is_safe_integer.simps is_safe_jint)
  have qn: "to_num (of_int q) = jint q" using q by (rule to_num_exact)
  have fin: "is_finite_num (jint q)" "\<not> js_le (jint q) (Fin 0)" "\<not> js_lt ABSOLUTE_MAX_QUANTITY (jint q)"
    using assms(4,5) by (simp_all add: js_le_def ABSOLUTE_MAX_QUANTITY_def)
  have tr: "js_trunc (jint n) = jint n" for n by (simp add: trunc_rat_def)
  show ?thesis
  proof (cases "\<bar>q * a\<bar> \<le> max_safe")
    case True
    have p: "js_mul (jint q) (jint a) = jint (q * a)" using True by (rule js_mul_exact)
    have fl: "js_floor (jint \<bar>q * a\<bar>) = jint \<bar>q * a\<bar>" by simp
    have sb: "js_sub (jint \<bar>q * a\<bar>) (jint \<bar>q * a\<bar>) = Fin 0" using js_sub_exact [of "\<bar>q * a\<bar>" "\<bar>q * a\<bar>"] by (simp add: max_safe_def)
    have half: "\<not> js_le (Fin (1 / 2)) (Fin 0)" by (simp add: js_le_def)
    have "perUnitDelta pricing answer
        = charge (if js_lt (jint (q * a)) (Fin 0) then js_neg (jint \<bar>q * a\<bar>) else jint \<bar>q * a\<bar>)"
      using am fin True q
      unfolding perUnitDelta_def Let_def assms(1,3) option.case num_of.simps qn tr p js_abs_jint fl sb is_safe_jint
      by (simp only: half if_False if_True not_not simp_thms)
    also have "\<dots> = charge (jint (q * a))" by (simp add: not_less del: of_int_mult)
    finally show ?thesis using True by simp
  next
    case False
    have "\<not> is_safe_integer_num (js_trunc (js_mul (jint q) (jint a)))"
      using js_trunc_safe_iff [of "q * a"] False by simp
    then show ?thesis
      using am fin False q
      unfolding perUnitDelta_def Let_def assms(1,3) option.case num_of.simps qn tr is_safe_jint
      by (simp only: if_False if_True not_not simp_thms)
  qed
qed

text \<open>
  A per-unit price charges exactly the quantity times the amount for every whole quantity up to
  the absolute maximum; a product that is not a safe integer is reported unpriced.
\<close>

theorem per_unit_whole:
  assumes "is_object pricing" and "js_get pricing ''type'' = JStr ''per_unit''"
    and "js_get pricing ''amount_minor'' = JNum (jint a)" and "\<bar>a\<bar> \<le> max_safe"
    and "parse_quantity answer = Some (of_int q)" and "0 < q" and "q \<le> 1000000"
  shows "optionPricingDelta pricing answer =
    (if \<bar>q * a\<bar> \<le> max_safe then charge (jint (q * a)) else not_priced ''per_unit'')"
  using perUnit_jint [OF assms(3-7)] assms(1,2) by (simp add: optionPricingDelta_def Let_def)

lemma per_unit_whole_witness:
  "optionPricingDelta (JObj [(''type'', JStr ''per_unit''), (''amount_minor'', JNum (jint 250))]) ''12''
     = charge (jint 3000)"
proof -
  have "parse_quantity ''12'' = Some (of_int 12)"
    by (simp add: parse_quantity_def span_digits_def is_digit_def code_of_def digits_val_def digit_val_def)
  then show ?thesis
    using per_unit_whole [of "JObj [(''type'', JStr ''per_unit''), (''amount_minor'', JNum (jint 250))]" 250 "''12''" 12]
    by (simp add: max_safe_def)
qed

end
