(* ===== verification/Rules.thy ===== *)
theory Rules
  imports Js_Value
begin

text \<open>
  The rule evaluator (\<open>src/common/rules/rule-evaluator.ts\<close> of the backend): when a condition holds,
  when a rule fires, how the rules that fire resolve into one state per target, and the repetition
  to a fixed point under the pass limit. Option ids are not names of built-in object properties.
\<close>

definition RULE_ACTIONS :: "string list" where
  "RULE_ACTIONS = [''hide'', ''require'', ''unrequire'', ''set_price'']"

definition MAX_RULE_PASSES :: nat where
  "MAX_RULE_PASSES = 10"

record rule_condition =
  optionId :: string
  operator :: string
  cond_value :: jsval

record rule =
  rule_id :: string
  targetType :: string
  targetId :: string
  action :: string
  matchType :: string
  conditions :: "rule_condition list"
  actionValue :: jsval

type_synonym answers = "(string \<times> jsval) list"

record target_state =
  hidden :: bool
  required :: "bool option"
  priceMinor :: "jsnum option"
  priceConflict :: bool

record rule_outcome =
  states :: "(string, target_state) js_map"
  passes :: nat
  refused :: "string option"

section \<open>Scalars\<close>

definition asString :: "jsval \<Rightarrow> string" where
  "asString v = (case v of
       JBool True \<Rightarrow> ''true'' | JBool False \<Rightarrow> ''false''
     | JNull \<Rightarrow> [] | JUndef \<Rightarrow> []
     | JNum n \<Rightarrow> num_to_string n | JStr s \<Rightarrow> s
     | JArr _ \<Rightarrow> [] | JObj _ \<Rightarrow> [])"

definition sameScalar :: "jsval \<Rightarrow> jsval \<Rightarrow> bool" where
  "sameScalar answer operand =
     (if js_typeof answer = js_typeof operand then strict_eq answer operand
      else if js_typeof operand = ''boolean'' \<or> js_typeof answer = ''boolean''
      then asString answer = asString operand
      else asString answer = asString operand)"

definition numericValue :: "jsval \<Rightarrow> jsnum option" where
  "numericValue v = (case v of
       JNum n \<Rightarrow> if is_finite_num n then Some n else None
     | JStr s \<Rightarrow> (case parse_decimal (js_trim s) of
         None \<Rightarrow> None
       | Some r \<Rightarrow> let parsed = to_num r in if is_finite_num parsed then Some parsed else None)
     | _ \<Rightarrow> None)"

definition compareNumeric :: "jsval \<Rightarrow> jsval \<Rightarrow> (jsnum \<Rightarrow> jsnum \<Rightarrow> bool) \<Rightarrow> bool" where
  "compareNumeric answer operand compare =
     (case (numericValue answer, numericValue operand) of
        (Some l, Some r) \<Rightarrow> compare l r
      | _ \<Rightarrow> False)"

fun listOf :: "jsval \<Rightarrow> jsval list" where
  "listOf (JArr vs) = vs"
| "listOf _ = []"

section \<open>Conditions and rules\<close>

fun js_includes :: "string \<Rightarrow> string \<Rightarrow> bool" where
  "js_includes [] t = (t = [])"
| "js_includes (c # s) t = (take (length t) (c # s) = t \<or> js_includes s t)"

definition answer_of :: "answers \<Rightarrow> string \<Rightarrow> jsval" where
  "answer_of ans oid = (case map_of ans oid of None \<Rightarrow> JUndef | Some v \<Rightarrow> v)"

definition is_supplied :: "jsval \<Rightarrow> bool" where
  "is_supplied answer = (answer \<noteq> JUndef \<and> answer \<noteq> JNull \<and> answer \<noteq> JStr [] \<and> answer \<noteq> JArr [])"

definition members_of :: "jsval \<Rightarrow> jsval list" where
  "members_of answer = (if is_array answer then listOf answer else [answer])"

definition conditionHolds :: "rule_condition \<Rightarrow> answers \<Rightarrow> bool" where
  "conditionHolds c ans =
     (let answer = answer_of ans (optionId c);
          supplied = is_supplied answer;
          members = members_of answer;
          isExactly = (\<lambda>v. length members = 1 \<and> sameScalar (hd members) v);
          operand = cond_value c;
          listed = list_ex (\<lambda>m. list_ex (sameScalar m) (listOf operand)) members;
          op = operator c
      in if op = ''is_empty'' then \<not> supplied
         else if op = ''is_not_empty'' then supplied
         else if op = ''equals'' then supplied \<and> isExactly operand
         else if op = ''not_equals'' then supplied \<and> \<not> isExactly operand
         else if op = ''contains'' then supplied \<and>
           (case operand of JStr t \<Rightarrow> list_ex (\<lambda>m. js_includes (asString m) t) members | _ \<Rightarrow> False)
         else if op = ''greater_than'' then compareNumeric answer operand (\<lambda>a b. js_lt b a)
         else if op = ''less_than'' then compareNumeric answer operand js_lt
         else if op = ''in'' then supplied \<and> listed
         else if op = ''not_in'' then supplied \<and> \<not> listed
         else False)"

definition ruleFires :: "rule \<Rightarrow> answers \<Rightarrow> bool" where
  "ruleFires r ans =
     (if conditions r = [] then False
      else if matchType r = ''any'' then list_ex (\<lambda>c. conditionHolds c ans) (conditions r)
      else list_all (\<lambda>c. conditionHolds c ans) (conditions r))"

section \<open>Resolution\<close>

abbreviation blank_state :: target_state where
  "blank_state \<equiv> \<lparr>hidden = False, required = None, priceMinor = None, priceConflict = False\<rparr>"

definition seed :: "(string, target_state) js_map \<Rightarrow> string \<Rightarrow> target_state" where
  "seed sts t = (case map_get sts t of None \<Rightarrow> blank_state | Some s \<Rightarrow> s)"

text \<open>The body of the loop over the rules: what one rule does to the states.\<close>

definition apply_rule :: "answers \<Rightarrow> rule \<Rightarrow> (string, target_state) js_map \<Rightarrow> (string, target_state) js_map" where
  "apply_rule ans r sts =
     (if \<not> ruleFires r ans then sts
      else let state = seed sts (targetId r); a = action r in
        if a = ''hide'' then map_set (targetId r) (state\<lparr>hidden := True\<rparr>) sts
        else if a = ''require'' then map_set (targetId r) (state\<lparr>required := Some True\<rparr>) sts
        else if a = ''unrequire'' then
          map_set (targetId r) (state\<lparr>required := Some (required state = Some True)\<rparr>) sts
        else if a = ''set_price'' then
          (let amount = js_get (actionValue r) ''amountMinor'' in
           if is_safe_integer amount then
             if priceConflict state \<or> (case priceMinor state of None \<Rightarrow> False | Some p \<Rightarrow> \<not> js_num_eq p (num_of amount))
             then map_set (targetId r) (state\<lparr>priceMinor := None, priceConflict := True\<rparr>) sts
             else map_set (targetId r) (state\<lparr>priceMinor := Some (num_of amount)\<rparr>) sts
           else sts)
        else sts)"

definition keep_hidden :: "string \<Rightarrow> (string, target_state) js_map \<Rightarrow> (string, target_state) js_map" where
  "keep_hidden t sts = map_set t ((seed sts t)\<lparr>hidden := True\<rparr>) sts"

definition resolve :: "rule list \<Rightarrow> answers \<Rightarrow> string js_set \<Rightarrow> (string, target_state) js_map" where
  "resolve rules ans alreadyHidden =
     fold keep_hidden alreadyHidden (fold (apply_rule ans) rules [])"

section \<open>The fixed point\<close>

definition sameAnswers :: "answers \<Rightarrow> answers \<Rightarrow> bool" where
  "sameAnswers a b =
     (length a = length b \<and>
      list_all (\<lambda>(k, v). case map_of b k of None \<Rightarrow> False
        | Some w \<Rightarrow> v = w \<and> v \<noteq> JNum NaN) a)"

text \<open>
  Both answer sets are copies of one object, so equal values are the same reference: \<open>===\<close> between
  them is equality of values, except that \<open>NaN\<close> is not equal to itself.
\<close>

definition collect_hidden :: "(string, target_state) js_map \<Rightarrow> string js_set \<Rightarrow> string js_set" where
  "collect_hidden sts h = fold (\<lambda>(t, s) h. if hidden s then set_add t h else h) sts h"

definition options_of :: "(string \<times> string list) list \<Rightarrow> string \<Rightarrow> string list" where
  "options_of optionsUnder t = (case map_of optionsUnder t of None \<Rightarrow> [] | Some os \<Rightarrow> os)"

definition clear_hidden :: "answers \<Rightarrow> (string \<times> string list) list \<Rightarrow> string js_set \<Rightarrow> answers" where
  "clear_hidden ans optionsUnder h =
     fold (\<lambda>t nxt. fold AList.delete (options_of optionsUnder t) nxt) h ans"

fun rule_passes :: "nat \<Rightarrow> nat \<Rightarrow> rule list \<Rightarrow> answers \<Rightarrow> (string \<times> string list) list
    \<Rightarrow> string js_set \<Rightarrow> answers \<Rightarrow> rule_outcome" where
  "rule_passes 0 pass rules ans optionsUnder h current =
     \<lparr>states = [], passes = MAX_RULE_PASSES, refused = Some ''Rules did not settle within the pass limit.''\<rparr>"
| "rule_passes (Suc left) pass rules ans optionsUnder h current =
     (let sts = resolve rules current h;
          h' = collect_hidden sts h;
          nxt = clear_hidden ans optionsUnder h'
      in if sameAnswers nxt current then \<lparr>states = sts, passes = pass, refused = None\<rparr>
         else rule_passes left (pass + 1) rules ans optionsUnder h' nxt)"

definition evaluateRules :: "rule list \<Rightarrow> answers \<Rightarrow> (string \<times> string list) list \<Rightarrow> rule_outcome" where
  "evaluateRules rules ans optionsUnder = rule_passes MAX_RULE_PASSES 1 rules ans optionsUnder [] ans"

end
