(* ===== verification/Rules_Correct.thy ===== *)
theory Rules_Correct
  imports Rules "HOL-Library.Multiset"
begin

text \<open>
  Correctness of the rule evaluator: one pass equals a per-target specification that mentions only
  which rules fire, the outcome does not depend on the order of the rules, a settled outcome is a
  fixed point, and a rule set with at most nine hide targets always settles.
\<close>

section \<open>What the firing rules say about one target\<close>

definition firing :: "answers \<Rightarrow> string \<Rightarrow> rule list \<Rightarrow> rule list" where
  "firing ans t rules = filter (\<lambda>r. ruleFires r ans \<and> targetId r = t) rules"

definition price_set_by :: "rule \<Rightarrow> jsnum option" where
  "price_set_by r = (let amount = js_get (actionValue r) ''amountMinor'' in
     if action r = ''set_price'' \<and> is_safe_integer amount then Some (num_of amount) else None)"

definition prices :: "rule list \<Rightarrow> jsnum set" where
  "prices rs = {p. \<exists>r\<in>set rs. price_set_by r = Some p}"

definition has_action :: "string \<Rightarrow> rule list \<Rightarrow> bool" where
  "has_action a rs = (\<exists>r\<in>set rs. action r = a)"

definition effective :: "rule list \<Rightarrow> bool" where
  "effective rs = (has_action ''hide'' rs \<or> has_action ''require'' rs \<or> has_action ''unrequire'' rs
     \<or> prices rs \<noteq> {})"

definition disagree :: "jsnum set \<Rightarrow> bool" where
  "disagree P = (\<exists>p\<in>P. \<exists>q\<in>P. p \<noteq> q)"

definition decided :: "rule list \<Rightarrow> target_state" where
  "decided rs = \<lparr>hidden = has_action ''hide'' rs,
     required = (if has_action ''require'' rs then Some True
       else if has_action ''unrequire'' rs then Some False else None),
     priceMinor = (if prices rs = {} \<or> disagree (prices rs) then None else Some (the_elem (prices rs))),
     priceConflict = disagree (prices rs)\<rparr>"

lemma has_action_snoc: "has_action a (rs @ [r]) \<longleftrightarrow> action r = a \<or> has_action a rs"
  by (auto simp: has_action_def)

lemma prices_snoc:
  "prices (rs @ [r]) = (case price_set_by r of None \<Rightarrow> prices rs | Some p \<Rightarrow> insert p (prices rs))"
  by (auto simp: prices_def split: option.split)

lemma decided_blank: "\<not> effective rs \<Longrightarrow> decided rs = blank_state"
  by (simp add: effective_def decided_def disagree_def)

lemma safe_num_eq:
  assumes "is_safe_integer_num p" and "is_safe_integer_num q"
  shows "js_num_eq p q \<longleftrightarrow> p = q"
  using assms by (metis is_safe_Fin_obtain js_num_eq.simps(1) jsnum.inject)

lemma is_safe_num_of: "is_safe_integer v \<Longrightarrow> is_safe_integer_num (num_of v)"
  by (cases v) simp_all

lemma prices_safe: "p \<in> prices rs \<Longrightarrow> is_safe_integer_num p"
  by (auto simp: prices_def price_set_by_def Let_def is_safe_num_of split: if_splits)

lemma agree_cases:
  assumes "\<not> disagree P"
  obtains "P = {}" | p where "P = {p}"
  using assms by (metis disagree_def is_singletonI' is_singleton_the_elem)

lemma disagree_insert:
  assumes "\<not> disagree P"
  shows "disagree (insert p P) \<longleftrightarrow> P \<noteq> {} \<and> the_elem P \<noteq> p"
    and "\<not> disagree (insert p P) \<Longrightarrow> the_elem (insert p P) = p"
  using assms by (cases rule: agree_cases; auto simp: disagree_def)+

lemma disagree_mono: "disagree P \<Longrightarrow> disagree (insert p P)"
  by (auto simp: disagree_def)

text \<open>The state a firing rule leaves on its target.\<close>

lemma decided_price:
  assumes "price_set_by r = Some p"
  shows "decided (rs @ [r]) = (let s = decided rs in
    if priceConflict s \<or> (case priceMinor s of None \<Rightarrow> False | Some q \<Rightarrow> \<not> js_num_eq q p)
    then s\<lparr>priceMinor := None, priceConflict := True\<rparr> else s\<lparr>priceMinor := Some p\<rparr>)"
proof -
  have a: "action r = ''set_price''" using assms by (auto simp: price_set_by_def Let_def split: if_splits)
  have pr: "prices (rs @ [r]) = insert p (prices rs)" using assms by (simp add: prices_snoc)
  have p: "is_safe_integer_num p" using prices_safe [of p "rs @ [r]"] by (simp add: pr)
  have eq: "js_num_eq (the_elem (prices rs)) p \<longleftrightarrow> the_elem (prices rs) = p"
    if "prices rs \<noteq> {}" "\<not> disagree (prices rs)"
    using that(2)
  proof (cases rule: agree_cases)
    case (2 q)
    then show ?thesis using prices_safe [of q rs] p by (simp add: safe_num_eq)
  qed (use that in simp)
  show ?thesis
    using a eq disagree_insert [of "prices rs" p] disagree_mono [of "prices rs" p]
    by (cases "disagree (prices rs)") (auto simp: decided_def has_action_snoc pr Let_def)
qed

lemma effective_price: "price_set_by r = Some p \<Longrightarrow> effective (rs @ [r])"
  by (auto simp: effective_def prices_snoc)

lemma price_by_action: "action r \<noteq> ''set_price'' \<Longrightarrow> price_set_by r = None"
  by (simp add: price_set_by_def Let_def)

text \<open>One firing rule: the entry of its target, and whether there is one.\<close>

definition entry :: "rule list \<Rightarrow> target_state option" where
  "entry rs = (if effective rs then Some (decided rs) else None)"

lemma seed_entry: "map_get sts t = entry rs \<Longrightarrow> seed sts t = decided rs"
  by (simp add: seed_def entry_def decided_blank)

lemma entry_ignored:
  assumes "price_set_by r = None" "action r \<notin> {''hide'', ''require'', ''unrequire''}"
  shows "entry (rs @ [r]) = entry rs"
  using assms by (simp add: entry_def effective_def decided_def has_action_snoc prices_snoc)

lemma entry_acted:
  "action r = ''hide'' \<Longrightarrow> entry (rs @ [r]) = Some ((decided rs)\<lparr>hidden := True\<rparr>)"
  "action r = ''require'' \<Longrightarrow> entry (rs @ [r]) = Some ((decided rs)\<lparr>required := Some True\<rparr>)"
  "action r = ''unrequire'' \<Longrightarrow>
     entry (rs @ [r]) = Some ((decided rs)\<lparr>required := Some (required (decided rs) = Some True)\<rparr>)"
  by (simp_all add: entry_def effective_def decided_def has_action_snoc prices_snoc price_by_action)

lemma apply_rule_get:
  assumes "ruleFires r ans" and "map_get sts (targetId r) = entry rs"
  shows "map_get (apply_rule ans r sts) (targetId r) = entry (rs @ [r])"
proof -
  note sd = seed_entry [OF assms(2)]
  consider "action r = ''hide''" | "action r = ''require''" | "action r = ''unrequire''"
    | p where "action r = ''set_price''" "price_set_by r = Some p"
    | "price_set_by r = None" "action r \<notin> {''hide'', ''require'', ''unrequire''}"
    by (cases "price_set_by r") (auto simp: price_set_by_def Let_def split: if_splits)
  then show ?thesis
  proof cases
    case (4 p)
    then have p: "is_safe_integer (js_get (actionValue r) ''amountMinor'')"
      "num_of (js_get (actionValue r) ''amountMinor'') = p"
      by (auto simp: price_set_by_def Let_def split: if_splits)
    show ?thesis
      using assms 4 decided_price [OF 4(2), of rs] effective_price [OF 4(2)]
      by (simp add: apply_rule_def Let_def sd p entry_def js_map_simps split: option.split)
  next
    case 5
    then have "apply_rule ans r sts = sts"
      by (auto simp: apply_rule_def Let_def price_set_by_def split: if_splits)
    then show ?thesis using 5 assms(2) by (simp add: entry_ignored)
  qed (use assms(1) in \<open>simp_all add: apply_rule_def Let_def sd entry_acted js_map_simps\<close>)
qed

lemma apply_rule_other:
  "\<not> (ruleFires r ans \<and> targetId r = t) \<Longrightarrow> map_get (apply_rule ans r sts) t = map_get sts t"
  by (auto simp: apply_rule_def Let_def jsm.get_put_other)

lemma apply_rules_get: "map_get (fold (apply_rule ans) rules []) t = entry (firing ans t rules)"
proof (induction rules rule: rev_induct)
  case Nil
  then show ?case by (simp add: entry_def effective_def has_action_def prices_def firing_def)
next
  case (snoc r rules)
  show ?case
  proof (cases "ruleFires r ans \<and> targetId r = t")
    case True
    then show ?thesis
      using snoc apply_rule_get [of r ans _ "firing ans t rules"] by (auto simp: firing_def)
  next
    case False
    then show ?thesis using snoc apply_rule_other [OF False] by (auto simp: firing_def)
  qed
qed

lemma keep_hidden_get:
  "map_get (fold keep_hidden h sts) t = (if t \<in> set h then Some ((seed sts t)\<lparr>hidden := True\<rparr>) else map_get sts t)"
proof (induction h arbitrary: sts)
  case (Cons u h)
  have get: "map_get (keep_hidden u sts) t = (if t = u then Some ((seed sts t)\<lparr>hidden := True\<rparr>) else map_get sts t)"
    by (simp add: keep_hidden_def jsm.get_put)
  then have "seed (keep_hidden u sts) t = (if t = u then (seed sts t)\<lparr>hidden := True\<rparr> else seed sts t)"
    by (simp add: seed_def)
  then show ?case using Cons get by auto
qed simp

lemma resolve_get:
  "map_get (resolve rules ans h) t =
     (let rs = firing ans t rules in
      if t \<in> set h then Some ((decided rs)\<lparr>hidden := True\<rparr>) else entry rs)"
  by (simp add: resolve_def keep_hidden_get apply_rules_get seed_entry Let_def)

lemma resolve_distinct: "distinct (map_keys (resolve rules ans h))"
proof -
  have "distinct (map_keys (apply_rule ans r sts))" if "distinct (map_keys sts)" for r sts
    using that by (simp add: apply_rule_def Let_def jsm.distinct_put)
  then have "distinct (map_keys (fold (apply_rule ans) rules sts))" if "distinct (map_keys sts)" for sts
    using that by (induction rules arbitrary: sts) simp_all
  moreover have "distinct (map_keys (fold keep_hidden h sts))" if "distinct (map_keys sts)" for sts
    using that by (induction h arbitrary: sts) (simp_all add: keep_hidden_def jsm.distinct_put)
  ultimately show ?thesis by (simp add: resolve_def map_keys_def)
qed

text \<open>
  C8. One pass over the rules is a function of which rules fire, target by target: hide beats
  everything, require beats unrequire, equal prices agree and different ones cancel into a
  conflict, a target hidden earlier stays hidden, and a target no effective rule names has no entry.
\<close>

theorem resolve_spec:
  "map_get (resolve rules ans h) t =
     (let rs = filter (\<lambda>r. ruleFires r ans \<and> targetId r = t) rules;
          P = {p. \<exists>r\<in>set rs. price_set_by r = Some p};
          acts = action ` set rs
      in if t \<notin> set h \<and> acts \<inter> {''hide'', ''require'', ''unrequire''} = {} \<and> P = {} then None
         else Some \<lparr>hidden = (t \<in> set h \<or> ''hide'' \<in> acts),
           required = (if ''require'' \<in> acts then Some True
             else if ''unrequire'' \<in> acts then Some False else None),
           priceMinor = (if is_singleton P then Some (the_elem P) else None),
           priceConflict = (\<exists>p\<in>P. \<exists>q\<in>P. p \<noteq> q)\<rparr>)"
proof -
  have act: "has_action a rs \<longleftrightarrow> a \<in> action ` set rs" for a rs by (auto simp: has_action_def)
  have sing: "is_singleton P \<longleftrightarrow> P \<noteq> {} \<and> \<not> disagree P" for P
    by (metis agree_cases disagree_def empty_iff insertE is_singletonI is_singleton_def insert_not_empty)
  show ?thesis
    unfolding resolve_get Let_def firing_def [symmetric] prices_def [symmetric] disagree_def [symmetric]
    by (auto simp: entry_def effective_def decided_def act sing)
qed

section \<open>The passes\<close>

definition cleared :: "(string \<times> string list) list \<Rightarrow> string set \<Rightarrow> string set" where
  "cleared oU H = (\<Union>t\<in>H. set (options_of oU t))"

lemma clear_hidden_filter:
  "clear_hidden ans oU h = filter (\<lambda>(k, v). k \<notin> cleared oU (set h)) ans"
proof -
  have del: "fold AList.delete ks ans = filter (\<lambda>(k, v). k \<notin> set ks) ans" for ks and ans :: answers
    by (induction ks arbitrary: ans) (auto simp: AList.delete_eq intro!: filter_cong)
  show ?thesis
    by (induction h arbitrary: ans)
      (auto simp: clear_hidden_def cleared_def del intro!: filter_cong)
qed

lemma clear_hidden_cong: "set h = set h' \<Longrightarrow> clear_hidden ans oU h = clear_hidden ans oU h'"
  by (simp add: clear_hidden_filter)

lemma set_collect_hidden:
  "set (collect_hidden sts h) = set h \<union> {t. \<exists>s. (t, s) \<in> set sts \<and> hidden s}"
  unfolding collect_hidden_def by (induction sts arbitrary: h) (auto split: prod.splits)

lemma resolve_entries:
  "(t, s) \<in> set (resolve rules ans h) \<longleftrightarrow> map_get (resolve rules ans h) t = Some s"
  using resolve_distinct [of rules ans h] by (simp add: map_get_def map_keys_def)

lemma hidden_of_resolve:
  "(\<exists>s. map_get (resolve rules ans h) t = Some s \<and> hidden s)
     \<longleftrightarrow> t \<in> set h \<or> has_action ''hide'' (firing ans t rules)"
  by (auto simp: resolve_get Let_def entry_def effective_def decided_def)

lemma set_collect_resolve:
  "set (collect_hidden (resolve rules ans h) h) = set h \<union> {t. has_action ''hide'' (firing ans t rules)}"
  by (auto simp: set_collect_hidden resolve_entries hidden_of_resolve)

definition hide_targets :: "rule list \<Rightarrow> string set" where
  "hide_targets rules = targetId ` set (filter (\<lambda>r. action r = ''hide'') rules)"

lemma finite_hide_targets: "finite (hide_targets rules)"
  by (simp add: hide_targets_def)

lemma firing_hide_target: "has_action ''hide'' (firing ans t rules) \<Longrightarrow> t \<in> hide_targets rules"
  by (auto simp: has_action_def firing_def hide_targets_def)

section \<open>Settling\<close>

definition no_nan :: "answers \<Rightarrow> bool" where
  "no_nan ans = list_all (\<lambda>(k, v). v \<noteq> JNum NaN) ans"

lemma sameAnswers_refl:
  assumes "distinct (map fst a)" and "no_nan a"
  shows "sameAnswers a a"
  using assms map_of_is_SomeI [OF assms(1)] by (auto simp: sameAnswers_def no_nan_def list_all_iff)

lemma sameAnswers_filter:
  assumes "distinct (map fst a)" and "sameAnswers (filter P a) a"
  shows "filter P a = a"
  using assms(2) by (auto simp: sameAnswers_def filter_id_conv dest: length_filter_less)

lemma clear_hidden_mono:
  assumes "set h \<subseteq> set h'"
  shows "clear_hidden ans oU h' = filter (\<lambda>(k, v). k \<notin> cleared oU (set h')) (clear_hidden ans oU h)"
  using assms by (auto simp: clear_hidden_filter cleared_def intro!: filter_cong)

lemma clear_hidden_distinct: "distinct (map fst ans) \<Longrightarrow> distinct (map fst (clear_hidden ans oU h))"
  by (simp add: clear_hidden_filter distinct_map_filter)

lemma clear_hidden_no_nan: "no_nan ans \<Longrightarrow> no_nan (clear_hidden ans oU h)"
  by (auto simp: clear_hidden_filter no_nan_def list_all_iff)

lemma rule_passes_settles:
  assumes "distinct (map fst ans)" and "no_nan ans"
    and "set h \<subseteq> hide_targets rules" and "current = clear_hidden ans oU h"
    and "card (hide_targets rules - set h) < left"
  shows "refused (rule_passes left pass rules ans oU h current) = None
    \<and> passes (rule_passes left pass rules ans oU h current) \<le> pass + card (hide_targets rules - set h)"
  using assms(3-)
proof (induction left arbitrary: pass h current)
  case (Suc left)
  define h' where "h' = collect_hidden (resolve rules current h) h"
  have h': "set h \<subseteq> set h'" "set h' \<subseteq> hide_targets rules"
    using Suc.prems(1) firing_hide_target by (auto simp: h'_def set_collect_resolve)
  show ?case
  proof (cases "sameAnswers (clear_hidden ans oU h') current")
    case True
    then show ?thesis by (simp add: Let_def h'_def)
  next
    case False
    have "set h' \<noteq> set h"
    proof
      assume "set h' = set h"
      then have "clear_hidden ans oU h' = current" by (simp add: Suc.prems(2) cong: clear_hidden_cong)
      then have "sameAnswers (clear_hidden ans oU h') current"
        using Suc.prems(2) sameAnswers_refl clear_hidden_distinct clear_hidden_no_nan assms(1,2) by metis
      then show False using False by contradiction
    qed
    then have "hide_targets rules - set h' \<subset> hide_targets rules - set h" using h' by blast
    then have less: "card (hide_targets rules - set h') < card (hide_targets rules - set h)"
      by (intro psubset_card_mono) (simp_all add: finite_hide_targets)
    have eq: "rule_passes (Suc left) pass rules ans oU h current
        = rule_passes left (pass + 1) rules ans oU h' (clear_hidden ans oU h')"
      using False by (simp add: Let_def h'_def)
    show ?thesis
      using Suc.IH [OF h'(2) refl, of "pass + 1"] less Suc.prems(3) unfolding eq by linarith
  qed
qed simp

text \<open>
  C7. A rule set whose hide rules name at most nine targets always settles, in at most one pass
  more than it has such targets, for every set of answers without \<open>NaN\<close> (an answer comes from JSON
  or a form, which spell none). The pass limit can refuse only larger rule sets.
\<close>

theorem evaluateRules_settles:
  assumes "distinct (map fst ans)" and "\<forall>(k, v)\<in>set ans. v \<noteq> JNum NaN"
    and "card (hide_targets rules) \<le> 9"
  shows "refused (evaluateRules rules ans oU) = None
    \<and> passes (evaluateRules rules ans oU) \<le> 1 + card (hide_targets rules)"
proof -
  have "no_nan ans" using assms(2) by (auto simp: no_nan_def list_all_iff)
  moreover have "ans = clear_hidden ans oU []" by (simp add: clear_hidden_def)
  ultimately show ?thesis
    using rule_passes_settles [of ans "[]" rules ans oU 10 1] assms(1,3)
    by (simp add: evaluateRules_def MAX_RULE_PASSES_def)
qed

definition example_rule :: "string \<Rightarrow> string \<Rightarrow> string \<Rightarrow> string \<Rightarrow> jsval \<Rightarrow> rule" where
  "example_rule reads op acts target payload =
     \<lparr>rule_id = target, targetType = ''option'', targetId = target, action = acts, matchType = ''all'',
      conditions = [\<lparr>optionId = reads, operator = op, cond_value = JUndef\<rparr>], actionValue = payload\<rparr>"

lemma evaluateRules_settles_witness:
  "let rules = [example_rule ''a'' ''is_not_empty'' ''hide'' ''b'' JUndef,
       example_rule ''b'' ''is_empty'' ''hide'' ''c'' JUndef];
     ans = [(''a'', JStr ''x''), (''b'', JStr ''y''), (''c'', JStr ''z'')];
     oU = [(''b'', [''b'']), (''c'', [''c''])]
   in refused (evaluateRules rules ans oU) = None \<and> passes (evaluateRules rules ans oU) \<le> 3"
proof -
  let ?rules = "[example_rule ''a'' ''is_not_empty'' ''hide'' ''b'' JUndef,
    example_rule ''b'' ''is_empty'' ''hide'' ''c'' JUndef]"
  have "hide_targets ?rules = {''b'', ''c''}" by (simp add: hide_targets_def example_rule_def)
  then have "card (hide_targets ?rules) = 2" by simp
  then show ?thesis
    using evaluateRules_settles [of "[(''a'', JStr ''x''), (''b'', JStr ''y''), (''c'', JStr ''z'')]" ?rules]
    by (simp add: Let_def eval_nat_numeral)
qed

lemma firing_cong: "mset rules = mset rules' \<Longrightarrow> set (firing ans t rules) = set (firing ans t rules')"
  by (auto simp: firing_def dest: mset_eq_setD)

lemma entry_cong: "set rs = set rs' \<Longrightarrow> decided rs = decided rs' \<and> entry rs = entry rs'
    \<and> has_action a rs = has_action a rs'"
  by (simp add: decided_def entry_def effective_def has_action_def prices_def)

lemma rule_passes_order:
  assumes "mset rules = mset rules'" and "set h = set h'"
  shows "let o1 = rule_passes left pass rules ans oU h current;
             o2 = rule_passes left pass rules' ans oU h' current
         in passes o1 = passes o2 \<and> refused o1 = refused o2
            \<and> map_get (states o1) = map_get (states o2)"
  using assms(2)
proof (induction left arbitrary: pass h h' current)
  case (Suc left)
  note same = entry_cong [OF firing_cong [OF assms(1)]]
  let ?h = "collect_hidden (resolve rules current h) h"
  let ?h' = "collect_hidden (resolve rules' current h') h'"
  have h: "set ?h = set ?h'"
    using same Suc.prems by (simp add: set_collect_resolve)
  moreover have "map_get (resolve rules current h) = map_get (resolve rules' current h')"
    using same Suc.prems by (intro ext) (simp add: resolve_get Let_def)
  ultimately show ?case
    using Suc.IH [OF h] clear_hidden_cong [OF h] by (simp add: Let_def)
qed (simp add: Let_def)

text \<open>
  Evaluation does not depend on the order in which the rules arrive: any permutation gives the
  same state for every target, the same number of passes and the same refusal.
\<close>

theorem evaluateRules_order:
  assumes "mset rules = mset rules'"
  shows "passes (evaluateRules rules ans oU) = passes (evaluateRules rules' ans oU)
    \<and> refused (evaluateRules rules ans oU) = refused (evaluateRules rules' ans oU)
    \<and> map_get (states (evaluateRules rules ans oU)) t = map_get (states (evaluateRules rules' ans oU)) t"
  using rule_passes_order [OF assms refl, of MAX_RULE_PASSES 1 ans oU "[]" ans]
  by (simp add: evaluateRules_def Let_def)

lemma evaluateRules_order_witness:
  "let r1 = example_rule ''a'' ''is_not_empty'' ''set_price'' ''b'' (JObj [(''amountMinor'', JNum (Fin 500))]);
       r2 = example_rule ''a'' ''is_not_empty'' ''set_price'' ''b'' (JObj [(''amountMinor'', JNum (Fin 700))]);
       ans = [(''a'', JStr ''x'')]
   in map_get (states (evaluateRules [r1, r2] ans [])) ''b'' = map_get (states (evaluateRules [r2, r1] ans [])) ''b''"
  using evaluateRules_order [of
    "[example_rule ''a'' ''is_not_empty'' ''set_price'' ''b'' (JObj [(''amountMinor'', JNum (Fin 500))]),
      example_rule ''a'' ''is_not_empty'' ''set_price'' ''b'' (JObj [(''amountMinor'', JNum (Fin 700))])]"
    "[example_rule ''a'' ''is_not_empty'' ''set_price'' ''b'' (JObj [(''amountMinor'', JNum (Fin 700))]),
      example_rule ''a'' ''is_not_empty'' ''set_price'' ''b'' (JObj [(''amountMinor'', JNum (Fin 500))])]"]
  by (simp add: Let_def)

lemma rule_passes_fixed:
  assumes "distinct (map fst ans)" and "current = clear_hidden ans oU h"
    and "refused (rule_passes left pass rules ans oU h current) = None"
  shows "\<exists>h0. set h0 = {t. \<exists>s. map_get (states (rule_passes left pass rules ans oU h current)) t = Some s \<and> hidden s}
    \<and> map_get (states (rule_passes left pass rules ans oU h current))
      = map_get (resolve rules (clear_hidden ans oU h0) h0)"
  using assms(2,3)
proof (induction left arbitrary: pass h current)
  case (Suc left)
  let ?sts = "resolve rules current h"
  let ?h = "collect_hidden ?sts h"
  show ?case
  proof (cases "sameAnswers (clear_hidden ans oU ?h) current")
    case True
    have "clear_hidden ans oU ?h = current"
      using True clear_hidden_mono [of h ?h ans oU] sameAnswers_filter clear_hidden_distinct [OF assms(1)]
      by (simp add: Suc.prems(1) set_collect_hidden)
    moreover have "map_get ?sts t = map_get (resolve rules current ?h) t" for t
      by (auto simp: resolve_get Let_def set_collect_resolve entry_def effective_def decided_def)
    ultimately show ?thesis
      using True by (intro exI [of _ ?h]) (auto simp: Let_def hidden_of_resolve set_collect_resolve)
  next
    case False
    then show ?thesis using Suc.IH [OF refl] Suc.prems(2) by (simp add: Let_def)
  qed
qed simp

text \<open>
  A settled outcome is a fixed point: it is what one pass gives on the answers with every
  option under a hidden target removed, and no target it hides comes back.
\<close>

theorem evaluateRules_fixed_point:
  assumes "distinct (map fst ans)" and "refused (evaluateRules rules ans oU) = None"
  shows "\<exists>h. set h = {t. \<exists>s. map_get (states (evaluateRules rules ans oU)) t = Some s \<and> hidden s}
    \<and> (\<forall>t. map_get (states (evaluateRules rules ans oU)) t = map_get (resolve rules (clear_hidden ans oU h) h) t)"
proof -
  have "ans = clear_hidden ans oU []" by (simp add: clear_hidden_def)
  then obtain h where "set h = {t. \<exists>s. map_get (states (evaluateRules rules ans oU)) t = Some s \<and> hidden s}"
    and "map_get (states (evaluateRules rules ans oU)) = map_get (resolve rules (clear_hidden ans oU h) h)"
    using rule_passes_fixed [OF assms(1), of ans oU "[]" MAX_RULE_PASSES 1 rules] assms(2)
    unfolding evaluateRules_def by blast
  then show ?thesis by (intro exI [of _ h]) simp
qed

lemma evaluateRules_fixed_point_witness:
  "let rules = [example_rule ''a'' ''is_not_empty'' ''hide'' ''a'' JUndef];
     out = evaluateRules rules [(''a'', JStr ''x'')] [(''a'', [''a''])]
   in \<exists>h. set h = {t. \<exists>s. map_get (states out) t = Some s \<and> hidden s}
      \<and> (\<forall>t. map_get (states out) t = map_get (resolve rules (clear_hidden [(''a'', JStr ''x'')] [(''a'', [''a''])] h) h) t)"
proof -
  have "refused (evaluateRules [example_rule ''a'' ''is_not_empty'' ''hide'' ''a'' JUndef]
      [(''a'', JStr ''x'')] [(''a'', [''a''])]) = None"
    by code_simp
  then show ?thesis unfolding Let_def by (intro evaluateRules_fixed_point) simp_all
qed

section \<open>Conditions\<close>

lemma compareNumeric_None [simp]: "numericValue a = None \<Longrightarrow> \<not> compareNumeric a b f"
  by (simp add: compareNumeric_def)

lemma numericValue_unsupplied: "\<not> is_supplied v \<Longrightarrow> numericValue v = None"
proof -
  have "parse_decimal [] = None" by (simp add: parse_decimal_def parse_mantissa_def span_digits_def)
  then show "\<not> is_supplied v \<Longrightarrow> numericValue v = None"
    by (auto simp: is_supplied_def numericValue_def js_trim_def)
qed

text \<open>
  An option without an answer (missing, null, empty text or empty list) satisfies exactly the
  conditions that ask for absence: no comparison, membership or negated test holds for it. On an
  answered option, \<open>not_equals\<close> and \<open>not_in\<close> are the negations of \<open>equals\<close> and \<open>in\<close>.
\<close>

theorem conditionHolds_absence:
  "if \<not> is_supplied (answer_of ans (optionId c))
   then conditionHolds c ans \<longleftrightarrow> operator c = ''is_empty''
   else \<not> conditionHolds (c\<lparr>operator := ''is_empty''\<rparr>) ans
     \<and> (conditionHolds (c\<lparr>operator := ''not_equals''\<rparr>) ans \<longleftrightarrow> \<not> conditionHolds (c\<lparr>operator := ''equals''\<rparr>) ans)
     \<and> (conditionHolds (c\<lparr>operator := ''not_in''\<rparr>) ans \<longleftrightarrow> \<not> conditionHolds (c\<lparr>operator := ''in''\<rparr>) ans)"
  using numericValue_unsupplied [of "answer_of ans (optionId c)"]
  by (auto simp: conditionHolds_def Let_def)

end
