(* ===== verification/Cycle_Detection.thy ===== *)
theory Cycle_Detection
  imports Prelude
begin

text \<open>
  Cycle detection of the publish check (\<open>cycleIn\<close> in \<open>src/option-sets/publishing/publish-check.ts\<close>):
  an iterative depth-first search with an explicit stack of enter and exit steps, and the proof that
  it answers exactly whether the graph has a cycle. The stack is a list whose head is its top, so a
  push of several successors puts the last of them first.
\<close>

type_synonym graph = "(string, string js_set) js_map"

definition successors :: "graph \<Rightarrow> string \<Rightarrow> string list" where
  "successors edges n = (case map_get edges n of None \<Rightarrow> [] | Some s \<Rightarrow> s)"

definition graph_nodes :: "graph \<Rightarrow> string set" where
  "graph_nodes edges = (\<Union>(k, s)\<in>set edges. insert k (set s))"

lemma successors_nodes: "set (successors edges n) \<subseteq> graph_nodes edges"
proof (cases "map_of edges n")
  case (Some s)
  then have "(n, s) \<in> set edges" by (rule map_of_SomeD)
  then show ?thesis using Some by (force simp: successors_def graph_nodes_def map_get_def)
qed (simp add: successors_def map_get_def)

lemma finite_graph_nodes: "finite (graph_nodes edges)"
  by (auto simp: graph_nodes_def)

text \<open>The \<open>while\<close> loop: its flag is the answer \<open>true\<close>, its other results are the two sets.\<close>

function cycle_loop :: "graph \<Rightarrow> string js_set \<Rightarrow> string js_set \<Rightarrow> (string \<times> bool) list
    \<Rightarrow> bool \<times> string js_set \<times> string js_set" where
  "cycle_loop edges settled onPath [] = (False, settled, onPath)"
| "cycle_loop edges settled onPath ((node, enter) # stack) =
     (if \<not> enter then cycle_loop edges (set_add node settled) (removeAll node onPath) stack
      else if node \<in> set onPath then (True, settled, onPath)
      else if node \<in> set settled then cycle_loop edges settled onPath stack
      else cycle_loop edges settled (set_add node onPath)
        (rev (map (\<lambda>n. (n, True)) (filter (\<lambda>n. n \<notin> set settled) (successors edges node)))
          @ (node, False) # stack))"
  by pat_completeness auto

definition unvisited :: "graph \<Rightarrow> string js_set \<Rightarrow> string js_set \<Rightarrow> (string \<times> bool) list \<Rightarrow> string set" where
  "unvisited edges settled onPath stack = (graph_nodes edges \<union> fst ` set stack) - set settled - set onPath"

lemma finite_unvisited: "finite (unvisited edges settled onPath stack)"
  by (simp add: unvisited_def finite_graph_nodes)

termination cycle_loop
proof (relation "measures [\<lambda>(edges, settled, onPath, stack). card (unvisited edges settled onPath stack),
    \<lambda>(edges, settled, onPath, stack). length stack]", goal_cases)
  case (2 edges settled onPath node enter stack)
  have "unvisited edges (set_add node settled) (removeAll node onPath) stack
      \<subseteq> unvisited edges settled onPath ((node, enter) # stack)"
    by (auto simp: unvisited_def)
  then show ?case by (simp add: card_mono finite_unvisited le_imp_less_or_eq)
next
  case (3 edges settled onPath node enter stack)
  have "unvisited edges settled onPath stack \<subseteq> unvisited edges settled onPath ((node, enter) # stack)"
    by (auto simp: unvisited_def)
  then show ?case by (simp add: card_mono finite_unvisited le_imp_less_or_eq)
next
  case (4 edges settled onPath node enter stack)
  have "unvisited edges settled (set_add node onPath)
      (rev (map (\<lambda>n. (n, True)) (filter (\<lambda>n. n \<notin> set settled) (successors edges node))) @ (node, False) # stack)
      \<subset> unvisited edges settled onPath ((node, enter) # stack)"
    using 4 successors_nodes [of edges node] by (auto simp: unvisited_def)
  then show ?case by (simp add: psubset_card_mono finite_unvisited)
qed simp

text \<open>The loop over the start nodes: the keys of the map, in order.\<close>

fun cycle_starts :: "graph \<Rightarrow> string js_set \<Rightarrow> string js_set \<Rightarrow> string list \<Rightarrow> bool" where
  "cycle_starts edges settled onPath [] = False"
| "cycle_starts edges settled onPath (start # rest) =
     (if start \<in> set settled then cycle_starts edges settled onPath rest
      else case cycle_loop edges settled onPath [(start, True)] of
        (found, settled', onPath') \<Rightarrow>
          if found then True else cycle_starts edges settled' onPath' rest)"

definition cycleIn :: "graph \<Rightarrow> bool" where
  "cycleIn edges = cycle_starts edges [] [] (map_keys edges)"

section \<open>Correctness\<close>

definition edge_rel :: "graph \<Rightarrow> (string \<times> string) set" where
  "edge_rel edges = {(u, v). v \<in> set (successors edges u)}"

text \<open>The path of the search: its exit steps, deepest first.\<close>

definition exits :: "(string \<times> bool) list \<Rightarrow> string list" where
  "exits stack = map fst (filter (\<lambda>e. \<not> snd e) stack)"

lemma exits_simps [simp]:
  "exits [] = []" "exits ((v, True) # st) = exits st" "exits ((v, False) # st) = v # exits st"
  by (simp_all add: exits_def)

lemma exits_append [simp]: "exits (xs @ ys) = exits xs @ exits ys"
  by (simp add: exits_def)

lemma exits_enters [simp]: "exits (rev (map (\<lambda>n. (n, True)) ns)) = []"
  by (simp add: exits_def rev_map filter_map o_def flip: rev_filter)

text \<open>Every step on the stack was reached by an edge from the exit step below it.\<close>

fun linked :: "('a \<times> 'a) set \<Rightarrow> 'a list \<Rightarrow> 'a \<Rightarrow> bool" where
  "linked E [] v = True"
| "linked E (p # ps) v = ((p, v) \<in> E)"

fun wf_stack :: "(string \<times> string) set \<Rightarrow> (string \<times> bool) list \<Rightarrow> bool" where
  "wf_stack E [] = True"
| "wf_stack E ((v, e) # st) = (wf_stack E st \<and> linked E (exits st) v)"

text \<open>Every successor of a path node is settled or has a step above that node's exit.\<close>

fun covered :: "(string \<times> string) set \<Rightarrow> string set \<Rightarrow> string set \<Rightarrow> (string \<times> bool) list \<Rightarrow> bool" where
  "covered E S X [] = True"
| "covered E S X ((v, e) # st) = ((\<not> e \<longrightarrow> E `` {v} \<subseteq> S \<union> X) \<and> covered E S (insert v X) st)"

lemma covered_mono:
  "covered E S X st \<Longrightarrow> S \<union> X \<subseteq> S' \<union> X' \<Longrightarrow> covered E S' X' st"
proof (induction st arbitrary: X X')
  case (Cons e st)
  obtain v b where e: "e = (v, b)" by force
  have "S \<union> insert v X \<subseteq> S' \<union> insert v X'" using Cons.prems(2) by blast
  then show ?case using Cons.prems Cons.IH [of "insert v X" "insert v X'"] e by auto
qed simp

lemma covered_enters:
  "covered E S X (rev (map (\<lambda>n. (n, True)) ns) @ st) = covered E S (X \<union> set ns) st"
proof (induction ns arbitrary: X st rule: rev_induct)
  case (snoc n ns)
  then show ?case by (simp add: Un_insert_right)
qed simp

lemma wf_enters:
  "wf_stack E (rev (map (\<lambda>n. (n, True)) ns) @ st) \<longleftrightarrow> wf_stack E st \<and> (\<forall>n\<in>set ns. linked E (exits st) n)"
  by (induction ns rule: rev_induct) auto

text \<open>A set of settled nodes: closed under edges and on no cycle.\<close>

definition done_set :: "(string \<times> string) set \<Rightarrow> string set \<Rightarrow> bool" where
  "done_set E S = (E `` S \<subseteq> S \<and> (\<forall>v\<in>S. (v, v) \<notin> E\<^sup>+))"

lemma done_set_insert:
  assumes "done_set E S" and "E `` {p} \<subseteq> S" and "p \<notin> S"
  shows "done_set E (insert p S)"
proof -
  have closed: "E `` S \<subseteq> S" using assms(1) by (simp add: done_set_def)
  have stay: "(u, w) \<in> E\<^sup>+ \<Longrightarrow> u \<in> S \<Longrightarrow> w \<in> S" for u w
    by (induction rule: trancl_induct) (use closed in blast)+
  have "(p, p) \<notin> E\<^sup>+"
  proof
    assume "(p, p) \<in> E\<^sup>+"
    then obtain s where "(p, s) \<in> E" "s = p \<or> (s, p) \<in> E\<^sup>+" by (metis tranclD rtranclD)
    then show False using assms(2,3) stay by blast
  qed
  then show ?thesis using assms(1,2) by (auto simp: done_set_def)
qed

lemma path_trancl:
  assumes "wf_stack E st" and "v \<in> set (exits st)" and "linked E (exits st) w"
  shows "(v, w) \<in> E\<^sup>+"
  using assms
proof (induction st arbitrary: w)
  case (Cons e st)
  obtain u b where e: "e = (u, b)" by force
  show ?case
  proof (cases b)
    case True
    then show ?thesis using Cons e by simp
  next
    case False
    then have uw: "(u, w) \<in> E" using Cons.prems(3) e by simp
    show ?thesis
    proof (cases "v = u")
      case False
      then have "(v, u) \<in> E\<^sup>+" using Cons e \<open>\<not> b\<close> by simp
      then show ?thesis using uw by (rule trancl_into_trancl)
    qed (use uw in blast)
  qed
qed simp

text \<open>Soundness: a reported cycle exists.\<close>

lemma cycle_loop_sound:
  assumes "cycle_loop edges S A st = (True, S', A')"
    and "wf_stack (edge_rel edges) st" and "set A = set (exits st)"
    and "distinct (exits st)" and "set (exits st) \<inter> set S = {}"
  shows "\<exists>v. (v, v) \<in> (edge_rel edges)\<^sup>+"
  using assms
proof (induction edges S A st rule: cycle_loop.induct)
  case (2 edges settled onPath node enter stack)
  show ?case
  proof (cases enter)
    case False
    then show ?thesis using 2 by (intro "2.IH"(1)) auto
  next
    case True
    consider "node \<in> set onPath" | "node \<notin> set onPath" "node \<in> set settled"
      | "node \<notin> set onPath" "node \<notin> set settled" by blast
    then show ?thesis
    proof cases
      case 1
      then show ?thesis
        using True "2.prems" path_trancl [of "edge_rel edges" stack node node] by auto
    next
      case 2
      then show ?thesis using True "2.prems" by (intro "2.IH"(2)) auto
    next
      case 3
      then show ?thesis
        using True "2.prems" by (intro "2.IH"(3)) (auto simp: wf_enters edge_rel_def)
    qed
  qed
qed simp

text \<open>Completeness: a search that returns \<open>false\<close> settles every node it was given.\<close>

lemma cycle_loop_settles:
  "cycle_loop edges S A st = (False, S', A') \<Longrightarrow> set S \<subseteq> set S' \<and> fst ` set st \<subseteq> set S'"
  by (induction edges S A st rule: cycle_loop.induct) (auto split: if_splits)

lemma cycle_loop_done:
  assumes "cycle_loop edges S A st = (False, S', A')"
    and "covered (edge_rel edges) (set S) {} st" and "set A = set (exits st)"
    and "distinct (exits st)" and "set (exits st) \<inter> set S = {}"
    and "done_set (edge_rel edges) (set S)"
  shows "done_set (edge_rel edges) (set S') \<and> set A' = {}"
  using assms
proof (induction edges S A st rule: cycle_loop.induct)
  case (2 edges settled onPath node enter stack)
  let ?E = "edge_rel edges"
  show ?case
  proof (cases enter)
    case False
    have "covered ?E (set (set_add node settled)) {} stack"
      using "2.prems"(2) by (simp add: covered_mono [of ?E "set settled" "{node}"])
    moreover have "done_set ?E (set (set_add node settled))"
      using "2.prems" False by (auto intro: done_set_insert)
    ultimately show ?thesis using "2.prems" False by (intro "2.IH"(1)) auto
  next
    case True
    then have np: "node \<notin> set onPath" using "2.prems"(1) by (auto split: if_splits)
    show ?thesis
    proof (cases "node \<in> set settled")
      case set: True
      have "covered ?E (set settled) {} stack"
        using "2.prems"(2) set by (simp add: covered_mono [of ?E "set settled" "{node}"] insert_absorb)
      then show ?thesis using "2.prems" True np set by (intro "2.IH"(2)) auto
    next
      case new: False
      let ?ns = "filter (\<lambda>n. n \<notin> set settled) (successors edges node)"
      have "covered ?E (set settled) (insert node (set ?ns)) stack"
        using "2.prems"(2)
          covered_mono [of ?E "set settled" "{node}" stack "set settled" "insert node (set ?ns)"]
        by auto
      then have "covered ?E (set settled) {} (rev (map (\<lambda>n. (n, True)) ?ns) @ (node, False) # stack)"
        unfolding covered_enters by (auto simp: edge_rel_def)
      then show ?thesis using "2.prems" True np new by (intro "2.IH"(3)) auto
    qed
  qed
qed simp

lemma cycle_start_step:
  assumes "cycle_loop edges S [] [(k, True)] = (f, S', A')" and "done_set (edge_rel edges) (set S)"
  shows "f \<Longrightarrow> \<exists>v. (v, v) \<in> (edge_rel edges)\<^sup>+"
    and "\<not> f \<Longrightarrow> done_set (edge_rel edges) (set S') \<and> A' = [] \<and> set S \<subseteq> set S' \<and> k \<in> set S'"
proof -
  show "f \<Longrightarrow> \<exists>v. (v, v) \<in> (edge_rel edges)\<^sup>+"
    using cycle_loop_sound [of edges S "[]" "[(k, True)]" S' A'] assms by simp
  show "\<not> f \<Longrightarrow> done_set (edge_rel edges) (set S') \<and> A' = [] \<and> set S \<subseteq> set S' \<and> k \<in> set S'"
    using cycle_loop_done [of edges S "[]" "[(k, True)]" S' A']
      cycle_loop_settles [of edges S "[]" "[(k, True)]" S' A'] assms by simp
qed

lemma cycle_starts_correct:
  assumes "done_set (edge_rel edges) (set S)"
  shows "if cycle_starts edges S [] ks then \<exists>v. (v, v) \<in> (edge_rel edges)\<^sup>+
    else \<exists>S'. done_set (edge_rel edges) S' \<and> set S \<subseteq> S' \<and> set ks \<subseteq> S'"
  using assms
proof (induction ks arbitrary: S)
  case (Cons k ks)
  obtain f S1 A1 where r: "cycle_loop edges S [] [(k, True)] = (f, S1, A1)" by (metis prod_cases3)
  note step = cycle_start_step [OF r Cons.prems]
  show ?case
  proof (cases "k \<in> set S")
    case True
    then show ?thesis using Cons.IH [OF Cons.prems] by (auto split: if_splits simp del: cycle_loop.simps)
  next
    case new: False
    show ?thesis
    proof (cases f)
      case True
      then show ?thesis using step(1) new r by (simp del: cycle_loop.simps)
    next
      case False
      then have "cycle_starts edges S [] (k # ks) = cycle_starts edges S1 [] ks"
        using step(2) new r by (simp del: cycle_loop.simps)
      moreover have "set S \<subseteq> set S1" "k \<in> set S1" using step(2) False by simp_all
      ultimately show ?thesis using Cons.IH [of S1] step(2) False
        by (metis insert_subset list.set(2) subset_iff)
    qed
  qed
qed auto

lemma cycleIn_iff: "cycleIn edges \<longleftrightarrow> (\<exists>v. (v, v) \<in> (edge_rel edges)\<^sup>+)"
proof
  have d: "done_set (edge_rel edges) (set [])" by (simp add: done_set_def)
  note starts = cycle_starts_correct [OF d, of "map_keys edges", folded cycleIn_def]
  show "cycleIn edges \<Longrightarrow> \<exists>v. (v, v) \<in> (edge_rel edges)\<^sup>+" using starts by simp
  show "\<exists>v. (v, v) \<in> (edge_rel edges)\<^sup>+ \<Longrightarrow> cycleIn edges"
  proof (rule ccontr)
    assume "\<exists>v. (v, v) \<in> (edge_rel edges)\<^sup>+" and n: "\<not> cycleIn edges"
    then obtain v where v: "(v, v) \<in> (edge_rel edges)\<^sup>+" by blast
    then obtain w where "(v, w) \<in> edge_rel edges" by (metis tranclD)
    then have "map_get edges v \<noteq> None" by (cases "map_get edges v") (simp_all add: edge_rel_def successors_def)
    then have "v \<in> set (map_keys edges)" by (auto simp: jsm.set_keys)
    moreover obtain S' where "done_set (edge_rel edges) S'" "set (map_keys edges) \<subseteq> S'"
      using n starts by auto
    ultimately show False using v by (auto simp: done_set_def)
  qed
qed

text \<open>
  C33. The iterative search answers exactly whether the graph has a cycle, for every graph: it
  always ends, never reports a cycle in an acyclic graph and never misses one.
\<close>

theorem cycleIn_correct: "cycleIn edges \<longleftrightarrow> \<not> acyclic (edge_rel edges)"
  by (simp add: cycleIn_iff acyclic_def)

end
