(* ===== verification/Type_Registry.thy ===== *)
theory Type_Registry
  imports Js_Value
begin

text \<open>
  The registry of option types (\<open>src/option-sets/types/type-registry.ts\<close>): one entry per
  presentation with its three axes, whether it takes values, where a design lives and which
  option-level price it accepts. The zod schemas of validation and display are named, not modelled.
\<close>

datatype value_kind = TEXT | NUMBER | DATE | FILE | CHOICE
datatype cardinality = NONE | ONE | MANY
datatype design_carrier = CARRIES_NONE | CARRIES_VALUE | CARRIES_OPTION_TEXT
datatype pricing_schema = noTypeLevelPricing | textOptionPricing | numberOptionPricing

record option_type =
  presentation :: string
  valueKind :: value_kind
  cardinalities :: "cardinality list"
  takesValuesFlag :: bool
  designCarrier :: design_carrier
  pricingSchema :: pricing_schema

abbreviation choice_type :: "string \<Rightarrow> cardinality list \<Rightarrow> design_carrier \<Rightarrow> option_type" where
  "choice_type p cs d \<equiv> \<lparr>presentation = p, valueKind = CHOICE, cardinalities = cs,
     takesValuesFlag = True, designCarrier = d, pricingSchema = noTypeLevelPricing\<rparr>"

abbreviation input_type :: "string \<Rightarrow> value_kind \<Rightarrow> design_carrier \<Rightarrow> pricing_schema \<Rightarrow> option_type" where
  "input_type p k d s \<equiv> \<lparr>presentation = p, valueKind = k, cardinalities = [NONE],
     takesValuesFlag = False, designCarrier = d, pricingSchema = s\<rparr>"

definition DEFINITIONS :: "option_type list" where
  "DEFINITIONS =
    [choice_type ''radio'' [ONE] CARRIES_NONE,
     choice_type ''checkbox'' [ONE, MANY] CARRIES_NONE,
     choice_type ''color_swatch'' [ONE] CARRIES_VALUE,
     choice_type ''image_swatch'' [ONE] CARRIES_VALUE,
     choice_type ''dropdown'' [ONE] CARRIES_NONE,
     input_type ''text_field'' TEXT CARRIES_OPTION_TEXT textOptionPricing,
     input_type ''textarea'' TEXT CARRIES_OPTION_TEXT textOptionPricing,
     input_type ''number_field'' NUMBER CARRIES_NONE numberOptionPricing,
     input_type ''range'' NUMBER CARRIES_NONE numberOptionPricing,
     input_type ''quantity'' NUMBER CARRIES_NONE numberOptionPricing,
     input_type ''date_picker'' DATE CARRIES_NONE noTypeLevelPricing,
     input_type ''time_picker'' DATE CARRIES_NONE noTypeLevelPricing,
     input_type ''datetime_picker'' DATE CARRIES_NONE noTypeLevelPricing,
     input_type ''hidden'' TEXT CARRIES_NONE noTypeLevelPricing,
     input_type ''file_input'' FILE CARRIES_NONE noTypeLevelPricing]"

definition BY_PRESENTATION :: "(string, option_type) js_map" where
  "BY_PRESENTATION = fold (\<lambda>d. map_set (presentation d) d) DEFINITIONS []"

definition findType :: "string \<Rightarrow> option_type option" where
  "findType p = map_get BY_PRESENTATION p"

definition isRegistered :: "string \<Rightarrow> bool" where
  "isRegistered p = (p \<in> set (map_keys BY_PRESENTATION))"

definition designCarrierFor :: "string \<Rightarrow> design_carrier" where
  "designCarrierFor p = (case findType p of None \<Rightarrow> CARRIES_NONE | Some d \<Rightarrow> designCarrier d)"

definition valueCarriesDesign :: "string \<Rightarrow> bool" where
  "valueCarriesDesign p = (designCarrierFor p = CARRIES_VALUE)"

definition optionCarriesTextDesign :: "string \<Rightarrow> bool" where
  "optionCarriesTextDesign p = (designCarrierFor p = CARRIES_OPTION_TEXT)"

lemma registry_distinct: "distinct (map presentation DEFINITIONS)"
  by code_simp

lemma findType_iff: "findType p = Some d \<longleftrightarrow> d \<in> set DEFINITIONS \<and> presentation d = p"
proof -
  have "distinct (map presentation ds) \<Longrightarrow>
      map_get (fold (\<lambda>d. map_set (presentation d) d) ds m) p =
      (case List.find (\<lambda>d. presentation d = p) ds of None \<Rightarrow> map_get m p | Some d \<Rightarrow> Some d)"
    for ds and m :: "(string, option_type) js_map"
  proof (induction ds arbitrary: m)
    case (Cons e ds)
    then have "List.find (\<lambda>d. presentation d = presentation e) ds = None"
      by (auto simp: find_None_all image_iff)
    then show ?case using Cons by (auto simp: jsm.get_put split: option.split)
  qed simp
  then have "findType p = List.find (\<lambda>d. presentation d = p) DEFINITIONS"
    using registry_distinct by (simp add: findType_def BY_PRESENTATION_def split: option.split)
  moreover have "List.find (\<lambda>d. presentation d = p) ds = Some d \<longleftrightarrow> d \<in> set ds \<and> presentation d = p"
    if "distinct (map presentation ds)" for ds
    using that by (induction ds) auto
  ultimately show ?thesis using registry_distinct by simp
qed

lemma registry_all:
  "list_all P DEFINITIONS \<Longrightarrow> findType p = Some d \<Longrightarrow> P d"
  by (simp add: findType_iff list_all_iff)

end
