(* ===== verification/Publish_Check.thy ===== *)
theory Publish_Check
  imports Cycle_Detection Type_Registry "HOL-Library.List_Lexorder" "HOL-Library.Char_ord"
begin

text \<open>
  The pre-publish checks (\<open>src/option-sets/publishing/publish-check.ts\<close>): every validator as a
  function from the loaded set to its findings, and the run of all of them. Whether a pattern
  compiles (\<open>new RegExp\<close>) is the parameter \<open>regexp_ok\<close>; rows hold the columns the checks read.
\<close>

datatype publish_severity = BLOCKER | WARNING

record finding =
  severity :: publish_severity
  f_code :: string
  subject :: string
  message :: string

record value_row =
  val_id :: string
  val_isEnabled :: bool

record option_row =
  opt_id :: string
  opt_label :: string
  opt_presentation :: string
  opt_isEnabled :: bool
  opt_validation :: jsval
  opt_pricing :: jsval

record group_row =
  grp_id :: string
  grp_isEnabled :: bool

record option_node =
  node_option :: option_row
  node_values :: "value_row list"

record group_node =
  node_group :: group_row
  node_items :: "string list"
  node_options :: "option_node list"

record set_tree =
  set_id :: string
  set_name :: string
  tree_groups :: "group_node list"

record publish_rule =
  pr_id :: string
  pr_targetType :: string
  pr_targetId :: string
  pr_isEnabled :: bool
  pr_disabledReason :: "string option"
  pr_conditions :: jsval
  pr_matchType :: string
  pr_action :: string
  pr_actionValue :: jsval

record publish_context =
  ctx_tree :: set_tree
  ctx_rules :: "publish_rule list"
  ctx_assignments :: "string list"

definition quoted :: "string \<Rightarrow> string" where
  "quoted s = CHR 0x22 # s @ [CHR 0x22]"

definition takesValues :: "string \<Rightarrow> bool" where
  "takesValues p = (case findType p of None \<Rightarrow> False | Some d \<Rightarrow> takesValuesFlag d)"

definition live_values :: "option_node \<Rightarrow> value_row list" where
  "live_values n = filter val_isEnabled (node_values n)"

section \<open>Content\<close>

definition optionsHaveValues :: "publish_context \<Rightarrow> finding list" where
  "optionsHaveValues ctx = flat_map (\<lambda>g.
     if \<not> grp_isEnabled (node_group g) then []
     else flat_map (\<lambda>n. let opt = node_option n in
       if \<not> opt_isEnabled opt then []
       else if \<not> takesValues (opt_presentation opt) then []
       else if live_values n = [] then
         [\<lparr>severity = BLOCKER, f_code = ''OPTION_HAS_NO_VALUES'', subject = ''option:'' @ opt_id opt,
           message = quoted (opt_label opt) @ '' is a '' @ opt_presentation opt @
             '' with no values, so a customer would see an empty control.''\<rparr>]
       else []) (node_options g)) (tree_groups (ctx_tree ctx))"

definition rulesHaveTargets :: "publish_context \<Rightarrow> finding list" where
  "rulesHaveTargets ctx = map (\<lambda>r.
     \<lparr>severity = WARNING, f_code = ''RULE_TARGET_DELETED'', subject = ''rule:'' @ pr_id r,
      message = ''A rule was disabled because the option, group or value it targeted was deleted. ''
        @ ''It will not be published.''\<rparr>)
     (filter (\<lambda>r. pr_disabledReason r = Some ''target_deleted'') (ctx_rules ctx))"

fun everyConditionIsReadable :: "jsval \<Rightarrow> bool" where
  "everyConditionIsReadable (JArr cs) = list_all (\<lambda>c.
     c \<noteq> JNull \<and> \<not> is_array c \<and> js_typeof (js_get c ''optionId'') = ''string''
     \<and> js_typeof (js_get c ''operator'') = ''string'') cs"
| "everyConditionIsReadable _ = False"

definition ruleConditionsAreAList :: "publish_context \<Rightarrow> finding list" where
  "ruleConditionsAreAList ctx = map (\<lambda>r.
     \<lparr>severity = WARNING, f_code = ''RULE_CONDITIONS_MALFORMED'', subject = ''rule:'' @ pr_id r,
      message = ''A rule has one or more conditions in a shape this version cannot read, so it ''
        @ ''will not apply as written. Open it in the rule builder and save it again to '' @ ''repair it.''\<rparr>)
     (filter (\<lambda>r. pr_isEnabled r \<and> \<not> everyConditionIsReadable (pr_conditions r)) (ctx_rules ctx))"

definition setHasAssignments :: "publish_context \<Rightarrow> finding list" where
  "setHasAssignments ctx =
     (if ctx_assignments ctx \<noteq> [] then []
      else [\<lparr>severity = WARNING, f_code = ''SET_HAS_NO_ASSIGNMENT'', subject = ''set:'' @ set_id (ctx_tree ctx),
        message = quoted (set_name (ctx_tree ctx)) @ '' is not assigned to any product, so publishing it will not ''
          @ ''change any storefront.''\<rparr>])"

definition setHasContent :: "publish_context \<Rightarrow> finding list" where
  "setHasContent ctx =
     (let liveGroups = filter (\<lambda>g. grp_isEnabled (node_group g)) (tree_groups (ctx_tree ctx));
          liveOptions = flat_map (\<lambda>g. filter (\<lambda>n. opt_isEnabled (node_option n)) (node_options g)) liveGroups;
          liveItems = flat_map node_items liveGroups
      in if liveOptions \<noteq> [] \<or> liveItems \<noteq> [] then []
         else [\<lparr>severity = BLOCKER, f_code = ''SET_HAS_NO_OPTIONS'', subject = ''set:'' @ set_id (ctx_tree ctx),
           message = quoted (set_name (ctx_tree ctx)) @ '' has no enabled options or content, so there is nothing to publish.''\<rparr>])"

section \<open>Patterns\<close>

definition MAX_PATTERN_LENGTH :: nat where
  "MAX_PATTERN_LENGTH = 200"

text \<open>
  \<open>NESTED_QUANTIFIER\<close> at one position: an open parenthesis, text without a closing one that holds a
  quantifier character, the closing parenthesis, and after white space a star or plus, or (when
  the text holds a star or plus) an open-ended or bounded repetition \<open>{n,\<close>.
\<close>

fun open_repetition :: "string \<Rightarrow> bool" where
  "open_repetition (c # r) = (c = CHR ''{'' \<and> takeWhile is_digit r \<noteq> []
     \<and> (case dropWhile is_digit r of d # _ \<Rightarrow> d = CHR '','' | [] \<Rightarrow> False))"
| "open_repetition [] = False"

fun nested_at :: "string \<Rightarrow> bool" where
  "nested_at (c # r) = (c = CHR ''('' \<and>
     (let body = takeWhile (\<lambda>x. x \<noteq> CHR '')'') r;
          after = dropWhile (\<lambda>x. x \<noteq> CHR '')'') r
      in case after of
           [] \<Rightarrow> False
         | _ # tail \<Rightarrow>
             (let rest = dropWhile is_ws tail in
              (list_ex (\<lambda>x. x \<in> {CHR ''+'', CHR ''*'', CHR ''}''}) body
                 \<and> (case rest of q # _ \<Rightarrow> q = CHR ''+'' \<or> q = CHR ''*'' | [] \<Rightarrow> False))
              \<or> (list_ex (\<lambda>x. x \<in> {CHR ''+'', CHR ''*''}) body \<and> open_repetition rest))))"
| "nested_at [] = False"

fun NESTED_QUANTIFIER :: "string \<Rightarrow> bool" where
  "NESTED_QUANTIFIER [] = False"
| "NESTED_QUANTIFIER (c # r) = (nested_at (c # r) \<or> NESTED_QUANTIFIER r)"

definition pattern_finding :: "(string \<Rightarrow> bool) \<Rightarrow> option_row \<Rightarrow> finding list" where
  "pattern_finding regexp_ok opt =
     (if \<not> opt_isEnabled opt then []
      else case js_get (opt_validation opt) ''pattern'' of
        JStr pattern \<Rightarrow>
          (let about = (\<lambda>cd msg. [\<lparr>severity = BLOCKER, f_code = cd, subject = ''option:'' @ opt_id opt,
                 message = quoted (opt_label opt) @ msg\<rparr>])
           in if pattern = [] then []
              else if length pattern > MAX_PATTERN_LENGTH then about ''PATTERN_TOO_LONG''
                ('' has a validation pattern of '' @ show_nat (int (length pattern)) @ '' characters; ''
                  @ show_nat (int MAX_PATTERN_LENGTH) @ '' is the limit.'')
              else if \<not> regexp_ok pattern then about ''PATTERN_INVALID''
                '' has a validation pattern that is not a valid regular expression.''
              else if NESTED_QUANTIFIER pattern then about ''PATTERN_UNSAFE''
                ('' has a validation pattern with a repetition inside a repetition (such as ''
                  @ quoted ''(a+)+'' @ ''), which can take exponential time on input that does not match.'')
              else [])
      | _ \<Rightarrow> [])"

definition patternsAreSafe :: "(string \<Rightarrow> bool) \<Rightarrow> publish_context \<Rightarrow> finding list" where
  "patternsAreSafe regexp_ok ctx = flat_map (\<lambda>g.
     if \<not> grp_isEnabled (node_group g) then []
     else flat_map (\<lambda>n. pattern_finding regexp_ok (node_option n)) (node_options g))
     (tree_groups (ctx_tree ctx))"

section \<open>The ids of a set\<close>

record tree_ids =
  id_groups :: "string js_set"
  id_options :: "string js_set"
  id_values :: "string js_set"
  pub_groups :: "string js_set"
  pub_options :: "string js_set"
  pub_values :: "string js_set"
  optionsUnder :: "(string, string list) js_map"

definition ids_value :: "bool \<Rightarrow> string \<Rightarrow> value_row \<Rightarrow> tree_ids \<Rightarrow> tree_ids" where
  "ids_value optionPublishes oid v t =
     (let t = t\<lparr>id_values := set_add (val_id v) (id_values t),
                optionsUnder := map_set (val_id v) [oid] (optionsUnder t)\<rparr>
      in if optionPublishes \<and> val_isEnabled v
         then t\<lparr>pub_values := set_add (val_id v) (pub_values t)\<rparr> else t)"

definition ids_option :: "bool \<Rightarrow> option_node \<Rightarrow> tree_ids \<Rightarrow> tree_ids" where
  "ids_option groupEnabled n t =
     (let opt = node_option n;
          t = t\<lparr>id_options := set_add (opt_id opt) (id_options t),
                optionsUnder := map_set (opt_id opt) [opt_id opt] (optionsUnder t)\<rparr>;
          optionPublishes = (groupEnabled \<and> opt_isEnabled opt);
          t = (if optionPublishes then t\<lparr>pub_options := set_add (opt_id opt) (pub_options t)\<rparr> else t)
      in fold (ids_value optionPublishes (opt_id opt)) (node_values n) t)"

definition ids_group :: "group_node \<Rightarrow> tree_ids \<Rightarrow> tree_ids" where
  "ids_group g t =
     (let r = node_group g;
          t = t\<lparr>id_groups := set_add (grp_id r) (id_groups t),
                optionsUnder := map_set (grp_id r) (map (\<lambda>n. opt_id (node_option n)) (node_options g)) (optionsUnder t)\<rparr>;
          t = (if grp_isEnabled r then t\<lparr>pub_groups := set_add (grp_id r) (pub_groups t)\<rparr> else t)
      in fold (ids_option (grp_isEnabled r)) (node_options g) t)"

definition idsIn :: "set_tree \<Rightarrow> tree_ids" where
  "idsIn tree = fold ids_group (tree_groups tree)
     \<lparr>id_groups = [], id_options = [], id_values = [], pub_groups = [], pub_options = [], pub_values = [],
      optionsUnder = []\<rparr>"

section \<open>Targets\<close>

fun conditionOptionIds :: "jsval \<Rightarrow> string list" where
  "conditionOptionIds (JArr cs) = flat_map (\<lambda>c.
     if \<not> is_object c then [] else case js_get c ''optionId'' of JStr s \<Rightarrow> [s] | _ \<Rightarrow> []) cs"
| "conditionOptionIds _ = []"

definition holds_target :: "tree_ids \<Rightarrow> string \<Rightarrow> string \<Rightarrow> bool" where
  "holds_target t targetType i =
     (if targetType = ''group'' then i \<in> set (id_groups t)
      else if targetType = ''option'' then i \<in> set (id_options t)
      else if targetType = ''value'' then i \<in> set (id_values t)
      else False)"

definition willPublish :: "tree_ids \<Rightarrow> string \<Rightarrow> string \<Rightarrow> bool" where
  "willPublish t targetType i =
     (if targetType = ''group'' then i \<in> set (pub_groups t)
      else if targetType = ''option'' then i \<in> set (pub_options t)
      else if targetType = ''value'' then i \<in> set (pub_values t)
      else True)"

definition targetsThatWillNotPublish :: "tree_ids \<Rightarrow> publish_rule list \<Rightarrow> finding list" where
  "targetsThatWillNotPublish t rules = map (\<lambda>r.
     \<lparr>severity = WARNING, f_code = ''RULE_TARGET_NOT_PUBLISHED'', subject = ''rule:'' @ pr_id r,
      message = ''A rule acts on a '' @ pr_targetType r @ '' that is disabled, so it is left out of ''
        @ ''the published configuration and the rule will not fire. Re-enable it, or '' @ ''remove the rule.''\<rparr>)
     (filter (\<lambda>r. pr_isEnabled r \<and> pr_disabledReason r \<noteq> Some ''target_deleted''
        \<and> holds_target t (pr_targetType r) (pr_targetId r)
        \<and> \<not> willPublish t (pr_targetType r) (pr_targetId r)) rules)"

definition rule_target_findings :: "tree_ids \<Rightarrow> publish_rule \<Rightarrow> finding list" where
  "rule_target_findings t r =
     (if \<not> holds_target t (pr_targetType r) (pr_targetId r)
      then [\<lparr>severity = BLOCKER, f_code = ''RULE_TARGET_NOT_IN_SET'', subject = ''rule:'' @ pr_id r,
        message = ''A rule acts on a '' @ pr_targetType r @ '' that is not part of this option set, ''
          @ ''so it could never apply. Point it at something in this set, or delete it.''\<rparr>]
      else [])
     @ flat_map (\<lambda>oid. if oid \<in> set (id_options t) then []
         else [\<lparr>severity = BLOCKER, f_code = ''RULE_CONDITION_NOT_IN_SET'', subject = ''rule:'' @ pr_id r,
           message = ''A rule tests an option that is not part of this option set, so its ''
             @ ''condition could never be answered.''\<rparr>]) (conditionOptionIds (pr_conditions r))"

definition ruleTargetsAreInThisSet :: "publish_context \<Rightarrow> finding list" where
  "ruleTargetsAreInThisSet ctx =
     (let t = idsIn (ctx_tree ctx);
          live = filter (\<lambda>r. pr_disabledReason r \<noteq> Some ''target_deleted'') (ctx_rules ctx)
      in flat_map (rule_target_findings t) live @ targetsThatWillNotPublish t (ctx_rules ctx))"

section \<open>Cycles\<close>

definition ANSWER_AFFECTING_ACTIONS :: "string list" where
  "ANSWER_AFFECTING_ACTIONS = [''hide'']"

definition add_edge :: "string \<Rightarrow> string \<Rightarrow> graph \<Rightarrow> graph" where
  "add_edge readOption affectedOption edges =
     (if affectedOption = readOption then edges
      else case map_get edges readOption of
        Some bucket \<Rightarrow> map_set readOption (set_add affectedOption bucket) edges
      | None \<Rightarrow> map_set readOption [affectedOption] edges)"

definition rule_edges :: "tree_ids \<Rightarrow> publish_rule \<Rightarrow> graph \<Rightarrow> graph" where
  "rule_edges t r edges =
     (let affected = (case map_get (optionsUnder t) (pr_targetId r) of None \<Rightarrow> [] | Some os \<Rightarrow> os)
      in fold (\<lambda>readOption. fold (add_edge readOption) affected) (conditionOptionIds (pr_conditions r)) edges)"

definition rulesHaveNoCycles :: "publish_context \<Rightarrow> finding list" where
  "rulesHaveNoCycles ctx =
     (let t = idsIn (ctx_tree ctx);
          edges = fold (rule_edges t)
            (filter (\<lambda>r. pr_isEnabled r \<and> pr_action r \<in> set ANSWER_AFFECTING_ACTIONS) (ctx_rules ctx)) []
      in if cycleIn edges
         then [\<lparr>severity = BLOCKER, f_code = ''RULES_FORM_A_CYCLE'', subject = ''set:'' @ set_id (ctx_tree ctx),
           message = ''Two or more rules depend on each other in a loop, so the options they ''
             @ ''control can never settle. Remove one of the conditions that closes the loop.''\<rparr>]
         else [])"

section \<open>Prices set by rules\<close>

definition OPTION_LEVEL_PRICE_TYPES :: "string list" where
  "OPTION_LEVEL_PRICE_TYPES = [''per_char'', ''per_unit'', ''tiered'']"

definition option_pricing_of :: "option_row \<Rightarrow> (string, string) js_map \<Rightarrow> (string, string) js_map" where
  "option_pricing_of opt m = (case js_get (opt_pricing opt) ''type'' of
       JStr type \<Rightarrow> if type \<in> set OPTION_LEVEL_PRICE_TYPES then map_set (opt_id opt) type m else m
     | _ \<Rightarrow> m)"

definition setPriceDoesNotFightOptionPricing :: "publish_context \<Rightarrow> finding list" where
  "setPriceDoesNotFightOptionPricing ctx =
     (let optionPricing = fold (\<lambda>g. fold (\<lambda>n. option_pricing_of (node_option n)) (node_options g))
            (tree_groups (ctx_tree ctx)) []
      in flat_map (\<lambda>r. case map_get optionPricing (pr_targetId r) of
           None \<Rightarrow> []
         | Some type \<Rightarrow>
             if pr_targetType r \<noteq> ''option'' then []
             else [\<lparr>severity = BLOCKER, f_code = ''SET_PRICE_OVERRIDES_OPTION_PRICING'', subject = ''rule:'' @ pr_id r,
               message = ''A rule sets a flat price on an option priced by '' @ type @ '', which charges ''
                 @ ''by what the customer supplies. The rule would replace that rate with one ''
                 @ ''amount for every customer. Point the rule at a value, or remove it.''\<rparr>])
         (filter (\<lambda>r. pr_isEnabled r \<and> pr_action r = ''set_price'') (ctx_rules ctx)))"

definition PAYLOAD_ACTIONS :: "string list" where
  "PAYLOAD_ACTIONS = [''set_price'']"

type_synonym payload_map = "(string, (string, string) js_map) js_map"

definition payload_key :: "publish_rule \<Rightarrow> string" where
  "payload_key r = pr_action r @ '':'' @ pr_targetId r"

definition add_payload :: "publish_rule \<Rightarrow> payload_map \<Rightarrow> payload_map" where
  "add_payload r payloads =
     (let key = payload_key r;
          bucket = (case map_get payloads key of None \<Rightarrow> [] | Some b \<Rightarrow> b)
      in map_set key (map_set (stringify (pr_actionValue r)) (pr_id r) bucket) payloads)"

definition payload_finding :: "string \<Rightarrow> (string, string) js_map \<Rightarrow> finding list" where
  "payload_finding key bucket =
     (if length bucket < 2 then []
      else let parts = split_on (CHR '':'') key;
               action = hd parts;
               target = (case tl parts of t # _ \<Rightarrow> t | [] \<Rightarrow> ''undefined'')
      in [\<lparr>severity = BLOCKER, f_code = ''RULE_PAYLOADS_CONFLICT'', subject = ''option:'' @ target,
        message = ''Two or more rules set a different '' @ (if action = ''set_price'' then ''price'' else ''default'')
          @ '' on the same thing (rules '' @ join '', '' (sort (map snd bucket)) @ ''). There is no ''
          @ ''rule about which should win, so one of them must change or be removed.''\<rparr>])"

definition rulePayloadsDoNotConflict :: "publish_context \<Rightarrow> finding list" where
  "rulePayloadsDoNotConflict ctx =
     flat_map (\<lambda>(key, bucket). payload_finding key bucket)
       (fold add_payload (filter (\<lambda>r. pr_isEnabled r \<and> pr_action r \<in> set PAYLOAD_ACTIONS
          \<and> js_truthy (pr_actionValue r)) (ctx_rules ctx)) [])"

section \<open>Minimums\<close>

definition readMinimum :: "jsval \<Rightarrow> jsnum option" where
  "readMinimum validation = (case js_get validation ''minSelections'' of
       JNum n \<Rightarrow> if is_integer_num n \<and> js_lt (Fin 0) n then Some n else None
     | _ \<Rightarrow> None)"

definition hideable_values :: "publish_rule list \<Rightarrow> string js_set" where
  "hideable_values rules = fold (\<lambda>r. set_add (pr_targetId r))
     (filter (\<lambda>r. pr_targetType r = ''value'' \<and> pr_action r \<in> set ANSWER_AFFECTING_ACTIONS)
       (filter (\<lambda>r. pr_disabledReason r \<noteq> Some ''target_deleted'') rules)) []"

abbreviation count_num :: "'a list \<Rightarrow> jsnum" where
  "count_num xs \<equiv> Fin (of_nat (length xs))"

definition minimum_finding :: "string js_set \<Rightarrow> option_node \<Rightarrow> finding list" where
  "minimum_finding hideable n =
     (let opt = node_option n in
      if \<not> opt_isEnabled opt \<or> \<not> takesValues (opt_presentation opt) then []
      else case readMinimum (opt_validation opt) of
        None \<Rightarrow> []
      | Some minimum \<Rightarrow>
         (let live = live_values n;
              reachable = filter (\<lambda>v. val_id v \<notin> set hideable) live;
              blamesRules = js_le minimum (count_num live)
          in if js_le minimum (count_num reachable) then []
             else [\<lparr>severity = BLOCKER, f_code = ''SELECTION_MINIMUM_UNREACHABLE'', subject = ''option:'' @ opt_id opt,
               message = (if blamesRules
                 then quoted (opt_label opt) @ '' asks for at least '' @ num_to_string minimum
                   @ '' choices, but rules can hide all but '' @ show_nat (int (length reachable))
                   @ '' of them. A customer who met those rules could not add this ''
                   @ ''product to their cart at all. Lower the minimum, or narrow what the rules hide.''
                 else quoted (opt_label opt) @ '' asks for at least '' @ num_to_string minimum
                   @ '' choices but only has '' @ show_nat (int (length live))
                   @ ''. No customer could ever answer it, so this product could not ''
                   @ ''be added to a cart. Lower the minimum, or add more choices.'')\<rparr>]))"

definition selectionMinimumsAreReachable :: "publish_context \<Rightarrow> finding list" where
  "selectionMinimumsAreReachable ctx =
     (let hideable = hideable_values (ctx_rules ctx) in
      flat_map (\<lambda>g. if \<not> grp_isEnabled (node_group g) then []
        else flat_map (minimum_finding hideable) (node_options g)) (tree_groups (ctx_tree ctx)))"

section \<open>The run\<close>

definition PUBLISH_VALIDATORS :: "(string \<Rightarrow> bool) \<Rightarrow> (publish_context \<Rightarrow> finding list) list" where
  "PUBLISH_VALIDATORS regexp_ok =
     [setHasContent, optionsHaveValues, rulesHaveTargets, ruleTargetsAreInThisSet, rulesHaveNoCycles,
      setPriceDoesNotFightOptionPricing, rulePayloadsDoNotConflict, ruleConditionsAreAList,
      selectionMinimumsAreReachable, setHasAssignments, patternsAreSafe regexp_ok]"

definition runPublishChecks :: "publish_context \<Rightarrow> (publish_context \<Rightarrow> finding list) list \<Rightarrow> finding list" where
  "runPublishChecks ctx validators = flat_map (\<lambda>validate. validate ctx) validators"

definition hasBlockers :: "finding list \<Rightarrow> bool" where
  "hasBlockers fs = list_ex (\<lambda>f. severity f = BLOCKER) fs"

end
