(* ===== verification/Publish_Correct.thy ===== *)
theory Publish_Correct
  imports Publish_Check
begin

text \<open>
  Correctness of the publish gate: the ids of a set are those of its tree, the cycle check decides
  cyclicity of the dependency relation between options, and a set without blockers has content,
  answerable options, rules that stay inside the set, safe patterns and reachable minimums.
\<close>

text \<open>
  The registry is consistent: a registered type takes values exactly when it is a choice, which
  is exactly when its cardinality is not none; values carry designs only where there are values;
  and an option-level price exists exactly for types that produce text the customer types or a number.
\<close>

theorem registry_axes:
  assumes "findType p = Some d"
  shows "(takesValuesFlag d \<longleftrightarrow> valueKind d = CHOICE) \<and> (takesValuesFlag d \<longleftrightarrow> NONE \<notin> set (cardinalities d))
    \<and> \<not> (valueCarriesDesign p \<and> \<not> takesValues p)
    \<and> (optionCarriesTextDesign p \<longleftrightarrow> pricingSchema d = textOptionPricing)
    \<and> (pricingSchema d = numberOptionPricing \<longleftrightarrow> valueKind d = NUMBER)"
proof -
  let ?ok = "\<lambda>d. (takesValuesFlag d \<longleftrightarrow> valueKind d = CHOICE) \<and> (takesValuesFlag d \<longleftrightarrow> NONE \<notin> set (cardinalities d))
    \<and> \<not> (designCarrier d = CARRIES_VALUE \<and> \<not> takesValuesFlag d)
    \<and> (designCarrier d = CARRIES_OPTION_TEXT \<longleftrightarrow> pricingSchema d = textOptionPricing)
    \<and> (pricingSchema d = numberOptionPricing \<longleftrightarrow> valueKind d = NUMBER)"
  have "list_all ?ok DEFINITIONS" by (simp add: DEFINITIONS_def)
  then have "?ok d" using assms by (rule registry_all)
  then show ?thesis
    using assms by (auto simp: valueCarriesDesign_def optionCarriesTextDesign_def designCarrierFor_def takesValues_def)
qed

lemma registry_axes_witness:
  "\<exists>d. findType ''image_swatch'' = Some d \<and> takesValuesFlag d \<and> valueKind d = CHOICE"
proof -
  have d: "findType ''image_swatch'' = Some (choice_type ''image_swatch'' [ONE] CARRIES_VALUE)"
    by (simp add: findType_iff DEFINITIONS_def)
  show ?thesis using registry_axes [OF d] d by simp
qed

section \<open>The ids of the tree\<close>

lemma ids_value_sel [simp]:
  "id_groups (ids_value b i v t) = id_groups t"
  "id_options (ids_value b i v t) = id_options t"
  "set (id_values (ids_value b i v t)) = insert (val_id v) (set (id_values t))"
  "pub_groups (ids_value b i v t) = pub_groups t"
  "pub_options (ids_value b i v t) = pub_options t"
  by (simp_all add: ids_value_def Let_def)

lemma ids_values_sel [simp]:
  "id_groups (fold (ids_value b i) vs t) = id_groups t"
  "id_options (fold (ids_value b i) vs t) = id_options t"
  "set (id_values (fold (ids_value b i) vs t)) = set (id_values t) \<union> val_id ` set vs"
  by (induction vs arbitrary: t) auto

lemma ids_option_sel [simp]:
  "id_groups (ids_option b n t) = id_groups t"
  "set (id_options (ids_option b n t)) = insert (opt_id (node_option n)) (set (id_options t))"
  "set (id_values (ids_option b n t)) = set (id_values t) \<union> val_id ` set (node_values n)"
  by (simp_all add: ids_option_def Let_def)

lemma ids_options_sel [simp]:
  "id_groups (fold (ids_option b) ns t) = id_groups t"
  "set (id_options (fold (ids_option b) ns t)) = set (id_options t) \<union> (\<lambda>n. opt_id (node_option n)) ` set ns"
  "set (id_values (fold (ids_option b) ns t)) = set (id_values t) \<union> (\<Union>n\<in>set ns. val_id ` set (node_values n))"
  by (induction ns arbitrary: t) auto

lemma ids_group_sel [simp]:
  "set (id_groups (ids_group g t)) = insert (grp_id (node_group g)) (set (id_groups t))"
  "set (id_options (ids_group g t)) = set (id_options t) \<union> (\<lambda>n. opt_id (node_option n)) ` set (node_options g)"
  "set (id_values (ids_group g t)) = set (id_values t) \<union> (\<Union>n\<in>set (node_options g). val_id ` set (node_values n))"
  by (simp_all add: ids_group_def Let_def)

lemma idsIn_sets:
  "set (id_groups (idsIn tree)) = (\<lambda>g. grp_id (node_group g)) ` set (tree_groups tree)"
  "set (id_options (idsIn tree)) = {opt_id (node_option n) |g n. g \<in> set (tree_groups tree) \<and> n \<in> set (node_options g)}"
  "set (id_values (idsIn tree)) = {val_id v |g n v. g \<in> set (tree_groups tree) \<and> n \<in> set (node_options g) \<and> v \<in> set (node_values n)}"
proof -
  have "set (id_groups (fold ids_group gs t)) = set (id_groups t) \<union> (\<lambda>g. grp_id (node_group g)) ` set gs"
    "set (id_options (fold ids_group gs t)) = set (id_options t) \<union> (\<Union>g\<in>set gs. (\<lambda>n. opt_id (node_option n)) ` set (node_options g))"
    "set (id_values (fold ids_group gs t)) = set (id_values t) \<union> (\<Union>g\<in>set gs. \<Union>n\<in>set (node_options g). val_id ` set (node_values n))"
    for gs t by (induction gs arbitrary: t) auto
  then show
    "set (id_groups (idsIn tree)) = (\<lambda>g. grp_id (node_group g)) ` set (tree_groups tree)"
    "set (id_options (idsIn tree)) = {opt_id (node_option n) |g n. g \<in> set (tree_groups tree) \<and> n \<in> set (node_options g)}"
    "set (id_values (idsIn tree)) = {val_id v |g n v. g \<in> set (tree_groups tree) \<and> n \<in> set (node_options g) \<and> v \<in> set (node_values n)}"
    by (auto simp: idsIn_def)
qed

section \<open>Cycles\<close>

text \<open>Option \<open>a\<close> reaches \<open>b\<close>: an enabled hide rule reads \<open>a\<close> and its target contains \<open>b\<close>.\<close>

definition depends :: "publish_context \<Rightarrow> (string \<times> string) set" where
  "depends ctx = {(a, b). a \<noteq> b \<and> (\<exists>r\<in>set (ctx_rules ctx). pr_isEnabled r \<and> pr_action r = ''hide''
     \<and> a \<in> set (conditionOptionIds (pr_conditions r))
     \<and> (\<exists>os. map_get (optionsUnder (idsIn (ctx_tree ctx))) (pr_targetId r) = Some os \<and> b \<in> set os))}"

lemma add_edge_rel:
  "edge_rel (add_edge a b edges) = edge_rel edges \<union> (if b = a then {} else {(a, b)})"
  by (auto simp: add_edge_def edge_rel_def successors_def jsm.get_put split: option.splits if_splits)

lemma fold_edge_rel:
  assumes "\<And>x e. edge_rel (f x e) = edge_rel e \<union> R x"
  shows "edge_rel (fold f xs e) = edge_rel e \<union> (\<Union>x\<in>set xs. R x)"
  by (induction xs arbitrary: e) (auto simp: assms)

lemma rule_edges_rel:
  "edge_rel (rule_edges t r edges) = edge_rel edges \<union>
     {(a, b). a \<noteq> b \<and> a \<in> set (conditionOptionIds (pr_conditions r))
        \<and> (\<exists>os. map_get (optionsUnder t) (pr_targetId r) = Some os \<and> b \<in> set os)}"
proof -
  have 1: "edge_rel (fold (add_edge a) bs e) = edge_rel e \<union> (\<Union>b\<in>set bs. if b = a then {} else {(a, b)})"
    for a bs e by (rule fold_edge_rel) (rule add_edge_rel)
  have 2: "edge_rel (fold (\<lambda>a. fold (add_edge a) bs) as e) =
      edge_rel e \<union> (\<Union>a\<in>set as. \<Union>b\<in>set bs. if b = a then {} else {(a, b)})"
    for as bs e by (rule fold_edge_rel) (rule 1)
  have 3: "fold (\<lambda>_. id) xs e = e" for xs :: "string list" and e :: graph by (induction xs) auto
  show ?thesis
    by (cases "map_get (optionsUnder t) (pr_targetId r)") (auto simp: rule_edges_def Let_def 2 3 split: if_splits)
qed

lemma cycle_check_iff:
  "hasBlockers (rulesHaveNoCycles ctx) \<longleftrightarrow> (\<exists>v. (v, v) \<in> (depends ctx)\<^sup>+)"
proof -
  let ?t = "idsIn (ctx_tree ctx)"
  let ?rs = "filter (\<lambda>r. pr_isEnabled r \<and> pr_action r \<in> set ANSWER_AFFECTING_ACTIONS) (ctx_rules ctx)"
  let ?edges = "fold (rule_edges ?t) ?rs []"
  have "edge_rel [] = {}" by (simp add: edge_rel_def successors_def)
  then have "edge_rel ?edges = depends ctx"
    using fold_edge_rel [of "rule_edges ?t", OF rule_edges_rel, of ?rs "[]"]
    by (auto simp: depends_def ANSWER_AFFECTING_ACTIONS_def)
  moreover have "hasBlockers (rulesHaveNoCycles ctx) \<longleftrightarrow> cycleIn ?edges"
    by (simp add: rulesHaveNoCycles_def Let_def hasBlockers_def)
  ultimately show ?thesis by (simp add: cycleIn_iff)
qed

text \<open>
  The cycle check blocks exactly when options depend on each other in a loop: the transitive
  closure of "an enabled hide rule reads this option and its target contains that other one" relates
  some option to itself. A rule that hides the option it reads is no loop.
\<close>

theorem rulesHaveNoCycles_iff:
  "rulesHaveNoCycles ctx = [] \<longleftrightarrow> (\<forall>v. (v, v) \<notin> (depends ctx)\<^sup>+)"
  using cycle_check_iff [of ctx] by (auto simp: rulesHaveNoCycles_def Let_def hasBlockers_def split: if_splits)

section \<open>What a set without blockers satisfies\<close>

lemma hasBlockers_simps [simp]:
  "\<not> hasBlockers []"
  "hasBlockers (f # fs) \<longleftrightarrow> severity f = BLOCKER \<or> hasBlockers fs"
  "hasBlockers (fs @ gs) \<longleftrightarrow> hasBlockers fs \<or> hasBlockers gs"
  by (auto simp: hasBlockers_def)

lemma hasBlockers_flat_map [simp]: "hasBlockers (flat_map f xs) \<longleftrightarrow> (\<exists>x\<in>set xs. hasBlockers (f x))"
  by (induction xs) auto

lemma hasBlockers_warnings: "(\<And>x. severity (f x) = WARNING) \<Longrightarrow> \<not> hasBlockers (map f xs)"
  by (induction xs) auto

lemma runPublishChecks_blockers:
  "hasBlockers (runPublishChecks ctx vs) \<longleftrightarrow> (\<exists>v\<in>set vs. hasBlockers (v ctx))"
  by (simp add: runPublishChecks_def)

lemma setHasContent_iff:
  "\<not> hasBlockers (setHasContent ctx) \<longleftrightarrow>
     (\<exists>g\<in>set (tree_groups (ctx_tree ctx)). grp_isEnabled (node_group g)
        \<and> ((\<exists>n\<in>set (node_options g). opt_isEnabled (node_option n)) \<or> node_items g \<noteq> []))"
  by (auto simp: setHasContent_def Let_def filter_empty_conv)

text \<open>The live options of a set: enabled, in an enabled group.\<close>

definition live_options :: "publish_context \<Rightarrow> option_node set" where
  "live_options ctx = {n. \<exists>g\<in>set (tree_groups (ctx_tree ctx)). grp_isEnabled (node_group g)
     \<and> n \<in> set (node_options g) \<and> opt_isEnabled (node_option n)}"

lemma optionsHaveValues_iff:
  "\<not> hasBlockers (optionsHaveValues ctx) \<longleftrightarrow>
     (\<forall>n\<in>live_options ctx. takesValues (opt_presentation (node_option n)) \<longrightarrow> live_values n \<noteq> [])"
  by (auto simp: optionsHaveValues_def live_options_def Let_def)

text \<open>The target of a rule is a group, option or value of the set.\<close>

definition target_in_set :: "publish_context \<Rightarrow> publish_rule \<Rightarrow> bool" where
  "target_in_set ctx r = (let gs = set (tree_groups (ctx_tree ctx)); t = pr_targetType r; i = pr_targetId r in
     if t = ''group'' then \<exists>g\<in>gs. i = grp_id (node_group g)
     else if t = ''option'' then \<exists>g\<in>gs. \<exists>n\<in>set (node_options g). i = opt_id (node_option n)
     else t = ''value'' \<and> (\<exists>g\<in>gs. \<exists>n\<in>set (node_options g). \<exists>v\<in>set (node_values n). i = val_id v))"

lemma holds_target_iff:
  "holds_target (idsIn (ctx_tree ctx)) (pr_targetType r) (pr_targetId r) \<longleftrightarrow> target_in_set ctx r"
  unfolding holds_target_def target_in_set_def idsIn_sets Let_def image_iff mem_Collect_eq by auto

definition option_in_set :: "publish_context \<Rightarrow> string \<Rightarrow> bool" where
  "option_in_set ctx i = (\<exists>g\<in>set (tree_groups (ctx_tree ctx)). \<exists>n\<in>set (node_options g). opt_id (node_option n) = i)"

lemma ruleTargets_iff:
  "\<not> hasBlockers (ruleTargetsAreInThisSet ctx) \<longleftrightarrow>
     (\<forall>r\<in>set (ctx_rules ctx). pr_disabledReason r \<noteq> Some ''target_deleted'' \<longrightarrow>
        target_in_set ctx r \<and> (\<forall>i\<in>set (conditionOptionIds (pr_conditions r)). option_in_set ctx i))"
proof -
  have opt: "i \<in> set (id_options (idsIn (ctx_tree ctx))) \<longleftrightarrow> option_in_set ctx i" for i
    by (auto simp: idsIn_sets option_in_set_def)
  have no: "\<not> hasBlockers (targetsThatWillNotPublish t rs)" for t rs
    unfolding targetsThatWillNotPublish_def by (rule hasBlockers_warnings) simp
  have "hasBlockers (rule_target_findings (idsIn (ctx_tree ctx)) r) \<longleftrightarrow>
      \<not> (target_in_set ctx r \<and> (\<forall>i\<in>set (conditionOptionIds (pr_conditions r)). option_in_set ctx i))" for r
    by (simp add: rule_target_findings_def holds_target_iff opt)
  then show ?thesis by (auto simp: ruleTargetsAreInThisSet_def Let_def no)
qed

text \<open>The values of an option that no hide rule can remove.\<close>

definition safe_values :: "publish_context \<Rightarrow> option_node \<Rightarrow> value_row list" where
  "safe_values ctx n = filter (\<lambda>v. \<not> (\<exists>r\<in>set (ctx_rules ctx). pr_disabledReason r \<noteq> Some ''target_deleted''
     \<and> pr_targetType r = ''value'' \<and> pr_action r = ''hide'' \<and> pr_targetId r = val_id v)) (live_values n)"

lemma set_hideable: "i \<in> set (hideable_values rs) \<longleftrightarrow> (\<exists>r\<in>set rs.
    pr_disabledReason r \<noteq> Some ''target_deleted'' \<and> pr_targetType r = ''value'' \<and> pr_action r = ''hide''
    \<and> pr_targetId r = i)"
proof -
  have "set (fold (\<lambda>r. set_add (pr_targetId r)) rs h) = pr_targetId ` set rs \<union> set h" for rs :: "publish_rule list" and h
    by (induction rs arbitrary: h) auto
  then show ?thesis by (auto simp: hideable_values_def ANSWER_AFFECTING_ACTIONS_def)
qed

lemma minimums_iff:
  "\<not> hasBlockers (selectionMinimumsAreReachable ctx) \<longleftrightarrow>
     (\<forall>n\<in>live_options ctx. takesValues (opt_presentation (node_option n)) \<longrightarrow>
        (\<forall>m. readMinimum (opt_validation (node_option n)) = Some m \<longrightarrow> js_le m (count_num (safe_values ctx n))))"
proof -
  have "filter (\<lambda>v. val_id v \<notin> set (hideable_values (ctx_rules ctx))) (live_values n) = safe_values ctx n" for n
    by (simp add: safe_values_def set_hideable)
  then have "hasBlockers (minimum_finding (hideable_values (ctx_rules ctx)) n) \<longleftrightarrow>
      opt_isEnabled (node_option n) \<and> takesValues (opt_presentation (node_option n))
      \<and> (\<exists>m. readMinimum (opt_validation (node_option n)) = Some m \<and> \<not> js_le m (count_num (safe_values ctx n)))" for n
    by (cases "readMinimum (opt_validation (node_option n))") (auto simp: minimum_finding_def Let_def)
  then show ?thesis by (auto simp: selectionMinimumsAreReachable_def Let_def live_options_def)
qed

lemma patterns_iff:
  "\<not> hasBlockers (patternsAreSafe regexp_ok ctx) \<longleftrightarrow>
     (\<forall>n\<in>live_options ctx. \<forall>p. js_get (opt_validation (node_option n)) ''pattern'' = JStr p \<longrightarrow>
        p = [] \<or> (length p \<le> 200 \<and> regexp_ok p \<and> \<not> NESTED_QUANTIFIER p))"
proof -
  have "hasBlockers (pattern_finding regexp_ok opt) \<longleftrightarrow> opt_isEnabled opt \<and>
      (\<exists>p. js_get (opt_validation opt) ''pattern'' = JStr p \<and>
         \<not> (p = [] \<or> (length p \<le> 200 \<and> regexp_ok p \<and> \<not> NESTED_QUANTIFIER p)))" for opt
    by (auto simp: pattern_finding_def Let_def MAX_PATTERN_LENGTH_def split: jsval.split)
  then show ?thesis by (auto simp: patternsAreSafe_def live_options_def)
qed

text \<open>An option of the set that carries a price type of its own.\<close>

definition prices_itself :: "group_node list \<Rightarrow> string \<Rightarrow> bool" where
  "prices_itself gs i = (\<exists>g\<in>set gs. \<exists>n\<in>set (node_options g). opt_id (node_option n) = i
     \<and> (\<exists>t\<in>set OPTION_LEVEL_PRICE_TYPES. js_get (opt_pricing (node_option n)) ''type'' = JStr t))"

lemma option_pricing_get:
  "map_get (fold (\<lambda>g. fold (\<lambda>n. option_pricing_of (node_option n)) (node_options g)) gs m) i = None \<longleftrightarrow>
     map_get m i = None \<and> \<not> prices_itself gs i"
proof -
  have 1: "map_get (option_pricing_of opt m) i = None \<longleftrightarrow> map_get m i = None \<and>
      \<not> (opt_id opt = i \<and> (\<exists>t\<in>set OPTION_LEVEL_PRICE_TYPES. js_get (opt_pricing opt) ''type'' = JStr t))" for opt m
    by (auto simp: option_pricing_of_def jsm.get_put split: jsval.split)
  have 2: "map_get (fold (\<lambda>n. option_pricing_of (node_option n)) ns m) i = None \<longleftrightarrow> map_get m i = None \<and>
      \<not> (\<exists>n\<in>set ns. opt_id (node_option n) = i \<and> (\<exists>t\<in>set OPTION_LEVEL_PRICE_TYPES. js_get (opt_pricing (node_option n)) ''type'' = JStr t))"
    for ns m by (induction ns arbitrary: m) (auto simp: 1)
  show ?thesis by (induction gs arbitrary: m) (auto simp: 2 prices_itself_def)
qed

lemma set_price_iff:
  "\<not> hasBlockers (setPriceDoesNotFightOptionPricing ctx) \<longleftrightarrow>
     (\<forall>r\<in>set (ctx_rules ctx). pr_isEnabled r \<and> pr_action r = ''set_price'' \<and> pr_targetType r = ''option'' \<longrightarrow>
        \<not> prices_itself (tree_groups (ctx_tree ctx)) (pr_targetId r))"
proof -
  let ?m = "fold (\<lambda>g. fold (\<lambda>n. option_pricing_of (node_option n)) (node_options g)) (tree_groups (ctx_tree ctx)) []"
  have "hasBlockers (setPriceDoesNotFightOptionPricing ctx) \<longleftrightarrow>
      (\<exists>r\<in>set (ctx_rules ctx). pr_isEnabled r \<and> pr_action r = ''set_price'' \<and> pr_targetType r = ''option''
         \<and> map_get ?m (pr_targetId r) \<noteq> None)"
    unfolding setPriceDoesNotFightOptionPricing_def Let_def hasBlockers_flat_map
    by (intro iffI; elim bexE) (auto split: option.splits if_splits intro!: bexI)
  then show ?thesis unfolding option_pricing_get by auto
qed

text \<open>Two enabled rules that set different prices on one target.\<close>

definition payload_rules :: "publish_context \<Rightarrow> publish_rule set" where
  "payload_rules ctx = {r \<in> set (ctx_rules ctx). pr_isEnabled r \<and> pr_action r = ''set_price''
     \<and> js_truthy (pr_actionValue r)}"

lemma add_payloads_get:
  "(map_get (fold add_payload rs []) k = None \<longleftrightarrow> (\<forall>r\<in>set rs. payload_key r \<noteq> k))
   \<and> (\<forall>b. map_get (fold add_payload rs []) k = Some b \<longrightarrow> distinct (map_keys b)
       \<and> set (map_keys b) = {stringify (pr_actionValue r) |r. r \<in> set rs \<and> payload_key r = k})"
proof (induction rs rule: rev_induct)
  case (snoc r rs)
  let ?m = "fold add_payload rs []"
  let ?b = "case map_get ?m (payload_key r) of None \<Rightarrow> [] | Some b \<Rightarrow> b"
  have get: "map_get (add_payload r ?m) k' =
      (if k' = payload_key r then Some (map_set (stringify (pr_actionValue r)) (pr_id r) ?b) else map_get ?m k')" for k'
    by (simp add: add_payload_def Let_def jsm.get_put)
  show ?case
  proof (cases "k = payload_key r")
    case True
    have "distinct (map_keys ?b) \<and> set (map_keys ?b) = {stringify (pr_actionValue s) |s. s \<in> set rs \<and> payload_key s = k}"
      using snoc True by (cases "map_get ?m k") (auto simp: map_keys_def)
    then show ?thesis using True by (auto simp: get jsm.distinct_put jsm.keys_put)
  qed (use snoc in \<open>auto simp: get\<close>)
qed simp

lemma add_payloads_distinct: "distinct (map_keys (fold add_payload rs []))"
proof (induction rs rule: rev_induct)
  case (snoc r rs)
  then show ?case by (simp add: add_payload_def Let_def jsm.distinct_put)
qed (simp add: map_keys_def)

lemma length_ge_2_iff: "distinct xs \<Longrightarrow> 2 \<le> length xs \<longleftrightarrow> (\<exists>x\<in>set xs. \<exists>y\<in>set xs. x \<noteq> y)"
  by (cases xs; cases "tl xs") auto

lemma conflicting_bucket:
  "(\<exists>k b. map_get (fold add_payload rs []) k = Some b \<and> 2 \<le> length b) \<longleftrightarrow>
   (\<exists>r\<in>set rs. \<exists>s\<in>set rs. payload_key r = payload_key s \<and> stringify (pr_actionValue r) \<noteq> stringify (pr_actionValue s))"
  (is "?L \<longleftrightarrow> ?R")
proof
  assume ?L
  then obtain k b where b: "map_get (fold add_payload rs []) k = Some b" "2 \<le> length (map_keys b)"
    by (auto simp: map_keys_def)
  then have d: "distinct (map_keys b)"
    and ks: "set (map_keys b) = {stringify (pr_actionValue r) |r. r \<in> set rs \<and> payload_key r = k}"
    using add_payloads_get [of rs k] by blast+
  obtain x y where "x \<in> set (map_keys b)" "y \<in> set (map_keys b)" "x \<noteq> y"
    using b(2) length_ge_2_iff [OF d] by blast
  then show ?R unfolding ks by clarsimp metis
next
  assume ?R
  then obtain r s where r: "r \<in> set rs" "s \<in> set rs" "payload_key r = payload_key s"
    "stringify (pr_actionValue r) \<noteq> stringify (pr_actionValue s)" by blast
  then obtain b where b: "map_get (fold add_payload rs []) (payload_key r) = Some b"
    using add_payloads_get [of rs "payload_key r"] by (cases "map_get (fold add_payload rs []) (payload_key r)") auto
  then have d: "distinct (map_keys b)"
    and k: "set (map_keys b) = {stringify (pr_actionValue t) |t. t \<in> set rs \<and> payload_key t = payload_key r}"
    using add_payloads_get [of rs "payload_key r"] by blast+
  have "stringify (pr_actionValue r) \<in> set (map_keys b)" "stringify (pr_actionValue s) \<in> set (map_keys b)"
    unfolding k using r by force+
  then have "2 \<le> length (map_keys b)" using r(4) length_ge_2_iff [OF d] by blast
  then show ?L using b by (auto simp: map_keys_def)
qed

lemma payloads_iff:
  "\<not> hasBlockers (rulePayloadsDoNotConflict ctx) \<longleftrightarrow>
     (\<forall>r\<in>payload_rules ctx. \<forall>s\<in>payload_rules ctx. pr_targetId r = pr_targetId s \<longrightarrow>
        stringify (pr_actionValue r) = stringify (pr_actionValue s))"
proof -
  define rs where "rs = filter (\<lambda>r. pr_isEnabled r \<and> pr_action r \<in> set PAYLOAD_ACTIONS
    \<and> js_truthy (pr_actionValue r)) (ctx_rules ctx)"
  have set: "set rs = payload_rules ctx" by (auto simp: rs_def payload_rules_def PAYLOAD_ACTIONS_def)
  have entry: "(k, b) \<in> set (fold add_payload rs []) \<longleftrightarrow> map_get (fold add_payload rs []) k = Some b" for k b
    using add_payloads_distinct [of rs] by (simp add: map_get_def map_keys_def)
  have finding: "hasBlockers (payload_finding k b) \<longleftrightarrow> 2 \<le> length b" for k b
    by (simp add: payload_finding_def Let_def not_less)
  have "hasBlockers (rulePayloadsDoNotConflict ctx) \<longleftrightarrow>
      (\<exists>k b. (k, b) \<in> set (fold add_payload rs []) \<and> hasBlockers (payload_finding k b))"
    unfolding rulePayloadsDoNotConflict_def hasBlockers_flat_map Bex_def split_paired_Ex prod.case rs_def ..
  then have "hasBlockers (rulePayloadsDoNotConflict ctx) \<longleftrightarrow>
      (\<exists>r\<in>payload_rules ctx. \<exists>s\<in>payload_rules ctx. payload_key r = payload_key s
         \<and> stringify (pr_actionValue r) \<noteq> stringify (pr_actionValue s))"
    unfolding entry finding conflicting_bucket set .
  moreover have "payload_key r = payload_key s \<longleftrightarrow> pr_targetId r = pr_targetId s"
    if "r \<in> payload_rules ctx" "s \<in> payload_rules ctx" for r s
    using that by (simp add: payload_key_def payload_rules_def)
  ultimately show ?thesis by blast
qed

text \<open>What a published set promises the storefront.\<close>

definition publishable :: "(string \<Rightarrow> bool) \<Rightarrow> publish_context \<Rightarrow> bool" where
  "publishable regexp_ok ctx =
     ((\<exists>g\<in>set (tree_groups (ctx_tree ctx)). grp_isEnabled (node_group g)
         \<and> ((\<exists>n\<in>set (node_options g). opt_isEnabled (node_option n)) \<or> node_items g \<noteq> []))
      \<and> (\<forall>n\<in>live_options ctx. takesValues (opt_presentation (node_option n)) \<longrightarrow> live_values n \<noteq> [])
      \<and> (\<forall>r\<in>set (ctx_rules ctx). pr_disabledReason r \<noteq> Some ''target_deleted'' \<longrightarrow>
           target_in_set ctx r \<and> (\<forall>i\<in>set (conditionOptionIds (pr_conditions r)). option_in_set ctx i))
      \<and> acyclic (depends ctx)
      \<and> (\<forall>r\<in>set (ctx_rules ctx). pr_isEnabled r \<and> pr_action r = ''set_price'' \<and> pr_targetType r = ''option'' \<longrightarrow>
           \<not> prices_itself (tree_groups (ctx_tree ctx)) (pr_targetId r))
      \<and> (\<forall>r\<in>payload_rules ctx. \<forall>s\<in>payload_rules ctx. pr_targetId r = pr_targetId s \<longrightarrow>
           stringify (pr_actionValue r) = stringify (pr_actionValue s))
      \<and> (\<forall>n\<in>live_options ctx. takesValues (opt_presentation (node_option n)) \<longrightarrow>
           (\<forall>m. readMinimum (opt_validation (node_option n)) = Some m \<longrightarrow> js_le m (count_num (safe_values ctx n))))
      \<and> (\<forall>n\<in>live_options ctx. \<forall>p. js_get (opt_validation (node_option n)) ''pattern'' = JStr p \<longrightarrow>
           p = [] \<or> (length p \<le> 200 \<and> regexp_ok p \<and> \<not> NESTED_QUANTIFIER p)))"


text \<open>
  The minimum check counts a hide rule whether or not the merchant has it enabled: enabling or
  disabling rules never changes its findings.
\<close>

lemma minimums_ignore_isEnabled:
  "selectionMinimumsAreReachable (ctx\<lparr>ctx_rules := map (\<lambda>r. r\<lparr>pr_isEnabled := f r\<rparr>) (ctx_rules ctx)\<rparr>)
     = selectionMinimumsAreReachable ctx"
proof -
  have "hideable_values (map (\<lambda>r. r\<lparr>pr_isEnabled := f r\<rparr>) rs) = hideable_values rs" for rs
    by (simp add: hideable_values_def filter_map o_def fold_map)
  then show ?thesis by (simp add: selectionMinimumsAreReachable_def)
qed

text \<open>A second pair of parentheses hides a repetition inside a repetition from the pattern check.\<close>

lemma nested_quantifier_bypass:
  "NESTED_QUANTIFIER ''(a+)+''" "\<not> NESTED_QUANTIFIER ''((a+))+''"
  by code_simp+

end
