(* ===== verification/Publish_Config.thy ===== *)
theory Publish_Config
  imports Js_Value
begin

text \<open>
  How stored configuration is written into the published document
  (\<open>src/option-sets/serialization/option-config.ts\<close> and \<open>price-config.ts\<close>): the keys of validation and
  display are renamed, prices and rules are rebuilt field by field. \<open>None\<close> is the \<open>TypeError\<close> of
  reading a property of a null bracket; the schema admits no such bracket.
\<close>

definition VALIDATION_KEYS :: "(string \<times> string) list" where
  "VALIDATION_KEYS =
    [(''minLength'', ''min_length''), (''maxLength'', ''max_length''),
     (''min'', ''min''), (''max'', ''max''), (''step'', ''step''), (''integerOnly'', ''integer_only''),
     (''pattern'', ''pattern''), (''allowedCharset'', ''allowed_charset''), (''forbiddenWords'', ''forbidden_words''),
     (''minDate'', ''min_date''), (''maxDate'', ''max_date''), (''blackoutDates'', ''blackout_dates''),
     (''allowedWeekdays'', ''allowed_weekdays''), (''leadTimeDays'', ''lead_time_days''),
     (''maxAdvanceDays'', ''max_advance_days''),
     (''minSelections'', ''min_selections''), (''maxSelections'', ''max_selections'')]"

definition DISPLAY_KEYS :: "(string \<times> string) list" where
  "DISPLAY_KEYS =
    [(''characterCounter'', ''character_counter''), (''priceDisplay'', ''price_display''),
     (''swatchSize'', ''swatch_size''), (''collapsedByDefault'', ''collapsed_by_default''),
     (''tooltip'', ''tooltip''), (''columns'', ''columns''), (''accentColor'', ''accent_color''),
     (''borderRadius'', ''border_radius''), (''spacing'', ''spacing''), (''swatchPx'', ''swatch_px'')]"

definition renamed_key :: "(string \<times> string) list \<Rightarrow> string \<Rightarrow> string" where
  "renamed_key keys k = (case map_of keys k of None \<Rightarrow> k | Some p \<Rightarrow> p)"

text \<open>The loop of \<open>rename\<close>: an assignment to the same key twice keeps the later value.\<close>

fun rename_entries :: "(string \<times> string) list \<Rightarrow> (string, jsval) js_map \<Rightarrow> (string \<times> jsval) list \<Rightarrow> (string, jsval) js_map" where
  "rename_entries keys out [] = out"
| "rename_entries keys out ((k, v) # rest) = rename_entries keys (map_set (renamed_key keys k) v out) rest"

fun rename :: "jsval \<Rightarrow> (string \<times> string) list \<Rightarrow> jsval" where
  "rename (JObj source) keys = JObj (rename_entries keys [] source)"
| "rename _ keys = JNull"

definition toPublishedValidation :: "jsval \<Rightarrow> jsval" where
  "toPublishedValidation validation = rename validation VALIDATION_KEYS"

definition toPublishedDisplay :: "jsval \<Rightarrow> jsval" where
  "toPublishedDisplay display = rename display DISPLAY_KEYS"

definition nullish_or :: "jsval \<Rightarrow> jsval \<Rightarrow> jsval" where
  "nullish_or v d = (if v = JUndef \<or> v = JNull then d else v)"

section \<open>Prices\<close>

definition published_tier :: "jsval \<Rightarrow> jsval option" where
  "published_tier bracket = (if bracket = JUndef \<or> bracket = JNull then None
     else Some (JObj [(''min_quantity'', js_get bracket ''minQuantity''),
       (''max_quantity'', nullish_or (js_get bracket ''maxQuantity'') JNull),
       (''amount_minor'', js_get bracket ''amountMinor'')]))"

fun published_tiers :: "jsval \<Rightarrow> jsval list option" where
  "published_tiers (JArr tiers) = those (map published_tier tiers)"
| "published_tiers _ = Some []"

definition toPublishedOptionPricing :: "jsval \<Rightarrow> jsval option" where
  "toPublishedOptionPricing pricing =
     (if \<not> js_truthy pricing then Some JNull
      else let type = js_get pricing ''type'' in
        if type = JStr ''per_char'' then Some (JObj [(''type'', type), (''amount_minor'', js_get pricing ''amountMinor''),
            (''free_characters'', nullish_or (js_get pricing ''freeCharacters'') (JNum (Fin 0)))])
        else if type = JStr ''fixed'' \<or> type = JStr ''per_unit''
        then Some (JObj [(''type'', type), (''amount_minor'', js_get pricing ''amountMinor'')])
        else if type = JStr ''percentage''
        then Some (JObj [(''type'', type), (''basis_points'', js_get pricing ''basisPoints'')])
        else if type = JStr ''tiered'' then
          (case published_tiers (js_get pricing ''tiers'') of
             None \<Rightarrow> None
           | Some ts \<Rightarrow> Some (JObj [(''type'', type), (''tiers'', JArr ts)]))
        else Some pricing)"

definition toPublishedPriceConfig :: "jsval \<Rightarrow> string \<Rightarrow> jsnum \<Rightarrow> jsval option" where
  "toPublishedPriceConfig priceConfig priceType priceAmountMinor =
     (if \<not> js_truthy priceConfig
      then Some (JObj [(''type'', JStr priceType), (''amount_minor'', JNum priceAmountMinor)])
      else let type = js_get priceConfig ''type'' in
        if type = JStr ''fixed'' \<or> type = JStr ''per_unit''
        then Some (JObj [(''type'', type), (''amount_minor'', js_get priceConfig ''amountMinor'')])
        else if type = JStr ''percentage''
        then Some (JObj [(''type'', type), (''basis_points'', js_get priceConfig ''basisPoints'')])
        else if type = JStr ''per_char''
        then Some (JObj [(''type'', type), (''amount_minor'', js_get priceConfig ''amountMinor''),
          (''free_characters'', nullish_or (js_get priceConfig ''freeCharacters'') (JNum (Fin 0)))])
        else if type = JStr ''tiered'' then
          (case published_tiers (js_get priceConfig ''tiers'') of
             None \<Rightarrow> None
           | Some ts \<Rightarrow> Some (JObj [(''type'', type), (''tiers'', JArr ts)]))
        else Some priceConfig)"

section \<open>Rules\<close>

fun toPublishedConditions :: "jsval \<Rightarrow> jsval list" where
  "toPublishedConditions (JArr cs) = flat_map (\<lambda>raw.
     if \<not> is_object raw then []
     else [JObj ([(''option_id'', js_get raw ''optionId''), (''operator'', js_get raw ''operator'')]
       @ (if js_get raw ''value'' \<noteq> JUndef then [(''value'', js_get raw ''value'')] else []))]) cs"
| "toPublishedConditions _ = []"

definition toPublishedActionValue :: "string \<Rightarrow> jsval \<Rightarrow> jsval" where
  "toPublishedActionValue action actionValue =
     (if \<not> js_truthy actionValue then JNull
      else if action = ''set_price'' then JObj [(''amount_minor'', js_get actionValue ''amountMinor'')]
      else JNull)"

record stored_rule =
  sr_id :: string
  sr_targetType :: string
  sr_targetId :: string
  sr_action :: string
  sr_matchType :: string
  sr_conditions :: jsval
  sr_actionValue :: jsval
  sr_sortOrder :: jsnum

definition toPublishedRule :: "stored_rule \<Rightarrow> jsval" where
  "toPublishedRule r =
     (let actionValue = toPublishedActionValue (sr_action r) (sr_actionValue r) in
      JObj ([(''id'', JStr (sr_id r)), (''target_type'', JStr (sr_targetType r)), (''target_id'', JStr (sr_targetId r)),
        (''action'', JStr (sr_action r)), (''match_type'', JStr (sr_matchType r)),
        (''conditions'', JArr (toPublishedConditions (sr_conditions r))), (''sort_order'', JNum (sr_sortOrder r))]
       @ (if js_truthy actionValue then [(''action_value'', actionValue)] else [])))"

section \<open>Renaming loses nothing\<close>

lemma rename_entries_get:
  "map_get (rename_entries keys out src) p =
     (case map_of (rev (map (\<lambda>(k, v). (renamed_key keys k, v)) src)) p of Some v \<Rightarrow> Some v | None \<Rightarrow> map_get out p)"
proof (induction keys out src rule: rename_entries.induct)
  case (2 keys out k v rest)
  then show ?case by (auto simp: jsm.get_put map_add_def split: option.split)
qed simp

lemma rename_get:
  assumes "distinct (map (\<lambda>(k, v). renamed_key keys k) src)" and "(k, v) \<in> set src"
  shows "js_get (rename (JObj src) keys) (renamed_key keys k) = v"
proof -
  let ?ren = "map (\<lambda>(k, v). (renamed_key keys k, v)) src"
  have "distinct (map fst (rev ?ren))" using assms(1) by (simp add: o_def case_prod_unfold flip: rev_map)
  moreover have "(renamed_key keys k, v) \<in> set (rev ?ren)" using assms(2) by force
  ultimately have "map_of (rev ?ren) (renamed_key keys k) = Some v" by (rule map_of_is_SomeI)
  then show ?thesis using rename_entries_get [of keys "[]" src] by (simp add: map_get_def)
qed

lemma renamed_key_inj:
  assumes "distinct (map snd keys)" and "k \<in> fst ` set keys" and "k' \<in> fst ` set keys"
    and "renamed_key keys k = renamed_key keys k'" and "distinct (map fst keys)"
  shows "k = k'"
proof -
  obtain p p' where p: "(k, p) \<in> set keys" "(k', p') \<in> set keys" using assms(2,3) by auto
  then have "p = p'" using assms(4,5) by (simp add: renamed_key_def)
  then show ?thesis using p assms(1) by (metis distinct_map inj_onD prod.inject snd_conv)
qed

text \<open>
  Publishing a validation object loses no setting: when every stored key is one the schema
  names, each value is in the document under its published key, and no two settings share one.
\<close>

theorem toPublishedValidation_lossless:
  assumes "distinct (map fst src)" and "\<forall>k\<in>fst ` set src. k \<in> fst ` set VALIDATION_KEYS" and "(k, v) \<in> set src"
  shows "js_get (toPublishedValidation (JObj src)) (renamed_key VALIDATION_KEYS k) = v"
proof -
  have d: "distinct (map fst VALIDATION_KEYS)" "distinct (map snd VALIDATION_KEYS)" by code_simp+
  have "inj_on (renamed_key VALIDATION_KEYS) (fst ` set VALIDATION_KEYS)"
    by (rule inj_onI) (rule renamed_key_inj [OF d(2) _ _ _ d(1)])
  then have "inj_on (renamed_key VALIDATION_KEYS) (fst ` set src)"
    by (rule inj_on_subset) (rule subsetI, rule assms(2) [rule_format])
  then have "distinct (map (renamed_key VALIDATION_KEYS) (map fst src))"
    using assms(1) by (subst distinct_map) simp
  then have "distinct (map (\<lambda>(k, v). renamed_key VALIDATION_KEYS k) src)"
    by (simp add: o_def case_prod_unfold)
  then show ?thesis unfolding toPublishedValidation_def by (rule rename_get) (rule assms(3))
qed

lemma toPublishedValidation_lossless_witness:
  "js_get (toPublishedValidation (JObj [(''maxLength'', JNum (Fin 40)), (''pattern'', JStr ''x'')])) ''max_length'' = JNum (Fin 40)"
proof -
  have "renamed_key VALIDATION_KEYS ''maxLength'' = ''max_length''" by code_simp
  moreover have "\<forall>k\<in>fst ` set [(''maxLength'', JNum (Fin 40)), (''pattern'', JStr ''x'')]. k \<in> fst ` set VALIDATION_KEYS"
    by (simp add: VALIDATION_KEYS_def)
  ultimately show ?thesis
    using toPublishedValidation_lossless [of "[(''maxLength'', JNum (Fin 40)), (''pattern'', JStr ''x'')]" "''maxLength''" "JNum (Fin 40)"]
    by simp
qed

end
