(* ===== verification/Pricing_Schema.thy ===== *)
theory Pricing_Schema
  imports Money_Correct Publish_Config
begin

text \<open>
  The authoring schema of tiered prices (\<open>src/option-sets/types/pricing.schema.ts\<close>) and what it
  guarantees downstream: the brackets it accepts cover every quantity exactly once, so the published
  price charges the amount of the bracket of the quantity. A \<open>tier\<close> is the parsed object; the
  declared bounds of its numbers are \<open>tier_declared\<close>. \<open>int()\<close> admits safe integers only.
\<close>

definition MAX_AMOUNT_MINOR :: int where
  "MAX_AMOUNT_MINOR = 1000000000"

record tier =
  minQuantity :: int
  maxQuantity :: "int option"
  amountMinor :: int

record issue =
  path :: "string list"
  issue_message :: string

definition tier_declared :: "tier \<Rightarrow> bool" where
  "tier_declared t =
     (1 \<le> minQuantity t \<and> minQuantity t \<le> max_safe
      \<and> (case maxQuantity t of None \<Rightarrow> True | Some m \<Rightarrow> 1 \<le> m \<and> m \<le> max_safe)
      \<and> - MAX_AMOUNT_MINOR \<le> amountMinor t \<and> amountMinor t \<le> MAX_AMOUNT_MINOR)"

definition tier_path :: "nat \<Rightarrow> string \<Rightarrow> string list" where
  "tier_path i field = [''tiers'', show_int (int i), field]"

text \<open>The body of the loop over the sorted brackets.\<close>

definition tier_issues :: "tier list \<Rightarrow> nat \<Rightarrow> issue list" where
  "tier_issues srt i =
     (let t = srt ! i in
      (case maxQuantity t of
         Some m \<Rightarrow> if m < minQuantity t
           then [\<lparr>path = tier_path i ''maxQuantity'',
                  issue_message = ''Tier ends at '' @ show_int m @ '' but starts at '' @ show_int (minQuantity t) @ ''.''\<rparr>]
           else []
       | None \<Rightarrow> [])
      @ (if maxQuantity t = None \<and> i \<noteq> length srt - 1
         then [\<lparr>path = tier_path i ''maxQuantity'', issue_message = ''Only the last tier may be open-ended.''\<rparr>] else [])
      @ (if Suc i < length srt then
           (case maxQuantity t of
              None \<Rightarrow> []
            | Some m \<Rightarrow>
               (let next = srt ! Suc i in
                (if minQuantity next \<le> m
                 then [\<lparr>path = tier_path (Suc i) ''minQuantity'',
                        issue_message = ''Tier overlaps the previous one, which ends at '' @ show_int m @ ''.''\<rparr>] else [])
                @ (if minQuantity next > m + 1
                   then [\<lparr>path = tier_path (Suc i) ''minQuantity'',
                          issue_message = ''Quantities '' @ show_int (m + 1) @ '' to '' @ show_int (minQuantity next - 1)
                            @ '' fall between tiers and would be unpriced.''\<rparr>] else [])))
         else []))"

definition refineTiers :: "tier list \<Rightarrow> issue list" where
  "refineTiers tiers =
     (let srt = sort_key minQuantity tiers in
      (case srt of
         [] \<Rightarrow> []
       | first # _ \<Rightarrow> if minQuantity first \<noteq> 1
           then [\<lparr>path = tier_path 0 ''minQuantity'',
                  issue_message = ''Tiers must start at 1; quantities 1 to '' @ show_int (minQuantity first - 1)
                    @ '' would be unpriced. Use the option's own minimum to require a larger order.''\<rparr>]
           else [])
      @ (if srt = [] then [] else case maxQuantity (last srt) of
           None \<Rightarrow> []
         | Some m \<Rightarrow> [\<lparr>path = tier_path (length srt - 1) ''maxQuantity'',
             issue_message = ''The last tier must be open-ended; quantities above '' @ show_int m
               @ '' would be unpriced. Use the option's own maximum to cap the order.''\<rparr>])
      @ flat_map (tier_issues srt) [0..<length srt])"

definition tieredPricing_accepts :: "tier list \<Rightarrow> bool" where
  "tieredPricing_accepts tiers =
     (1 \<le> length tiers \<and> length tiers \<le> 50 \<and> list_all tier_declared tiers \<and> refineTiers tiers = [])"

text \<open>The stored object of a parsed tiered price.\<close>

definition tier_object :: "tier \<Rightarrow> jsval" where
  "tier_object t = JObj [(''minQuantity'', JNum (jint (minQuantity t))),
     (''maxQuantity'', case maxQuantity t of None \<Rightarrow> JNull | Some m \<Rightarrow> JNum (jint m)),
     (''amountMinor'', JNum (jint (amountMinor t)))]"

definition tiered_object :: "tier list \<Rightarrow> jsval" where
  "tiered_object tiers = JObj [(''type'', JStr ''tiered''), (''tiers'', JArr (map tier_object tiers))]"

section \<open>Accepted brackets partition the quantities\<close>

definition in_tier :: "int \<Rightarrow> tier \<Rightarrow> bool" where
  "in_tier q t = (minQuantity t \<le> q \<and> (case maxQuantity t of None \<Rightarrow> True | Some m \<Rightarrow> q \<le> m))"

lemma refine_sorted:
  assumes "refineTiers tiers = []" and "srt = sort_key minQuantity tiers" and "tiers \<noteq> []"
  shows "minQuantity (hd srt) = 1" and "maxQuantity (last srt) = None"
    and "Suc i < length srt \<Longrightarrow> \<exists>m. maxQuantity (srt ! i) = Some m \<and> minQuantity (srt ! i) \<le> m
       \<and> minQuantity (srt ! Suc i) = m + 1"
proof -
  have ne: "srt \<noteq> []" using assms(2,3) by (metis set_empty set_sort)
  have r: "refineTiers tiers = []" by (rule assms(1))
  show "minQuantity (hd srt) = 1"
    using r ne by (auto simp: refineTiers_def Let_def assms(2) [symmetric] neq_Nil_conv split: if_splits)
  show "maxQuantity (last srt) = None"
    using r ne by (auto simp: refineTiers_def Let_def assms(2) [symmetric] split: option.splits)
  show "\<exists>m. maxQuantity (srt ! i) = Some m \<and> minQuantity (srt ! i) \<le> m
       \<and> minQuantity (srt ! Suc i) = m + 1" if i: "Suc i < length srt"
  proof -
    have "\<forall>i\<in>set [0..<length srt]. tier_issues srt i = []"
      using r by (simp add: refineTiers_def Let_def assms(2) [symmetric])
    then have t: "tier_issues srt i = []" using i by simp
    have "i \<noteq> length srt - 1" using i by simp
    then obtain m where m: "maxQuantity (srt ! i) = Some m"
      using t i by (auto simp: tier_issues_def Let_def split: option.splits)
    have "minQuantity (srt ! i) \<le> m \<and> minQuantity (srt ! Suc i) = m + 1"
      using t i by (auto simp: tier_issues_def Let_def m split: if_splits)
    then show ?thesis using m by blast
  qed
qed

text \<open>
  The bracket of a quantity: it contains it, no other one does, and among the brackets that start at
  or below the quantity it is the one that starts last.
\<close>

definition bracket_of :: "tier list \<Rightarrow> int \<Rightarrow> tier \<Rightarrow> bool" where
  "bracket_of tiers q t = (t \<in> set tiers \<and> in_tier q t
     \<and> (\<forall>u\<in>set tiers. (in_tier q u \<longrightarrow> u = t)
          \<and> (minQuantity u \<le> q \<longrightarrow> minQuantity u \<le> minQuantity t \<and> (minQuantity u = minQuantity t \<longrightarrow> u = t))))"

lemma accepted_bracket:
  assumes "refineTiers tiers = []" and "tiers \<noteq> []" and "1 \<le> q"
  shows "\<exists>t. bracket_of tiers q t"
proof -
  define srt where "srt = sort_key minQuantity tiers"
  have set: "set srt = set tiers" by (simp add: srt_def)
  then have ne: "srt \<noteq> []" using assms(2) by (metis set_empty)
  have mono: "i \<le> j \<Longrightarrow> j < length srt \<Longrightarrow> minQuantity (srt ! i) \<le> minQuantity (srt ! j)" for i j
    using sorted_sort_key [of minQuantity tiers] by (simp add: srt_def sorted_iff_nth_mono)
  note step = refine_sorted(3) [OF assms(1) srt_def assms(2)]
  have strict: "\<exists>m. maxQuantity (srt ! i) = Some m \<and> minQuantity (srt ! i) \<le> m \<and> m < minQuantity (srt ! j)"
    if ij: "i < j" "j < length srt" for i j
    using step [of i] mono [of "Suc i" j] ij by force
  define I where "I = {i. i < length srt \<and> minQuantity (srt ! i) \<le> q}"
  have fin: "finite I" by (simp add: I_def)
  have "0 \<in> I" using refine_sorted(1) [OF assms(1) srt_def assms(2)] ne assms(3) by (simp add: I_def hd_conv_nth)
  then have k: "Max I \<in> I" "\<And>i. i \<in> I \<Longrightarrow> i \<le> Max I" using fin by (auto intro: Max_in)
  define k where "k = Max I"
  have kI: "k < length srt" "minQuantity (srt ! k) \<le> q" using k(1) by (simp_all add: I_def k_def)
  have below: "i < length srt \<Longrightarrow> minQuantity (srt ! i) \<le> q \<Longrightarrow> i \<le> k" for i
    using k(2) [of i] by (simp add: I_def k_def)
  have inq: "in_tier q (srt ! k)"
  proof (cases "Suc k < length srt")
    case True
    obtain m where m: "maxQuantity (srt ! k) = Some m" "minQuantity (srt ! Suc k) = m + 1" using step [OF True] by blast
    have "\<not> minQuantity (srt ! Suc k) \<le> q" using below [OF True] by auto
    then show ?thesis using m kI(2) by (simp add: in_tier_def)
  next
    case False
    then have "srt ! k = last srt" using kI(1) ne by (metis Suc_lessI diff_Suc_1 last_conv_nth)
    then show ?thesis using kI(2) refine_sorted(2) [OF assms(1) srt_def assms(2)] by (simp add: in_tier_def)
  qed
  have other: "i = k" if i: "i < length srt" "minQuantity (srt ! i) \<le> q"
      "in_tier q (srt ! i) \<or> minQuantity (srt ! i) = minQuantity (srt ! k)" for i
  proof (rule ccontr)
    assume "i \<noteq> k"
    then have "i < k" using below [OF i(1,2)] by simp
    then obtain m where "maxQuantity (srt ! i) = Some m" "minQuantity (srt ! i) \<le> m" "m < minQuantity (srt ! k)"
      using strict [OF _ kI(1)] by blast
    then show False using i(3) kI(2) by (auto simp: in_tier_def)
  qed
  have "bracket_of tiers q (srt ! k)"
    unfolding bracket_of_def set [symmetric]
  proof (intro conjI ballI impI)
    fix u assume "u \<in> set srt"
    then obtain i where i: "i < length srt" "u = srt ! i" by (metis in_set_conv_nth)
    show "u = srt ! k" if "in_tier q u" using that i other [of i] by (auto simp: in_tier_def)
    show "minQuantity u \<le> minQuantity (srt ! k)" if "minQuantity u \<le> q" using that i below mono kI(1) by simp
    show "u = srt ! k" if "minQuantity u \<le> q" "minQuantity u = minQuantity (srt ! k)"
      using that i other [of i] by simp
  qed (use inq kI(1) in simp_all)
  then show ?thesis by blast
qed

section \<open>From the accepted brackets to the charge\<close>

definition published_bracket :: "tier \<Rightarrow> jsval" where
  "published_bracket t = JObj [(''min_quantity'', JNum (jint (minQuantity t))),
     (''max_quantity'', case maxQuantity t of None \<Rightarrow> JNull | Some m \<Rightarrow> JNum (jint m)),
     (''amount_minor'', JNum (jint (amountMinor t)))]"

lemma publish_tiered:
  "toPublishedOptionPricing (tiered_object tiers)
     = Some (JObj [(''type'', JStr ''tiered''), (''tiers'', JArr (map published_bracket tiers))])"
proof -
  have "published_tier (tier_object t) = Some (published_bracket t)" for t
    by (simp add: published_tier_def tier_object_def published_bracket_def nullish_or_def split: option.split)
  then have "those (map published_tier (map tier_object tiers)) = Some (map published_bracket tiers)"
    by (induction tiers) simp_all
  then show ?thesis by (simp add: toPublishedOptionPricing_def tiered_object_def)
qed

lemma tier_step:
  assumes "tier_declared t"
  shows "tier_loop (jint q) best amount (published_bracket t # rest) =
    (if minQuantity t \<le> q \<and> (case best of None \<Rightarrow> True | Some b \<Rightarrow> js_lt b (jint (minQuantity t)))
     then tier_loop (jint q) (Some (jint (minQuantity t))) (Some (jint (amountMinor t))) rest
     else tier_loop (jint q) best amount rest)"
proof -
  have "\<bar>minQuantity t\<bar> \<le> max_safe" "\<bar>amountMinor t\<bar> \<le> max_safe"
    using assms by (auto simp: tier_declared_def MAX_AMOUNT_MINOR_def max_safe_def)
  then have "is_safe_integer (JNum (jint (minQuantity t)))" "is_safe_integer (JNum (jint (amountMinor t)))"
    by (simp_all only: is_safe_integer.simps is_safe_jint)
  then show ?thesis
    by (cases best) (simp_all add: published_bracket_def Let_def del: is_safe_integer.simps)
qed

lemma tier_loop_settled:
  assumes "list_all tier_declared ts" and "\<forall>u\<in>set ts. minQuantity u \<le> q \<longrightarrow> minQuantity u \<le> b"
  shows "tier_loop (jint q) (Some (jint b)) (Some a) (map published_bracket ts) = Some a"
  using assms by (induction ts) (auto simp: tier_step simp del: tier_loop.simps(2))

lemma tier_loop_finds:
  assumes "list_all tier_declared ts" and "t \<in> set ts" and "minQuantity t \<le> q"
    and "\<forall>u\<in>set ts. minQuantity u \<le> q \<longrightarrow> minQuantity u \<le> minQuantity t \<and> (minQuantity u = minQuantity t \<longrightarrow> u = t)"
    and "case best of None \<Rightarrow> True | Some b \<Rightarrow> \<exists>m. b = jint m \<and> m < minQuantity t"
  shows "tier_loop (jint q) best amount (map published_bracket ts) = Some (jint (amountMinor t))"
  using assms
proof (induction ts arbitrary: best amount)
  case (Cons u ts)
  show ?case
  proof (cases "u = t")
    case True
    have "case best of None \<Rightarrow> True | Some b \<Rightarrow> js_lt b (jint (minQuantity t))"
      using Cons.prems(5) by (auto split: option.splits)
    then show ?thesis using True Cons.prems by (simp add: tier_step tier_loop_settled del: tier_loop.simps(2))
  next
    case False
    then have t: "t \<in> set ts" using Cons.prems(2) by simp
    have less: "minQuantity u < minQuantity t" if "minQuantity u \<le> q" using Cons.prems(4) False that by force
    show ?thesis
      using Cons.prems(1,4,5) t less Cons.IH [OF _ t Cons.prems(3)]
      by (simp add: tier_step del: tier_loop.simps(2))
  qed
qed simp



end
