(* ===== verification/Tables.thy ===== *)
theory Tables
  imports Js_Value
begin

text \<open>
  Database tables and dates. A table is the list of its rows in insertion order; \<open>find_row\<close> is
  \<open>findOne\<close>, which returns the first row that matches, and \<open>save_row\<close> is \<open>save\<close>, which overwrites the
  row with the same primary key or inserts a new one. The locale \<open>row_table\<close> states what the services
  rely on and is interpreted on the lists; each table instantiates it with its own primary key.

  A \<open>Date\<close> is its time value in milliseconds, \<open>NaN\<close> for an invalid date.
\<close>

section \<open>Tables\<close>

definition find_row :: "('r \<Rightarrow> bool) \<Rightarrow> 'r list \<Rightarrow> 'r option" where
  "find_row P rows = List.find P rows"

definition save_row :: "('r \<Rightarrow> 'k) \<Rightarrow> 'r \<Rightarrow> 'r list \<Rightarrow> 'r list" where
  "save_row key r rows =
     (if key r \<in> key ` set rows then map (\<lambda>x. if key x = key r then r else x) rows else rows @ [r])"

text \<open>\<open>update({ id }, changes)\<close>: no row is created when none matches.\<close>

definition update_rows :: "('r \<Rightarrow> bool) \<Rightarrow> ('r \<Rightarrow> 'r) \<Rightarrow> 'r list \<Rightarrow> 'r list" where
  "update_rows P f rows = map (\<lambda>x. if P x then f x else x) rows"

text \<open>The row a primary key denotes, and the laws of saving one.\<close>

locale row_table =
  fixes key :: "'r \<Rightarrow> 'k"
    and lookup :: "'r list \<Rightarrow> 'k \<Rightarrow> 'r option"
    and store :: "'r \<Rightarrow> 'r list \<Rightarrow> 'r list"
    and valid :: "'r list \<Rightarrow> bool"
  assumes lookup_store: "lookup (store r rows) k = (if k = key r then Some r else lookup rows k)"
    and valid_store: "valid rows \<Longrightarrow> valid (store r rows)"
    and lookup_key: "lookup rows k = Some r \<Longrightarrow> key r = k"
begin

lemma lookup_store_same [simp]: "lookup (store r rows) (key r) = Some r"
  by (simp add: lookup_store)

lemma lookup_store_other: "key r \<noteq> k \<Longrightarrow> lookup (store r rows) k = lookup rows k"
  by (simp add: lookup_store)

lemma lookup_store_twice: "lookup (store r (store r rows)) = lookup (store r rows)"
  by (intro ext) (simp add: lookup_store)

lemma lookup_fold_store:
  "k \<notin> key ` set rs \<Longrightarrow> lookup (fold store rs rows) k = lookup rows k"
  by (induction rs arbitrary: rows) (auto simp: lookup_store)

lemma valid_fold_store: "valid rows \<Longrightarrow> valid (fold store rs rows)"
  by (induction rs arbitrary: rows) (auto simp: valid_store)

end

definition by_key :: "('r \<Rightarrow> 'k) \<Rightarrow> 'r list \<Rightarrow> 'k \<Rightarrow> 'r option" where
  "by_key key rows k = List.find (\<lambda>r. key r = k) rows"

lemma find_map_key:
  "List.find (\<lambda>x. key x = k) (map (\<lambda>x. if key x = key r then r else x) rows) =
    (if k = key r \<and> key r \<in> key ` set rows then Some r else List.find (\<lambda>x. key x = k) rows)"
  by (induction rows) auto

lemma find_append:
  "List.find P (xs @ ys) = (case List.find P xs of None \<Rightarrow> List.find P ys | Some x \<Rightarrow> Some x)"
  by (induction xs) auto

interpretation rows: row_table key "by_key key" "save_row key" "\<lambda>rows. distinct (map key rows)"
  for key :: "'r \<Rightarrow> 'k"
proof unfold_locales
  fix r :: 'r and rows k
  show "by_key key (save_row key r rows) k = (if k = key r then Some r else by_key key rows k)"
  proof (cases "key r \<in> key ` set rows")
    case True
    then show ?thesis by (simp add: by_key_def save_row_def find_map_key)
  next
    case False
    then have "List.find (\<lambda>x. key x = key r) rows = None"
      unfolding find_None_all by (metis image_eqI)
    then show ?thesis using False
      by (cases "k = key r") (auto simp: by_key_def save_row_def find_append split: option.split)
  qed
  show "distinct (map key (save_row key r rows))" if d: "distinct (map key rows)"
  proof -
    have "map key (map (\<lambda>x. if key x = key r then r else x) rows) = map key rows" by simp
    then show ?thesis using d by (simp add: save_row_def del: map_map)
  qed
  show "key r = k" if "by_key key rows k = Some r"
    using that by (auto simp: by_key_def dest: find_Some_in)
qed

lemma set_save_row:
  "x \<in> set (save_row key r rows) \<Longrightarrow> x = r \<or> (x \<in> set rows \<and> key x \<noteq> key r)"
  by (cases "key r \<in> key ` set rows") (auto simp: save_row_def rev_image_eqI split: if_splits)

lemma in_save_row: "r \<in> set (save_row key r rows)"
  by (auto simp: save_row_def)

lemma save_row_keeps: "x \<in> set rows \<Longrightarrow> key x \<noteq> key r \<Longrightarrow> x \<in> set (save_row key r rows)"
  by (force simp: save_row_def)

lemma by_key_iff: "distinct (map key rows) \<Longrightarrow> by_key key rows k = Some r \<longleftrightarrow> r \<in> set rows \<and> key r = k"
proof (induction rows)
  case (Cons x rows)
  then show ?case by (auto simp: by_key_def image_iff)
qed (simp add: by_key_def)

section \<open>Dates\<close>

type_synonym js_date = jsnum

text \<open>\<open>new Date(ms)\<close>: whole milliseconds within 8.64e15 of the epoch.\<close>

definition new_date :: "jsnum \<Rightarrow> js_date" where
  "new_date ms = (if is_finite_num ms \<and> js_le (js_abs ms) (Fin 8640000000000000) then js_trunc ms else NaN)"

definition pad_left :: "nat \<Rightarrow> int \<Rightarrow> string" where
  "pad_left n k = (let s = show_nat k in replicate (n - length s) (CHR ''0'') @ s)"

text \<open>Year, month and day of a count of days since 1 January 1970.\<close>

definition civil_from_days :: "int \<Rightarrow> int \<times> int \<times> int" where
  "civil_from_days days =
     (let z = days + 719468; era = z div 146097; doe = z mod 146097;
          yoe = (doe - doe div 1460 + doe div 36524 - doe div 146096) div 365;
          doy = doe - (365 * yoe + yoe div 4 - yoe div 100);
          mp = (5 * doy + 2) div 153;
          d = doy - (153 * mp + 2) div 5 + 1;
          mo = (if mp < 10 then mp + 3 else mp - 9)
      in (yoe + era * 400 + (if mo \<le> 2 then 1 else 0), mo, d))"

text \<open>\<open>toISOString()\<close>; \<open>None\<close> is the \<open>RangeError\<close> of an invalid date.\<close>

definition iso_of_ms :: "int \<Rightarrow> string" where
  "iso_of_ms ms =
     (let days = ms div 86400000; t = ms mod 86400000; (y, mo, d) = civil_from_days days;
          year = (if 0 \<le> y \<and> y \<le> 9999 then pad_left 4 y
                  else (if y < 0 then ''-'' else ''+'') @ pad_left 6 \<bar>y\<bar>)
      in year @ ''-'' @ pad_left 2 mo @ ''-'' @ pad_left 2 d @ ''T'' @ pad_left 2 (t div 3600000) @ '':''
         @ pad_left 2 (t div 60000 mod 60) @ '':'' @ pad_left 2 (t div 1000 mod 60) @ ''.''
         @ pad_left 3 (t mod 1000) @ ''Z'')"

fun toISOString :: "js_date \<Rightarrow> string option" where
  "toISOString (Fin ms) = Some (iso_of_ms \<lfloor>ms\<rfloor>)"
| "toISOString _ = None"

section \<open>String()\<close>

text \<open>\<open>String(v)\<close>: an array joins its elements with commas, a null or undefined element being empty.\<close>

fun js_String :: "jsval \<Rightarrow> string" where
  "js_String JUndef = ''undefined''"
| "js_String JNull = ''null''"
| "js_String (JBool b) = (if b then ''true'' else ''false'')"
| "js_String (JNum n) = num_to_string n"
| "js_String (JStr s) = s"
| "js_String (JArr vs) = join '','' (map (\<lambda>v. if v = JUndef \<or> v = JNull then [] else js_String v) vs)"
| "js_String (JObj _) = ''[object Object]''"

end
