(* ===== verification/Invoices.thy ===== *)
theory Invoices
  imports Tables
begin

text \<open>
  Translation of a provider invoice (\<open>src/billing/invoice.mapper.ts\<close>): every field of an untrusted
  payload is checked, and a payload that does not satisfy the contract is refused with a reason.
\<close>

datatype invoice_status = INV_DRAFT | INV_OPEN | INV_PAID | INV_VOID | INV_UNCOLLECTIBLE

definition KNOWN_STATUSES :: "(string \<times> invoice_status) list" where
  "KNOWN_STATUSES = [(''draft'', INV_DRAFT), (''open'', INV_OPEN), (''paid'', INV_PAID), (''void'', INV_VOID),
     (''uncollectible'', INV_UNCOLLECTIBLE)]"

record invoice_columns =
  providerInvoiceId :: string
  inv_status :: invoice_status
  inv_currency :: string
  subtotalMinor :: jsnum
  taxMinor :: jsnum
  totalMinor :: jsnum
  taxCountry :: "string option"
  issuedAt :: "js_date option"
  paidAt :: "js_date option"
  hostedUrl :: "string option"

record mapped_invoice =
  columns :: invoice_columns
  inv_providerCustomerId :: "string option"
  inv_providerSubscriptionId :: "string option"

definition asMinorUnits :: "jsval \<Rightarrow> jsnum option" where
  "asMinorUnits v = (if is_safe_integer v then Some (num_of v) else None)"

fun asDate :: "jsval \<Rightarrow> js_date option" where
  "asDate (JNum n) = (if is_finite_num n then Some (new_date (js_mul n (Fin 1000))) else None)"
| "asDate _ = None"

fun asText :: "jsval \<Rightarrow> string option" where
  "asText (JStr s) = (if js_trim s \<noteq> [] then Some s else None)"
| "asText _ = None"

definition readTaxCountry :: "jsval \<Rightarrow> string option" where
  "readTaxCountry payload = (let address = js_get payload ''customer_address'' in
     if \<not> is_object address then None
     else case asText (js_get address ''country'') of
       None \<Rightarrow> None
     | Some country \<Rightarrow> if length country = 2 then Some (js_upper country) else None)"

text \<open>The loop of \<open>sumTaxes\<close>.\<close>

fun tax_loop :: "jsnum \<Rightarrow> jsval list \<Rightarrow> jsnum option" where
  "tax_loop acc [] = Some acc"
| "tax_loop acc (e # rest) = (if \<not> is_object e then None
     else case asMinorUnits (js_get e ''amount'') of
       None \<Rightarrow> None
     | Some amount \<Rightarrow> tax_loop (js_add acc amount) rest)"

fun sumTaxes :: "jsval \<Rightarrow> jsnum option" where
  "sumTaxes JNull = Some (Fin 0)"
| "sumTaxes JUndef = Some (Fin 0)"
| "sumTaxes (JArr es) = tax_loop (Fin 0) es"
| "sumTaxes _ = None"

definition readPaidAt :: "jsval \<Rightarrow> js_date option" where
  "readPaidAt payload = (let transitions = js_get payload ''status_transitions'' in
     if is_object transitions then asDate (js_get transitions ''paid_at'') else None)"

definition asProviderId :: "jsval \<Rightarrow> string option" where
  "asProviderId v = (case v of JStr s \<Rightarrow> asText v
     | _ \<Rightarrow> if is_object v then asText (js_get v ''id'') else None)"

definition readSubscriptionId :: "jsval \<Rightarrow> string option" where
  "readSubscriptionId payload = (let parent = js_get payload ''parent'' in
     if \<not> is_object parent then None
     else let details = js_get parent ''subscription_details'' in
       if is_object details then asProviderId (js_get details ''subscription'') else None)"

definition mapInvoice :: "jsval \<Rightarrow> string + mapped_invoice" where
  "mapInvoice payload =
     (if \<not> is_object payload then Inl ''payload is not an object''
      else case asText (js_get payload ''id'') of
        None \<Rightarrow> Inl ''missing invoice id''
      | Some invoiceId \<Rightarrow>
      (case Option.bind (asText (js_get payload ''status'')) (map_of KNOWN_STATUSES) of
        None \<Rightarrow> Inl (''unknown invoice status: '' @ js_String (js_get payload ''status''))
      | Some status \<Rightarrow>
      (case asText (js_get payload ''currency'') of
        None \<Rightarrow> Inl (''invalid currency: '' @ js_String (js_get payload ''currency''))
      | Some currency \<Rightarrow>
        if length currency \<noteq> 3 then Inl (''invalid currency: '' @ js_String (js_get payload ''currency''))
        else (case (asMinorUnits (js_get payload ''subtotal''), asMinorUnits (js_get payload ''total'')) of
          (Some subtotal, Some tot) \<Rightarrow>
          (case sumTaxes (js_get payload ''total_taxes'') of
            None \<Rightarrow> Inl ''total_taxes must be integer minor amounts''
          | Some tax \<Rightarrow>
            if \<not> js_num_eq tot (js_add subtotal tax)
            then Inl (''totals disagree: '' @ num_to_string subtotal @ '' + '' @ num_to_string tax @ '' /= '' @ num_to_string tot)
            else Inr \<lparr>columns = \<lparr>providerInvoiceId = invoiceId, inv_status = status,
                inv_currency = js_upper currency, subtotalMinor = subtotal, taxMinor = tax, totalMinor = tot,
                taxCountry = readTaxCountry payload, issuedAt = asDate (js_get payload ''created''),
                paidAt = (if status = INV_PAID then readPaidAt payload else None),
                hostedUrl = asText (js_get payload ''hosted_invoice_url'')\<rparr>,
              inv_providerCustomerId = asProviderId (js_get payload ''customer''),
              inv_providerSubscriptionId = readSubscriptionId payload\<rparr>)
        | _ \<Rightarrow> Inl ''subtotal and total must be integer minor units''))))"

section \<open>The totals of an accepted invoice\<close>

lemma to_num_ge: "of_int k \<le> x \<Longrightarrow> \<bar>k\<bar> \<le> 2 ^ 53 \<Longrightarrow> (case to_num x of Fin y \<Rightarrow> of_int k \<le> y | PInf \<Rightarrow> True | _ \<Rightarrow> False)"
proof -
  assume a: "of_int k \<le> x" "\<bar>k\<bar> \<le> 2 ^ 53"
  then have r: "of_int k \<le> round_double x" by (rule round_double_ge_int')
  have lt: "(2 :: int) ^ 53 < 2 ^ 1024" by (rule power_strict_increasing) simp_all
  then have "(of_int (- (2 ^ 1024)) :: rat) < of_int k" using a(2) by (simp only: of_int_less_iff)
  then have "\<not> round_double x \<le> - (2 ^ 1024)" using r by (simp only: of_int_minus of_int_power of_int_numeral)
  then show ?thesis using r by (simp add: to_num_def Let_def)
qed

text \<open>The amounts of a list of taxes, when all are safe integers.\<close>

definition tax_amount :: "jsval \<Rightarrow> int \<Rightarrow> bool" where
  "tax_amount e a = (is_object e \<and> js_get e ''amount'' = JNum (jint a) \<and> \<bar>a\<bar> \<le> max_safe)"

lemma asMinorUnits_Some: "asMinorUnits v = Some x \<longleftrightarrow> (\<exists>a. v = JNum (jint a) \<and> x = jint a \<and> \<bar>a\<bar> \<le> max_safe)"
proof -
  have "is_safe_integer v \<longleftrightarrow> (\<exists>a. v = JNum (jint a) \<and> \<bar>a\<bar> \<le> max_safe)"
  proof
    assume s: "is_safe_integer v"
    then obtain n where n: "v = JNum n" by (cases v) simp_all
    then have "is_safe_integer_num n" using s by simp
    then obtain a where "n = jint a" "\<bar>a\<bar> \<le> max_safe" by (rule is_safe_Fin_obtain)
    then show "\<exists>a. v = JNum (jint a) \<and> \<bar>a\<bar> \<le> max_safe" using n by blast
  qed (use is_safe_jint in \<open>auto simp only: is_safe_integer.simps\<close>)
  then show ?thesis by (auto simp: asMinorUnits_def simp del: is_safe_integer.simps)
qed

text \<open>At least \<open>2 ^ 53\<close>: out of the safe range, and out of reach of a safe total.\<close>

fun too_big :: "jsnum \<Rightarrow> bool" where
  "too_big (Fin y) = (2 ^ 53 \<le> y)"
| "too_big PInf = True"
| "too_big _ = False"

lemma too_big_to_num: "of_int (2 ^ 53) \<le> x \<Longrightarrow> too_big (to_num x)"
  using to_num_ge [of "2 ^ 53" x] by (cases "to_num x") simp_all

lemma too_big_add:
  assumes "too_big t" and "0 \<le> a"
  shows "too_big (js_add t (jint a))" and "too_big (js_add (jint a) t)"
proof -
  have "(0 :: rat) \<le> of_int a" using assms(2) by simp
  then have "too_big (to_num (y + of_int a))" "too_big (to_num (of_int a + y))" if "2 ^ 53 \<le> y" for y
    using that by (intro too_big_to_num; simp)+
  then show "too_big (js_add t (jint a))" "too_big (js_add (jint a) t)"
    using assms(1) by (cases t; simp)+
qed

lemma add_nonneg_cases:
  assumes "0 \<le> k" and "0 \<le> a"
  shows "if k + a \<le> max_safe then js_add (jint k) (jint a) = jint (k + a) else too_big (js_add (jint k) (jint a))"
proof (cases "k + a \<le> max_safe")
  case True
  then show ?thesis using js_add_exact [of k a] assms by simp
next
  case False
  then have "2 ^ 53 \<le> k + a" using pow53(2) by linarith
  then have "(of_int (2 ^ 53) :: rat) \<le> of_int (k + a)" by (simp only: of_int_le_iff)
  then show ?thesis using False too_big_to_num [of "of_int k + of_int a"] by simp
qed

lemma tax_loop_big:
  assumes "tax_loop t es = Some r" and "list_all2 tax_amount es as" and "\<forall>a\<in>set as. 0 \<le> a" and "too_big t"
  shows "too_big r"
  using assms
proof (induction es arbitrary: t as)
  case (Cons e es)
  then obtain a bs where as: "as = a # bs" "tax_amount e a" "list_all2 tax_amount es bs" by (auto simp: list_all2_Cons1)
  then have "asMinorUnits (js_get e ''amount'') = Some (jint a)" "is_object e"
    using asMinorUnits_Some by (auto simp: tax_amount_def)
  then show ?case using Cons.IH [of "js_add t (jint a)" bs] Cons.prems as too_big_add(1) [of t a] by simp
qed simp

lemma tax_loop_exact:
  assumes "tax_loop (jint k) es = Some r" and "list_all2 tax_amount es as" and "\<forall>a\<in>set as. 0 \<le> a"
    and "0 \<le> k" and "k \<le> max_safe"
  shows "too_big r \<or> (r = jint (k + sum_list as) \<and> k + sum_list as \<le> max_safe)"
  using assms
proof (induction es arbitrary: k as)
  case (Cons e es)
  then obtain a bs where as: "as = a # bs" "tax_amount e a" "list_all2 tax_amount es bs" by (auto simp: list_all2_Cons1)
  then have "asMinorUnits (js_get e ''amount'') = Some (jint a)" "is_object e"
    using asMinorUnits_Some by (auto simp: tax_amount_def)
  then have r: "tax_loop (js_add (jint k) (jint a)) es = Some r" using Cons.prems(1) by simp
  have a: "0 \<le> a" "\<forall>b\<in>set bs. 0 \<le> b" using Cons.prems(3) as by simp_all
  show ?case
  proof (cases "k + a \<le> max_safe")
    case True
    then have "tax_loop (jint (k + a)) es = Some r" using r add_nonneg_cases [OF Cons.prems(4) a(1)] by simp
    then show ?thesis
      using Cons.IH [of "k + a" bs] as a Cons.prems(4) True by (simp add: add.assoc)
  next
    case False
    then have "too_big (js_add (jint k) (jint a))" using add_nonneg_cases [OF Cons.prems(4) a(1)] by simp
    then show ?thesis using tax_loop_big [OF r as(3) a(2)] by simp
  qed
qed simp

text \<open>
  The totals of an accepted invoice agree as integers: with a non-negative subtotal and
  non-negative taxes, the stored tax is the exact sum of the tax lines and the stored total is
  exactly subtotal plus tax, although the check adds in doubles and the lines are unbounded in number.
\<close>

theorem mapInvoice_totals:
  assumes "mapInvoice payload = Inr mi" and "js_get payload ''total_taxes'' = JArr es"
    and "list_all2 tax_amount es as" and "\<forall>a\<in>set as. 0 \<le> a"
    and "subtotalMinor (columns mi) = jint s" and "0 \<le> s"
  shows "taxMinor (columns mi) = jint (sum_list as) \<and> totalMinor (columns mi) = jint (s + sum_list as)"
proof -
  obtain sub tot tax where v: "asMinorUnits (js_get payload ''subtotal'') = Some sub"
    "asMinorUnits (js_get payload ''total'') = Some tot" "sumTaxes (js_get payload ''total_taxes'') = Some tax"
    "js_num_eq tot (js_add sub tax)"
    and c: "subtotalMinor (columns mi) = sub" "taxMinor (columns mi) = tax" "totalMinor (columns mi) = tot"
    using assms(1) by (auto simp: mapInvoice_def Let_def split: if_splits option.splits)
  obtain s' where s: "sub = jint s'" "\<bar>s'\<bar> \<le> max_safe" using v(1) asMinorUnits_Some by blast
  then have s': "s' = s" using c(1) assms(5) by simp
  obtain t where t: "tot = jint t" "\<bar>t\<bar> \<le> max_safe" using v(2) asMinorUnits_Some by blast
  have "tax_loop (jint 0) es = Some tax" using v(3) assms(2) by simp
  then have cases: "too_big tax \<or> (tax = jint (sum_list as) \<and> sum_list as \<le> max_safe)"
    using tax_loop_exact [of 0 es tax as] assms(3,4) by (simp add: max_safe_def)
  have small: "\<not> too_big (js_add (jint s) tax)"
  proof
    assume "too_big (js_add (jint s) tax)"
    then obtain y where "js_add (jint s) tax = Fin y" "2 ^ 53 \<le> y" using v(4) s s' t by (cases "js_add (jint s) tax") auto
    then have "(2 :: rat) ^ 53 \<le> of_int t" using v(4) s s' t by simp
    then have "2 ^ 53 \<le> t" by (simp only: of_int_pow_cancel)
    then show False using t(2) pow53(1) by linarith
  qed
  then have tax: "tax = jint (sum_list as)" using cases too_big_add(2) assms(6) by blast
  have "0 \<le> sum_list as" using assms(4) by (intro sum_list_nonneg) simp
  then have "js_add (jint s) tax = jint (s + sum_list as)"
    using add_nonneg_cases [OF assms(6)] small tax by (metis (full_types))
  then show ?thesis using v(4) s s' t c tax by simp
qed

definition example_invoice :: jsval where
  "example_invoice = JObj [(''id'', JStr ''in_1''), (''status'', JStr ''paid''), (''currency'', JStr ''gbp''),
     (''subtotal'', JNum (Fin 1000)), (''total'', JNum (Fin 1200)),
     (''total_taxes'', JArr [JObj [(''amount'', JNum (Fin 200))]]), (''customer'', JStr ''cus_1'')]"

lemma mapInvoice_example:
  "\<exists>mi. mapInvoice example_invoice = Inr mi \<and> subtotalMinor (columns mi) = Fin 1000
    \<and> inv_providerCustomerId mi = Some ''cus_1'' \<and> inv_providerSubscriptionId mi = None
    \<and> providerInvoiceId (columns mi) = ''in_1''"
proof -
  have add: "js_add (Fin 0) (Fin 200) = Fin 200" "js_add (Fin 1000) (Fin 200) = Fin 1200"
    using js_add_exact [of 0 200] js_add_exact [of 1000 200] by (simp_all add: max_safe_def)
  have trim: "js_trim ''in_1'' = ''in_1''" "js_trim ''paid'' = ''paid''" "js_trim ''gbp'' = ''gbp''" "js_trim ''cus_1'' = ''cus_1''"
    by code_simp+
  show ?thesis
    by (simp add: mapInvoice_def example_invoice_def KNOWN_STATUSES_def asMinorUnits_def trim add max_safe_def
        asProviderId_def readSubscriptionId_def Let_def del: js_add.simps)
qed

lemma mapInvoice_totals_witness:
  "\<exists>mi. mapInvoice example_invoice = Inr mi \<and> totalMinor (columns mi) = Fin 1200"
proof -
  obtain mi where mi: "mapInvoice example_invoice = Inr mi" "subtotalMinor (columns mi) = jint 1000"
    using mapInvoice_example by auto
  have "js_get example_invoice ''total_taxes'' = JArr [JObj [(''amount'', JNum (jint 200))]]"
    by (simp add: example_invoice_def)
  then show ?thesis
    using mapInvoice_totals [OF mi(1) _ _ _ mi(2), of "[JObj [(''amount'', JNum (jint 200))]]" "[200]"] mi(1)
    by (simp add: tax_amount_def max_safe_def)
qed

end
