(* ===== verification/Subscriptions.thy ===== *)
theory Subscriptions
  imports Invoices
begin

text \<open>
  The subscription lifecycle driven by provider events
  (\<open>src/billing/subscription-lifecycle.service.ts\<close>) and the guard that pauses authoring
  (\<open>src/auth/guards/subscription.guard.ts\<close>). The database is a record of tables; every handler takes
  the current time and returns its result with the database after it. Mail and invalidation of the
  storefronts are best effort in the code, so a call of either is recorded in a log and never fails.
  Identifiers the database would generate are the parameter \<open>new_id\<close>. A handler fails only where the
  code throws: \<open>toISOString\<close> of an invalid date.
\<close>

datatype subscription_status = TRIALING | ACTIVE | PAST_DUE | GRACE | CANCELLED | EXPIRED

record subscription =
  sub_id :: string
  sub_tenantId :: string
  planId :: string
  planPriceId :: "string option"
  sub_provider :: string
  providerSubscriptionId :: "string option"
  providerCustomerId :: "string option"
  sub_status :: subscription_status
  currentPeriodEnd :: "js_date option"
  cancelAt :: "js_date option"
  graceEndsAt :: "int option"

record tenant =
  ten_id :: string
  ten_country :: "string option"
  billingCurrency :: "string option"
  vatNumber :: "string option"

record plan_price =
  price_id :: string
  price_planId :: string
  providerPriceId :: "string option"

record invoice =
  inv_id :: string
  inv_tenantId :: string
  inv_subscriptionId :: "string option"
  inv_provider :: string
  inv_columns :: invoice_columns

datatype notice = PaymentFailedMail string int | TrialEndingMail string js_date | InvalidateConfig string

record billing_db =
  db_subscriptions :: "subscription list"
  db_tenants :: "tenant list"
  db_prices :: "plan_price list"
  db_invoices :: "invoice list"
  db_notices :: "notice list"

datatype lifecycle_result = Changed string | Unchanged string

definition GRACE_DAYS :: int where
  "GRACE_DAYS = 14"

section \<open>Reading the payload\<close>

definition asRecord :: "jsval \<Rightarrow> jsval" where
  "asRecord v = (if is_object v then v else JObj [])"

definition asId :: "jsval \<Rightarrow> string option" where
  "asId v = (case v of
       JStr s \<Rightarrow> if js_trim s \<noteq> [] then Some s else None
     | _ \<Rightarrow> if is_object v then
         (case js_get v ''id'' of JStr s \<Rightarrow> if js_trim s \<noteq> [] then Some s else None | _ \<Rightarrow> None)
       else None)"

definition asCode :: "jsval \<Rightarrow> nat \<Rightarrow> string option" where
  "asCode v n = (case v of JStr s \<Rightarrow> if length s = n then Some (js_upper s) else None | _ \<Rightarrow> None)"

fun readTaxId_loop :: "jsval list \<Rightarrow> string option" where
  "readTaxId_loop [] = None"
| "readTaxId_loop (entry # rest) =
     (case js_get (asRecord entry) ''value'' of
        JStr i \<Rightarrow> if js_trim i \<noteq> [] \<and> length i \<le> 32 then Some (js_upper (js_trim i)) else readTaxId_loop rest
      | _ \<Rightarrow> readTaxId_loop rest)"

fun readTaxId :: "jsval \<Rightarrow> string option" where
  "readTaxId (JArr es) = readTaxId_loop es"
| "readTaxId _ = None"

definition first_item :: "jsval \<Rightarrow> jsval option" where
  "first_item remote = (case js_get (asRecord (js_get remote ''items'')) ''data'' of
       JArr (i # _) \<Rightarrow> Some (asRecord i) | _ \<Rightarrow> None)"

definition readPeriodEnd :: "jsval \<Rightarrow> jsval" where
  "readPeriodEnd remote = (case first_item remote of None \<Rightarrow> JUndef | Some i \<Rightarrow> js_get i ''current_period_end'')"

definition readPriceId :: "jsval \<Rightarrow> string option" where
  "readPriceId remote = (case first_item remote of None \<Rightarrow> None | Some i \<Rightarrow> asId (js_get i ''price''))"

definition readInvoiceSubscriptionId :: "jsval \<Rightarrow> string option" where
  "readInvoiceSubscriptionId invoice = (let parent = js_get invoice ''parent'' in
     if \<not> is_object parent then None
     else let details = js_get parent ''subscription_details'' in
       if is_object details then asId (js_get details ''subscription'') else None)"

definition readStatus :: "jsval \<Rightarrow> subscription_status option" where
  "readStatus v = (case v of JStr s \<Rightarrow>
       if s = ''trialing'' \<or> s = ''incomplete'' then Some TRIALING
       else if s = ''active'' then Some ACTIVE
       else if s = ''past_due'' then Some PAST_DUE
       else if s = ''paused'' then Some GRACE
       else if s = ''canceled'' then Some CANCELLED
       else if s = ''incomplete_expired'' \<or> s = ''unpaid'' then Some EXPIRED
       else None
     | _ \<Rightarrow> None)"

fun status_name :: "subscription_status \<Rightarrow> string" where
  "status_name TRIALING = ''trialing''"
| "status_name ACTIVE = ''active''"
| "status_name PAST_DUE = ''past_due''"
| "status_name GRACE = ''grace''"
| "status_name CANCELLED = ''cancelled''"
| "status_name EXPIRED = ''expired''"

section \<open>Operations on the tables\<close>

definition findSubscription :: "billing_db \<Rightarrow> string option \<Rightarrow> string option \<Rightarrow> subscription option" where
  "findSubscription db subId custId =
     (let by_customer = (case custId of None \<Rightarrow> None
            | Some c \<Rightarrow> find_row (\<lambda>s. providerCustomerId s = Some c) (db_subscriptions db))
      in case subId of
           None \<Rightarrow> by_customer
         | Some i \<Rightarrow> (case find_row (\<lambda>s. providerSubscriptionId s = Some i) (db_subscriptions db) of
             Some s \<Rightarrow> Some s | None \<Rightarrow> by_customer))"

definition save_subscription :: "subscription \<Rightarrow> billing_db \<Rightarrow> billing_db" where
  "save_subscription s db = db\<lparr>db_subscriptions := save_row sub_id s (db_subscriptions db)\<rparr>"

definition log_notice :: "notice \<Rightarrow> billing_db \<Rightarrow> billing_db" where
  "log_notice n db = db\<lparr>db_notices := db_notices db @ [n]\<rparr>"

definition storeInvoice :: "string \<Rightarrow> subscription \<Rightarrow> invoice_columns \<Rightarrow> billing_db \<Rightarrow> billing_db" where
  "storeInvoice new_id s cols db =
     (case find_row (\<lambda>i. inv_provider i = ''stripe'' \<and> providerInvoiceId (inv_columns i) = providerInvoiceId cols)
             (db_invoices db) of
        Some existing \<Rightarrow> db\<lparr>db_invoices := save_row inv_id (existing\<lparr>inv_columns := cols\<rparr>) (db_invoices db)\<rparr>
      | None \<Rightarrow> db\<lparr>db_invoices := save_row inv_id
          \<lparr>inv_id = new_id, inv_tenantId = sub_tenantId s, inv_subscriptionId = Some (sub_id s),
           inv_provider = ''stripe'', inv_columns = cols\<rparr> (db_invoices db)\<rparr>)"

definition fill :: "'a option \<Rightarrow> 'a option \<Rightarrow> 'a option" where
  "fill old new = (if old = None \<and> new \<noteq> None then new else old)"

definition recordBillingIdentity :: "string \<Rightarrow> jsval \<Rightarrow> billing_db \<Rightarrow> billing_db" where
  "recordBillingIdentity tenantId session db =
     (case find_row (\<lambda>t. ten_id t = tenantId) (db_tenants db) of
        None \<Rightarrow> db
      | Some t \<Rightarrow>
         (let details = asRecord (js_get session ''customer_details'');
              address = asRecord (js_get details ''address'');
              country = asCode (js_get address ''country'') 2;
              currency = asCode (js_get session ''currency'') 3;
              vat = readTaxId (js_get details ''tax_ids'');
              t' = t\<lparr>ten_country := fill (ten_country t) country,
                     billingCurrency := fill (billingCurrency t) currency,
                     vatNumber := fill (vatNumber t) vat\<rparr>
          in db\<lparr>db_tenants := save_row ten_id t' (db_tenants db)\<rparr>))"

definition adoptPlanFromPrice :: "billing_db \<Rightarrow> subscription \<Rightarrow> jsval \<Rightarrow> subscription \<times> bool" where
  "adoptPlanFromPrice db s remote =
     (case readPriceId remote of
        None \<Rightarrow> (s, False)
      | Some pid \<Rightarrow>
         (case find_row (\<lambda>p. providerPriceId p = Some pid) (db_prices db) of
            None \<Rightarrow> (s, False)
          | Some price \<Rightarrow>
              (s\<lparr>planId := price_planId price, planPriceId := Some (price_id price)\<rparr>,
               planPriceId s \<noteq> Some (price_id price) \<or> planId s \<noteq> price_planId price)))"

section \<open>The handlers\<close>

definition onCheckoutCompleted :: "jsval \<Rightarrow> billing_db \<Rightarrow> lifecycle_result \<times> billing_db" where
  "onCheckoutCompleted payload db =
     (let session = asRecord payload in
      case asId (js_get session ''client_reference_id'') of
        None \<Rightarrow> (Unchanged ''checkout session carried no client_reference_id'', db)
      | Some tenantId \<Rightarrow>
         (case find_row (\<lambda>s. sub_tenantId s = tenantId) (db_subscriptions db) of
            None \<Rightarrow> (Unchanged (''no subscription for tenant '' @ tenantId), db)
          | Some s \<Rightarrow>
             (let s' = s\<lparr>sub_provider := ''stripe'', providerCustomerId := asId (js_get session ''customer''),
                         providerSubscriptionId := asId (js_get session ''subscription'')\<rparr>;
                  db1 = recordBillingIdentity tenantId session db
              in (Changed (''linked tenant '' @ tenantId @ '' to its Stripe customer''), save_subscription s' db1))))"

definition onSubscriptionChanged :: "jsval \<Rightarrow> billing_db \<Rightarrow> lifecycle_result \<times> billing_db" where
  "onSubscriptionChanged payload db =
     (let remote = asRecord payload in
      case asId (js_get remote ''id'') of
        None \<Rightarrow> (Unchanged ''subscription event carried no id'', db)
      | Some sid \<Rightarrow>
         (case findSubscription db (Some sid) (asId (js_get remote ''customer'')) of
            None \<Rightarrow> (Unchanged (''no subscription matches '' @ sid), db)
          | Some s \<Rightarrow>
             (case readStatus (js_get remote ''status'') of
                None \<Rightarrow> (Unchanged (''unmapped provider status: '' @ js_String (js_get remote ''status'')), db)
              | Some st \<Rightarrow>
                 (let s1 = s\<lparr>providerSubscriptionId := Some sid, sub_provider := ''stripe'', sub_status := st,
                             currentPeriodEnd := asDate (readPeriodEnd remote),
                             cancelAt := asDate (js_get remote ''cancel_at'')\<rparr>;
                      (s2, planMoved) = adoptPlanFromPrice db s1 remote;
                      s3 = (if st = ACTIVE \<or> st = TRIALING then s2\<lparr>graceEndsAt := None\<rparr> else s2);
                      db1 = save_subscription s3 db;
                      db2 = (if planMoved then log_notice (InvalidateConfig (sub_tenantId s3)) db1 else db1)
                  in (Changed (''subscription '' @ sid @ '' is now '' @ status_name st), db2)))))"

definition onInvoicePaid :: "string \<Rightarrow> jsval \<Rightarrow> billing_db \<Rightarrow> lifecycle_result \<times> billing_db" where
  "onInvoicePaid new_id payload db =
     (case mapInvoice payload of
        Inl reason \<Rightarrow> (Unchanged reason, db)
      | Inr mapped \<Rightarrow>
         (case findSubscription db (inv_providerSubscriptionId mapped) (inv_providerCustomerId mapped) of
            None \<Rightarrow> (Unchanged ''no subscription matches this invoice'', db)
          | Some s \<Rightarrow>
             (let db1 = storeInvoice new_id s (columns mapped) db;
                  s1 = (if sub_status s \<noteq> ACTIVE then s\<lparr>sub_status := ACTIVE\<rparr> else s);
                  s2 = s1\<lparr>graceEndsAt := None\<rparr>
              in (Changed (''recorded invoice '' @ providerInvoiceId (columns mapped) @ '' as paid''),
                  save_subscription s2 db1))))"

definition onPaymentFailed :: "int \<Rightarrow> jsval \<Rightarrow> billing_db \<Rightarrow> lifecycle_result \<times> billing_db" where
  "onPaymentFailed now payload db =
     (let invoice = asRecord payload in
      case findSubscription db (readInvoiceSubscriptionId invoice) (asId (js_get invoice ''customer'')) of
        None \<Rightarrow> (Unchanged ''no subscription matches this failed payment'', db)
      | Some s \<Rightarrow>
         (let firstFailure = (graceEndsAt s = None);
              ends = (case graceEndsAt s of Some e \<Rightarrow> e | None \<Rightarrow> now + GRACE_DAYS * 86400000);
              s' = s\<lparr>sub_status := PAST_DUE, graceEndsAt := Some ends\<rparr>;
              db1 = save_subscription s' db;
              db2 = (if firstFailure then log_notice (PaymentFailedMail (sub_tenantId s) ends) db1 else db1)
          in (Changed (''payment failed; grace ends '' @ iso_of_ms ends), db2)))"

definition onTrialWillEnd :: "jsval \<Rightarrow> billing_db \<Rightarrow> (string + lifecycle_result) \<times> billing_db" where
  "onTrialWillEnd payload db =
     (let remote = asRecord payload in
      case findSubscription db (asId (js_get remote ''id'')) (asId (js_get remote ''customer'')) of
        None \<Rightarrow> (Inr (Unchanged ''no subscription matches this trial notice''), db)
      | Some s \<Rightarrow>
         (case asDate (js_get remote ''trial_end'') of
            None \<Rightarrow> (Inr (Unchanged ''trial notice carried no trial_end''), db)
          | Some trialEnd \<Rightarrow>
             (case toISOString trialEnd of
                None \<Rightarrow> (Inl ''Invalid time value'', log_notice (TrialEndingMail (sub_tenantId s) trialEnd) db)
              | Some text \<Rightarrow> (Inr (Changed (''notified of a trial ending '' @ text)),
                  log_notice (TrialEndingMail (sub_tenantId s) trialEnd) db))))"

definition lift_result :: "lifecycle_result \<times> billing_db \<Rightarrow> (string + lifecycle_result) \<times> billing_db" where
  "lift_result r = (Inr (fst r), snd r)"

definition lifecycle_apply :: "int \<Rightarrow> string \<Rightarrow> string \<Rightarrow> jsval \<Rightarrow> billing_db
    \<Rightarrow> (string + lifecycle_result) \<times> billing_db" where
  "lifecycle_apply now new_id type payload db =
     (if type = ''checkout.session.completed'' then lift_result (onCheckoutCompleted payload db)
      else if type \<in> {''customer.subscription.created'', ''customer.subscription.updated'', ''customer.subscription.deleted''}
      then lift_result (onSubscriptionChanged payload db)
      else if type \<in> {''invoice.paid'', ''invoice.payment_succeeded''} then lift_result (onInvoicePaid new_id payload db)
      else if type = ''invoice.payment_failed'' then lift_result (onPaymentFailed now payload db)
      else if type = ''customer.subscription.trial_will_end'' then onTrialWillEnd payload db
      else (Inr (Unchanged (''no handler for '' @ type)), db))"

section \<open>The guard\<close>

record guarded_request =
  req_method :: string
  isPublic :: bool
  isStoreRoute :: bool
  staffRoles :: "string list"
  writableWhenLapsed :: bool
  req_tenantId :: "string option"

definition MUTATIONS :: "string list" where
  "MUTATIONS = [''POST'', ''PATCH'', ''PUT'', ''DELETE'']"

definition hasLapsed :: "int \<Rightarrow> billing_db \<Rightarrow> string \<Rightarrow> bool" where
  "hasLapsed now db tenantId =
     (case find_row (\<lambda>s. sub_tenantId s = tenantId \<and> graceEndsAt s \<noteq> None) (db_subscriptions db) of
        None \<Rightarrow> False
      | Some s \<Rightarrow> (case graceEndsAt s of None \<Rightarrow> False | Some e \<Rightarrow> e \<le> now))"

text \<open>\<open>False\<close> is the refusal \<open>SUBSCRIPTION_LAPSED\<close>.\<close>

definition canActivate :: "int \<Rightarrow> billing_db \<Rightarrow> guarded_request \<Rightarrow> bool" where
  "canActivate now db r =
     (if req_method r \<notin> set MUTATIONS then True
      else if isPublic r \<or> isStoreRoute r then True
      else if staffRoles r \<noteq> [] then True
      else if writableWhenLapsed r then True
      else case req_tenantId r of
        None \<Rightarrow> True
      | Some t \<Rightarrow> t = [] \<or> \<not> hasLapsed now db t)"

end
