(* ===== verification/Billing_Events.thy ===== *)
theory Billing_Events
  imports Subscriptions
begin

text \<open>
  The record of provider events (\<open>src/billing/billing-webhook.service.ts\<close>) and the worker that
  processes what was left unfinished (\<open>src/billing/billing-event-retry.service.ts\<close>). The subscription
  lifecycle both call is injected, as in the code: it is the parameter \<open>handle\<close>, a handler over its own
  database \<open>'d\<close>. A thrown error is \<open>Inl\<close> of its message. Times are in milliseconds; an operation
  that reads the clock more than once is given one reading.
\<close>

record billing_event =
  ev_id :: string
  ev_provider :: string
  providerEventId :: string
  ev_type :: string
  ev_payload :: jsval
  ev_createdAt :: int
  processedAt :: "int option"
  ev_error :: "string option"
  attempts :: nat
  deadAt :: "int option"

record 'd event_state =
  ev_rows :: "billing_event list"
  ev_domain :: 'd

type_synonym 'd handler = "string \<Rightarrow> jsval \<Rightarrow> 'd \<Rightarrow> (string + lifecycle_result) \<times> 'd"

record verified_webhook =
  vw_eventId :: string
  vw_type :: string
  vw_payload :: jsval

datatype webhook_outcome = Processed string | Duplicate string | Unverified

section \<open>Receiving a delivery\<close>

definition event_payload :: "jsval \<Rightarrow> jsval" where
  "event_payload payload = (if is_object payload \<and> \<not> is_array payload then payload else JObj [(''value'', payload)])"

text \<open>\<open>this.events.update({ id }, ...)\<close> after the handler returned or threw.\<close>

definition process_event :: "'d handler \<Rightarrow> int \<Rightarrow> verified_webhook \<Rightarrow> billing_event \<Rightarrow> 'd event_state
    \<Rightarrow> (string + webhook_outcome) \<times> 'd event_state" where
  "process_event handle now v claimed st =
     (case handle (vw_type v) (vw_payload v) (ev_domain st) of
        (Inr _, d) \<Rightarrow> (Inr (Processed (vw_eventId v)),
          \<lparr>ev_rows = update_rows (\<lambda>e. ev_id e = ev_id claimed)
             (\<lambda>e. e\<lparr>processedAt := Some now, ev_error := None\<rparr>) (ev_rows st), ev_domain = d\<rparr>)
      | (Inl msg, d) \<Rightarrow> (Inl msg,
          \<lparr>ev_rows = update_rows (\<lambda>e. ev_id e = ev_id claimed) (\<lambda>e. e\<lparr>ev_error := Some msg\<rparr>) (ev_rows st),
           ev_domain = d\<rparr>))"

definition same_event :: "string \<Rightarrow> verified_webhook \<Rightarrow> billing_event \<Rightarrow> bool" where
  "same_event provider v e \<longleftrightarrow> ev_provider e = provider \<and> providerEventId e = vw_eventId v"

text \<open>
  \<open>record\<close>: the insert fails with \<open>ER_DUP_ENTRY\<close> exactly when the unique key of provider and event id
  is taken. \<open>new_id\<close> is the primary key the insert would generate.
\<close>

definition record_event :: "'d handler \<Rightarrow> int \<Rightarrow> string \<Rightarrow> string \<Rightarrow> verified_webhook \<Rightarrow> 'd event_state
    \<Rightarrow> (string + webhook_outcome) \<times> 'd event_state" where
  "record_event handle now new_id provider v st =
     (case find_row (same_event provider v) (ev_rows st) of
        Some existing \<Rightarrow>
          if processedAt existing \<noteq> None then (Inr (Duplicate (vw_eventId v)), st)
          else process_event handle now v existing st
      | None \<Rightarrow>
         (let event = \<lparr>ev_id = new_id, ev_provider = provider, providerEventId = vw_eventId v, ev_type = vw_type v,
                ev_payload = event_payload (vw_payload v), ev_createdAt = now, processedAt = None, ev_error = None,
                attempts = 0, deadAt = None\<rparr>
          in process_event handle now v event (st\<lparr>ev_rows := ev_rows st @ [event]\<rparr>)))"

definition requireBillingProvider :: "'p option \<Rightarrow> string + 'p" where
  "requireBillingProvider provider = (case provider of
       None \<Rightarrow> Inl ''No billing provider is configured (STRIPE_SECRET_KEY / STRIPE_WEBHOOK_SECRET absent).''
     | Some p \<Rightarrow> Inr p)"

text \<open>
  \<open>handle\<close>: \<open>provider\<close> is what the deployment configured, its name and its verification of a body and a
  signature.
\<close>

definition handle_webhook :: "(string \<times> (string \<Rightarrow> string \<Rightarrow> verified_webhook option)) option \<Rightarrow> 'd handler
    \<Rightarrow> int \<Rightarrow> string \<Rightarrow> string \<Rightarrow> string \<Rightarrow> 'd event_state \<Rightarrow> (string + webhook_outcome) \<times> 'd event_state" where
  "handle_webhook provider handle now new_id rawBody signature st =
     (case requireBillingProvider provider of
        Inl msg \<Rightarrow> (Inl msg, st)
      | Inr (provider_name, verify) \<Rightarrow>
         (case verify rawBody signature of
            None \<Rightarrow> (Inr Unverified, st)
          | Some verified \<Rightarrow> record_event handle now new_id provider_name verified st))"

section \<open>The retry worker\<close>

definition MAX_ATTEMPTS :: nat where
  "MAX_ATTEMPTS = 5"

definition RETRY_AFTER_MS :: int where
  "RETRY_AFTER_MS = 60000"

definition claimable :: "int \<Rightarrow> billing_event list \<Rightarrow> billing_event list" where
  "claimable cutoff rows = take 50 (sort_key ev_createdAt
     (filter (\<lambda>e. processedAt e = None \<and> deadAt e = None \<and> ev_createdAt e < cutoff) rows))"

abbreviation bump :: "billing_event \<Rightarrow> billing_event" where
  "bump e \<equiv> e\<lparr>attempts := attempts e + 1\<rparr>"

definition claim :: "int \<Rightarrow> billing_event list \<Rightarrow> billing_event list \<times> billing_event list" where
  "claim cutoff rows =
     (let claimed = claimable cutoff rows in
      if claimed = [] then ([], rows)
      else (map bump claimed, update_rows (\<lambda>e. ev_id e \<in> ev_id ` set claimed) bump rows))"

text \<open>The body of the loop of \<open>retryPending\<close>: one claimed event, an in-memory copy of its row.\<close>

datatype retry_result = Recovered | DeadLettered | WillRetry

definition retry_one :: "'d handler \<Rightarrow> int \<Rightarrow> billing_event \<Rightarrow> 'd event_state \<Rightarrow> retry_result \<times> 'd event_state" where
  "retry_one handle now event st =
     (case handle (ev_type event) (ev_payload event) (ev_domain st) of
        (Inr _, d) \<Rightarrow> (Recovered,
          \<lparr>ev_rows = update_rows (\<lambda>e. ev_id e = ev_id event)
             (\<lambda>e. e\<lparr>processedAt := Some now, ev_error := None, attempts := attempts event\<rparr>) (ev_rows st),
           ev_domain = d\<rparr>)
      | (Inl msg, d) \<Rightarrow>
         (let dead = (MAX_ATTEMPTS \<le> attempts event) in
          (if dead then DeadLettered else WillRetry,
           \<lparr>ev_rows = update_rows (\<lambda>e. ev_id e = ev_id event)
              (\<lambda>e. e\<lparr>ev_error := Some msg, attempts := attempts event, deadAt := (if dead then Some now else None)\<rparr>)
              (ev_rows st),
            ev_domain = d\<rparr>)))"

record retry_counts =
  retried :: nat
  recovered :: nat
  deadLettered :: nat

fun retry_loop :: "'d handler \<Rightarrow> int \<Rightarrow> billing_event list \<Rightarrow> retry_counts \<Rightarrow> 'd event_state
    \<Rightarrow> retry_counts \<times> 'd event_state" where
  "retry_loop handle now [] counts st = (counts, st)"
| "retry_loop handle now (event # pending) counts st =
     (let (result, st') = retry_one handle now event st;
          counts' = (case result of
              Recovered \<Rightarrow> counts\<lparr>recovered := recovered counts + 1\<rparr>
            | DeadLettered \<Rightarrow> counts\<lparr>deadLettered := deadLettered counts + 1\<rparr>
            | WillRetry \<Rightarrow> counts)
      in retry_loop handle now pending counts' st')"

definition retryPending :: "'d handler \<Rightarrow> int \<Rightarrow> 'd event_state \<Rightarrow> retry_counts \<times> 'd event_state" where
  "retryPending handle now st =
     (let cutoff = now - RETRY_AFTER_MS;
          (pending, rows) = claim cutoff (ev_rows st)
      in retry_loop handle now pending \<lparr>retried = length pending, recovered = 0, deadLettered = 0\<rparr>
           (st\<lparr>ev_rows := rows\<rparr>))"

end
