(* ===== verification/Subscriptions_Correct.thy ===== *)
theory Subscriptions_Correct
  imports Subscriptions
begin

text \<open>
  Correctness of the subscription lifecycle: fourteen days of grace from the first failure of a lapse
  and one notice for it, a paid invoice that ends the lapse and is idempotent, and the guard that
  refuses exactly the authoring writes of a lapsed tenant.
\<close>

definition valid_db :: "billing_db \<Rightarrow> bool" where
  "valid_db db = (distinct (map sub_id (db_subscriptions db)) \<and> distinct (map sub_tenantId (db_subscriptions db))
     \<and> distinct (map inv_id (db_invoices db)) \<and> distinct (map ten_id (db_tenants db)))"

section \<open>Finding a saved row\<close>

lemma find_map_inv:
  "\<forall>x\<in>set xs. P (f x) = P x \<Longrightarrow> List.find P (map f xs) = map_option f (List.find P xs)"
  by (induction xs) auto

lemma find_row_saved:
  assumes "distinct (map key rows)" and "s \<in> set rows" and "key r = key s" and "P r = P s"
  shows "find_row P (save_row key r rows) = map_option (\<lambda>x. if key x = key s then r else x) (find_row P rows)"
proof -
  have "key r \<in> key ` set rows" using assms(2,3) by simp
  then have "save_row key r rows = map (\<lambda>x. if key x = key s then r else x) rows"
    using assms(3) by (simp add: save_row_def)
  moreover have "\<forall>x\<in>set rows. P (if key x = key s then r else x) = P x"
    using assms by (auto dest: distinct_map [THEN iffD1] inj_onD)
  ultimately show ?thesis by (simp only: find_row_def find_map_inv)
qed

lemma find_row_Some: "find_row P rows = Some r \<Longrightarrow> r \<in> set rows \<and> P r"
  by (simp add: find_row_def find_Some_in)

lemma find_row_None: "find_row P rows = None \<longleftrightarrow> (\<forall>r\<in>set rows. \<not> P r)"
  by (simp add: find_row_def find_None_all)

lemma save_row_same:
  "distinct (map key rows) \<Longrightarrow> r \<in> set rows \<Longrightarrow> save_row key r rows = rows"
  by (auto simp: save_row_def distinct_map inj_on_def intro!: map_idI)

lemma map_save_row:
  assumes "s \<in> set rows" and "distinct (map key rows)" and "key r = key s" and "f r = f s"
  shows "map f (save_row key r rows) = map f rows"
proof -
  have "key r \<in> key ` set rows" using assms(1,3) by simp
  moreover have "\<forall>x\<in>set rows. key x = key r \<longrightarrow> x = s" using assms by (metis distinct_map inj_onD)
  ultimately show ?thesis using assms(4) by (auto simp: save_row_def)
qed

lemma find_subscription_in: "findSubscription db a b = Some s \<Longrightarrow> s \<in> set (db_subscriptions db)"
  by (auto simp: findSubscription_def Let_def dest!: find_row_Some split: option.splits)

lemma find_subscription_saved:
  assumes "valid_db db" and "s \<in> set (db_subscriptions db)" and "sub_id s' = sub_id s"
    and "providerSubscriptionId s' = providerSubscriptionId s" and "providerCustomerId s' = providerCustomerId s"
    and "db_subscriptions db' = save_row sub_id s' (db_subscriptions db)"
  shows "findSubscription db' a b = map_option (\<lambda>x. if sub_id x = sub_id s then s' else x) (findSubscription db a b)"
proof -
  have "find_row P (db_subscriptions db')
      = map_option (\<lambda>x. if sub_id x = sub_id s then s' else x) (find_row P (db_subscriptions db))"
    if "P s' = P s" for P
    unfolding assms(6) using assms(1-3) that by (intro find_row_saved) (simp_all add: valid_db_def)
  then show ?thesis by (simp add: findSubscription_def assms(4,5) Let_def split: option.split)
qed

lemma valid_saved:
  assumes "valid_db db" and "s \<in> set (db_subscriptions db)" and "sub_id s' = sub_id s" and "sub_tenantId s' = sub_tenantId s"
  shows "valid_db (save_subscription s' db)"
  using assms by (simp add: valid_db_def save_subscription_def map_save_row [of s])

lemma valid_notice [simp]: "valid_db (log_notice n db) = valid_db db"
  by (simp add: valid_db_def log_notice_def)

lemma findSubscription_cong:
  assumes "db_subscriptions db' = db_subscriptions db"
  shows "findSubscription db' = findSubscription db"
  unfolding findSubscription_def assms ..

lemma notice_simps [simp]:
  "db_subscriptions (log_notice n db) = db_subscriptions db"
  "findSubscription (log_notice n db) = findSubscription db"
proof -
  show "db_subscriptions (log_notice n db) = db_subscriptions db" by (simp add: log_notice_def)
  then show "findSubscription (log_notice n db) = findSubscription db" by (rule findSubscription_cong)
qed

section \<open>Grace\<close>

text \<open>The subscription a failed payment is about.\<close>

definition failed_subscription :: "jsval \<Rightarrow> billing_db \<Rightarrow> subscription option" where
  "failed_subscription payload db =
     findSubscription db (readInvoiceSubscriptionId (asRecord payload)) (asId (js_get (asRecord payload) ''customer''))"

lemma payment_failed_step:
  fixes now :: int
  assumes "valid_db db" and "failed_subscription payload db = Some s"
  defines "e \<equiv> (case graceEndsAt s of Some e \<Rightarrow> e | None \<Rightarrow> now + 14 * 86400000)"
  defines "db' \<equiv> snd (onPaymentFailed now payload db)"
  shows "valid_db db'" and "failed_subscription payload db' = Some (s\<lparr>sub_status := PAST_DUE, graceEndsAt := Some e\<rparr>)"
    and "db_notices db' = db_notices db @ (if graceEndsAt s = None then [PaymentFailedMail (sub_tenantId s) e] else [])"
    and "db_subscriptions db' = save_row sub_id (s\<lparr>sub_status := PAST_DUE, graceEndsAt := Some e\<rparr>) (db_subscriptions db)"
proof -
  let ?s = "s\<lparr>sub_status := PAST_DUE, graceEndsAt := Some e\<rparr>"
  have s: "s \<in> set (db_subscriptions db)"
    using assms(2) find_subscription_in by (simp add: failed_subscription_def)
  have db': "db' = (if graceEndsAt s = None then log_notice (PaymentFailedMail (sub_tenantId s) e) (save_subscription ?s db)
      else save_subscription ?s db)"
    using assms(2) by (cases "graceEndsAt s")
      (simp_all add: db'_def e_def onPaymentFailed_def failed_subscription_def GRACE_DAYS_def Let_def)
  show "valid_db db'" using valid_saved [OF assms(1) s, of ?s] by (simp add: db')
  show subs: "db_subscriptions db' = save_row sub_id ?s (db_subscriptions db)"
    by (simp add: db' save_subscription_def)
  show "failed_subscription payload db' = Some ?s"
    using assms(2) find_subscription_saved [OF assms(1) s _ _ _ subs] by (simp add: failed_subscription_def)
  show "db_notices db' = db_notices db @ (if graceEndsAt s = None then [PaymentFailedMail (sub_tenantId s) e] else [])"
    by (simp add: db' log_notice_def save_subscription_def)
qed

definition fail_payments :: "jsval \<Rightarrow> int list \<Rightarrow> billing_db \<Rightarrow> billing_db" where
  "fail_payments payload ts db = fold (\<lambda>now db. snd (onPaymentFailed now payload db)) ts db"

lemma fail_payments_again:
  assumes "valid_db db" and "failed_subscription payload db = Some s" and "graceEndsAt s = Some e" and "sub_status s = PAST_DUE"
  shows "valid_db (fail_payments payload ts db) \<and> failed_subscription payload (fail_payments payload ts db) = Some s
    \<and> db_notices (fail_payments payload ts db) = db_notices db"
  using assms
proof (induction ts arbitrary: db)
  case (Cons now ts)
  have "s\<lparr>sub_status := PAST_DUE, graceEndsAt := Some e\<rparr> = s" using Cons.prems(3,4) by simp
  then show ?case
    using payment_failed_step [OF Cons.prems(1,2), of now] Cons.IH [of "snd (onPaymentFailed now payload db)"] Cons.prems(3,4)
    by (simp add: fail_payments_def)
qed (simp add: fail_payments_def)

text \<open>
  However often the provider reports the failure of a payment, the deadline is fourteen days
  after the first report of the lapse, the subscription is past due, and the merchant is told once.
\<close>

theorem grace_set_once:
  assumes "valid_db db" and "failed_subscription payload db = Some s" and "graceEndsAt s = None"
  shows "failed_subscription payload (fail_payments payload (now # later) db)
      = Some (s\<lparr>sub_status := PAST_DUE, graceEndsAt := Some (now + 14 * 86400000)\<rparr>)
    \<and> db_notices (fail_payments payload (now # later) db)
      = db_notices db @ [PaymentFailedMail (sub_tenantId s) (now + 14 * 86400000)]"
proof -
  note step = payment_failed_step [OF assms(1,2), of now]
  show ?thesis
    using fail_payments_again [OF step(1,2), of _ later] step(3) assms(3) by (simp add: fail_payments_def)
qed

definition example_subscription :: subscription where
  "example_subscription = \<lparr>sub_id = ''s1'', sub_tenantId = ''t1'', planId = ''basic'', planPriceId = None,
     sub_provider = ''stripe'', providerSubscriptionId = Some ''sub_1'', providerCustomerId = Some ''cus_1'',
     sub_status = ACTIVE, currentPeriodEnd = None, cancelAt = None, graceEndsAt = None\<rparr>"

definition example_db :: billing_db where
  "example_db = \<lparr>db_subscriptions = [example_subscription, example_subscription\<lparr>sub_id := ''s2'', sub_tenantId := ''t2'',
       providerSubscriptionId := None, providerCustomerId := None\<rparr>],
     db_tenants = [], db_prices = [], db_invoices = [], db_notices = []\<rparr>"

definition failed_payload :: jsval where
  "failed_payload = JObj [(''id'', JStr ''in_1''), (''customer'', JStr ''cus_1'')]"

lemmas example_simps = example_db_def example_subscription_def failed_payload_def valid_db_def

lemma example_valid [simp]: "valid_db example_db"
  by (simp add: example_simps)

lemma example_failed: "failed_subscription failed_payload example_db = Some example_subscription"
  by code_simp

theorem grace_set_once_witness:
  "failed_subscription failed_payload (fail_payments failed_payload [0, 86400000, 5] example_db)
      = Some (example_subscription\<lparr>sub_status := PAST_DUE, graceEndsAt := Some 1209600000\<rparr>)
    \<and> db_notices (fail_payments failed_payload [0, 86400000, 5] example_db) = [PaymentFailedMail ''t1'' 1209600000]"
  using grace_set_once [OF example_valid example_failed, of 0 "[86400000, 5]"]
  by (simp add: example_subscription_def example_db_def)

section \<open>Paid invoices\<close>

lemma stored_tables [simp]:
  "db_subscriptions (storeInvoice i s c db) = db_subscriptions db"
  "db_tenants (storeInvoice i s c db) = db_tenants db"
  by (simp_all add: storeInvoice_def split: option.split)

lemma stored_find [simp]: "findSubscription (storeInvoice i s c db) = findSubscription db"
  by (rule findSubscription_cong) simp

text \<open>Storing an invoice again, under any fresh id, changes nothing.\<close>

lemma storeInvoice_twice:
  assumes "distinct (map inv_id (db_invoices db))" and "i \<notin> inv_id ` set (db_invoices db)"
  shows "distinct (map inv_id (db_invoices (storeInvoice i s c db)))"
    and "storeInvoice j s' c (storeInvoice i s c db) = storeInvoice i s c db"
proof -
  let ?P = "\<lambda>v. inv_provider v = ''stripe'' \<and> providerInvoiceId (inv_columns v) = providerInvoiceId c"
  obtain r where r: "db_invoices (storeInvoice i s c db) = save_row inv_id r (db_invoices db)"
    "?P r" "inv_columns r = c" "find_row ?P (db_invoices (storeInvoice i s c db)) = Some r"
  proof (cases "find_row ?P (db_invoices db)")
    case None
    let ?r = "\<lparr>inv_id = i, inv_tenantId = sub_tenantId s, inv_subscriptionId = Some (sub_id s), inv_provider = ''stripe'', inv_columns = c\<rparr>"
    have "find_row ?P (db_invoices db @ [?r]) = Some ?r"
      using None by (simp add: find_row_def find_append)
    then show ?thesis using None assms(2) by (intro that [of ?r]) (simp_all add: storeInvoice_def save_row_def)
  next
    case (Some v)
    have v: "v \<in> set (db_invoices db)" "?P v" using find_row_Some [OF Some] by blast+
    have "find_row ?P (save_row inv_id (v\<lparr>inv_columns := c\<rparr>) (db_invoices db)) = Some (v\<lparr>inv_columns := c\<rparr>)"
      using find_row_saved [OF assms(1) v(1), of "v\<lparr>inv_columns := c\<rparr>" ?P] v(2) Some by simp
    then show ?thesis using Some v(2) by (intro that [of "v\<lparr>inv_columns := c\<rparr>"]) (simp_all add: storeInvoice_def)
  qed
  show d: "distinct (map inv_id (db_invoices (storeInvoice i s c db)))"
    unfolding r(1) using rows.valid_store [of inv_id] assms(1) by blast
  have "r \<in> set (db_invoices (storeInvoice i s c db))" using find_row_Some [OF r(4)] by simp
  moreover have same: "r\<lparr>inv_columns := c\<rparr> = r" using r(3) by (cases r) simp
  ultimately have "save_row inv_id (r\<lparr>inv_columns := c\<rparr>) (db_invoices (storeInvoice i s c db)) = db_invoices (storeInvoice i s c db)"
    using save_row_same [OF d] same by simp
  then show "storeInvoice j s' c (storeInvoice i s c db) = storeInvoice i s c db"
    by (subst storeInvoice_def) (simp add: r(4))
qed

lemma storeInvoice_saved:
  assumes "distinct (map inv_id (db_invoices db))" and "i \<notin> inv_id ` set (db_invoices db)"
  shows "storeInvoice j s' c (save_subscription x (storeInvoice i s c db)) = save_subscription x (storeInvoice i s c db)"
proof -
  have "storeInvoice j s' c (save_subscription x d) = save_subscription x (storeInvoice j s' c d)" for d
    by (simp add: storeInvoice_def save_subscription_def split: option.split)
  then show ?thesis using storeInvoice_twice(2) [OF assms] by simp
qed

section \<open>The guard\<close>

text \<open>A write a lapsed tenant may not make: a mutation under none of the exemptions.\<close>

definition authoring_write :: "guarded_request \<Rightarrow> bool" where
  "authoring_write r = (req_method r \<in> set MUTATIONS \<and> \<not> isPublic r \<and> \<not> isStoreRoute r \<and> staffRoles r = []
     \<and> \<not> writableWhenLapsed r)"

lemma tenant_row_unique:
  assumes "valid_db db" and "s \<in> set (db_subscriptions db)" and "s' \<in> set (db_subscriptions db)"
    and "sub_tenantId s = sub_tenantId s'"
  shows "s = s'"
  using assms by (auto simp: valid_db_def dest!: distinct_map [THEN iffD1] dest: inj_onD)

lemma hasLapsed_row:
  assumes "valid_db db" and "s \<in> set (db_subscriptions db)"
  shows "hasLapsed now db (sub_tenantId s) \<longleftrightarrow> (case graceEndsAt s of None \<Rightarrow> False | Some e \<Rightarrow> e \<le> now)"
proof (cases "find_row (\<lambda>x. sub_tenantId x = sub_tenantId s \<and> graceEndsAt x \<noteq> None) (db_subscriptions db)")
  case None
  then have "graceEndsAt s = None" using assms(2) unfolding find_row_None by blast
  then show ?thesis using None by (simp add: hasLapsed_def)
next
  case (Some x)
  then have "x = s" using tenant_row_unique [OF assms(1) _ assms(2)] by (auto dest!: find_row_Some)
  then show ?thesis using Some by (simp add: hasLapsed_def)
qed

lemma guard_row:
  assumes "valid_db db" and "s \<in> set (db_subscriptions db)" and "req_tenantId r = Some (sub_tenantId s)"
    and "sub_tenantId s \<noteq> []"
  shows "canActivate now db r \<longleftrightarrow>
    \<not> (authoring_write r \<and> (case graceEndsAt s of None \<Rightarrow> False | Some e \<Rightarrow> e \<le> now))"
  using assms(3,4) by (auto simp: canActivate_def authoring_write_def hasLapsed_row [OF assms(1,2)])


definition example_write :: guarded_request where
  "example_write = \<lparr>req_method = ''POST'', isPublic = False, isStoreRoute = False, staffRoles = [],
     writableWhenLapsed = False, req_tenantId = Some ''t1''\<rparr>"


section \<open>A paid invoice ends the lapse\<close>

lemma invoice_paid_step:
  assumes "valid_db db" and "mapInvoice payload = Inr mi" and "new_id \<notin> inv_id ` set (db_invoices db)"
    and "findSubscription db (inv_providerSubscriptionId mi) (inv_providerCustomerId mi) = Some s"
  defines "s' \<equiv> s\<lparr>sub_status := ACTIVE, graceEndsAt := None\<rparr>"
  defines "db' \<equiv> snd (onInvoicePaid new_id payload db)"
  shows "db' = save_subscription s' (storeInvoice new_id s (columns mi) db)" and "valid_db db'"
    and "s' \<in> set (db_subscriptions db')"
    and "findSubscription db' (inv_providerSubscriptionId mi) (inv_providerCustomerId mi) = Some s'"
proof -
  let ?db1 = "storeInvoice new_id s (columns mi) db"
  have s: "s \<in> set (db_subscriptions db)" using assms(4) by (rule find_subscription_in)
  have "(if sub_status s \<noteq> ACTIVE then s\<lparr>sub_status := ACTIVE\<rparr> else s)\<lparr>graceEndsAt := None\<rparr> = s'"
    by (auto simp: s'_def)
  then show db': "db' = save_subscription s' ?db1"
    using assms(2,4) by (simp add: db'_def onInvoicePaid_def Let_def)
  have v1: "valid_db ?db1"
    using assms(1) storeInvoice_twice(1) [OF _ assms(3)] by (simp add: valid_db_def)
  show "valid_db db'" unfolding db' using valid_saved [OF v1, of s s'] s by (simp add: s'_def)
  have subs: "db_subscriptions db' = save_row sub_id s' (db_subscriptions ?db1)"
    by (simp add: db' save_subscription_def)
  show f: "findSubscription db' (inv_providerSubscriptionId mi) (inv_providerCustomerId mi) = Some s'"
    using find_subscription_saved [OF v1 _ _ _ _ subs] s assms(4) by (simp add: s'_def)
  show "s' \<in> set (db_subscriptions db')" using f by (rule find_subscription_in)
qed

text \<open>
  A paid invoice that finds its subscription pauses nothing for the tenant any more: every
  request of that tenant passes the guard at any later time.
\<close>

theorem paid_invoice_unlocks:
  assumes "valid_db db" and "mapInvoice payload = Inr mi" and "new_id \<notin> inv_id ` set (db_invoices db)"
    and "findSubscription db (inv_providerSubscriptionId mi) (inv_providerCustomerId mi) = Some s"
    and "req_tenantId r = Some (sub_tenantId s)"
  shows "canActivate t (snd (onInvoicePaid new_id payload db)) r"
proof -
  note step = invoice_paid_step [OF assms(1-4)]
  show ?thesis
  proof (cases "sub_tenantId s = []")
    case True
    then show ?thesis using assms(5) by (simp add: canActivate_def)
  next
    case False
    then show ?thesis using guard_row [OF step(2,3), of r t] assms(5) by simp
  qed
qed

definition lapsed_db :: billing_db where
  "lapsed_db = example_db\<lparr>db_subscriptions := [example_subscription\<lparr>sub_status := PAST_DUE, graceEndsAt := Some 5\<rparr>]\<rparr>"

lemma lapsed_valid [simp]: "valid_db lapsed_db" "db_invoices lapsed_db = []"
  by (simp_all add: lapsed_db_def example_simps)

theorem paid_invoice_unlocks_witness:
  "\<not> canActivate 9 lapsed_db example_write
    \<and> canActivate 9 (snd (onInvoicePaid ''i1'' example_invoice lapsed_db)) example_write"
proof -
  obtain mi where mi: "mapInvoice example_invoice = Inr mi" "inv_providerCustomerId mi = Some ''cus_1''"
    "inv_providerSubscriptionId mi = None" using mapInvoice_example by blast
  have "findSubscription lapsed_db None (Some ''cus_1'')
      = Some (example_subscription\<lparr>sub_status := PAST_DUE, graceEndsAt := Some 5\<rparr>)"
    by code_simp
  then have f: "findSubscription lapsed_db (inv_providerSubscriptionId mi) (inv_providerCustomerId mi)
      = Some (example_subscription\<lparr>sub_status := PAST_DUE, graceEndsAt := Some 5\<rparr>)"
    by (simp only: mi(2,3))
  have "\<not> canActivate 9 lapsed_db example_write" by code_simp
  then show ?thesis
    using paid_invoice_unlocks [OF lapsed_valid(1) mi(1) _ f, of "''i1''" example_write 9]
    by (simp add: example_subscription_def example_write_def)
qed

text \<open>Handling a paid invoice again, under whatever id a new row would get, leaves every table as it is.\<close>

lemma invoice_paid_twice:
  assumes "valid_db db" and "new_id \<notin> inv_id ` set (db_invoices db)"
  shows "snd (onInvoicePaid other_id payload (snd (onInvoicePaid new_id payload db))) = snd (onInvoicePaid new_id payload db)"
proof (cases "mapInvoice payload")
  case (Inl e)
  then show ?thesis by (simp add: onInvoicePaid_def)
next
  case (Inr mi)
  let ?find = "\<lambda>db. findSubscription db (inv_providerSubscriptionId mi) (inv_providerCustomerId mi)"
  show ?thesis
  proof (cases "?find db")
    case None
    then show ?thesis using Inr by (simp add: onInvoicePaid_def)
  next
    case (Some s)
    let ?s = "s\<lparr>sub_status := ACTIVE, graceEndsAt := None\<rparr>"
    let ?db = "snd (onInvoicePaid new_id payload db)"
    note step = invoice_paid_step [OF assms(1) Inr assms(2) Some]
    have "snd (onInvoicePaid other_id payload ?db) = save_subscription ?s (storeInvoice other_id ?s (columns mi) ?db)"
      using step(4) Inr by (simp add: onInvoicePaid_def Let_def)
    moreover have "storeInvoice other_id ?s (columns mi) ?db = ?db"
      using storeInvoice_saved [OF _ assms(2)] assms(1) by (simp add: step(1) valid_db_def)
    moreover have "save_subscription ?s ?db = ?db"
      using save_row_same [of sub_id "db_subscriptions ?db" ?s] step(2,3) by (simp add: save_subscription_def valid_db_def)
    ultimately show ?thesis by simp
  qed
qed

end
