(* ===== verification/Lifecycle_Idempotent.thy ===== *)
theory Lifecycle_Idempotent
  imports Subscriptions_Correct
begin

text \<open>
  Every handler of the subscription lifecycle is idempotent: a provider that delivers an event again,
  or a worker that processes it again, changes no table. The interface \<open>event_handler\<close> states this as
  the law the delivery of events relies on.
\<close>

section \<open>The interface\<close>

locale event_handler =
  fixes handle :: "int \<Rightarrow> string \<Rightarrow> string \<Rightarrow> jsval \<Rightarrow> 'd \<Rightarrow> 'r \<times> 'd"
    and tables :: "'d \<Rightarrow> 't"
    and ok :: "'d \<Rightarrow> bool"
    and fresh :: "string \<Rightarrow> 'd \<Rightarrow> bool"
  assumes apply_ok: "ok d \<Longrightarrow> fresh i d \<Longrightarrow> ok (snd (handle now i ty p d))"
    and apply_reads_tables: "tables d = tables d' \<Longrightarrow> tables (snd (handle now i ty p d)) = tables (snd (handle now i ty p d'))"
    and apply_again: "ok d \<Longrightarrow> fresh i d \<Longrightarrow>
      tables (snd (handle now' j ty p (snd (handle now i ty p d)))) = tables (snd (handle now i ty p d))"
begin

lemma applied_again:
  assumes "ok d" and "fresh i d" and "tables d' = tables (snd (handle now i ty p d))"
  shows "tables (snd (handle now' j ty p d')) = tables (snd (handle now i ty p d))"
  using apply_reads_tables [OF assms(3)] apply_again [OF assms(1,2)] by simp

lemma applied_often:
  assumes "ok d" and "fresh i d"
  shows "tables (fold (\<lambda>(now, j) d. snd (handle now j ty p d)) later (snd (handle now i ty p d)))
    = tables (snd (handle now i ty p d))"
proof -
  have "tables (fold (\<lambda>(now, j) d. snd (handle now j ty p d)) later d') = tables (snd (handle now i ty p d))"
    if "tables d' = tables (snd (handle now i ty p d))" for d'
    using that applied_again [OF assms] by (induction later arbitrary: d') auto
  then show ?thesis by blast
qed

end

section \<open>The tables without the log of notices\<close>

definition tables :: "billing_db \<Rightarrow> billing_db" where
  "tables db = db\<lparr>db_notices := []\<rparr>"

definition fresh_invoice :: "string \<Rightarrow> billing_db \<Rightarrow> bool" where
  "fresh_invoice i db \<longleftrightarrow> i \<notin> inv_id ` set (db_invoices db)"

lemma tables_log [simp]: "tables (log_notice n db) = tables db"
  by (simp add: tables_def log_notice_def)

lemma tables_eq: "tables db = tables db' \<Longrightarrow> \<exists>ns. db' = db\<lparr>db_notices := ns\<rparr>"
  by (metis billing_db.surjective billing_db.update_convs(5) tables_def)

lemma tables_notices [simp]: "tables (db\<lparr>db_notices := ns\<rparr>) = tables db"
  by (simp add: tables_def)

lemma notices_find [simp]: "findSubscription (db\<lparr>db_notices := ns\<rparr>) = findSubscription db"
  by (rule findSubscription_cong) simp

section \<open>Reading back what was saved\<close>

lemma find_row_now:
  assumes "distinct (map key rows)" and "s \<in> set rows" and "key r = key s" and "P r"
    and "find_row P rows = Some s \<or> find_row P rows = None"
  shows "find_row P (save_row key r rows) = Some r"
proof -
  let ?g = "\<lambda>x. if key x = key s then r else x"
  have "key r \<in> key ` set rows" using assms(2,3) by simp
  then have eq: "save_row key r rows = map ?g rows" using assms(3) by (simp add: save_row_def)
  have "List.find P (map ?g xs) = Some r"
    if "distinct (map key xs)" "s \<in> set xs" "List.find P xs = Some s \<or> List.find P xs = None" for xs
    using that
  proof (induction xs)
    case (Cons x xs)
    show ?case
    proof (cases "x = s")
      case True
      then show ?thesis using assms(4) by simp
    next
      case False
      then have "s \<in> set xs" using Cons.prems(2) by simp
      then have "key x \<noteq> key s" using Cons.prems(1) by (auto simp: image_iff)
      moreover have "\<not> P x" using Cons.prems(3) False by (cases "P x") simp_all
      ultimately show ?thesis using Cons.IH Cons.prems(1,3) \<open>s \<in> set xs\<close> by simp
    qed
  qed simp
  then show ?thesis using assms(1,2,5) by (simp add: eq find_row_def)
qed

lemma save_saved:
  assumes "distinct (map key rows)" and "s \<in> set rows" and "key r = key s"
  shows "save_row key r (save_row key r rows) = save_row key r rows"
proof -
  have d: "distinct (map key (save_row key r rows))" using rows.valid_store [of key] assms(1) by blast
  have "r \<in> set (save_row key r rows)" using assms(2,3) by (auto simp: save_row_def)
  then show ?thesis by (rule save_row_same [OF d])
qed

section \<open>The handlers read no notices\<close>

lemma notices_checkout: "tables (snd (onCheckoutCompleted p (db\<lparr>db_notices := ns\<rparr>))) = tables (snd (onCheckoutCompleted p db))"
  by (simp add: onCheckoutCompleted_def recordBillingIdentity_def save_subscription_def tables_def Let_def split: option.split)

lemma notices_changed: "tables (snd (onSubscriptionChanged p (db\<lparr>db_notices := ns\<rparr>))) = tables (snd (onSubscriptionChanged p db))"
proof -
  have "adoptPlanFromPrice (db\<lparr>db_notices := ns\<rparr>) s r = adoptPlanFromPrice db s r" for s r
    by (simp add: adoptPlanFromPrice_def split: option.split)
  then show ?thesis
    by (simp add: onSubscriptionChanged_def save_subscription_def tables_def log_notice_def Let_def split: option.split prod.split)
qed

lemma notices_paid: "tables (snd (onInvoicePaid i p (db\<lparr>db_notices := ns\<rparr>))) = tables (snd (onInvoicePaid i p db))"
  by (simp add: onInvoicePaid_def storeInvoice_def save_subscription_def tables_def Let_def split: sum.split option.split)

lemma notices_failed: "tables (snd (onPaymentFailed now p (db\<lparr>db_notices := ns\<rparr>))) = tables (snd (onPaymentFailed now p db))"
  by (simp add: onPaymentFailed_def save_subscription_def tables_def log_notice_def Let_def split: option.split)

lemma tables_trial [simp]: "tables (snd (onTrialWillEnd p db)) = tables db"
  by (simp add: onTrialWillEnd_def Let_def split: option.split)

lemma lift_result_snd [simp]: "snd (lift_result r) = snd r"
  by (simp add: lift_result_def)

lemma lifecycle_reads_tables:
  assumes "tables d = tables d'"
  shows "tables (snd (lifecycle_apply now i ty p d)) = tables (snd (lifecycle_apply now i ty p d'))"
proof -
  obtain ns where "d' = d\<lparr>db_notices := ns\<rparr>" using tables_eq [OF assms] by blast
  then show ?thesis
    by (simp add: lifecycle_apply_def notices_checkout notices_changed notices_paid notices_failed)
qed

section \<open>The handlers keep the tables well formed\<close>

lemma valid_identity: "valid_db db \<Longrightarrow> valid_db (recordBillingIdentity t session db)"
  using rows.valid_store [of ten_id "db_tenants db"]
  by (simp add: recordBillingIdentity_def valid_db_def Let_def split: option.split)

lemma identity_subscriptions [simp]: "db_subscriptions (recordBillingIdentity t session db) = db_subscriptions db"
  by (simp add: recordBillingIdentity_def Let_def split: option.split)

lemma adopt_keeps:
  assumes "adoptPlanFromPrice db s r = (s', b)"
  shows "sub_id s' = sub_id s" "sub_tenantId s' = sub_tenantId s" "graceEndsAt s' = graceEndsAt s"
    "providerSubscriptionId s' = providerSubscriptionId s"
  using assms by (auto simp: adoptPlanFromPrice_def split: option.splits)

text \<open>The subscription a provider event leaves behind, with the database it is saved in.\<close>

lemma changed_step:
  assumes "valid_db db" and "asId (js_get (asRecord p) ''id'') = Some sid"
    and "findSubscription db (Some sid) (asId (js_get (asRecord p) ''customer'')) = Some s"
    and "readStatus (js_get (asRecord p) ''status'') = Some st"
  obtains s' where "tables (snd (onSubscriptionChanged p db)) = tables (save_subscription s' db)"
    and "sub_id s' = sub_id s" and "sub_tenantId s' = sub_tenantId s" and "providerSubscriptionId s' = Some sid"
    and "\<And>db2. db_prices db2 = db_prices db \<Longrightarrow> findSubscription db2 (Some sid) (asId (js_get (asRecord p) ''customer'')) = Some s'
      \<Longrightarrow> tables (snd (onSubscriptionChanged p db2)) = tables (save_subscription s' db2)"
proof -
  let ?f = "\<lambda>s. s\<lparr>providerSubscriptionId := Some sid, sub_provider := ''stripe'', sub_status := st,
    currentPeriodEnd := asDate (readPeriodEnd (asRecord p)), cancelAt := asDate (js_get (asRecord p) ''cancel_at'')\<rparr>"
  let ?g = "\<lambda>s. if st = ACTIVE \<or> st = TRIALING then s\<lparr>graceEndsAt := None\<rparr> else s"
  let ?h = "\<lambda>db s. ?g (fst (adoptPlanFromPrice db (?f s) (asRecord p)))"
  have step: "tables (snd (onSubscriptionChanged p d)) = tables (save_subscription (?h d x) d)"
    if "findSubscription d (Some sid) (asId (js_get (asRecord p) ''customer'')) = Some x" for d x
    using that assms(2,4) by (simp add: onSubscriptionChanged_def Let_def split: prod.split)
  have twice: "?h d (?h db s) = ?h db s" if "db_prices d = db_prices db" for d
    using that by (simp add: adoptPlanFromPrice_def split: option.split)
  show thesis
  proof (rule that [of "?h db s"])
    show "tables (snd (onSubscriptionChanged p db2)) = tables (save_subscription (?h db s) db2)"
      if "db_prices db2 = db_prices db"
        "findSubscription db2 (Some sid) (asId (js_get (asRecord p) ''customer'')) = Some (?h db s)" for db2
      using step [OF that(2)] twice [OF that(1)] by simp
  qed (simp_all add: step [OF assms(3)] adoptPlanFromPrice_def split: option.split)
qed

lemma valid_tables:
  assumes "tables d = tables d'"
  shows "valid_db d = valid_db d'"
proof -
  obtain ns where "d' = d\<lparr>db_notices := ns\<rparr>" using tables_eq [OF assms] by blast
  then show ?thesis by (simp add: valid_db_def)
qed

lemma changed_found:
  assumes "valid_db db" and "findSubscription db (Some sid) c = Some s"
    and "sub_id s' = sub_id s" and "providerSubscriptionId s' = Some sid"
    and "db_subscriptions db' = save_row sub_id s' (db_subscriptions db)"
  shows "findSubscription db' (Some sid) c = Some s'"
proof -
  let ?P = "\<lambda>x. providerSubscriptionId x = Some sid"
  have "find_row ?P (db_subscriptions db) = Some s \<or> find_row ?P (db_subscriptions db) = None"
    using assms(2) by (cases "find_row ?P (db_subscriptions db)") (simp_all add: findSubscription_def)
  then have "find_row ?P (db_subscriptions db') = Some s'"
    unfolding assms(5) using assms(1,3,4) find_subscription_in [OF assms(2)]
    by (intro find_row_now [of sub_id _ s]) (simp_all add: valid_db_def)
  then show ?thesis by (simp add: findSubscription_def)
qed

lemma changed_cases:
  obtains "snd (onSubscriptionChanged p db) = db"
    "\<And>d. findSubscription d = findSubscription db \<Longrightarrow> snd (onSubscriptionChanged p d) = d"
  | sid s st where "asId (js_get (asRecord p) ''id'') = Some sid"
    "findSubscription db (Some sid) (asId (js_get (asRecord p) ''customer'')) = Some s"
    "readStatus (js_get (asRecord p) ''status'') = Some st"
  by (cases "asId (js_get (asRecord p) ''id'')"; cases "readStatus (js_get (asRecord p) ''status'')";
      cases "findSubscription db (asId (js_get (asRecord p) ''id'')) (asId (js_get (asRecord p) ''customer''))")
    (simp_all add: onSubscriptionChanged_def)

lemma changed_ok: "valid_db db \<Longrightarrow> valid_db (snd (onSubscriptionChanged p db))"
proof (cases rule: changed_cases [of p db])
  case (2 sid s st)
  assume v: "valid_db db"
  obtain s' where s': "tables (snd (onSubscriptionChanged p db)) = tables (save_subscription s' db)"
    "sub_id s' = sub_id s" "sub_tenantId s' = sub_tenantId s"
    using changed_step [OF v 2] by blast
  show ?thesis
    unfolding valid_tables [OF s'(1)] by (rule valid_saved [OF v find_subscription_in [OF 2(2)] s'(2,3)])
qed simp

lemma changed_again:
  assumes v: "valid_db db"
  shows "tables (snd (onSubscriptionChanged p (snd (onSubscriptionChanged p db)))) = tables (snd (onSubscriptionChanged p db))"
proof (cases rule: changed_cases [of p db])
  case (2 sid s st)
  let ?db = "snd (onSubscriptionChanged p db)"
  obtain s' where s': "tables ?db = tables (save_subscription s' db)"
    "sub_id s' = sub_id s" "providerSubscriptionId s' = Some sid"
    "\<And>db2. db_prices db2 = db_prices db \<Longrightarrow> findSubscription db2 (Some sid) (asId (js_get (asRecord p) ''customer'')) = Some s'
      \<Longrightarrow> tables (snd (onSubscriptionChanged p db2)) = tables (save_subscription s' db2)"
    using changed_step [OF v 2] by blast
  obtain ns where db: "?db = save_subscription s' db\<lparr>db_notices := ns\<rparr>"
    using tables_eq [OF s'(1) [symmetric]] by blast
  then have subs: "db_subscriptions ?db = save_row sub_id s' (db_subscriptions db)" and "db_prices ?db = db_prices db"
    by (simp_all add: save_subscription_def)
  then have "tables (snd (onSubscriptionChanged p ?db)) = tables (save_subscription s' ?db)"
    using s'(4) changed_found [OF v 2(2) s'(2,3) subs] by blast
  also have "save_subscription s' ?db = ?db"
    using save_saved [of sub_id "db_subscriptions db" s s'] v s'(2) find_subscription_in [OF 2(2)]
    by (simp add: db save_subscription_def valid_db_def)
  finally show ?thesis .
qed simp

lemma checkout_found:
  assumes "asId (js_get (asRecord p) ''client_reference_id'') = Some t"
    and "find_row (\<lambda>s. sub_tenantId s = t) (db_subscriptions db) = Some s"
  shows "snd (onCheckoutCompleted p db) = save_subscription (s\<lparr>sub_provider := ''stripe'',
      providerCustomerId := asId (js_get (asRecord p) ''customer''),
      providerSubscriptionId := asId (js_get (asRecord p) ''subscription'')\<rparr>) (recordBillingIdentity t (asRecord p) db)"
  using assms by (simp add: onCheckoutCompleted_def Let_def)

lemma checkout_cases:
  obtains "snd (onCheckoutCompleted p db) = db"
  | t s where "asId (js_get (asRecord p) ''client_reference_id'') = Some t"
    "find_row (\<lambda>s. sub_tenantId s = t) (db_subscriptions db) = Some s"
proof (cases "asId (js_get (asRecord p) ''client_reference_id'')")
  case None
  then show thesis using that(1) by (simp add: onCheckoutCompleted_def)
next
  case (Some t)
  then show thesis using that
    by (cases "find_row (\<lambda>s. sub_tenantId s = t) (db_subscriptions db)") (auto simp: onCheckoutCompleted_def)
qed

lemma checkout_ok: "valid_db db \<Longrightarrow> valid_db (snd (onCheckoutCompleted p db))"
proof (cases rule: checkout_cases [of p db])
  case (2 t s)
  assume v: "valid_db db"
  show ?thesis unfolding checkout_found [OF 2]
    by (rule valid_saved [OF valid_identity [OF v], of s]) (use find_row_Some [OF 2(2)] in simp_all)
qed simp

lemma fill_fill [simp]: "fill (fill x n) n = fill x n"
  by (simp add: fill_def)

lemma identity_again:
  assumes "distinct (map ten_id (db_tenants db))"
  shows "recordBillingIdentity t session (recordBillingIdentity t session db) = recordBillingIdentity t session db"
proof (cases "find_row (\<lambda>r. ten_id r = t) (db_tenants db)")
  case None
  then show ?thesis by (simp add: recordBillingIdentity_def)
next
  case (Some r)
  let ?details = "asRecord (js_get session ''customer_details'')"
  let ?r = "r\<lparr>ten_country := fill (ten_country r) (asCode (js_get (asRecord (js_get ?details ''address'')) ''country'') 2),
    billingCurrency := fill (billingCurrency r) (asCode (js_get session ''currency'') 3),
    vatNumber := fill (vatNumber r) (readTaxId (js_get ?details ''tax_ids''))\<rparr>"
  have once: "recordBillingIdentity t session db = db\<lparr>db_tenants := save_row ten_id ?r (db_tenants db)\<rparr>"
    using Some by (simp add: recordBillingIdentity_def Let_def)
  have r: "r \<in> set (db_tenants db)" "ten_id r = t" using find_row_Some [OF Some] by simp_all
  have "find_row (\<lambda>x. ten_id x = t) (save_row ten_id ?r (db_tenants db)) = Some ?r"
    using find_row_now [OF assms r(1), of ?r "\<lambda>x. ten_id x = t"] r(2) Some by simp
  then show ?thesis
    using save_saved [OF assms r(1), of ?r] unfolding once by (simp add: recordBillingIdentity_def Let_def)
qed

lemma checkout_again:
  assumes v: "valid_db db"
  shows "tables (snd (onCheckoutCompleted p (snd (onCheckoutCompleted p db)))) = tables (snd (onCheckoutCompleted p db))"
proof (cases rule: checkout_cases [of p db])
  case (2 t s)
  let ?s = "s\<lparr>sub_provider := ''stripe'', providerCustomerId := asId (js_get (asRecord p) ''customer''),
      providerSubscriptionId := asId (js_get (asRecord p) ''subscription'')\<rparr>"
  let ?id = "recordBillingIdentity t (asRecord p)"
  have s: "s \<in> set (db_subscriptions db)" "sub_tenantId s = t" using find_row_Some [OF 2(2)] by simp_all
  have d: "distinct (map sub_id (db_subscriptions db))" using v by (simp add: valid_db_def)
  have "find_row (\<lambda>s. sub_tenantId s = t) (save_row sub_id ?s (db_subscriptions db)) = Some ?s"
    using find_row_saved [OF d s(1), of ?s "\<lambda>s. sub_tenantId s = t"] s(2) 2(2) by simp
  then have "find_row (\<lambda>s. sub_tenantId s = t) (db_subscriptions (save_subscription ?s (?id db))) = Some ?s"
    by (simp add: save_subscription_def)
  then have "snd (onCheckoutCompleted p (save_subscription ?s (?id db))) = save_subscription ?s (?id (save_subscription ?s (?id db)))"
    using checkout_found [OF 2(1), of "save_subscription ?s (?id db)" ?s] by simp
  also have "?id (save_subscription ?s x) = save_subscription ?s (?id x)" for x
    by (simp add: recordBillingIdentity_def save_subscription_def Let_def split: option.split)
  also have "?id (?id db) = ?id db" using identity_again v by (simp add: valid_db_def)
  also have "save_subscription ?s (save_subscription ?s (?id db)) = save_subscription ?s (?id db)"
    using save_saved [OF d s(1), of ?s] by (simp add: save_subscription_def)
  finally show ?thesis by (simp add: checkout_found [OF 2])
qed simp

lemma failed_cases:
  obtains "\<And>now. snd (onPaymentFailed now p db) = db" | s where "failed_subscription p db = Some s"
  by (cases "failed_subscription p db") (simp_all add: failed_subscription_def onPaymentFailed_def)

lemma failed_ok: "valid_db db \<Longrightarrow> valid_db (snd (onPaymentFailed now p db))"
  by (cases rule: failed_cases [of p db]) (auto dest: payment_failed_step(1))

lemma failed_again:
  assumes v: "valid_db db"
  shows "tables (snd (onPaymentFailed later p (snd (onPaymentFailed now p db)))) = tables (snd (onPaymentFailed now p db))"
proof (cases rule: failed_cases [of p db])
  case (2 s)
  let ?e = "case graceEndsAt s of Some e \<Rightarrow> e | None \<Rightarrow> now + 14 * 86400000"
  let ?s = "s\<lparr>sub_status := PAST_DUE, graceEndsAt := Some ?e\<rparr>" and ?db = "snd (onPaymentFailed now p db)"
  note step = payment_failed_step [OF v 2, of now]
  have "findSubscription ?db (readInvoiceSubscriptionId (asRecord p)) (asId (js_get (asRecord p) ''customer'')) = Some ?s"
    using step(2) by (simp add: failed_subscription_def)
  then have "snd (onPaymentFailed later p ?db) = save_subscription ?s ?db"
    by (simp add: onPaymentFailed_def Let_def)
  also have "?s \<in> set (db_subscriptions ?db)"
    using step(2) find_subscription_in by (simp add: failed_subscription_def)
  then have "save_subscription ?s ?db = ?db"
    using save_row_same [of sub_id "db_subscriptions ?db"] step(1) by (simp add: save_subscription_def valid_db_def)
  finally show ?thesis by simp
qed simp

section \<open>The lifecycle provides the interface\<close>

lemma paid_ok: "valid_db db \<Longrightarrow> fresh_invoice i db \<Longrightarrow> valid_db (snd (onInvoicePaid i p db))"
proof (cases "mapInvoice p")
  case (Inr mi)
  assume v: "valid_db db" and i: "fresh_invoice i db"
  show ?thesis
  proof (cases "findSubscription db (inv_providerSubscriptionId mi) (inv_providerCustomerId mi)")
    case None
    then show ?thesis using v Inr by (simp add: onInvoicePaid_def)
  next
    case (Some s)
    then show ?thesis using invoice_paid_step(2) [OF v Inr _ Some] i by (simp add: fresh_invoice_def)
  qed
qed (simp add: onInvoicePaid_def)

lemma lifecycle_ok: "valid_db db \<Longrightarrow> fresh_invoice i db \<Longrightarrow> valid_db (snd (lifecycle_apply now i ty p db))"
  using checkout_ok changed_ok paid_ok failed_ok valid_tables [OF tables_trial [of p db]]
  by (simp add: lifecycle_apply_def)

lemma lifecycle_again:
  assumes "valid_db db" and "fresh_invoice i db"
  shows "tables (snd (lifecycle_apply later j ty p (snd (lifecycle_apply now i ty p db))))
    = tables (snd (lifecycle_apply now i ty p db))"
  using assms checkout_again changed_again failed_again invoice_paid_twice
  by (simp add: lifecycle_apply_def fresh_invoice_def)

interpretation lifecycle: event_handler lifecycle_apply tables valid_db fresh_invoice
  by unfold_locales (use lifecycle_ok lifecycle_reads_tables lifecycle_again in blast)+



end
