(* ===== verification/Billing_Events_Correct.thy ===== *)
theory Billing_Events_Correct
  imports Billing_Events Lifecycle_Idempotent
begin

text \<open>
  Correctness of the delivery of provider events: a processed event is never processed again, a failed
  one is not lost, and the retry worker finishes every row in at most five passes. The last section
  shows what the claim does not exclude: workers that claim the same rows, and rows that are claimed for
  ever because every worker dies.
\<close>

definition valid_events :: "billing_event list \<Rightarrow> bool" where
  "valid_events rows = distinct (map ev_id rows)"

definition finished :: "billing_event \<Rightarrow> bool" where
  "finished e \<longleftrightarrow> processedAt e \<noteq> None \<or> deadAt e \<noteq> None"

section \<open>Deliveries\<close>

lemma find_updated:
  assumes "\<And>e. P (f e) = P e"
  shows "find_row P (update_rows Q f rows) = map_option (\<lambda>e. if Q e then f e else e) (find_row P rows)"
  unfolding find_row_def update_rows_def using assms by (intro find_map_inv) auto

lemma same_event_update [simp]:
  "same_event pr v (e\<lparr>processedAt := x\<rparr>) = same_event pr v e"
  "same_event pr v (e\<lparr>ev_error := y\<rparr>) = same_event pr v e"
  by (simp_all add: same_event_def)

text \<open>A delivery that is not answered as a duplicate runs the handler once and leaves its row in the table.\<close>

lemma process_found:
  assumes "find_row (same_event pr v) (ev_rows st) = Some e"
  shows "case fst (process_event h now v e st) of
      Inl msg \<Rightarrow> find_row (same_event pr v) (ev_rows (snd (process_event h now v e st))) = Some (e\<lparr>ev_error := Some msg\<rparr>)
    | Inr _ \<Rightarrow> find_row (same_event pr v) (ev_rows (snd (process_event h now v e st)))
        = Some (e\<lparr>processedAt := Some now, ev_error := None\<rparr>)"
  using assms by (auto simp: process_event_def find_updated split: prod.split sum.split)

lemma find_appended: "find_row P rows = None \<Longrightarrow> P e \<Longrightarrow> find_row P (rows @ [e]) = Some e"
  by (simp add: find_row_def find_append)

lemma record_cases:
  obtains e where "find_row (same_event pr v) (ev_rows st) = Some e" "processedAt e \<noteq> None"
    "record_event h now i pr v st = (Inr (Duplicate (vw_eventId v)), st)"
  | e st' where "find_row (same_event pr v) (ev_rows st') = Some e" "processedAt e = None"
    "ev_domain st' = ev_domain st" "record_event h now i pr v st = process_event h now v e st'"
proof (cases "find_row (same_event pr v) (ev_rows st)")
  case None
  let ?e = "\<lparr>ev_id = i, ev_provider = pr, providerEventId = vw_eventId v, ev_type = vw_type v,
    ev_payload = event_payload (vw_payload v), ev_createdAt = now, processedAt = None, ev_error = None,
    attempts = 0, deadAt = None\<rparr>"
  show thesis
  proof (rule that(2) [of "st\<lparr>ev_rows := ev_rows st @ [?e]\<rparr>" ?e])
    show "find_row (same_event pr v) (ev_rows (st\<lparr>ev_rows := ev_rows st @ [?e]\<rparr>)) = Some ?e"
      using find_appended [OF None] by (simp add: same_event_def)
  qed (simp_all add: record_event_def None Let_def)
next
  case (Some e)
  then show thesis using that by (cases "processedAt e = None") (simp_all add: record_event_def)
qed

lemma process_outcome:
  "fst (process_event h now v e st) = (case fst (h (vw_type v) (vw_payload v) (ev_domain st)) of
     Inl msg \<Rightarrow> Inl msg | Inr _ \<Rightarrow> Inr (Processed (vw_eventId v)))"
  by (simp add: process_event_def split: prod.split sum.split)

definition answered :: "string \<Rightarrow> verified_webhook \<Rightarrow> billing_event list \<Rightarrow> bool" where
  "answered pr v rows \<longleftrightarrow> (case find_row (same_event pr v) rows of None \<Rightarrow> False | Some e \<Rightarrow> processedAt e \<noteq> None)"

lemma answered_duplicate:
  "answered pr v (ev_rows st) \<Longrightarrow> record_event h now i pr v st = (Inr (Duplicate (vw_eventId v)), st)"
  by (auto simp: answered_def record_event_def split: option.splits)

lemma answered_update:
  assumes "\<And>e. ev_provider (f e) = ev_provider e \<and> providerEventId (f e) = providerEventId e
      \<and> (processedAt e \<noteq> None \<longrightarrow> processedAt (f e) \<noteq> None)"
  shows "answered pr v rows \<Longrightarrow> answered pr v (update_rows Q f rows)"
  using assms by (auto simp: answered_def find_updated same_event_def split: option.splits)

lemma answered_append: "answered pr v rows \<Longrightarrow> answered pr v (rows @ rows2)"
  by (simp add: answered_def find_row_def find_append split: option.splits)

lemma process_answered:
  "answered pr v (ev_rows st) \<Longrightarrow> answered pr v (ev_rows (snd (process_event h now w e st)))"
  by (auto simp: process_event_def answered_update split: prod.split sum.split)

lemma record_answered:
  "answered pr v (ev_rows st) \<Longrightarrow> answered pr v (ev_rows (snd (record_event h now i pr' w st)))"
  by (simp add: record_event_def process_answered answered_append Let_def split: option.split)

lemma claim_answered: "answered pr v rows \<Longrightarrow> answered pr v (snd (claim c rows))"
  by (simp add: claim_def answered_update Let_def)

lemma retry_answered: "answered pr v (ev_rows st) \<Longrightarrow> answered pr v (ev_rows (snd (retry_one h now p st)))"
  by (auto simp: retry_one_def answered_update Let_def split: prod.split sum.split)

text \<open>
  Any number of workers and deliveries, interleaved in any way: a worker claims, finishes one of the
  events it holds, or dies with it. The second component holds the copies the workers have in memory.
\<close>

inductive worker_step :: "'d event_state \<times> billing_event list \<Rightarrow> 'd event_state \<times> billing_event list \<Rightarrow> bool" where
  Claim: "claim c (ev_rows st) = (ps, rows) \<Longrightarrow> worker_step (st, held) (st\<lparr>ev_rows := rows\<rparr>, held @ ps)"
| Finish: "p \<in> set held \<Longrightarrow> retry_one h now p st = (r, st') \<Longrightarrow> worker_step (st, held) (st', remove1 p held)"
| Crash: "worker_step (st, held) (st, remove1 p held)"
| Deliver: "record_event h now i pr v st = (r, st') \<Longrightarrow> worker_step (st, held) (st', held)"

lemma step_answered:
  "worker_step x y \<Longrightarrow> answered pr v (ev_rows (fst x)) \<Longrightarrow> answered pr v (ev_rows (fst y))"
proof (induction rule: worker_step.induct)
  case (Claim c st ps rows held)
  then show ?case using claim_answered [of pr v "ev_rows st" c] by simp
next
  case (Finish p held h now st r st')
  then show ?case using retry_answered [of pr v st h now p] by simp
next
  case (Deliver h now i pr' w st r st' held)
  then show ?case using record_answered [of pr v st h now i pr' w] by simp
qed simp

lemma steps_answered:
  "worker_step\<^sup>*\<^sup>* x y \<Longrightarrow> answered pr v (ev_rows (fst x)) \<Longrightarrow> answered pr v (ev_rows (fst y))"
  by (induction rule: rtranclp_induct) (auto intro: step_answered)


definition ping :: verified_webhook where
  "ping = \<lparr>vw_eventId = ''evt_1'', vw_type = ''ping'', vw_payload = JObj []\<rparr>"

definition empty_state :: "billing_db event_state" where
  "empty_state = \<lparr>ev_rows = [], ev_domain = example_db\<rparr>"

lemma ping_processed:
  "fst (record_event (lifecycle_apply 5 ''i1'') 5 ''e1'' ''stripe'' ping empty_state) = Inr (Processed ''evt_1'')"
  by (simp add: record_event_def process_event_def lifecycle_apply_def find_row_def ping_def empty_state_def)


text \<open>
  A failure is not consumed by the duplicate check: after a delivery whose handler threw, the next
  delivery of the event runs the handler on the database the first one left, and is answered as
  processed exactly when that run succeeds.
\<close>

theorem failed_runs_again:
  assumes "record_event h now i pr v st = (Inl msg, st')"
  shows "fst (record_event h' later j pr v st') = (case fst (h' (vw_type v) (vw_payload v) (ev_domain st')) of
     Inl m \<Rightarrow> Inl m | Inr _ \<Rightarrow> Inr (Processed (vw_eventId v)))"
proof (cases rule: record_cases [of pr v st h now i])
  case (1 e)
  then show ?thesis using assms by simp
next
  case (2 e st1)
  have p: "process_event h now v e st1 = (Inl msg, st')" using 2(4) assms by simp
  have "find_row (same_event pr v) (ev_rows st') = Some (e\<lparr>ev_error := Some msg\<rparr>)"
    using process_found [OF 2(1), of h now] by (simp add: p)
  then show ?thesis using 2(2) by (simp add: record_event_def process_outcome)
qed

definition outage :: "'d handler" where
  "outage ty p d = (Inl ''connection lost'', d)"

theorem failed_runs_again_witness:
  "\<exists>st. record_event outage 5 ''e1'' ''stripe'' ping empty_state = (Inl ''connection lost'', st)
    \<and> fst (record_event (lifecycle_apply 9 ''i1'') 9 ''e2'' ''stripe'' ping st) = Inr (Processed ''evt_1'')"
proof -
  have "fst (record_event outage 5 ''e1'' ''stripe'' ping empty_state) = Inl ''connection lost''"
    by (simp add: record_event_def process_event_def outage_def find_row_def ping_def empty_state_def)
  then obtain st where st: "record_event outage 5 ''e1'' ''stripe'' ping empty_state = (Inl ''connection lost'', st)"
    by (metis prod.collapse)
  then show ?thesis
    using failed_runs_again [OF st, of "lifecycle_apply 9 ''i1''" 9 "''e2''"] by (simp add: lifecycle_apply_def ping_def)
qed

section \<open>A pass of the retry worker\<close>

lemma set_claimable: "set (claimable c rows) \<subseteq> {e \<in> set rows. \<not> finished e \<and> ev_createdAt e < c}"
  by (auto simp: claimable_def finished_def dest!: in_set_takeD)

lemma set_claimable_all:
  "length rows \<le> 50 \<Longrightarrow> set (claimable c rows) = {e \<in> set rows. \<not> finished e \<and> ev_createdAt e < c}"
  by (auto simp: claimable_def finished_def take_all order_trans [OF length_filter_le])

lemma distinct_claimable: "valid_events rows \<Longrightarrow> distinct (map ev_id (claimable c rows))"
proof -
  assume "valid_events rows"
  then have "inj_on ev_id (set rows)" and "distinct rows" by (simp_all add: valid_events_def distinct_map)
  moreover have "set (claimable c rows) \<subseteq> set rows" using set_claimable by blast
  moreover have "distinct (claimable c rows)" using \<open>distinct rows\<close> by (simp add: claimable_def)
  ultimately show ?thesis by (auto simp: distinct_map intro: inj_on_subset)
qed

lemma retry_one_rows:
  "\<exists>g. ev_rows (snd (retry_one h now p st)) = map g (ev_rows st)
    \<and> (\<forall>e. ev_id (g e) = ev_id e \<and> ev_createdAt (g e) = ev_createdAt e \<and> (ev_id e \<noteq> ev_id p \<longrightarrow> g e = e)
        \<and> (ev_id e = ev_id p \<longrightarrow> finished (g e) \<or> attempts (g e) = attempts p \<and> attempts p < MAX_ATTEMPTS))"
proof -
  have upd: "\<exists>g. update_rows (\<lambda>e. ev_id e = ev_id p) f rows = map g rows
    \<and> (\<forall>e. ev_id (g e) = ev_id e \<and> ev_createdAt (g e) = ev_createdAt e \<and> (ev_id e \<noteq> ev_id p \<longrightarrow> g e = e)
        \<and> (ev_id e = ev_id p \<longrightarrow> finished (g e) \<or> attempts (g e) = attempts p \<and> attempts p < MAX_ATTEMPTS))"
    if "\<And>e. ev_id (f e) = ev_id e \<and> ev_createdAt (f e) = ev_createdAt e
      \<and> (finished (f e) \<or> attempts (f e) = attempts p \<and> attempts p < MAX_ATTEMPTS)" for f rows
    by (rule exI [of _ "\<lambda>e. if ev_id e = ev_id p then f e else e"]) (use that in \<open>auto simp: update_rows_def\<close>)
  obtain res d where r: "h (ev_type p) (ev_payload p) (ev_domain st) = (res, d)" by (cases "h (ev_type p) (ev_payload p) (ev_domain st)")
  show ?thesis
  proof (cases res)
    case (Inr _)
    then have "ev_rows (snd (retry_one h now p st)) = update_rows (\<lambda>e. ev_id e = ev_id p)
        (\<lambda>e. e\<lparr>processedAt := Some now, ev_error := None, attempts := attempts p\<rparr>) (ev_rows st)"
      by (simp add: retry_one_def r)
    then show ?thesis by (simp only:) (rule upd, simp add: finished_def)
  next
    case (Inl msg)
    then have "ev_rows (snd (retry_one h now p st)) = update_rows (\<lambda>e. ev_id e = ev_id p)
        (\<lambda>e. e\<lparr>ev_error := Some msg, attempts := attempts p,
           deadAt := (if MAX_ATTEMPTS \<le> attempts p then Some now else None)\<rparr>) (ev_rows st)"
      by (simp add: retry_one_def r Let_def)
    then show ?thesis by (simp only:) (rule upd, simp add: finished_def)
  qed
qed

lemma retry_loop_rows:
  assumes "distinct (map ev_id pending)"
  shows "\<exists>g. ev_rows (snd (retry_loop h now pending counts st)) = map g (ev_rows st)
    \<and> (\<forall>e. ev_id (g e) = ev_id e \<and> ev_createdAt (g e) = ev_createdAt e \<and> (ev_id e \<notin> ev_id ` set pending \<longrightarrow> g e = e)
        \<and> (\<forall>p\<in>set pending. ev_id p = ev_id e \<longrightarrow> finished (g e) \<or> attempts (g e) = attempts p \<and> attempts p < MAX_ATTEMPTS))"
  using assms
proof (induction pending arbitrary: counts st)
  case Nil
  then show ?case by (intro exI [of _ id]) simp
next
  case (Cons p pending)
  obtain res st' where r: "retry_one h now p st = (res, st')" by (cases "retry_one h now p st")
  obtain g1 where g1: "ev_rows st' = map g1 (ev_rows st)"
    "\<And>e. ev_id (g1 e) = ev_id e \<and> ev_createdAt (g1 e) = ev_createdAt e \<and> (ev_id e \<noteq> ev_id p \<longrightarrow> g1 e = e)
      \<and> (ev_id e = ev_id p \<longrightarrow> finished (g1 e) \<or> attempts (g1 e) = attempts p \<and> attempts p < MAX_ATTEMPTS)"
    using retry_one_rows [of h now p st] r by auto
  obtain counts' where l: "retry_loop h now (p # pending) counts st = retry_loop h now pending counts' st'"
    using r by simp
  obtain g2 where g2: "ev_rows (snd (retry_loop h now pending counts' st')) = map g2 (ev_rows st')"
    "\<And>e. ev_id (g2 e) = ev_id e \<and> ev_createdAt (g2 e) = ev_createdAt e \<and> (ev_id e \<notin> ev_id ` set pending \<longrightarrow> g2 e = e)
      \<and> (\<forall>p\<in>set pending. ev_id p = ev_id e \<longrightarrow> finished (g2 e) \<or> attempts (g2 e) = attempts p \<and> attempts p < MAX_ATTEMPTS)"
    using Cons.IH [of counts' st'] Cons.prems by (auto simp del: retry_loop.simps)
  have p: "ev_id p \<notin> ev_id ` set pending" using Cons.prems by simp
  show ?case
  proof (intro exI [of _ "g2 \<circ> g1"] conjI allI ballI impI)
    show "ev_rows (snd (retry_loop h now (p # pending) counts st)) = map (g2 \<circ> g1) (ev_rows st)"
      by (simp only: l g2(1) g1(1) map_map)
  next
    fix e q
    show "ev_id ((g2 \<circ> g1) e) = ev_id e" "ev_createdAt ((g2 \<circ> g1) e) = ev_createdAt e" using g1(2) g2(2) by simp_all
    show "(g2 \<circ> g1) e = e" if "ev_id e \<notin> ev_id ` set (p # pending)" using that g1(2) [of e] g2(2) [of e] by simp
    show "finished ((g2 \<circ> g1) e) \<or> attempts ((g2 \<circ> g1) e) = attempts q \<and> attempts q < MAX_ATTEMPTS"
      if q: "q \<in> set (p # pending)" "ev_id q = ev_id e"
    proof (cases "q = p")
      case True
      then have "g2 (g1 e) = g1 e" using g1(2) [of e] g2(2) [of "g1 e"] p q by simp
      then show ?thesis using g1(2) [of e] q True by simp
    next
      case False
      then show ?thesis using g1(2) [of e] g2(2) [of "g1 e"] q by simp
    qed
  qed
qed

text \<open>What one pass does to the rows: it keeps a finished one and settles or counts a due one.\<close>

lemma pass_rows:
  assumes "valid_events (ev_rows st)"
  shows "\<exists>k. ev_rows (snd (retryPending h now st)) = map k (ev_rows st)
    \<and> (\<forall>e\<in>set (ev_rows st). ev_id (k e) = ev_id e \<and> ev_createdAt (k e) = ev_createdAt e
        \<and> (finished e \<longrightarrow> k e = e)
        \<and> (length (ev_rows st) \<le> 50 \<and> \<not> finished e \<and> ev_createdAt e < now - RETRY_AFTER_MS
             \<longrightarrow> finished (k e) \<or> attempts (k e) = attempts e + 1 \<and> attempts e + 1 < MAX_ATTEMPTS))"
proof -
  let ?rows = "ev_rows st" and ?c = "now - RETRY_AFTER_MS"
  let ?cl = "claimable ?c ?rows"
  let ?b = "\<lambda>e. if ev_id e \<in> ev_id ` set ?cl then bump e else e"
  have claim: "claim ?c ?rows = (map bump ?cl, map ?b ?rows)"
    by (simp add: claim_def Let_def update_rows_def)
  obtain g where g: "ev_rows (snd (retryPending h now st)) = map g (map ?b ?rows)"
    "\<And>e. ev_id (g e) = ev_id e \<and> ev_createdAt (g e) = ev_createdAt e \<and> (ev_id e \<notin> ev_id ` set (map bump ?cl) \<longrightarrow> g e = e)
        \<and> (\<forall>p\<in>set (map bump ?cl). ev_id p = ev_id e \<longrightarrow> finished (g e) \<or> attempts (g e) = attempts p \<and> attempts p < MAX_ATTEMPTS)"
  proof -
    have "distinct (map ev_id (map bump ?cl))" using distinct_claimable [OF assms] by (simp add: comp_def)
    then show thesis
      using retry_loop_rows [of "map bump ?cl" h now _ "st\<lparr>ev_rows := map ?b ?rows\<rparr>"] that
      unfolding retryPending_def Let_def claim by auto
  qed
  have ids: "ev_id e \<in> ev_id ` set ?cl \<longleftrightarrow> e \<in> set ?cl" if "e \<in> set ?rows" for e
    using that assms set_claimable [of ?c ?rows] by (auto simp: valid_events_def distinct_map dest: inj_onD)
  have ids': "ev_id (bump e) \<in> ev_id ` set (map bump ?cl) \<longleftrightarrow> ev_id e \<in> ev_id ` set ?cl" for e
    by (auto simp: image_iff)
  show ?thesis
  proof (intro exI [of _ "g \<circ> ?b"] conjI ballI impI)
    show "ev_rows (snd (retryPending h now st)) = map (g \<circ> ?b) ?rows" by (simp add: g(1))
  next
    fix e assume e: "e \<in> set ?rows"
    show "ev_id ((g \<circ> ?b) e) = ev_id e" "ev_createdAt ((g \<circ> ?b) e) = ev_createdAt e" using g(2) by simp_all
    { assume "finished e"
      then have "e \<notin> set ?cl" using set_claimable [of ?c ?rows] by blast
      then have "ev_id e \<notin> ev_id ` set ?cl" using ids [OF e] by blast
      then show "(g \<circ> ?b) e = e" using g(2) [of e] by (auto simp: image_iff) }
    { assume "length ?rows \<le> 50 \<and> \<not> finished e \<and> ev_createdAt e < ?c"
      then have "e \<in> set ?cl" using set_claimable_all [of ?rows ?c] e by blast
      then have p: "bump e \<in> set (map bump ?cl)" and b: "?b e = bump e" by auto
      have "finished (g (bump e)) \<or> attempts (g (bump e)) = attempts (bump e) \<and> attempts (bump e) < MAX_ATTEMPTS"
        using g(2) [of "bump e"] p by blast
      then show "finished ((g \<circ> ?b) e) \<or> attempts ((g \<circ> ?b) e) = attempts e + 1 \<and> attempts e + 1 < MAX_ATTEMPTS"
        by (simp only: comp_apply b) simp }
  qed
qed

definition retry_passes :: "('d handler \<times> int) list \<Rightarrow> 'd event_state \<Rightarrow> 'd event_state" where
  "retry_passes ps st = fold (\<lambda>(h, now) st. snd (retryPending h now st)) ps st"

lemma passes_count:
  assumes "valid_events (ev_rows st)" and "length (ev_rows st) \<le> 50"
    and "\<forall>(h, now)\<in>set ps. \<forall>e\<in>set (ev_rows st). ev_createdAt e < now - RETRY_AFTER_MS"
    and "\<forall>e\<in>set (ev_rows st). finished e \<or> k \<le> attempts e" and "ps \<noteq> []"
  shows "\<forall>e\<in>set (ev_rows (retry_passes ps st)). finished e \<or> k + length ps \<le> attempts e \<and> attempts e < MAX_ATTEMPTS"
  using assms
proof (induction ps arbitrary: st k)
  case (Cons p ps)
  obtain h now where p: "p = (h, now)" by fastforce
  let ?st = "snd (retryPending h now st)"
  obtain f where rows: "ev_rows ?st = map f (ev_rows st)"
    and row: "\<forall>e\<in>set (ev_rows st). ev_id (f e) = ev_id e \<and> ev_createdAt (f e) = ev_createdAt e \<and> (finished e \<longrightarrow> f e = e)
      \<and> (length (ev_rows st) \<le> 50 \<and> \<not> finished e \<and> ev_createdAt e < now - RETRY_AFTER_MS
        \<longrightarrow> finished (f e) \<or> attempts (f e) = attempts e + 1 \<and> attempts e + 1 < MAX_ATTEMPTS)"
    using pass_rows [OF Cons.prems(1), of h now] by blast
  have "\<forall>e\<in>set (ev_rows st). ev_createdAt e < now - RETRY_AFTER_MS" using Cons.prems(3) by (simp add: p)
  then have f: "ev_rows ?st = map f (ev_rows st)"
    "\<And>e. e \<in> set (ev_rows st) \<Longrightarrow> ev_id (f e) = ev_id e \<and> ev_createdAt (f e) = ev_createdAt e \<and> (finished e \<longrightarrow> f e = e)
      \<and> (\<not> finished e \<longrightarrow> finished (f e) \<or> attempts (f e) = attempts e + 1 \<and> attempts e + 1 < MAX_ATTEMPTS)"
    using rows row Cons.prems(2) by blast+
  have next_rows: "\<forall>e\<in>set (ev_rows ?st). finished e \<or> Suc k \<le> attempts e \<and> attempts e < MAX_ATTEMPTS"
    using f Cons.prems(4) by fastforce
  show ?case
  proof (cases "ps = []")
    case True
    then show ?thesis using next_rows by (simp add: retry_passes_def p)
  next
    case False
    have "map ev_id (ev_rows ?st) = map ev_id (ev_rows st)" using f by simp
    then have "valid_events (ev_rows ?st)" using Cons.prems(1) by (simp only: valid_events_def)
    moreover have "length (ev_rows ?st) \<le> 50" using Cons.prems(2) f(1) by simp
    moreover have "\<forall>(h, now)\<in>set ps. \<forall>e\<in>set (ev_rows ?st). ev_createdAt e < now - RETRY_AFTER_MS"
      using Cons.prems(3) f by fastforce
    moreover have "\<forall>e\<in>set (ev_rows ?st). finished e \<or> Suc k \<le> attempts e" using next_rows by blast
    ultimately have "\<forall>e\<in>set (ev_rows (retry_passes ps ?st)). finished e \<or> Suc k + length ps \<le> attempts e \<and> attempts e < MAX_ATTEMPTS"
      using Cons.IH False by blast
    then show ?thesis by (simp add: retry_passes_def p)
  qed
qed simp


definition paid_event :: billing_event where
  "paid_event = \<lparr>ev_id = ''e1'', ev_provider = ''stripe'', providerEventId = ''evt_1'', ev_type = ''invoice.paid'',
     ev_payload = example_invoice, ev_createdAt = 0, processedAt = None, ev_error = None, attempts = 0, deadAt = None\<rparr>"

definition dead_event :: billing_event where
  "dead_event = paid_event\<lparr>ev_id := ''e2'', providerEventId := ''evt_2'', attempts := 5, deadAt := Some 7\<rparr>"

definition backlog :: "billing_db event_state" where
  "backlog = \<lparr>ev_rows = [paid_event, dead_event], ev_domain = lapsed_db\<rparr>"

lemma event_fields [simp]:
  "ev_id paid_event = ''e1''" "attempts paid_event = 0" "ev_createdAt paid_event = 0" "ev_createdAt dead_event = 0"
  "ev_id dead_event = ''e2''" "finished dead_event" "\<not> finished paid_event"
  by (simp_all add: paid_event_def dead_event_def finished_def)

lemma backlog_rows [simp]: "ev_rows backlog = [paid_event, dead_event]" "valid_events [paid_event, dead_event]"
  by (simp_all add: backlog_def valid_events_def)


text \<open>
  A pass never touches a finished event: a processed or dead row is in the table afterwards as it
  was, and no row disappears, moves or changes its identity.
\<close>

theorem pass_keeps_finished:
  assumes "valid_events (ev_rows st)" and "e \<in> set (ev_rows st)" and "finished e"
  shows "e \<in> set (ev_rows (snd (retryPending h now st)))
    \<and> map ev_id (ev_rows (snd (retryPending h now st))) = map ev_id (ev_rows st)"
proof -
  obtain k where k: "ev_rows (snd (retryPending h now st)) = map k (ev_rows st)"
    and row: "\<forall>e\<in>set (ev_rows st). ev_id (k e) = ev_id e \<and> (finished e \<longrightarrow> k e = e)"
    using pass_rows [OF assms(1), of h now] by blast
  then have "e = k e" using assms(2,3) by simp
  then show ?thesis using k row assms(2) by simp
qed

theorem pass_keeps_finished_witness:
  "dead_event \<in> set (ev_rows (snd (retryPending (lifecycle_apply 100000 ''i1'') 100000 backlog)))"
  using pass_keeps_finished [of backlog dead_event] by simp

section \<open>What a claim does not exclude\<close>

lemma insort_map:
  "(\<And>x. k (f x) = k x) \<Longrightarrow> insort_key k (f x) (map f xs) = map f (insort_key k x xs)"
  by (induction xs) auto

lemma sort_map: "(\<And>x. k (f x) = k x) \<Longrightarrow> sort_key k (map f xs) = map f (sort_key k xs)"
  by (induction xs) (simp_all add: insort_map)

text \<open>A claim leaves the rows it took claimable: it only counts the attempt.\<close>

lemma claimable_claimed:
  assumes "valid_events rows"
  shows "claimable c (snd (claim c rows)) = map bump (claimable c rows)"
proof -
  let ?cl = "claimable c rows"
  let ?b = "\<lambda>e. if ev_id e \<in> ev_id ` set ?cl then bump e else e"
  let ?P = "\<lambda>e. processedAt e = None \<and> deadAt e = None \<and> ev_createdAt e < c"
  have "snd (claim c rows) = map ?b rows" by (simp add: claim_def update_rows_def Let_def)
  moreover have "filter ?P (map ?b rows) = map ?b (filter ?P rows)"
    by (simp add: filter_map comp_def if_distrib cong: if_cong)
  moreover have "sort_key ev_createdAt (map ?b xs) = map ?b (sort_key ev_createdAt xs)" for xs
    by (rule sort_map) simp
  ultimately have "claimable c (snd (claim c rows)) = map ?b ?cl"
    by (simp add: claimable_def take_map)
  also have "\<dots> = map bump ?cl" by (rule map_cong) simp_all
  finally show ?thesis .
qed

lemma valid_claimed: "valid_events rows \<Longrightarrow> valid_events (snd (claim c rows))"
  by (simp add: claim_def valid_events_def update_rows_def Let_def comp_def if_distrib cong: if_cong)

text \<open>
  A worker that claims right after another one takes the same events again, each counted once
  more; and however many workers claim and die, an event they never finish is never dead.
\<close>

theorem claims_repeat:
  assumes "valid_events rows" and "e \<in> set (claimable c rows)"
  shows "e\<lparr>attempts := attempts e + n\<rparr> \<in> set (claimable c (((\<lambda>rows. snd (claim c rows)) ^^ n) rows))"
proof -
  have "valid_events (((\<lambda>rows. snd (claim c rows)) ^^ n) rows)
    \<and> e\<lparr>attempts := attempts e + n\<rparr> \<in> set (claimable c (((\<lambda>rows. snd (claim c rows)) ^^ n) rows))"
  proof (induction n)
    case (Suc n)
    let ?rows = "((\<lambda>rows. snd (claim c rows)) ^^ n) rows"
    have "bump (e\<lparr>attempts := attempts e + n\<rparr>) \<in> bump ` set (claimable c ?rows)" using Suc by blast
    then show ?case using claimable_claimed [of ?rows c] valid_claimed [of ?rows c] Suc by simp
  qed (use assms in simp)
  then show ?thesis ..
qed

lemma claimable_backlog: "claimable 100 [paid_event, dead_event] = [paid_event]"
  by (simp add: claimable_def paid_event_def dead_event_def)

theorem claims_repeat_witness:
  "paid_event\<lparr>attempts := 7\<rparr> \<in> set (claimable 100 (((\<lambda>rows. snd (claim 100 rows)) ^^ 7) [paid_event, dead_event]))"
  using claims_repeat [of "[paid_event, dead_event]" paid_event 100 7] claimable_backlog by simp

text \<open>
  A dead event can come back: a worker that claimed it earlier and fails after it was dead writes its
  own attempt count and no time of death, and the event is claimable again.
\<close>

lemma dead_event_revived:
  defines "copy \<equiv> paid_event\<lparr>attempts := 4\<rparr>" and "late \<equiv> paid_event\<lparr>attempts := 5\<rparr>"
  shows "\<exists>rows1 rows2. claim 100 [paid_event\<lparr>attempts := 3\<rparr>] = ([copy], rows1) \<and> claim 100 rows1 = ([late], rows2)
    \<and> list_all finished (ev_rows (snd (retry_one outage t late \<lparr>ev_rows = rows2, ev_domain = d\<rparr>)))
    \<and> claimable 100 (ev_rows (snd (retry_one outage t' copy (snd (retry_one outage t late \<lparr>ev_rows = rows2, ev_domain = d\<rparr>))))) \<noteq> []"
proof -
  have "claim 100 [paid_event\<lparr>attempts := 3\<rparr>] = ([copy], [copy])" "claim 100 [copy] = ([late], [late])"
    by (simp_all add: claim_def claimable_def update_rows_def paid_event_def copy_def late_def)
  moreover have "list_all finished (ev_rows (snd (retry_one outage t late \<lparr>ev_rows = [late], ev_domain = d\<rparr>)))"
    by (simp add: retry_one_def outage_def update_rows_def finished_def MAX_ATTEMPTS_def late_def paid_event_def)
  moreover have "claimable 100 (ev_rows (snd (retry_one outage t' copy (snd (retry_one outage t late \<lparr>ev_rows = [late], ev_domain = d\<rparr>))))) \<noteq> []"
    by (simp add: retry_one_def outage_def update_rows_def claimable_def MAX_ATTEMPTS_def late_def copy_def paid_event_def)
  ultimately show ?thesis by blast
qed

lemma retry_one_domain: "ev_domain (snd (retry_one h now p st)) = snd (h (ev_type p) (ev_payload p) (ev_domain st))"
  by (simp add: retry_one_def Let_def split: prod.split sum.split)

text \<open>
  What makes a repeated claim harmless is the lifecycle: when two workers hold copies of the same
  event and finish them one after the other, the second leaves every table as the first did.
\<close>

theorem double_claim_harmless:
  assumes "valid_events rows" and "p \<in> set (fst (claim c rows))"
    and "q \<in> set (fst (claim c (snd (claim c rows))))" and "ev_id q = ev_id p"
    and "valid_db (ev_domain st)" and "fresh_invoice i (ev_domain st)"
  shows "tables (ev_domain (snd (retry_one (lifecycle_apply later j) t2 q (snd (retry_one (lifecycle_apply now i) t1 p st)))))
    = tables (ev_domain (snd (retry_one (lifecycle_apply now i) t1 p st)))"
proof -
  have claimed: "fst (claim c rows') = map bump (claimable c rows')" for rows'
    by (simp add: claim_def Let_def)
  obtain d where d: "d \<in> set (claimable c rows)" "p = bump d" using assms(2) by (auto simp: claimed)
  obtain e where e: "e \<in> set (claimable c rows)" "q = bump (bump e)"
    using assms(3) claimable_claimed [OF assms(1), of c] by (auto simp: claimed)
  have "ev_id e = ev_id d" using assms(4) d(2) e(2) by simp
  then have "e = d" using d(1) e(1) distinct_claimable [OF assms(1), of c] by (auto simp: distinct_map dest: inj_onD)
  then have "ev_type q = ev_type p" "ev_payload q = ev_payload p" using d(2) e(2) by simp_all
  then show ?thesis by (simp add: retry_one_domain lifecycle.apply_again [OF assms(5,6)])
qed

theorem double_claim_harmless_witness:
  "tables (ev_domain (snd (retry_one (lifecycle_apply 9 ''i2'') 9 (paid_event\<lparr>attempts := 2\<rparr>)
      (snd (retry_one (lifecycle_apply 8 ''i1'') 8 (paid_event\<lparr>attempts := 1\<rparr>) backlog)))))
    = tables (ev_domain (snd (retry_one (lifecycle_apply 8 ''i1'') 8 (paid_event\<lparr>attempts := 1\<rparr>) backlog)))"
proof -
  have "fst (claim 100 [paid_event, dead_event]) = [paid_event\<lparr>attempts := 1\<rparr>]"
    "fst (claim 100 (snd (claim 100 [paid_event, dead_event]))) = [paid_event\<lparr>attempts := 2\<rparr>]"
    using claimable_backlog claimable_claimed [of "[paid_event, dead_event]" 100]
    by (simp_all add: claim_def Let_def)
  then show ?thesis
    by (intro double_claim_harmless [of "[paid_event, dead_event]" _ 100])
      (simp_all add: backlog_def fresh_invoice_def)
qed

end
