(* ===== verification/Sessions.thy ===== *)
theory Sessions
  imports Tables
begin

text \<open>
  Refresh tokens (\<open>src/auth/sessions.service.ts\<close>): issuing, rotation with reuse detection, and
  revocation. Between two awaited statements of \<open>rotate\<close> other requests may run, so a rotation in
  progress is a value of \<open>rotation\<close> and \<open>rotate_step\<close> executes its next statement on the table.
  \<open>hash\<close> stands for \<open>hashToken\<close> (SHA-256); the random token and the generated ids of a step are its
  parameters. Times are in milliseconds.
\<close>

record refresh_token =
  rt_id :: string
  rt_userId :: string
  tokenHash :: string
  familyId :: string
  rotatedAt :: "int option"
  replacedById :: "string option"
  revokedAt :: "int option"
  revokedReason :: string
  expiresAt :: int
  rt_ip :: string
  rt_userAgent :: string

datatype refresh_failure = NotFound | Expired | Revoked | Reused

text \<open>\<open>RefreshOutcome\<close>: the token, the user and the failure.\<close>

record refresh_outcome =
  ro_token :: "string option"
  ro_userId :: "string option"
  failure :: "refresh_failure option"

definition LOGOUT :: string where "LOGOUT = ''logout''"
definition REUSE_DETECTED :: string where "REUSE_DETECTED = ''reuse_detected''"
definition PASSWORD_CHANGED :: string where "PASSWORD_CHANGED = ''password_changed''"

section \<open>Durations\<close>

definition duration_unit :: "char \<Rightarrow> int option" where
  "duration_unit c = (if c = CHR ''s'' then Some 1000 else if c = CHR ''m'' then Some 60000
     else if c = CHR ''h'' then Some 3600000 else if c = CHR ''d'' then Some 86400000 else None)"

definition parseDuration :: "string \<Rightarrow> jsnum \<Rightarrow> jsnum" where
  "parseDuration val fallbackMs =
     (let (digits, rest) = span_digits (js_trim val) in
      if digits = [] then fallbackMs
      else case dropWhile is_ws rest of
        [unit] \<Rightarrow> (case duration_unit unit of
            None \<Rightarrow> fallbackMs
          | Some multiplier \<Rightarrow>
             (let amount = to_num (of_int (digits_val digits)) in
              if js_lt (Fin 0) amount then js_mul amount (jint multiplier) else fallbackMs))
      | _ \<Rightarrow> fallbackMs)"

section \<open>Revocation\<close>

definition hasExpired :: "int \<Rightarrow> int \<Rightarrow> bool" where
  "hasExpired expires now \<longleftrightarrow> expires \<le> now"

definition revokeFamily :: "int \<Rightarrow> string \<Rightarrow> string \<Rightarrow> refresh_token list \<Rightarrow> refresh_token list" where
  "revokeFamily now fam reason rows =
     update_rows (\<lambda>r. familyId r = fam \<and> revokedAt r = None) (\<lambda>r. r\<lparr>revokedAt := Some now, revokedReason := reason\<rparr>) rows"

definition revokeAllForUser :: "int \<Rightarrow> string \<Rightarrow> string \<Rightarrow> refresh_token list \<Rightarrow> refresh_token list" where
  "revokeAllForUser now userId reason rows =
     update_rows (\<lambda>r. rt_userId r = userId \<and> revokedAt r = None) (\<lambda>r. r\<lparr>revokedAt := Some now, revokedReason := reason\<rparr>) rows"

definition revoke :: "(string \<Rightarrow> string) \<Rightarrow> int \<Rightarrow> string \<Rightarrow> refresh_token list \<Rightarrow> string option \<times> refresh_token list" where
  "revoke hash now plaintext rows =
     (case find_row (\<lambda>r. tokenHash r = hash plaintext) rows of
        None \<Rightarrow> (None, rows)
      | Some row \<Rightarrow> (Some (rt_userId row), revokeFamily now (familyId row) LOGOUT rows))"

section \<open>Issuing\<close>

definition issue :: "(string \<Rightarrow> string) \<Rightarrow> int \<Rightarrow> int \<Rightarrow> string \<Rightarrow> string \<Rightarrow> string \<Rightarrow> string \<Rightarrow> string \<Rightarrow> string
    \<Rightarrow> refresh_token list \<Rightarrow> string \<times> refresh_token list" where
  "issue hash ttl now new_id new_family token userId ip userAgent rows =
     (token, rows @ [\<lparr>rt_id = new_id, rt_userId = userId, tokenHash = hash token, familyId = new_family,
        rotatedAt = None, replacedById = None, revokedAt = None, revokedReason = [], expiresAt = now + ttl,
        rt_ip = take 45 ip, rt_userAgent = take 255 userAgent\<rparr>])"

section \<open>Rotation\<close>

text \<open>
  The statement a rotation executes next. \<open>current\<close> is the row the first statement read; \<open>Link\<close> and
  \<open>Recheck\<close> also carry what \<open>Save\<close> generated.
\<close>

datatype rotation =
    Find
  | Claim refresh_token
  | Sweep refresh_token
  | Save refresh_token
  | Link refresh_token string string
  | Recheck refresh_token string
  | Kill refresh_token
  | Done refresh_outcome

definition refused :: "string option \<Rightarrow> refresh_failure \<Rightarrow> rotation" where
  "refused userId f = Done \<lparr>ro_token = None, ro_userId = userId, failure = Some f\<rparr>"

fun rotate_step :: "(string \<Rightarrow> string) \<Rightarrow> int \<Rightarrow> int \<Rightarrow> string \<Rightarrow> string \<Rightarrow> string \<Rightarrow> string \<Rightarrow> string
    \<Rightarrow> rotation \<Rightarrow> refresh_token list \<Rightarrow> rotation \<times> refresh_token list" where
  "rotate_step hash ttl now new_id token plaintext ip userAgent Find rows =
     (case find_row (\<lambda>r. tokenHash r = hash plaintext) rows of
        None \<Rightarrow> (refused None NotFound, rows)
      | Some current \<Rightarrow>
         if revokedAt current \<noteq> None then (refused None Revoked, rows)
         else if hasExpired (expiresAt current) now then (refused None Expired, rows)
         else (Claim current, rows))"
| "rotate_step hash ttl now new_id token plaintext ip userAgent (Claim current) rows =
     (let claimed = (\<lambda>r. tokenHash r = hash plaintext \<and> rotatedAt r = None \<and> revokedAt r = None) in
      if list_ex claimed rows then (Save current, update_rows claimed (\<lambda>r. r\<lparr>rotatedAt := Some now\<rparr>) rows)
      else (Sweep current, rows))"
| "rotate_step hash ttl now new_id token plaintext ip userAgent (Sweep current) rows =
     (refused (Some (rt_userId current)) Reused, revokeFamily now (familyId current) REUSE_DETECTED rows)"
| "rotate_step hash ttl now new_id token plaintext ip userAgent (Save current) rows =
     (Link current new_id token,
      rows @ [\<lparr>rt_id = new_id, rt_userId = rt_userId current, tokenHash = hash token, familyId = familyId current,
        rotatedAt = None, replacedById = None, revokedAt = None, revokedReason = [], expiresAt = now + ttl,
        rt_ip = take 45 ip, rt_userAgent = take 255 userAgent\<rparr>])"
| "rotate_step hash ttl now new_id token plaintext ip userAgent (Link current replacement nxt) rows =
     (Recheck current nxt,
      update_rows (\<lambda>r. rt_id r = rt_id current) (\<lambda>r. r\<lparr>replacedById := Some replacement\<rparr>) rows)"
| "rotate_step hash ttl now new_id token plaintext ip userAgent (Recheck current nxt) rows =
     (if list_ex (\<lambda>r. familyId r = familyId current \<and> revokedReason r = REUSE_DETECTED) rows
      then (Kill current, rows)
      else (Done \<lparr>ro_token = Some nxt, ro_userId = Some (rt_userId current), failure = None\<rparr>, rows))"
| "rotate_step hash ttl now new_id token plaintext ip userAgent (Kill current) rows =
     (refused (Some (rt_userId current)) Reused, revokeFamily now (familyId current) REUSE_DETECTED rows)"
| "rotate_step hash ttl now new_id token plaintext ip userAgent (Done res) rows = (Done res, rows)"

text \<open>\<open>rotate\<close> with nothing in between: at most six statements and the answer.\<close>

definition rotate :: "(string \<Rightarrow> string) \<Rightarrow> int \<Rightarrow> int \<Rightarrow> string \<Rightarrow> string \<Rightarrow> string \<Rightarrow> string \<Rightarrow> string
    \<Rightarrow> refresh_token list \<Rightarrow> rotation \<times> refresh_token list" where
  "rotate hash ttl now new_id token plaintext ip userAgent rows =
     ((\<lambda>(q, rows). rotate_step hash ttl now new_id token plaintext ip userAgent q rows) ^^ 6) (Find, rows)"

section \<open>Concurrent requests\<close>

text \<open>
  The table and the requests so far, each with the token it presented. What one process does between
  two awaits is one action; the generated ids and tokens are new.
\<close>

record session_state =
  ss_rows :: "refresh_token list"
  ss_requests :: "(string \<times> rotation) list"

datatype session_action =
    Issue int string string string string
  | Present string
  | Advance nat int string string
  | Logout int string
  | PasswordChanged int string

definition fresh_token :: "(string \<Rightarrow> string) \<Rightarrow> refresh_token list \<Rightarrow> string \<Rightarrow> string \<Rightarrow> bool" where
  "fresh_token hash rows new_id token \<longleftrightarrow> hash token \<notin> tokenHash ` set rows \<and> new_id \<notin> rt_id ` set rows"

fun perform :: "(string \<Rightarrow> string) \<Rightarrow> int \<Rightarrow> session_action \<Rightarrow> session_state \<Rightarrow> session_state option" where
  "perform hash ttl (Issue now new_id fam token userId) s =
     (if fresh_token hash (ss_rows s) new_id token \<and> fam \<notin> familyId ` set (ss_rows s)
      then Some (s\<lparr>ss_rows := snd (issue hash ttl now new_id fam token userId [] [] (ss_rows s))\<rparr>) else None)"
| "perform hash ttl (Present plaintext) s = Some (s\<lparr>ss_requests := ss_requests s @ [(plaintext, Find)]\<rparr>)"
| "perform hash ttl (Advance n now new_id token) s =
     (if n < length (ss_requests s) \<and> fresh_token hash (ss_rows s) new_id token
      then let (plaintext, q) = ss_requests s ! n;
               (q', rows) = rotate_step hash ttl now new_id token plaintext [] [] q (ss_rows s)
           in Some \<lparr>ss_rows = rows, ss_requests = (ss_requests s)[n := (plaintext, q')]\<rparr>
      else None)"
| "perform hash ttl (Logout now plaintext) s = Some (s\<lparr>ss_rows := snd (revoke hash now plaintext (ss_rows s))\<rparr>)"
| "perform hash ttl (PasswordChanged now userId) s =
     Some (s\<lparr>ss_rows := revokeAllForUser now userId PASSWORD_CHANGED (ss_rows s)\<rparr>)"

inductive session_reachable :: "(string \<Rightarrow> string) \<Rightarrow> int \<Rightarrow> session_state \<Rightarrow> bool" for hash ttl where
  Start: "session_reachable hash ttl \<lparr>ss_rows = [], ss_requests = []\<rparr>"
| Step: "session_reachable hash ttl s \<Longrightarrow> perform hash ttl a s = Some s' \<Longrightarrow> session_reachable hash ttl s'"

end
