(* ===== verification/Claims.thy ===== *)
theory Claims
  imports Tables
begin

text \<open>
  Requests that compete for something only one of them may have: a refresh token, the code of a
  connection. Each request is a run that executes statement by statement on the shared tables. The
  locale \<open>claim_once\<close> says what a single statement guarantees, and concludes that of all requests for one
  thing at most one wins, in any interleaving.
\<close>

lemma length_filter_update:
  "n < length xs \<Longrightarrow> length (filter P (xs[n := y])) + (if P (xs ! n) then 1 else 0)
     = length (filter P xs) + (if P y then 1 else 0)"
proof (induction xs arbitrary: n)
  case (Cons x xs)
  then show ?case by (cases n) auto
qed simp

lemma filter_at_most_one:
  assumes "length (filter P xs) \<le> 1" and "i < j" and "j < length xs" and "P (xs ! i)" and "P (xs ! j)"
  shows False
proof -
  have "{i, j} \<subseteq> {k. k < length xs \<and> P (xs ! k)}" using assms(2-5) by auto
  then have "card {i, j} \<le> length (filter P xs)"
    unfolding length_filter_conv_card by (intro card_mono) simp_all
  then show False using assms(1,2) by simp
qed

text \<open>
  \<open>spent h d\<close>: the thing \<open>h\<close> is taken according to the tables; \<open>won h r\<close>: the run \<open>r\<close> is the one that
  took it. \<open>advance i\<close> executes the next statement with the generated values \<open>i\<close>, which must be
  fresh (\<open>ok\<close>).
\<close>

locale claim_once =
  fixes advance :: "'i \<Rightarrow> 'r \<Rightarrow> 'd \<Rightarrow> 'r \<times> 'd"
    and ok :: "'i \<Rightarrow> 'd \<Rightarrow> bool"
    and valid :: "'r \<Rightarrow> 'd \<Rightarrow> bool"
    and spent :: "'h \<Rightarrow> 'd \<Rightarrow> bool"
    and won :: "'h \<Rightarrow> 'r \<Rightarrow> bool"
  assumes spent_stays: "valid r d \<Longrightarrow> ok i d \<Longrightarrow> advance i r d = (r', d') \<Longrightarrow> spent h d \<Longrightarrow> spent h d'"
    and claims: "valid r d \<Longrightarrow> ok i d \<Longrightarrow> advance i r d = (r', d') \<Longrightarrow> won h r' \<Longrightarrow> won h r \<or> \<not> spent h d \<and> spent h d'"
begin

definition single_claim :: "'d \<Rightarrow> 'r list \<Rightarrow> bool" where
  "single_claim d rs \<longleftrightarrow> (\<forall>h. length (filter (won h) rs) \<le> (if spent h d then 1 else 0))"

lemma single_claim_keep:
  assumes "single_claim d rs" and "\<And>h. spent h d \<Longrightarrow> spent h d'"
  shows "single_claim d' rs"
  unfolding single_claim_def
proof
  fix h
  have "length (filter (won h) rs) \<le> (if spent h d then 1 else 0)"
    using assms(1) unfolding single_claim_def by blast
  also have "\<dots> \<le> (if spent h d' then 1 else 0)" using assms(2) by simp
  finally show "length (filter (won h) rs) \<le> (if spent h d' then 1 else 0)" .
qed

lemma single_claim_start:
  assumes "single_claim d rs" and "\<And>h. \<not> won h r"
  shows "single_claim d (rs @ [r])"
  using assms by (simp add: single_claim_def)

lemma single_claim_advance:
  assumes "single_claim d rs" and "n < length rs" and "valid (rs ! n) d" and "ok i d" and "advance i (rs ! n) d = (r', d')"
  shows "single_claim d' (rs[n := r'])"
  unfolding single_claim_def
proof
  fix h
  have "length (filter (won h) rs) \<le> (if spent h d then 1 else 0)"
    using assms(1) unfolding single_claim_def by blast
  then show "length (filter (won h) (rs[n := r'])) \<le> (if spent h d' then 1 else 0)"
    using length_filter_update [OF assms(2), of "won h" r'] spent_stays [OF assms(3-5), of h] claims [OF assms(3-5), of h]
    by (auto split: if_splits)
qed

lemma at_most_one_wins:
  assumes "single_claim d rs" and "i < j" and "j < length rs" and "won h (rs ! i)" and "won h (rs ! j)"
  shows False
proof -
  have "length (filter (won h) rs) \<le> (if spent h d then 1 else 0)"
    using assms(1) unfolding single_claim_def by blast
  then have "length (filter (won h) rs) \<le> 1" by (simp split: if_splits)
  then show False using assms(2-5) by (rule filter_at_most_one)
qed

end

end
