(* ===== verification/Sessions_Correct.thy ===== *)
theory Sessions_Correct
  imports Sessions Claims
begin

text \<open>
  Correctness of refresh-token rotation under every interleaving of requests: a token is exchanged at
  most once, and a detected reuse leaves no usable token in the family. A logout or a password change
  has no such guarantee: it can run while a rotation is between its statements.
\<close>

section \<open>What is left after a detected reuse\<close>

fun pending :: "string \<Rightarrow> rotation \<Rightarrow> bool" where
  "pending fam (Link current _ _) = (familyId current = fam)"
| "pending fam (Recheck current _) = (familyId current = fam)"
| "pending fam (Kill current) = (familyId current = fam)"
| "pending fam _ = False"

definition reuse_detected :: "string \<Rightarrow> refresh_token list \<Rightarrow> bool" where
  "reuse_detected fam rows = list_ex (\<lambda>r. familyId r = fam \<and> revokedReason r = REUSE_DETECTED) rows"

definition unrevoked :: "string \<Rightarrow> refresh_token list \<Rightarrow> refresh_token list" where
  "unrevoked fam rows = filter (\<lambda>r. familyId r = fam \<and> revokedAt r = None) rows"

definition swept :: "session_state \<Rightarrow> bool" where
  "swept s \<longleftrightarrow> (\<forall>fam. reuse_detected fam (ss_rows s) \<longrightarrow> unrevoked fam (ss_rows s) \<noteq> []
     \<longrightarrow> (\<exists>(p, q)\<in>set (ss_requests s). pending fam q))"

lemmas row_defs = reuse_detected_def unrevoked_def update_rows_def revokeFamily_def

lemma reuse_update:
  "(\<And>r. familyId (f r) = familyId r \<and> revokedReason (f r) = revokedReason r) \<Longrightarrow>
     reuse_detected fam (update_rows P f rows) = reuse_detected fam rows"
  by (induction rows) (simp_all add: row_defs)

lemma unrevoked_update_empty:
  "(\<And>r. familyId (f r) = familyId r \<and> (revokedAt r \<noteq> None \<longrightarrow> revokedAt (f r) \<noteq> None)) \<Longrightarrow>
     unrevoked fam rows = [] \<Longrightarrow> unrevoked fam (update_rows P f rows) = []"
  by (induction rows) (simp_all add: row_defs split: if_splits)

lemma unrevoked_family [simp]: "unrevoked fam (revokeFamily now fam reason rows) = []"
  by (induction rows) (simp_all add: row_defs)

lemma revokeFamily_other:
  assumes "fam \<noteq> fam'"
  shows "reuse_detected fam (revokeFamily now fam' reason rows) = reuse_detected fam rows"
    and "unrevoked fam (revokeFamily now fam' reason rows) = unrevoked fam rows"
  using assms by (induction rows) (auto simp: row_defs)

lemma revoked_no_reuse:
  "reason \<noteq> REUSE_DETECTED \<Longrightarrow>
     reuse_detected fam (update_rows P (\<lambda>r. r\<lparr>revokedAt := Some now, revokedReason := reason\<rparr>) rows)
     \<Longrightarrow> reuse_detected fam rows"
  by (induction rows) (auto simp: row_defs split: if_splits)

text \<open>A later row of an undetected family changes nothing about detection.\<close>

lemma reuse_append [simp]: "revokedReason r = [] \<Longrightarrow> reuse_detected fam (rows @ [r]) = reuse_detected fam rows"
  by (simp add: reuse_detected_def REUSE_DETECTED_def)

lemma unrevoked_append: "unrevoked fam (rows @ [r]) = unrevoked fam rows @ (if familyId r = fam \<and> revokedAt r = None then [r] else [])"
  by (simp add: unrevoked_def)

text \<open>One statement of a rotation: what holds of the rest of the system still holds.\<close>

lemma rotate_step_swept:
  assumes "rotate_step hash ttl now i t p ip ua q rows = (q', rows')"
    and "reuse_detected fam rows'" and "unrevoked fam rows' \<noteq> []" and "\<not> pending fam q'"
  shows "reuse_detected fam rows \<and> unrevoked fam rows \<noteq> [] \<and> \<not> pending fam q"
proof (cases q)
  case Find
  then show ?thesis using assms by (auto simp: refused_def split: option.splits if_splits)
next
  case (Claim current)
  then show ?thesis using assms unrevoked_update_empty [of "\<lambda>r. r\<lparr>rotatedAt := Some now\<rparr>" fam rows]
      reuse_update [of "\<lambda>r. r\<lparr>rotatedAt := Some now\<rparr>" fam _ rows]
    by (auto simp: Let_def split: if_splits)
next
  case (Sweep current)
  then show ?thesis
    using assms revokeFamily_other [of fam "familyId current" now REUSE_DETECTED rows] unrevoked_family
    by (cases "fam = familyId current") (auto simp: refused_def)
next
  case (Save current)
  then show ?thesis using assms by (auto simp: unrevoked_append split: if_splits)
next
  case (Link current rep nxt)
  then show ?thesis using assms unrevoked_update_empty [of "\<lambda>r. r\<lparr>replacedById := Some rep\<rparr>" fam rows]
      reuse_update [of "\<lambda>r. r\<lparr>replacedById := Some rep\<rparr>" fam _ rows] by auto
next
  case (Recheck current nxt)
  then show ?thesis using assms by (auto simp: reuse_detected_def list_ex_iff split: if_splits)
next
  case (Kill current)
  then show ?thesis
    using assms revokeFamily_other [of fam "familyId current" now REUSE_DETECTED rows] unrevoked_family
    by (cases "fam = familyId current") (auto simp: refused_def)
next
  case (Done x)
  then show ?thesis using assms by auto
qed

lemma swept_step:
  assumes "swept s" and "perform hash ttl a s = Some s'"
  shows "swept s'"
proof (cases a)
  case (Issue now i fam t u)
  then have s': "s' = s\<lparr>ss_rows := snd (issue hash ttl now i fam t u [] [] (ss_rows s))\<rparr>"
    and new: "fam \<notin> familyId ` set (ss_rows s)" using assms(2) by (auto split: if_splits)
  have "\<not> reuse_detected fam (ss_rows s)" using new by (auto simp: reuse_detected_def list_ex_iff)
  then show ?thesis using assms(1) by (auto simp: s' swept_def issue_def unrevoked_append split: if_splits)
next
  case (Present p)
  then show ?thesis using assms by (force simp: swept_def)
next
  case (Advance n now i t)
  then obtain p q q' rows where n: "n < length (ss_requests s)" "ss_requests s ! n = (p, q)"
    and step: "rotate_step hash ttl now i t p [] [] q (ss_rows s) = (q', rows)"
    and s': "s' = \<lparr>ss_rows = rows, ss_requests = (ss_requests s)[n := (p, q')]\<rparr>"
    using assms(2) by (auto simp: Let_def split: if_splits prod.splits)
  show ?thesis unfolding swept_def
  proof (intro allI impI)
    fix fam assume d: "reuse_detected fam (ss_rows s')" and u: "unrevoked fam (ss_rows s') \<noteq> []"
    have upd: "set (ss_requests s') = insert (p, q') (set ((ss_requests s)[n := (p, q')]))"
      using n(1) by (auto simp: s' set_update_memI)
    show "\<exists>(p, q)\<in>set (ss_requests s'). pending fam q"
    proof (cases "pending fam q'")
      case True
      then show ?thesis using upd by auto
    next
      case False
      then have "reuse_detected fam (ss_rows s)" "unrevoked fam (ss_rows s) \<noteq> []" and nq: "\<not> pending fam q"
        using rotate_step_swept [OF step] d u by (auto simp: s')
      then obtain p2 q2 where "(p2, q2) \<in> set (ss_requests s)" "pending fam q2"
        using assms(1) unfolding swept_def by blast
      then obtain k where k: "k < length (ss_requests s)" "ss_requests s ! k = (p2, q2)" "pending fam q2"
        by (auto simp: in_set_conv_nth)
      then have "k \<noteq> n" using n(2) nq by auto
      then have "(p2, q2) \<in> set (ss_requests s')" using k by (auto simp: s' in_set_conv_nth intro!: exI [of _ k])
      then show ?thesis using k(3) by auto
    qed
  qed
next
  case (Logout now p)
  show ?thesis
  proof (cases "find_row (\<lambda>r. tokenHash r = hash p) (ss_rows s)")
    case None
    then show ?thesis using assms Logout by (simp add: revoke_def)
  next
    case (Some r)
    have s': "s' = s\<lparr>ss_rows := revokeFamily now (familyId r) LOGOUT (ss_rows s)\<rparr>"
      using assms(2) Some by (simp add: Logout revoke_def)
    have "reuse_detected fam (ss_rows s) \<and> unrevoked fam (ss_rows s) \<noteq> []"
      if "reuse_detected fam (ss_rows s')" "unrevoked fam (ss_rows s') \<noteq> []" for fam
      using that unrevoked_family revokeFamily_other [of fam "familyId r" now LOGOUT "ss_rows s"]
      by (cases "fam = familyId r") (auto simp: s')
    then show ?thesis using assms(1) by (auto simp: swept_def s')
  qed
next
  case (PasswordChanged now u)
  then have s': "s' = s\<lparr>ss_rows := revokeAllForUser now u PASSWORD_CHANGED (ss_rows s)\<rparr>" using assms(2) by simp
  have "reuse_detected fam (ss_rows s) \<and> unrevoked fam (ss_rows s) \<noteq> []"
    if "reuse_detected fam (ss_rows s')" "unrevoked fam (ss_rows s') \<noteq> []" for fam
  proof
    show "reuse_detected fam (ss_rows s)"
      using that(1) revoked_no_reuse [of PASSWORD_CHANGED fam]
      by (simp add: s' revokeAllForUser_def PASSWORD_CHANGED_def REUSE_DETECTED_def)
    show "unrevoked fam (ss_rows s) \<noteq> []"
      using that(2) unrevoked_update_empty [of "\<lambda>r. r\<lparr>revokedAt := Some now, revokedReason := PASSWORD_CHANGED\<rparr>" fam "ss_rows s"]
      by (auto simp: s' revokeAllForUser_def)
  qed
  then show ?thesis using assms(1) by (auto simp: swept_def s')
qed

lemma reachable_swept: "session_reachable hash ttl s \<Longrightarrow> swept s"
proof (induction rule: session_reachable.induct)
  case Start
  then show ?case by (simp add: swept_def reuse_detected_def)
next
  case (Step s a s')
  then show ?case using swept_step by blast
qed

section \<open>Running actions\<close>

definition run_actions :: "(string \<Rightarrow> string) \<Rightarrow> int \<Rightarrow> session_action list \<Rightarrow> session_state option" where
  "run_actions hash ttl as = fold (\<lambda>a r. Option.bind r (perform hash ttl a)) as (Some \<lparr>ss_rows = [], ss_requests = []\<rparr>)"

lemma run_reachable: "run_actions hash ttl as = Some s \<Longrightarrow> session_reachable hash ttl s"
proof (induction as arbitrary: s rule: rev_induct)
  case Nil
  then show ?case using session_reachable.Start by (auto simp: run_actions_def)
next
  case (snoc a as)
  then obtain s1 where "run_actions hash ttl as = Some s1" "perform hash ttl a s1 = Some s"
    by (auto simp: run_actions_def bind_eq_Some_conv)
  then show ?case using snoc.IH Step by blast
qed

definition quiet :: "session_state \<Rightarrow> bool" where
  "quiet s = list_all (\<lambda>(p, q). case q of Done _ \<Rightarrow> True | _ \<Rightarrow> False) (ss_requests s)"

text \<open>One rotation from start to end, and one more presentation of the token it spent.\<close>

definition rotate_once :: "session_action list" where
  "rotate_once = [Issue 0 ''r0'' ''fam'' ''t0'' ''u1'', Present ''t0'', Advance 0 1 ''x1'' ''y1'', Advance 0 2 ''x2'' ''y2'',
     Advance 0 3 ''r1'' ''t1'', Advance 0 4 ''x4'' ''y4'', Advance 0 5 ''x5'' ''y5'']"

definition replay :: "session_action list" where
  "replay = rotate_once @ [Present ''t0'', Advance 1 6 ''x6'' ''y6'', Advance 1 7 ''x7'' ''y7'', Advance 1 8 ''x8'' ''y8'']"

text \<open>
  C16. Reuse ends the session: once a reuse was detected in a family, no token of it is left unrevoked,
  whatever requests ran meanwhile, as soon as no rotation of the family is between writing its
  replacement and checking the family again.
\<close>

theorem reuse_ends_family:
  assumes "session_reachable hash ttl s" and "reuse_detected fam (ss_rows s)"
    and "list_all (\<lambda>(p, q). \<not> pending fam q) (ss_requests s)"
  shows "unrevoked fam (ss_rows s) = []"
  using reachable_swept [OF assms(1)] assms(2,3) by (auto simp: swept_def list_all_iff)

theorem reuse_ends_family_witness:
  "\<exists>s. run_actions (\<lambda>x. x) 1000 replay = Some s \<and> length (ss_rows s) = 2 \<and> unrevoked ''fam'' (ss_rows s) = []"
proof -
  have "case run_actions (\<lambda>x. x) 1000 replay of None \<Rightarrow> False
    | Some s \<Rightarrow> length (ss_rows s) = 2 \<and> reuse_detected ''fam'' (ss_rows s)
        \<and> list_all (\<lambda>(p, q). \<not> pending ''fam'' q) (ss_requests s)"
    by code_simp
  then obtain s where s: "run_actions (\<lambda>x. x) 1000 replay = Some s" "length (ss_rows s) = 2"
    "reuse_detected ''fam'' (ss_rows s)" "list_all (\<lambda>(p, q). \<not> pending ''fam'' q) (ss_requests s)"
    by (auto split: option.splits)
  then show ?thesis using reuse_ends_family [OF run_reachable [OF s(1)] s(3,4)] by blast
qed

section \<open>A token is spent once\<close>

fun won :: "rotation \<Rightarrow> bool" where
  "won (Save _) = True"
| "won (Link _ _ _) = True"
| "won (Recheck _ _) = True"
| "won (Kill _) = True"
| "won (Done res) = (ro_token res \<noteq> None)"
| "won _ = False"

definition spent :: "string \<Rightarrow> refresh_token list \<Rightarrow> bool" where
  "spent h rows = list_ex (\<lambda>r. tokenHash r = h \<and> rotatedAt r \<noteq> None) rows"

lemma spent_update:
  "(\<And>r. tokenHash (f r) = tokenHash r \<and> (rotatedAt r \<noteq> None \<longrightarrow> rotatedAt (f r) \<noteq> None)) \<Longrightarrow>
     spent h rows \<Longrightarrow> spent h (update_rows P f rows)"
  by (induction rows) (auto simp: spent_def update_rows_def)

lemma hashes_update [simp]:
  "(\<And>r. tokenHash (f r) = tokenHash r) \<Longrightarrow> map tokenHash (update_rows P f rows) = map tokenHash rows"
  by (simp add: update_rows_def)

lemma rotate_step_rows:
  assumes "rotate_step hash ttl now i t p ip ua q rows = (q', rows')" and "fresh_token hash rows i t"
    and "distinct (map tokenHash rows)"
  shows "distinct (map tokenHash rows')" and "spent h rows \<Longrightarrow> spent h rows'"
    and "won q' \<Longrightarrow> won q \<or> \<not> spent (hash p) rows \<and> spent (hash p) rows'"
proof -
  have "distinct (map tokenHash rows') \<and> (spent h rows \<longrightarrow> spent h rows')
    \<and> (won q' \<longrightarrow> won q \<or> \<not> spent (hash p) rows \<and> spent (hash p) rows')"
  proof (cases q)
    case (Claim current)
    let ?P = "\<lambda>r. tokenHash r = hash p \<and> rotatedAt r = None \<and> revokedAt r = None"
    let ?f = "\<lambda>r. r\<lparr>rotatedAt := Some now\<rparr>"
    show ?thesis
    proof (cases "list_ex ?P rows")
      case True
      then obtain r where r: "r \<in> set rows" "?P r" by (auto simp: list_ex_iff)
      have "x = r" if "x \<in> set rows" "tokenHash x = hash p" for x
        using that r assms(3) by (metis distinct_map inj_onD)
      then have "\<not> spent (hash p) rows" using r(2) by (auto simp: spent_def list_ex_iff)
      moreover have "spent (hash p) (update_rows ?P ?f rows)"
        using True by (induction rows) (auto simp: spent_def update_rows_def)
      ultimately show ?thesis
        using assms(1,3) True spent_update [of ?f h rows ?P] by (auto simp: Claim Let_def)
    next
      case False
      then show ?thesis using assms(1,3) by (auto simp: Claim Let_def)
    qed
  qed (use assms spent_update [of _ h rows] in \<open>auto simp: refused_def fresh_token_def revokeFamily_def spent_def
        split: option.splits if_splits\<close>)
  then show "distinct (map tokenHash rows')" and "spent h rows \<Longrightarrow> spent h rows'"
    and "won q' \<Longrightarrow> won q \<or> \<not> spent (hash p) rows \<and> spent (hash p) rows'" by blast+
qed

lemma spent_append [simp]: "rotatedAt r = None \<Longrightarrow> spent h (rows @ [r]) = spent h rows"
  by (simp add: spent_def)

text \<open>A request is the token it presented with its next statement; the values of a step are \<open>(now, new_id, token)\<close>.\<close>

interpretation rotations: claim_once
  "\<lambda>(now, new_id, token) (p, q) rows.
     let (q', rows') = rotate_step hash ttl now new_id token p [] [] q rows in ((p, q'), rows')"
  "\<lambda>(now, new_id, token) rows. fresh_token hash rows new_id token"
  "\<lambda>r rows. distinct (map tokenHash rows)" spent "\<lambda>h (p, q). hash p = h \<and> won q"
  for hash ttl
proof unfold_locales
  fix r r' :: "string \<times> rotation" and rows rows' h and i :: "int \<times> string \<times> string"
  obtain now new_id token where i: "i = (now, new_id, token)" by (cases i)
  assume d: "distinct (map tokenHash rows)" and f: "(case i of (now, new_id, token) \<Rightarrow> \<lambda>rows. fresh_token hash rows new_id token) rows"
    and a: "(case i of (now, new_id, token) \<Rightarrow> \<lambda>(p, q) rows.
      let (q', rows') = rotate_step hash ttl now new_id token p [] [] q rows in ((p, q'), rows')) r rows = (r', rows')"
  then obtain q' where step: "rotate_step hash ttl now new_id token (fst r) [] [] (snd r) rows = (q', rows')" and r': "r' = (fst r, q')"
    by (auto simp: i Let_def split: prod.splits)
  have fresh: "fresh_token hash rows new_id token" using f by (simp add: i)
  show "spent h rows'" if "spent h rows" using that by (rule rotate_step_rows(2) [OF step fresh d])
  show "(case r of (p, q) \<Rightarrow> hash p = h \<and> won q) \<or> \<not> spent h rows \<and> spent h rows'"
    if "case r' of (p, q) \<Rightarrow> hash p = h \<and> won q"
    using that rotate_step_rows(3) [OF step fresh d] by (auto simp: r' split: prod.splits)
qed

definition single_use :: "(string \<Rightarrow> string) \<Rightarrow> session_state \<Rightarrow> bool" where
  "single_use hash s \<longleftrightarrow> distinct (map tokenHash (ss_rows s)) \<and> rotations.single_claim hash (ss_rows s) (ss_requests s)"

lemma single_use_rows:
  assumes "single_use hash s" and "ss_requests s' = ss_requests s" and "distinct (map tokenHash (ss_rows s'))"
    and "\<And>h. spent h (ss_rows s) \<Longrightarrow> spent h (ss_rows s')"
  shows "single_use hash s'"
  using assms rotations.single_claim_keep [of hash "ss_rows s"] by (simp add: single_use_def)

lemma single_use_step:
  assumes "single_use hash s" and "perform hash ttl a s = Some s'"
  shows "single_use hash s'"
proof -
  have d: "distinct (map tokenHash (ss_rows s))" and c: "rotations.single_claim hash (ss_rows s) (ss_requests s)"
    using assms(1) by (simp_all add: single_use_def)
  note revoked = spent_update [of "\<lambda>r. r\<lparr>revokedAt := Some _, revokedReason := _\<rparr>"]
  show ?thesis
  proof (cases a)
    case (Issue now i fam t u)
    then show ?thesis using assms d
      by (intro single_use_rows [OF assms(1)]) (auto simp: issue_def fresh_token_def split: if_splits)
  next
    case (Present p)
    then show ?thesis using assms(2) d rotations.single_claim_start [OF c, of "(p, Find)"] by (auto simp: single_use_def)
  next
    case (Advance n now i t)
    then obtain p q q' rows where n: "n < length (ss_requests s)" "ss_requests s ! n = (p, q)"
      and step: "rotate_step hash ttl now i t p [] [] q (ss_rows s) = (q', rows)"
      and fresh: "fresh_token hash (ss_rows s) i t"
      and s': "s' = \<lparr>ss_rows = rows, ss_requests = (ss_requests s)[n := (p, q')]\<rparr>"
      using assms(2) by (auto simp: Let_def split: if_splits prod.splits)
    have "rotations.single_claim hash rows ((ss_requests s)[n := (p, q')])"
      using rotations.single_claim_advance [OF c n(1) d, of "(now, i, t)" ttl "(p, q')" rows] fresh n(2) step by simp
    then show ?thesis using rotate_step_rows(1) [OF step fresh d] by (simp add: single_use_def s')
  next
    case (Logout now p)
    then show ?thesis using assms d revoked
      by (intro single_use_rows [OF assms(1)]) (auto simp: revoke_def revokeFamily_def split: option.splits)
  next
    case (PasswordChanged now u)
    then show ?thesis using assms d revoked
      by (intro single_use_rows [OF assms(1)]) (auto simp: revokeAllForUser_def)
  qed
qed

lemma reachable_single_use: "session_reachable hash ttl s \<Longrightarrow> single_use hash s"
proof (induction rule: session_reachable.induct)
  case Start
  then show ?case by (simp add: single_use_def rotations.single_claim_def)
next
  case (Step s a s')
  then show ?case using single_use_step by blast
qed

text \<open>
  C5. A refresh token is exchanged at most once: of any two requests that present the same token, in
  any interleaving, at most one is answered with a new one.
\<close>

theorem token_spent_once:
  assumes "session_reachable hash ttl s" and "i < j" and "j < length (ss_requests s)"
    and "ss_requests s ! i = (p, Done a)" and "ss_requests s ! j = (p, Done b)"
  shows "ro_token a = None \<or> ro_token b = None"
proof (rule ccontr)
  assume "\<not> ?thesis"
  moreover have "rotations.single_claim hash (ss_rows s) (ss_requests s)"
    using reachable_single_use [OF assms(1)] by (simp add: single_use_def)
  ultimately show False
    using rotations.at_most_one_wins [OF _ assms(2,3), of hash _ "hash p"] assms(4,5) by auto
qed

theorem token_spent_once_witness:
  "\<exists>s a b. run_actions (\<lambda>x. x) 1000 replay = Some s \<and> ss_requests s = [(''t0'', Done a), (''t0'', Done b)]
    \<and> ro_token a = Some ''t1'' \<and> ro_token b = None"
proof -
  let ?a = "\<lparr>ro_token = Some ''t1'', ro_userId = Some ''u1'', failure = None\<rparr>"
  let ?b = "\<lparr>ro_token = None, ro_userId = Some ''u1'', failure = Some Reused\<rparr>"
  have "map_option ss_requests (run_actions (\<lambda>x. x) 1000 replay) = Some [(''t0'', Done ?a), (''t0'', Done ?b)]"
    by code_simp
  then obtain s where s: "run_actions (\<lambda>x. x) 1000 replay = Some s" "ss_requests s = [(''t0'', Done ?a), (''t0'', Done ?b)]"
    by auto
  then have "ro_token ?a = None \<or> ro_token ?b = None"
    using token_spent_once [OF run_reachable [OF s(1)], of 0 1 "''t0''" ?a ?b] by simp
  then show ?thesis using s by auto
qed

section \<open>What a logout does not end\<close>

text \<open>
  A logout that runs between the claim of a rotation and the writing of the replacement revokes the
  family before the replacement exists; the check afterwards looks for a detected reuse only, so the
  rotation answers with a token that is live after the logout. The same holds of a password change.
\<close>

definition logout_race :: "session_action \<Rightarrow> session_action list" where
  "logout_race a = [Issue 0 ''r0'' ''fam'' ''t0'' ''u1'', Present ''t0'', Advance 0 1 ''x1'' ''y1'', Advance 0 2 ''x2'' ''y2'', a,
     Advance 0 4 ''r1'' ''t1'', Advance 0 5 ''x5'' ''y5'', Advance 0 6 ''x6'' ''y6'']"

definition live_after :: "session_action \<Rightarrow> bool" where
  "live_after a = (case run_actions (\<lambda>x. x) 1000 (logout_race a) of None \<Rightarrow> False
     | Some s \<Rightarrow> ss_requests s = [(''t0'', Done \<lparr>ro_token = Some ''t1'', ro_userId = Some ''u1'', failure = None\<rparr>)]
         \<and> list_ex (\<lambda>r. tokenHash r = ''t1'' \<and> rotatedAt r = None \<and> revokedAt r = None) (ss_rows s))"

lemma logout_leaves_live_token: "live_after (Logout 3 ''t0'')" "live_after (PasswordChanged 3 ''u1'')"
  by code_simp+

end
