(* ===== verification/Serializer.thy ===== *)
theory Serializer
  imports Publish_Correct Publish_Config
begin

text \<open>
  The published document of an option set (\<open>toPublished\<close> of
  \<open>src/option-sets/serialization/option-set.serializer.ts\<close>): everything disabled is left out, the rest
  is written in the document's vocabulary. \<open>None\<close> is the \<open>TypeError\<close> of a price whose brackets are not
  objects. The last section shows that the document holds exactly what the publish check says it will.
\<close>

record value_entity =
  ve_id :: string
  valueKey :: string
  ve_label :: string
  ve_sortOrder :: jsnum
  ve_priceType :: string
  ve_priceAmountMinor :: jsnum
  ve_priceConfig :: jsval
  imageUrl :: "string option"
  colorHex :: "string option"
  ve_design :: jsval
  groupLabel :: "string option"
  skuSuffix :: "string option"
  weightDeltaGrams :: "jsnum option"
  isDefault :: bool
  ve_isEnabled :: bool

record option_entity =
  oe_id :: string
  oe_key :: string
  oe_valueKind :: string
  oe_cardinality :: string
  presentation :: string
  oe_label :: string
  oe_description :: "string option"
  placeholder :: "string option"
  helpText :: "string option"
  isRequired :: bool
  oe_isEnabled :: bool
  oe_sortOrder :: jsnum
  defaultValue :: "string option"
  oe_validation :: jsval
  oe_pricing :: jsval
  oe_display :: jsval
  textDesign :: jsval
  oe_values :: "value_entity list"

record item_entity =
  ie_id :: string
  ie_kind :: string
  ie_content :: string
  ie_sortOrder :: jsnum
  ie_display :: jsval

record group_entity =
  ge_id :: string
  ge_label :: string
  ge_description :: "string option"
  displayType :: string
  ge_sortOrder :: jsnum
  isCollapsible :: bool
  ge_isEnabled :: bool
  ge_items :: "item_entity list"
  ge_options :: "option_entity list"

record rule_entity =
  re_rule :: stored_rule
  re_isEnabled :: bool
  re_disabledReason :: "string option"

record option_set_tree =
  os_id :: string
  os_name :: string
  os_version :: jsnum
  os_groups :: "group_entity list"
  os_rules :: "rule_entity list"

section \<open>The projection\<close>

fun nullable :: "string option \<Rightarrow> jsval" where
  "nullable None = JNull"
| "nullable (Some s) = JStr s"

definition optional :: "string \<Rightarrow> jsval \<Rightarrow> (string \<times> jsval) list" where
  "optional key v = (if v = JNull \<or> v = JUndef then [] else [(key, v)])"

definition valueToPublished :: "value_entity \<Rightarrow> jsval option" where
  "valueToPublished v = map_option (\<lambda>price. JObj
     ([(''id'', JStr (ve_id v)), (''value_key'', JStr (valueKey v)), (''label'', JStr (ve_label v)),
       (''sort_order'', JNum (ve_sortOrder v)), (''price_config'', price)]
      @ optional ''image_url'' (nullable (imageUrl v)) @ optional ''color_hex'' (nullable (colorHex v))
      @ optional ''design'' (ve_design v) @ optional ''group_label'' (nullable (groupLabel v))
      @ optional ''sku_suffix'' (nullable (skuSuffix v))
      @ optional ''weight_delta_grams'' (case weightDeltaGrams v of None \<Rightarrow> JNull | Some w \<Rightarrow> JNum w)
      @ (if isDefault v then [(''is_default'', JBool True)] else [])))
     (toPublishedPriceConfig (ve_priceConfig v) (ve_priceType v) (ve_priceAmountMinor v))"

definition optionToPublished :: "option_entity \<Rightarrow> jsval option" where
  "optionToPublished opt =
     (case toPublishedOptionPricing (oe_pricing opt) of
        None \<Rightarrow> None
      | Some pricing \<Rightarrow>
         (case those (map valueToPublished (filter ve_isEnabled (oe_values opt))) of
            None \<Rightarrow> None
          | Some vals \<Rightarrow> Some (JObj
              ([(''id'', JStr (oe_id opt)), (''key'', JStr (oe_key opt)), (''type'', JStr (presentation opt)),
                (''value_kind'', JStr (oe_valueKind opt)), (''cardinality'', JStr (oe_cardinality opt)), (''label'', JStr (oe_label opt))]
               @ optional ''description'' (nullable (oe_description opt)) @ optional ''placeholder'' (nullable (placeholder opt))
               @ optional ''help_text'' (nullable (helpText opt))
               @ [(''is_required'', JBool (isRequired opt)), (''sort_order'', JNum (oe_sortOrder opt))]
               @ optional ''default_value'' (nullable (defaultValue opt))
               @ optional ''validation'' (toPublishedValidation (oe_validation opt))
               @ optional ''pricing'' pricing
               @ optional ''display'' (toPublishedDisplay (oe_display opt))
               @ [(''values'', JArr vals)]))))"

definition itemToPublished :: "item_entity \<Rightarrow> jsval" where
  "itemToPublished item = JObj
     ([(''kind'', JStr (ie_kind item)), (''content'', JStr (ie_content item)), (''sort_order'', JNum (ie_sortOrder item))]
      @ optional ''display'' (ie_display item))"

definition groupToPublished :: "group_entity \<Rightarrow> jsval option" where
  "groupToPublished g =
     (case those (map optionToPublished (filter oe_isEnabled (ge_options g))) of
        None \<Rightarrow> None
      | Some opts \<Rightarrow> Some (JObj
          ([(''id'', JStr (ge_id g)), (''label'', JStr (ge_label g))]
           @ optional ''description'' (nullable (ge_description g))
           @ [(''display_type'', JStr (displayType g)), (''sort_order'', JNum (ge_sortOrder g)),
              (''is_collapsible'', JBool (isCollapsible g)), (''options'', JArr opts),
              (''items'', JArr (map itemToPublished (ge_items g)))])))"

definition toPublished :: "option_set_tree \<Rightarrow> jsval option" where
  "toPublished tree =
     (case those (map groupToPublished (filter ge_isEnabled (os_groups tree))) of
        None \<Rightarrow> None
      | Some groups \<Rightarrow> Some (JObj
          [(''id'', JStr (os_id tree)), (''version'', JNum (os_version tree)), (''assignments'', JArr []),
           (''groups'', JArr groups),
           (''rules'', JArr (map (\<lambda>r. toPublishedRule (re_rule r)) (filter re_isEnabled (os_rules tree))))]))"

section \<open>What the publish check is given\<close>

text \<open>The fields of the same entities the publish check reads.\<close>

definition check_option :: "option_entity \<Rightarrow> option_node" where
  "check_option opt = \<lparr>node_option = \<lparr>opt_id = oe_id opt, opt_label = oe_label opt, opt_presentation = presentation opt,
     opt_isEnabled = oe_isEnabled opt, opt_validation = oe_validation opt, opt_pricing = oe_pricing opt\<rparr>,
     node_values = map (\<lambda>v. \<lparr>val_id = ve_id v, val_isEnabled = ve_isEnabled v\<rparr>) (oe_values opt)\<rparr>"

definition check_group :: "group_entity \<Rightarrow> group_node" where
  "check_group g = \<lparr>node_group = \<lparr>grp_id = ge_id g, grp_isEnabled = ge_isEnabled g\<rparr>,
     node_items = map ie_id (ge_items g), node_options = map check_option (ge_options g)\<rparr>"

definition check_tree :: "option_set_tree \<Rightarrow> set_tree" where
  "check_tree tree = \<lparr>set_id = os_id tree, set_name = os_name tree, tree_groups = map check_group (os_groups tree)\<rparr>"

section \<open>The ids of a document\<close>

fun elements :: "jsval \<Rightarrow> jsval list" where
  "elements (JArr vs) = vs"
| "elements _ = []"

definition doc_groups :: "jsval \<Rightarrow> jsval list" where
  "doc_groups doc = elements (js_get doc ''groups'')"

definition doc_options :: "jsval \<Rightarrow> jsval list" where
  "doc_options doc = flat_map (\<lambda>g. elements (js_get g ''options'')) (doc_groups doc)"

definition doc_values :: "jsval \<Rightarrow> jsval list" where
  "doc_values doc = flat_map (\<lambda>opt. elements (js_get opt ''values'')) (doc_options doc)"

definition doc_ids :: "string \<Rightarrow> jsval \<Rightarrow> jsval set" where
  "doc_ids kind doc = (\<lambda>v. js_get v ''id'') ` set (if kind = ''group'' then doc_groups doc
     else if kind = ''option'' then doc_options doc else doc_values doc)"

section \<open>The document holds what the check says\<close>

lemma those_map_Some:
  assumes "those (map f xs) = Some ys"
  shows "list_all2 (\<lambda>x y. f x = Some y) xs ys"
  using assms
proof (induction xs arbitrary: ys)
  case (Cons x xs)
  then show ?case by (cases "f x"; cases "those (map f xs)") auto
qed simp

lemma those_image:
  assumes "those (map f xs) = Some ys" and "\<And>x y. x \<in> set xs \<Longrightarrow> f x = Some y \<Longrightarrow> g y = h x"
  shows "g ` set ys = h ` set xs"
proof -
  have "list_all2 (\<lambda>x y. f x = Some y) xs ys" using assms(1) by (rule those_map_Some)
  then have "map g ys = map h xs" using assms(2) by (induction) auto
  then show ?thesis by (metis set_map)
qed

lemma map_of_optional [simp]: "k \<noteq> k' \<Longrightarrow> map_of (optional k v) k' = None"
  by (simp add: optional_def)

lemma published_value_id: "valueToPublished v = Some d \<Longrightarrow> js_get d ''id'' = JStr (ve_id v)"
  by (auto simp: valueToPublished_def)

lemma published_option:
  assumes "optionToPublished opt = Some d"
  shows "js_get d ''id'' = JStr (oe_id opt)"
    and "(\<lambda>v. js_get v ''id'') ` set (elements (js_get d ''values'')) = (\<lambda>v. JStr (ve_id v)) ` {v \<in> set (oe_values opt). ve_isEnabled v}"
proof -
  obtain pricing vals where p: "toPublishedOptionPricing (oe_pricing opt) = Some pricing"
    and vals: "those (map valueToPublished (filter ve_isEnabled (oe_values opt))) = Some vals"
    using assms by (auto simp: optionToPublished_def split: option.splits)
  then have d: "js_get d ''id'' = JStr (oe_id opt)" "js_get d ''values'' = JArr vals"
    using assms by (auto simp: optionToPublished_def map_add_def)
  show "js_get d ''id'' = JStr (oe_id opt)" by (rule d)
  show "(\<lambda>v. js_get v ''id'') ` set (elements (js_get d ''values'')) = (\<lambda>v. JStr (ve_id v)) ` {v \<in> set (oe_values opt). ve_isEnabled v}"
    using those_image [OF vals, of "\<lambda>v. js_get v ''id''" "\<lambda>v. JStr (ve_id v)"] published_value_id by (simp add: d)
qed

lemma published_group:
  assumes "groupToPublished g = Some d"
  shows "js_get d ''id'' = JStr (ge_id g)"
    and "\<exists>opts. elements (js_get d ''options'') = opts
      \<and> those (map optionToPublished (filter oe_isEnabled (ge_options g))) = Some opts"
proof -
  obtain opts where opts: "those (map optionToPublished (filter oe_isEnabled (ge_options g))) = Some opts"
    using assms by (auto simp: groupToPublished_def split: option.splits)
  then show "js_get d ''id'' = JStr (ge_id g)"
    and "\<exists>opts. elements (js_get d ''options'') = opts
      \<and> those (map optionToPublished (filter oe_isEnabled (ge_options g))) = Some opts"
    using assms by (auto simp: groupToPublished_def map_add_def)
qed

lemma group_options:
  assumes "groupToPublished g = Some d"
  shows "(\<lambda>v. js_get v ''id'') ` set (elements (js_get d ''options'')) = (\<lambda>n. JStr (oe_id n)) ` {n \<in> set (ge_options g). oe_isEnabled n}"
    and "(\<lambda>v. js_get v ''id'') ` (\<Union>n\<in>set (elements (js_get d ''options'')). set (elements (js_get n ''values'')))
      = JStr ` {ve_id v |n v. n \<in> set (ge_options g) \<and> oe_isEnabled n \<and> v \<in> set (oe_values n) \<and> ve_isEnabled v}"
proof -
  obtain opts where opts: "elements (js_get d ''options'') = opts"
    "those (map optionToPublished (filter oe_isEnabled (ge_options g))) = Some opts"
    using published_group(2) [OF assms] by blast
  show "(\<lambda>v. js_get v ''id'') ` set (elements (js_get d ''options'')) = (\<lambda>n. JStr (oe_id n)) ` {n \<in> set (ge_options g). oe_isEnabled n}"
    using those_image [OF opts(2), of "\<lambda>v. js_get v ''id''" "\<lambda>n. JStr (oe_id n)"] published_option(1) by (simp add: opts(1))
  have "(\<lambda>n. (\<lambda>v. js_get v ''id'') ` set (elements (js_get n ''values''))) ` set opts
      = (\<lambda>n. (\<lambda>v. JStr (ve_id v)) ` {v \<in> set (oe_values n). ve_isEnabled v}) ` set (filter oe_isEnabled (ge_options g))"
    using opts(2) published_option(2) by (rule those_image)
  then have "(\<Union>n\<in>set opts. (\<lambda>v. js_get v ''id'') ` set (elements (js_get n ''values'')))
      = (\<Union>n\<in>set (filter oe_isEnabled (ge_options g)). (\<lambda>v. JStr (ve_id v)) ` {v \<in> set (oe_values n). ve_isEnabled v})"
    by simp
  then show "(\<lambda>v. js_get v ''id'') ` (\<Union>n\<in>set (elements (js_get d ''options'')). set (elements (js_get n ''values'')))
      = JStr ` {ve_id v |n v. n \<in> set (ge_options g) \<and> oe_isEnabled n \<and> v \<in> set (oe_values n) \<and> ve_isEnabled v}"
    unfolding opts(1) image_UN by auto
qed

lemma document_ids:
  assumes "toPublished tree = Some doc"
  shows "doc_ids ''group'' doc = JStr ` {ge_id g |g. g \<in> set (os_groups tree) \<and> ge_isEnabled g}"
    and "doc_ids ''option'' doc = JStr ` {oe_id n |g n. g \<in> set (os_groups tree) \<and> ge_isEnabled g \<and> n \<in> set (ge_options g) \<and> oe_isEnabled n}"
    and "doc_ids ''value'' doc = JStr ` {ve_id v |g n v. g \<in> set (os_groups tree) \<and> ge_isEnabled g
      \<and> n \<in> set (ge_options g) \<and> oe_isEnabled n \<and> v \<in> set (oe_values n) \<and> ve_isEnabled v}"
proof -
  let ?id = "\<lambda>v. js_get v ''id''" and ?gs = "filter ge_isEnabled (os_groups tree)"
  obtain groups where groups: "those (map groupToPublished ?gs) = Some groups"
    using assms by (auto simp: toPublished_def split: option.splits)
  then have d: "doc_groups doc = groups" using assms by (auto simp: toPublished_def doc_groups_def)
  show "doc_ids ''group'' doc = JStr ` {ge_id g |g. g \<in> set (os_groups tree) \<and> ge_isEnabled g}"
    using those_image [OF groups, of ?id "\<lambda>g. JStr (ge_id g)"] published_group(1) by (auto simp: doc_ids_def d)
  have "(\<lambda>g. ?id ` set (elements (js_get g ''options''))) ` set groups
      = (\<lambda>g. (\<lambda>n. JStr (oe_id n)) ` {n \<in> set (ge_options g). oe_isEnabled n}) ` set ?gs"
    using groups group_options(1) by (rule those_image)
  then have "(\<Union>g\<in>set groups. ?id ` set (elements (js_get g ''options'')))
      = (\<Union>g\<in>set ?gs. (\<lambda>n. JStr (oe_id n)) ` {n \<in> set (ge_options g). oe_isEnabled n})" by simp
  then show "doc_ids ''option'' doc = JStr ` {oe_id n |g n. g \<in> set (os_groups tree) \<and> ge_isEnabled g \<and> n \<in> set (ge_options g) \<and> oe_isEnabled n}"
    by (simp add: doc_ids_def doc_options_def d image_UN) auto
  have "(\<lambda>g. ?id ` (\<Union>n\<in>set (elements (js_get g ''options'')). set (elements (js_get n ''values'')))) ` set groups
      = (\<lambda>g. JStr ` {ve_id v |n v. n \<in> set (ge_options g) \<and> oe_isEnabled n \<and> v \<in> set (oe_values n) \<and> ve_isEnabled v}) ` set ?gs"
    using groups group_options(2) by (rule those_image)
  then have ids: "(\<Union>g\<in>set groups. ?id ` (\<Union>n\<in>set (elements (js_get g ''options'')). set (elements (js_get n ''values''))))
      = (\<Union>g\<in>set ?gs. JStr ` {ve_id v |n v. n \<in> set (ge_options g) \<and> oe_isEnabled n \<and> v \<in> set (oe_values n) \<and> ve_isEnabled v})" by simp
  have "doc_ids ''value'' doc = (\<Union>g\<in>set groups. ?id ` (\<Union>n\<in>set (elements (js_get g ''options'')). set (elements (js_get n ''values''))))"
    by (auto simp: doc_ids_def doc_values_def doc_options_def d)
  then show "doc_ids ''value'' doc = JStr ` {ve_id v |g n v. g \<in> set (os_groups tree) \<and> ge_isEnabled g
      \<and> n \<in> set (ge_options g) \<and> oe_isEnabled n \<and> v \<in> set (oe_values n) \<and> ve_isEnabled v}"
    unfolding ids by auto
qed

lemma ids_value_pub [simp]:
  "set (pub_values (ids_value b i v t)) = set (pub_values t) \<union> (if b \<and> val_isEnabled v then {val_id v} else {})"
  by (auto simp: ids_value_def Let_def)

lemma ids_values_pub [simp]:
  "pub_groups (fold (ids_value b i) vs t) = pub_groups t" "pub_options (fold (ids_value b i) vs t) = pub_options t"
  "set (pub_values (fold (ids_value b i) vs t)) = set (pub_values t) \<union> {val_id v |v. b \<and> v \<in> set vs \<and> val_isEnabled v}"
  by (induction vs arbitrary: t) auto

lemma ids_option_pub [simp]:
  "pub_groups (ids_option b n t) = pub_groups t"
  "set (pub_options (ids_option b n t)) = set (pub_options t) \<union> (if b \<and> opt_isEnabled (node_option n) then {opt_id (node_option n)} else {})"
  "set (pub_values (ids_option b n t)) = set (pub_values t)
     \<union> {val_id v |v. b \<and> opt_isEnabled (node_option n) \<and> v \<in> set (node_values n) \<and> val_isEnabled v}"
  by (auto simp: ids_option_def Let_def)

lemma ids_options_pub [simp]:
  "pub_groups (fold (ids_option b) ns t) = pub_groups t"
  "set (pub_options (fold (ids_option b) ns t)) = set (pub_options t)
     \<union> {opt_id (node_option n) |n. b \<and> n \<in> set ns \<and> opt_isEnabled (node_option n)}"
  "set (pub_values (fold (ids_option b) ns t)) = set (pub_values t)
     \<union> {val_id v |n v. b \<and> n \<in> set ns \<and> opt_isEnabled (node_option n) \<and> v \<in> set (node_values n) \<and> val_isEnabled v}"
  by (induction ns arbitrary: t) auto

lemma ids_group_pub [simp]:
  "set (pub_groups (ids_group g t)) = set (pub_groups t) \<union> (if grp_isEnabled (node_group g) then {grp_id (node_group g)} else {})"
  "set (pub_options (ids_group g t)) = set (pub_options t)
     \<union> {opt_id (node_option n) |n. grp_isEnabled (node_group g) \<and> n \<in> set (node_options g) \<and> opt_isEnabled (node_option n)}"
  "set (pub_values (ids_group g t)) = set (pub_values t)
     \<union> {val_id v |n v. grp_isEnabled (node_group g) \<and> n \<in> set (node_options g) \<and> opt_isEnabled (node_option n)
          \<and> v \<in> set (node_values n) \<and> val_isEnabled v}"
  by (auto simp: ids_group_def Let_def)

lemma idsIn_pub:
  "set (pub_groups (idsIn tree)) = {grp_id (node_group g) |g. g \<in> set (tree_groups tree) \<and> grp_isEnabled (node_group g)}"
  "set (pub_options (idsIn tree)) = {opt_id (node_option n) |g n. g \<in> set (tree_groups tree) \<and> grp_isEnabled (node_group g)
     \<and> n \<in> set (node_options g) \<and> opt_isEnabled (node_option n)}"
  "set (pub_values (idsIn tree)) = {val_id v |g n v. g \<in> set (tree_groups tree) \<and> grp_isEnabled (node_group g)
     \<and> n \<in> set (node_options g) \<and> opt_isEnabled (node_option n) \<and> v \<in> set (node_values n) \<and> val_isEnabled v}"
proof -
  have "set (pub_groups (fold ids_group gs t)) = set (pub_groups t) \<union> {grp_id (node_group g) |g. g \<in> set gs \<and> grp_isEnabled (node_group g)}"
    and "set (pub_options (fold ids_group gs t)) = set (pub_options t) \<union> {opt_id (node_option n) |g n. g \<in> set gs \<and> grp_isEnabled (node_group g)
      \<and> n \<in> set (node_options g) \<and> opt_isEnabled (node_option n)}"
    and "set (pub_values (fold ids_group gs t)) = set (pub_values t) \<union> {val_id v |g n v. g \<in> set gs \<and> grp_isEnabled (node_group g)
      \<and> n \<in> set (node_options g) \<and> opt_isEnabled (node_option n) \<and> v \<in> set (node_values n) \<and> val_isEnabled v}" for gs t
    by (induction gs arbitrary: t) auto
  then show "set (pub_groups (idsIn tree)) = {grp_id (node_group g) |g. g \<in> set (tree_groups tree) \<and> grp_isEnabled (node_group g)}"
    and "set (pub_options (idsIn tree)) = {opt_id (node_option n) |g n. g \<in> set (tree_groups tree) \<and> grp_isEnabled (node_group g)
      \<and> n \<in> set (node_options g) \<and> opt_isEnabled (node_option n)}"
    and "set (pub_values (idsIn tree)) = {val_id v |g n v. g \<in> set (tree_groups tree) \<and> grp_isEnabled (node_group g)
      \<and> n \<in> set (node_options g) \<and> opt_isEnabled (node_option n) \<and> v \<in> set (node_values n) \<and> val_isEnabled v}"
    by (simp_all add: idsIn_def)
qed

lemma in_pub:
  "i \<in> set (pub_groups (idsIn tree)) \<longleftrightarrow> (\<exists>g\<in>set (tree_groups tree). grp_isEnabled (node_group g) \<and> i = grp_id (node_group g))"
  "i \<in> set (pub_options (idsIn tree)) \<longleftrightarrow> (\<exists>g\<in>set (tree_groups tree). grp_isEnabled (node_group g)
     \<and> (\<exists>n\<in>set (node_options g). opt_isEnabled (node_option n) \<and> i = opt_id (node_option n)))"
  "i \<in> set (pub_values (idsIn tree)) \<longleftrightarrow> (\<exists>g\<in>set (tree_groups tree). grp_isEnabled (node_group g)
     \<and> (\<exists>n\<in>set (node_options g). opt_isEnabled (node_option n) \<and> (\<exists>v\<in>set (node_values n). val_isEnabled v \<and> i = val_id v)))"
  by (auto simp: idsIn_pub)

text \<open>
  C34. The document and the check agree on what is published: a group, option or value is in the
  published document exactly when the publish check says its id will publish, so the warning about a
  rule whose target is left out is given exactly for the rules whose target the document lacks.
\<close>

theorem document_matches_check:
  assumes "toPublished tree = Some doc" and "kind \<in> {''group'', ''option'', ''value''}"
  shows "JStr i \<in> doc_ids kind doc \<longleftrightarrow> willPublish (idsIn (check_tree tree)) kind i"
proof -
  have nodes: "tree_groups (check_tree tree) = map check_group (os_groups tree)" by (simp add: check_tree_def)
  have inj: "JStr i \<in> JStr ` A \<longleftrightarrow> i \<in> A" for A by auto
  have "i \<in> set (pub_groups (idsIn (check_tree tree))) \<longleftrightarrow> (\<exists>g\<in>set (os_groups tree). ge_isEnabled g \<and> i = ge_id g)"
    unfolding in_pub nodes by (simp add: check_group_def)
  moreover have "i \<in> set (pub_options (idsIn (check_tree tree))) \<longleftrightarrow> (\<exists>g\<in>set (os_groups tree). ge_isEnabled g
      \<and> (\<exists>n\<in>set (ge_options g). oe_isEnabled n \<and> i = oe_id n))"
    unfolding in_pub nodes by (simp add: check_group_def check_option_def)
  moreover have "i \<in> set (pub_values (idsIn (check_tree tree))) \<longleftrightarrow> (\<exists>g\<in>set (os_groups tree). ge_isEnabled g
      \<and> (\<exists>n\<in>set (ge_options g). oe_isEnabled n \<and> (\<exists>v\<in>set (oe_values n). ve_isEnabled v \<and> i = ve_id v)))"
    unfolding in_pub nodes by (simp add: check_group_def check_option_def)
  moreover have "kind = ''group'' \<or> kind = ''option'' \<or> kind = ''value''" using assms(2) by simp
  ultimately show ?thesis
    by (elim disjE) (auto simp: document_ids [OF assms(1)] inj willPublish_def)
qed

definition example_tree :: option_set_tree where
  "example_tree = \<lparr>os_id = ''s1'', os_name = ''Engraving'', os_version = Fin 1,
     os_groups = [\<lparr>ge_id = ''g1'', ge_label = ''Text'', ge_description = None, displayType = ''section'', ge_sortOrder = Fin 0,
       isCollapsible = False, ge_isEnabled = True, ge_items = [],
       ge_options = [\<lparr>oe_id = ''o1'', oe_key = ''name'', oe_valueKind = ''text'', oe_cardinality = ''none'', presentation = ''text'',
         oe_label = ''Name'', oe_description = None, placeholder = None, helpText = None, isRequired = True,
         oe_isEnabled = True, oe_sortOrder = Fin 0, defaultValue = None, oe_validation = JNull, oe_pricing = JNull,
         oe_display = JNull, textDesign = JNull, oe_values = []\<rparr>,
        \<lparr>oe_id = ''o2'', oe_key = ''old'', oe_valueKind = ''text'', oe_cardinality = ''none'', presentation = ''text'',
         oe_label = ''Old'', oe_description = None, placeholder = None, helpText = None, isRequired = False,
         oe_isEnabled = False, oe_sortOrder = Fin 1, defaultValue = None, oe_validation = JNull, oe_pricing = JNull,
         oe_display = JNull, textDesign = JNull, oe_values = []\<rparr>]\<rparr>],
     os_rules = []\<rparr>"

theorem document_matches_check_witness:
  "\<exists>doc. toPublished example_tree = Some doc \<and> JStr ''o1'' \<in> doc_ids ''option'' doc \<and> JStr ''o2'' \<notin> doc_ids ''option'' doc"
proof -
  obtain doc where doc: "toPublished example_tree = Some doc"
    by (simp add: toPublished_def groupToPublished_def optionToPublished_def toPublishedOptionPricing_def example_tree_def)
  have "willPublish (idsIn (check_tree example_tree)) ''option'' ''o1''" "\<not> willPublish (idsIn (check_tree example_tree)) ''option'' ''o2''"
    by code_simp+
  then show ?thesis using document_matches_check [OF doc, of "''option''"] doc by simp
qed

end
