(* ===== verification/Storefront_Rules.thy ===== *)
theory Storefront_Rules
  imports Rules_Correct Publish_Config
begin

text \<open>
  The storefront's own rule engine (\<open>assets/js/rules.js\<close> of the plugin), a second program that reads
  the published document, and its agreement with the backend evaluator. Its answers are what
  \<open>answersIn\<close> of \<open>frontend.js\<close> reads from the controls: strings.
\<close>

section \<open>Conditions\<close>

definition sf_asString :: "jsval \<Rightarrow> string" where
  "sf_asString v = (if v = JBool True then ''true'' else if v = JBool False then ''false''
     else if v = JNull \<or> v = JUndef then []
     else if js_typeof v = ''object'' then [] else (case v of JStr s \<Rightarrow> s | JNum n \<Rightarrow> num_to_string n | _ \<Rightarrow> []))"

definition sf_sameScalar :: "jsval \<Rightarrow> jsval \<Rightarrow> bool" where
  "sf_sameScalar answer operand =
     (if js_typeof answer = js_typeof operand then strict_eq answer operand
      else sf_asString answer = sf_asString operand)"

definition sf_numericValue :: "jsval \<Rightarrow> jsnum option" where
  "sf_numericValue v = (case v of
       JNum n \<Rightarrow> if is_finite_num n then Some n else None
     | JStr s \<Rightarrow> (case parse_decimal (js_trim s) of
         None \<Rightarrow> None
       | Some r \<Rightarrow> if is_finite_num (to_num r) then Some (to_num r) else None)
     | _ \<Rightarrow> None)"

definition sf_compareNumeric :: "jsval \<Rightarrow> jsval \<Rightarrow> (jsnum \<Rightarrow> jsnum \<Rightarrow> bool) \<Rightarrow> bool" where
  "sf_compareNumeric answer operand compare =
     (case sf_numericValue answer of None \<Rightarrow> False
      | Some left \<Rightarrow> (case sf_numericValue operand of None \<Rightarrow> False | Some right \<Rightarrow> compare left right))"

fun any_scalar :: "jsval \<Rightarrow> jsval list \<Rightarrow> bool" where
  "any_scalar answer [] = False"
| "any_scalar answer (v # vs) = (if sf_sameScalar answer v then True else any_scalar answer vs)"

fun inList :: "jsval \<Rightarrow> jsval \<Rightarrow> bool" where
  "inList answer (JArr operand) = any_scalar answer operand"
| "inList answer _ = False"

fun anyInList :: "jsval list \<Rightarrow> jsval \<Rightarrow> bool" where
  "anyInList [] operand = False"
| "anyInList (m # ms) operand = (if inList m operand then True else anyInList ms operand)"

fun any_contains :: "jsval list \<Rightarrow> string \<Rightarrow> bool" where
  "any_contains [] t = False"
| "any_contains (m # ms) t = (if js_includes (sf_asString m) t then True else any_contains ms t)"

text \<open>\<open>hasOwnProperty.call(v, k) ? v[k] : null\<close>.\<close>

fun own_or_null :: "jsval \<Rightarrow> string \<Rightarrow> jsval" where
  "own_or_null (JObj kvs) k = (case map_of kvs k of None \<Rightarrow> JNull | Some v \<Rightarrow> v)"
| "own_or_null _ k = JNull"

definition sf_conditionHolds :: "jsval \<Rightarrow> answers \<Rightarrow> bool" where
  "sf_conditionHolds condition ans =
     (if \<not> js_truthy condition \<or> js_typeof condition \<noteq> ''object'' then False
      else let optionId = string_or_empty (js_get condition ''option_id'');
               op = string_or_empty (js_get condition ''operator'');
               answer = (case map_of ans optionId of Some v \<Rightarrow> v | None \<Rightarrow> JNull);
               supplied = (answer \<noteq> JNull \<and> answer \<noteq> JUndef \<and> answer \<noteq> JStr [] \<and> answer \<noteq> JArr []);
               operand = own_or_null condition ''value'';
               members = (case answer of JArr vs \<Rightarrow> vs | _ \<Rightarrow> [answer]);
               isExactly = (\<lambda>v. length members = 1 \<and> sf_sameScalar (hd members) v)
           in if op = ''is_empty'' then \<not> supplied
              else if op = ''is_not_empty'' then supplied
              else if op = ''equals'' then supplied \<and> isExactly operand
              else if op = ''not_equals'' then supplied \<and> \<not> isExactly operand
              else if op = ''contains'' then
                (if \<not> supplied then False else case operand of JStr t \<Rightarrow> any_contains members t | _ \<Rightarrow> False)
              else if op = ''greater_than'' then sf_compareNumeric answer operand (\<lambda>a b. js_lt b a)
              else if op = ''less_than'' then sf_compareNumeric answer operand (\<lambda>a b. js_lt a b)
              else if op = ''in'' then supplied \<and> anyInList members operand
              else if op = ''not_in'' then supplied \<and> \<not> anyInList members operand
              else False)"

text \<open>The loop of \<open>ruleFires\<close>, which stops at the first condition that decides.\<close>

fun fires_loop :: "bool \<Rightarrow> answers \<Rightarrow> jsval list \<Rightarrow> bool" where
  "fires_loop any ans [] = (\<not> any)"
| "fires_loop any ans (c # cs) =
     (let holds = sf_conditionHolds c ans in
      if any \<and> holds then True else if \<not> any \<and> \<not> holds then False else fires_loop any ans cs)"

definition sf_ruleFires :: "jsval \<Rightarrow> answers \<Rightarrow> bool" where
  "sf_ruleFires rule ans =
     (let conditions = (case js_get rule ''conditions'' of JArr cs \<Rightarrow> cs | _ \<Rightarrow> []) in
      if conditions = [] then False
      else let match = js_get rule ''match_type'';
               any = ((if js_truthy match then match else JStr ''all'') = JStr ''any'')
           in fires_loop any ans conditions)"

section \<open>Resolution and the fixed point\<close>

record sf_state =
  sf_hidden :: bool
  sf_required :: "bool option"

type_synonym sf_states = "(string, sf_state) js_map"

definition sf_seed :: "sf_states \<Rightarrow> string \<Rightarrow> sf_state" where
  "sf_seed sts t = (case map_get sts t of Some s \<Rightarrow> s | None \<Rightarrow> \<lparr>sf_hidden = False, sf_required = None\<rparr>)"

definition sf_apply :: "answers \<Rightarrow> jsval \<Rightarrow> sf_states \<Rightarrow> sf_states" where
  "sf_apply ans rule sts =
     (if \<not> js_truthy rule \<or> \<not> sf_ruleFires rule ans then sts
      else let targetId = string_or_empty (js_get rule ''target_id'');
               state = sf_seed sts targetId;
               action = js_get rule ''action''
           in map_set targetId
               (if action = JStr ''hide'' then state\<lparr>sf_hidden := True\<rparr>
                else if action = JStr ''require'' then state\<lparr>sf_required := Some True\<rparr>
                else if action = JStr ''unrequire''
                then state\<lparr>sf_required := Some (if sf_required state = Some True then True else False)\<rparr>
                else state) sts)"

definition sf_keep :: "string \<Rightarrow> sf_states \<Rightarrow> sf_states" where
  "sf_keep t sts = map_set t ((sf_seed sts t)\<lparr>sf_hidden := True\<rparr>) sts"

definition resolvePass :: "jsval list \<Rightarrow> answers \<Rightarrow> string js_set \<Rightarrow> sf_states" where
  "resolvePass rules ans alreadyHidden = fold sf_keep alreadyHidden (fold (sf_apply ans) rules [])"

definition sf_sameAnswers :: "answers \<Rightarrow> answers \<Rightarrow> bool" where
  "sf_sameAnswers a b \<longleftrightarrow> length a = length b
     \<and> list_all (\<lambda>(k, v). case map_of b k of None \<Rightarrow> False | Some w \<Rightarrow> v = w \<and> v \<noteq> JNum NaN) a"

record sf_outcome =
  sf_states :: sf_states
  sf_passes :: nat
  sf_refused :: "string option"

definition sf_collect :: "sf_states \<Rightarrow> string js_set \<Rightarrow> string js_set" where
  "sf_collect sts h = fold (\<lambda>(t, s) h. if sf_hidden s then set_add t h else h) sts h"

definition sf_clear :: "answers \<Rightarrow> (string \<times> string list) list \<Rightarrow> string js_set \<Rightarrow> answers" where
  "sf_clear ans optionsUnder h = fold (\<lambda>t nxt. fold AList.delete
     (case map_of optionsUnder t of None \<Rightarrow> [] | Some ids \<Rightarrow> ids) nxt) h ans"

definition MAX_PASSES :: nat where
  "MAX_PASSES = 10"

fun sf_passes_loop :: "nat \<Rightarrow> nat \<Rightarrow> jsval list \<Rightarrow> answers \<Rightarrow> (string \<times> string list) list
    \<Rightarrow> string js_set \<Rightarrow> answers \<Rightarrow> sf_outcome" where
  "sf_passes_loop 0 pass rules ans optionsUnder h current =
     \<lparr>sf_states = [], sf_passes = MAX_PASSES, sf_refused = Some ''Rules did not settle within the pass limit.''\<rparr>"
| "sf_passes_loop (Suc left) pass rules ans optionsUnder h current =
     (let sts = resolvePass rules current h;
          h' = sf_collect sts h;
          nxt = sf_clear ans optionsUnder h'
      in if sf_sameAnswers nxt current then \<lparr>sf_states = sts, sf_passes = pass, sf_refused = None\<rparr>
         else sf_passes_loop left (pass + 1) rules ans optionsUnder h' nxt)"

definition evaluate :: "jsval list \<Rightarrow> answers \<Rightarrow> (string \<times> string list) list \<Rightarrow> sf_outcome" where
  "evaluate rules ans optionsUnder = sf_passes_loop MAX_PASSES 1 rules ans optionsUnder [] ans"

section \<open>The same decisions as the backend\<close>

text \<open>
  What the backend's evaluator is given for a stored rule (\<open>evaluable\<close> of
  \<open>src/option-sets/rule-tester.service.ts\<close>); a stored condition has passed the schema of conditions.
\<close>

definition read_condition :: "jsval \<Rightarrow> rule_condition" where
  "read_condition raw = \<lparr>optionId = string_or_empty (js_get raw ''optionId''),
     operator = string_or_empty (js_get raw ''operator''), cond_value = js_get raw ''value''\<rparr>"

definition evaluable :: "stored_rule \<Rightarrow> rule" where
  "evaluable r = \<lparr>rule_id = sr_id r, targetType = sr_targetType r, targetId = sr_targetId r, action = sr_action r,
     matchType = sr_matchType r,
     conditions = (case sr_conditions r of JArr cs \<Rightarrow> map read_condition cs | _ \<Rightarrow> []),
     actionValue = sr_actionValue r\<rparr>"

fun well_formed_condition :: "jsval \<Rightarrow> bool" where
  "well_formed_condition (JObj kvs) =
     ((case js_get (JObj kvs) ''optionId'' of JStr _ \<Rightarrow> True | _ \<Rightarrow> False)
      \<and> (case js_get (JObj kvs) ''operator'' of JStr _ \<Rightarrow> True | _ \<Rightarrow> False))"
| "well_formed_condition _ = False"

definition well_formed_rule :: "stored_rule \<Rightarrow> bool" where
  "well_formed_rule r = (case sr_conditions r of JArr cs \<Rightarrow> list_all well_formed_condition cs | _ \<Rightarrow> True)"

definition text_answers :: "answers \<Rightarrow> bool" where
  "text_answers ans = list_all (\<lambda>(k, v). case v of JStr _ \<Rightarrow> True | _ \<Rightarrow> False) ans"

lemma text_answer:
  assumes "text_answers ans"
  shows "map_of ans k = None \<or> (\<exists>s. map_of ans k = Some (JStr s))"
proof (cases "map_of ans k")
  case (Some v)
  then show ?thesis using assms by (auto simp: text_answers_def list_all_iff dest!: map_of_SomeD split: jsval.splits)
qed simp

lemma sf_string [simp]: "sf_asString (JStr s) = s"
  by (simp add: sf_asString_def)

lemma sf_asString_eq: "sf_asString v = asString v"
  by (cases v) (simp_all add: sf_asString_def asString_def split: bool.split)

lemma sf_sameScalar_eq: "sf_sameScalar a b = sameScalar a b"
  by (simp add: sf_sameScalar_def sameScalar_def sf_asString_eq)

lemma sf_compare_eq: "sf_compareNumeric a b f = compareNumeric a b f"
proof -
  have "sf_numericValue v = numericValue v" for v
    by (simp add: sf_numericValue_def numericValue_def Let_def split: jsval.split option.split)
  then show ?thesis by (simp add: sf_compareNumeric_def compareNumeric_def split: option.split)
qed

lemma inList_eq: "inList m v = list_ex (sameScalar m) (listOf v)"
proof -
  have "any_scalar m vs = list_ex (sameScalar m) vs" for vs
    by (induction vs) (simp_all add: sf_sameScalar_eq)
  then show ?thesis by (cases v) simp_all
qed

lemma anyInList_eq: "anyInList ms v = list_ex (\<lambda>m. list_ex (sameScalar m) (listOf v)) ms"
  by (induction ms) (simp_all add: inList_eq)

lemma any_contains_eq: "any_contains ms t = list_ex (\<lambda>m. js_includes (asString m) t) ms"
  by (induction ms) (simp_all add: sf_asString_eq)

text \<open>An absent operand is \<open>undefined\<close> to the one program and \<open>null\<close> to the other; no text tells them apart.\<close>

lemma absent_operand: "sameScalar (JStr s) JNull = sameScalar (JStr s) JUndef"
  by (simp add: sameScalar_def asString_def)

definition published_condition :: "jsval \<Rightarrow> jsval" where
  "published_condition raw = JObj ([(''option_id'', js_get raw ''optionId''), (''operator'', js_get raw ''operator'')]
     @ (if js_get raw ''value'' \<noteq> JUndef then [(''value'', js_get raw ''value'')] else []))"

lemma published_conditions:
  "list_all well_formed_condition cs \<Longrightarrow> toPublishedConditions (JArr cs) = map published_condition cs"
proof (induction cs)
  case (Cons c cs)
  then show ?case by (cases c) (simp_all add: published_condition_def)
qed simp

text \<open>The two programs read the same condition out of the document and out of the database.\<close>

lemma condition_agrees:
  assumes "well_formed_condition raw" and "text_answers ans"
  shows "sf_conditionHolds (published_condition raw) ans = conditionHolds (read_condition raw) ans"
proof -
  obtain oid operat where raw: "js_get raw ''optionId'' = JStr oid" "js_get raw ''operator'' = JStr operat"
    using assms(1) by (cases raw) (auto split: jsval.splits)
  let ?v = "js_get raw ''value''"
  let ?operand = "if ?v = JUndef then JNull else ?v"
  have own: "own_or_null (published_condition raw) ''value'' = ?operand"
    by (simp add: published_condition_def)
  have get: "js_get (published_condition raw) ''option_id'' = JStr oid" "js_get (published_condition raw) ''operator'' = JStr operat"
    "js_truthy (published_condition raw)" "js_typeof (published_condition raw) = ''object''"
    by (simp_all add: published_condition_def raw)
  have read: "optionId (read_condition raw) = oid" "operator (read_condition raw) = operat" "cond_value (read_condition raw) = ?v"
    by (simp_all add: read_condition_def raw)
  show ?thesis
  proof (cases "map_of ans oid")
    case None
    then show ?thesis
      unfolding sf_conditionHolds_def conditionHolds_def read get own
      by (simp add: answer_of_def is_supplied_def members_of_def sf_compare_eq compareNumeric_def numericValue_def get Let_def)
  next
    case (Some w)
    then obtain t where t: "map_of ans oid = Some (JStr t)" using text_answer [OF assms(2), of oid] by auto
    have same: "sameScalar (JStr t) ?operand = sameScalar (JStr t) ?v" by (simp add: absent_operand)
    have listed: "list_ex (sameScalar (JStr t)) (listOf ?operand) = list_ex (sameScalar (JStr t)) (listOf ?v)" by simp
    have nums: "compareNumeric (JStr t) ?operand f = compareNumeric (JStr t) ?v f" for f
      by (cases ?v) (simp_all add: compareNumeric_def numericValue_def)
    have literal: "(case ?operand of JStr u \<Rightarrow> P u | _ \<Rightarrow> False) = (case ?v of JStr u \<Rightarrow> P u | _ \<Rightarrow> False)" for P
      by simp
    show ?thesis
      unfolding sf_conditionHolds_def conditionHolds_def read get own
      by (simp only: Let_def t answer_of_def is_supplied_def members_of_def option.case string_or_empty.simps
          jsval.case sf_compare_eq nums literal anyInList_eq any_contains_eq sf_sameScalar_eq same listed)
        (simp add: listed get absent_operand)
  qed
qed

lemma fires_loop_eq:
  "fires_loop any ans cs = (if any then list_ex (\<lambda>c. sf_conditionHolds c ans) cs else list_all (\<lambda>c. sf_conditionHolds c ans) cs)"
  by (induction cs) (auto simp: Let_def)

lemma published_fields:
  "js_get (toPublishedRule r) ''target_id'' = JStr (sr_targetId r)"
  "js_get (toPublishedRule r) ''action'' = JStr (sr_action r)"
  "js_get (toPublishedRule r) ''match_type'' = JStr (sr_matchType r)"
  "js_get (toPublishedRule r) ''conditions'' = JArr (toPublishedConditions (sr_conditions r))"
  "js_truthy (toPublishedRule r)"
  by (simp_all add: toPublishedRule_def Let_def)

lemma rule_agrees:
  assumes "well_formed_rule r" and "text_answers ans"
  shows "sf_ruleFires (toPublishedRule r) ans = ruleFires (evaluable r) ans"
proof -
  obtain cs where cs: "toPublishedConditions (sr_conditions r) = map published_condition cs"
    "conditions (evaluable r) = map read_condition cs" "list_all well_formed_condition cs"
  proof (cases "sr_conditions r")
    case (JArr cs)
    then show thesis using that [of cs] assms(1) published_conditions [of cs]
      by (simp add: well_formed_rule_def evaluable_def)
  qed (use that [of "[]"] in \<open>simp_all add: evaluable_def\<close>)
  have "sf_conditionHolds (published_condition c) ans = conditionHolds (read_condition c) ans" if "c \<in> set cs" for c
    using condition_agrees assms(2) cs(3) that by (simp add: list_all_iff)
  then have "list_ex (\<lambda>c. sf_conditionHolds c ans) (map published_condition cs) = list_ex (\<lambda>c. conditionHolds c ans) (map read_condition cs)"
    and "list_all (\<lambda>c. sf_conditionHolds c ans) (map published_condition cs) = list_all (\<lambda>c. conditionHolds c ans) (map read_condition cs)"
    by (simp_all add: list_ex_iff list_all_iff)
  then show ?thesis
    unfolding sf_ruleFires_def ruleFires_def published_fields cs(1,2)
    by (simp add: fires_loop_eq evaluable_def Let_def)
qed

text \<open>What each program says of a target: hidden or not, and required, not required or neither.\<close>

definition sf_decides :: "sf_states \<Rightarrow> string \<Rightarrow> bool \<times> bool option" where
  "sf_decides sts t = (sf_hidden (sf_seed sts t), sf_required (sf_seed sts t))"

definition decides :: "(string, target_state) js_map \<Rightarrow> string \<Rightarrow> bool \<times> bool option" where
  "decides sts t = (hidden (seed sts t), required (seed sts t))"

lemma seed_set: "seed (map_set k s sts) t = (if t = k then s else seed sts t)"
  by (simp add: seed_def jsm.get_put)

lemma sf_seed_set: "sf_seed (map_set k s sts) t = (if t = k then s else sf_seed sts t)"
  by (simp add: sf_seed_def jsm.get_put)

lemma apply_agrees:
  assumes "well_formed_rule r" and "text_answers ans" and "sf_decides sf = decides sts"
  shows "sf_decides (sf_apply ans (toPublishedRule r) sf) = decides (apply_rule ans (evaluable r) sts)"
proof -
  have eq: "sf_hidden (sf_seed sf t) = hidden (seed sts t)" "sf_required (sf_seed sf t) = required (seed sts t)" for t
    using fun_cong [OF assms(3), of t] by (simp_all add: sf_decides_def decides_def)
  have target: "targetId (evaluable r) = sr_targetId r" "action (evaluable r) = sr_action r" by (simp_all add: evaluable_def)
  show ?thesis
    unfolding sf_decides_def decides_def sf_apply_def apply_rule_def published_fields rule_agrees [OF assms(1,2)] target
    by (rule ext) (auto simp: Let_def seed_set sf_seed_set eq published_fields(5))
qed

lemma keep_agrees: "sf_decides sf = decides sts \<Longrightarrow> sf_decides (sf_keep k sf) = decides (keep_hidden k sts)"
  by (auto simp: sf_decides_def decides_def sf_keep_def keep_hidden_def seed_set sf_seed_set fun_eq_iff)

lemma keeps_decide: "decides (fold keep_hidden h sts) t = (if t \<in> set h then (True, snd (decides sts t)) else decides sts t)"
  by (induction h arbitrary: sts) (auto simp: decides_def keep_hidden_def seed_set)

lemma resolve_agrees:
  assumes "\<forall>r\<in>set rules. well_formed_rule r" and "text_answers ans" and "set h = set h'"
  shows "sf_decides (resolvePass (map toPublishedRule rules) ans h) = decides (resolve (map evaluable rules) ans h')"
proof -
  have rules: "sf_decides (fold (sf_apply ans) (map toPublishedRule rules) sf) = decides (fold (apply_rule ans) (map evaluable rules) sts)"
    if "sf_decides sf = decides sts" for sf sts
    using assms(1) that
  proof (induction rules arbitrary: sf sts)
    case (Cons r rules)
    then show ?case using apply_agrees [OF _ assms(2)] by simp
  qed simp
  have start: "sf_decides [] = decides []" by (simp add: sf_decides_def decides_def sf_seed_def seed_def map_get_def fun_eq_iff)
  have "sf_decides (fold sf_keep h sf) = decides (fold keep_hidden h sts)" if "sf_decides sf = decides sts" for sf sts
    using that by (induction h arbitrary: sf sts) (simp_all add: keep_agrees)
  then have "sf_decides (resolvePass (map toPublishedRule rules) ans h) = decides (fold keep_hidden h (fold (apply_rule ans) (map evaluable rules) []))"
    unfolding resolvePass_def by (simp only: rules [OF start])
  then show ?thesis by (auto simp: resolve_def keeps_decide assms(3) fun_eq_iff)
qed

lemma sf_collect_set: "set (sf_collect sts h) = set h \<union> {t. \<exists>s. (t, s) \<in> set sts \<and> sf_hidden s}"
  unfolding sf_collect_def by (induction sts arbitrary: h) (auto split: prod.splits)

lemma resolvePass_distinct: "distinct (map_keys (resolvePass rules ans h))"
proof -
  have "distinct (map_keys (fold (sf_apply ans) rules sts))" if "distinct (map_keys sts)" for sts
    using that by (induction rules arbitrary: sts) (simp_all add: sf_apply_def jsm.distinct_put Let_def)
  moreover have "distinct (map_keys (fold sf_keep h sts))" if "distinct (map_keys sts)" for sts
    using that by (induction h arbitrary: sts) (simp_all add: sf_keep_def jsm.distinct_put)
  ultimately show ?thesis by (simp add: resolvePass_def map_keys_def)
qed

lemma hidden_set:
  assumes "distinct (map_keys sts)"
  shows "{t. \<exists>s. (t, s) \<in> set sts \<and> sf_hidden s} = {t. fst (sf_decides sts t)}"
proof -
  have "(t, s) \<in> set sts \<longleftrightarrow> map_of sts t = Some s" for t s using assms by (simp add: map_keys_def map_of_eq_Some_iff)
  then show ?thesis by (auto simp: sf_decides_def sf_seed_def map_get_def split: option.splits)
qed

lemma hidden_set':
  assumes "distinct (map_keys sts)"
  shows "{t. \<exists>s. (t, s) \<in> set sts \<and> hidden s} = {t. fst (decides sts t)}"
proof -
  have "(t, s) \<in> set sts \<longleftrightarrow> map_of sts t = Some s" for t s using assms by (simp add: map_keys_def map_of_eq_Some_iff)
  then show ?thesis by (auto simp: decides_def seed_def map_get_def split: option.splits)
qed

lemma clear_text: "text_answers ans \<Longrightarrow> text_answers (clear_hidden ans oU h)"
  by (simp add: clear_hidden_filter text_answers_def list_all_iff)

lemma sf_clear_eq: "sf_clear = clear_hidden"
  by (intro ext) (simp add: sf_clear_def clear_hidden_def options_of_def)

lemma sf_same_eq: "sf_sameAnswers = sameAnswers"
  by (intro ext) (simp add: sf_sameAnswers_def sameAnswers_def)

lemma passes_agree:
  assumes "\<forall>r\<in>set rules. well_formed_rule r" and "text_answers ans"
  shows "text_answers current \<Longrightarrow> set h = set h' \<Longrightarrow>
    (let sf = sf_passes_loop left pass (map toPublishedRule rules) ans oU h current;
         be = rule_passes left pass (map evaluable rules) ans oU h' current
     in sf_passes sf = passes be \<and> sf_refused sf = refused be \<and> sf_decides (sf_states sf) = decides (states be))"
proof (induction left arbitrary: pass h h' current)
  case 0
  then show ?case
    by (simp add: sf_decides_def decides_def sf_seed_def seed_def map_get_def MAX_PASSES_def MAX_RULE_PASSES_def fun_eq_iff)
next
  case (Suc left)
  let ?sf = "resolvePass (map toPublishedRule rules) current h" and ?be = "resolve (map evaluable rules) current h'"
  have states: "sf_decides ?sf = decides ?be" by (rule resolve_agrees [OF assms(1) Suc.prems])
  then have hs: "set (sf_collect ?sf h) = set (collect_hidden ?be h')"
    using Suc.prems(2) unfolding sf_collect_set set_collect_hidden hidden_set [OF resolvePass_distinct] hidden_set' [OF resolve_distinct]
    by simp
  then have nxt: "sf_clear ans oU (sf_collect ?sf h) = clear_hidden ans oU (collect_hidden ?be h')"
    unfolding sf_clear_eq by (rule clear_hidden_cong)
  show ?case
    using states Suc.IH [OF clear_text [OF assms(2)] hs]
    by (simp add: nxt sf_same_eq Let_def)
qed

text \<open>
  C3. The storefront decides as the backend does: for text answers and stored rules the schema has
  accepted, the engine in the browser, reading the published document, hides and requires exactly what
  the backend's evaluator does, in as many passes, and refuses exactly when it does.
\<close>

theorem storefront_agrees:
  assumes "\<forall>r\<in>set rules. well_formed_rule r" and "text_answers ans"
  shows "sf_passes (evaluate (map toPublishedRule rules) ans oU) = passes (evaluateRules (map evaluable rules) ans oU)
    \<and> sf_refused (evaluate (map toPublishedRule rules) ans oU) = refused (evaluateRules (map evaluable rules) ans oU)
    \<and> sf_decides (sf_states (evaluate (map toPublishedRule rules) ans oU)) = decides (states (evaluateRules (map evaluable rules) ans oU))"
  using passes_agree [OF assms assms(2), of "[]" "[]" MAX_PASSES 1 oU]
  by (simp add: evaluate_def evaluateRules_def MAX_PASSES_def MAX_RULE_PASSES_def Let_def del: sf_passes_loop.simps rule_passes.simps)

definition hide_when_set :: stored_rule where
  "hide_when_set = \<lparr>sr_id = ''r1'', sr_targetType = ''option'', sr_targetId = ''b'', sr_action = ''hide'', sr_matchType = ''all'',
     sr_conditions = JArr [JObj [(''optionId'', JStr ''a''), (''operator'', JStr ''is_not_empty'')]],
     sr_actionValue = JNull, sr_sortOrder = Fin 0\<rparr>"

lemma storefront_hides:
  "sf_decides (sf_states (evaluate [toPublishedRule hide_when_set] [(''a'', JStr ''x''), (''b'', JStr ''y'')] [(''b'', [''b''])])) ''b''
    = (True, None)"
  by code_simp

theorem storefront_agrees_witness:
  "decides (states (evaluateRules [evaluable hide_when_set] [(''a'', JStr ''x''), (''b'', JStr ''y'')] [(''b'', [''b''])])) ''b'' = (True, None)"
  using storefront_hides storefront_agrees [of "[hide_when_set]" "[(''a'', JStr ''x''), (''b'', JStr ''y'')]" "[(''b'', [''b''])]"]
  by (simp add: hide_when_set_def well_formed_rule_def text_answers_def)

end
