(* ===== verification/Rule_Tester.thy ===== *)
theory Rule_Tester
  imports Serializer Storefront_Rules
begin

text \<open>
  The rule tester of the dashboard (\<open>src/option-sets/rule-tester.service.ts\<close>): what the stored rules of
  an option set do to the answers the merchant tries, and that it is what the storefront will do with
  the published document.
\<close>

record rule_test_result =
  hiddenOptionIds :: "string list"
  hiddenGroupIds :: "string list"
  hiddenValueIds :: "string list"
  requiredOptionIds :: "string list"
  optionalOptionIds :: "string list"
  test_passes :: nat
  test_refused :: "string option"

definition containment :: "option_set_tree \<Rightarrow> (string, string list) js_map" where
  "containment tree = fold (\<lambda>g under.
     fold (\<lambda>opt under. fold (\<lambda>v. map_set (ve_id v) []) (oe_values opt) (map_set (oe_id opt) [oe_id opt] under))
       (ge_options g) (map_set (ge_id g) (map oe_id (ge_options g)) under)) (os_groups tree) []"

datatype entity_kind = GroupKind | OptionKind | ValueKind

definition kindsIn :: "option_set_tree \<Rightarrow> (string, entity_kind) js_map" where
  "kindsIn tree = fold (\<lambda>g kinds.
     fold (\<lambda>opt kinds. fold (\<lambda>v. map_set (ve_id v) ValueKind) (oe_values opt) (map_set (oe_id opt) OptionKind kinds))
       (ge_options g) (map_set (ge_id g) GroupKind kinds)) (os_groups tree) []"

text \<open>The body of the loop over the states of the outcome.\<close>

definition report_state :: "option_set_tree \<Rightarrow> string \<times> target_state \<Rightarrow> rule_test_result \<Rightarrow> rule_test_result" where
  "report_state tree e r =
     (let (t, state) = e;
          r = (if \<not> hidden state then r
            else if map_get (kindsIn tree) t = Some GroupKind then r\<lparr>hiddenGroupIds := hiddenGroupIds r @ [t]\<rparr>
            else if map_get (kindsIn tree) t = Some ValueKind then r\<lparr>hiddenValueIds := hiddenValueIds r @ [t]\<rparr>
            else r\<lparr>hiddenOptionIds := hiddenOptionIds r @ [t]\<rparr>)
      in case required state of
           None \<Rightarrow> r
         | Some needed \<Rightarrow>
            (let affected = (case map_get (containment tree) t of None \<Rightarrow> [] | Some ids \<Rightarrow> ids) in
             if needed then r\<lparr>requiredOptionIds := requiredOptionIds r @ affected\<rparr>
             else r\<lparr>optionalOptionIds := optionalOptionIds r @ affected\<rparr>))"

definition test_rules :: "option_set_tree \<Rightarrow> answers \<Rightarrow> rule_test_result" where
  "test_rules tree ans =
     (let outcome = evaluateRules (map (\<lambda>r. evaluable (re_rule r)) (filter re_isEnabled (os_rules tree))) ans (containment tree);
          empty = \<lparr>hiddenOptionIds = [], hiddenGroupIds = [], hiddenValueIds = [], requiredOptionIds = [], optionalOptionIds = [],
            test_passes = passes outcome, test_refused = refused outcome\<rparr>
      in if refused outcome \<noteq> None then empty else fold (report_state tree) (states outcome) empty)"

section \<open>The tester predicts the storefront\<close>

definition reported_hidden :: "rule_test_result \<Rightarrow> string set" where
  "reported_hidden r = set (hiddenOptionIds r) \<union> set (hiddenGroupIds r) \<union> set (hiddenValueIds r)"

lemma report_hidden:
  "reported_hidden (report_state tree (t, s) r) = reported_hidden r \<union> (if hidden s then {t} else {})"
  "test_passes (report_state tree e r) = test_passes r" "test_refused (report_state tree e r) = test_refused r"
  by (auto simp: report_state_def reported_hidden_def Let_def split: option.split prod.split)

lemma reports_hidden:
  "reported_hidden (fold (report_state tree) sts r) = reported_hidden r \<union> {t. \<exists>s. (t, s) \<in> set sts \<and> hidden s}
   \<and> test_passes (fold (report_state tree) sts r) = test_passes r \<and> test_refused (fold (report_state tree) sts r) = test_refused r"
proof (induction sts arbitrary: r)
  case (Cons e sts)
  obtain t s where "e = (t, s)" by (cases e)
  then show ?case using Cons.IH [of "report_state tree e r"] by (auto simp: report_hidden)
qed simp

lemma passes_distinct: "distinct (map_keys (states (rule_passes left pass rules ans oU h current)))"
  by (induction left arbitrary: pass h current) (simp_all add: Let_def resolve_distinct [unfolded map_keys_def] map_keys_def)

lemma refused_states: "refused (rule_passes left pass rules ans oU h current) \<noteq> None \<Longrightarrow>
    states (rule_passes left pass rules ans oU h current) = []"
  by (induction left arbitrary: pass h current) (simp_all add: Let_def split: if_splits)

text \<open>
  C19. The rule tester tells the merchant what a customer will see: for the answers of a customer, the
  groups, options and values it reports as hidden are exactly those the storefront's engine hides when it
  reads the published document, in as many passes, and it reports a refusal exactly when the storefront
  refuses.
\<close>

theorem tester_predicts_storefront:
  assumes "toPublished tree = Some doc" and "list_all (\<lambda>r. well_formed_rule (re_rule r)) (os_rules tree)" and "text_answers ans"
  shows "test_refused (test_rules tree ans) = sf_refused (evaluate (elements (js_get doc ''rules'')) ans (containment tree))
    \<and> test_passes (test_rules tree ans) = sf_passes (evaluate (elements (js_get doc ''rules'')) ans (containment tree))
    \<and> reported_hidden (test_rules tree ans)
      = {t. fst (sf_decides (sf_states (evaluate (elements (js_get doc ''rules'')) ans (containment tree))) t)}"
proof -
  let ?rules = "map re_rule (filter re_isEnabled (os_rules tree))"
  let ?be = "evaluateRules (map evaluable ?rules) ans (containment tree)"
  have doc: "elements (js_get doc ''rules'') = map toPublishedRule ?rules"
    using assms(1) by (auto simp: toPublished_def comp_def split: option.splits)
  have "\<forall>r\<in>set ?rules. well_formed_rule r" using assms(2) by (auto simp: list_all_iff)
  note agree = passes_agree [OF this assms(3) assms(3), of "[]" "[]" MAX_PASSES 1 "containment tree"]
  then have eq: "sf_passes (evaluate (map toPublishedRule ?rules) ans (containment tree)) = passes ?be"
    "sf_refused (evaluate (map toPublishedRule ?rules) ans (containment tree)) = refused ?be"
    "sf_decides (sf_states (evaluate (map toPublishedRule ?rules) ans (containment tree))) = decides (states ?be)"
    by (simp_all add: evaluate_def evaluateRules_def MAX_PASSES_def MAX_RULE_PASSES_def Let_def del: sf_passes_loop.simps rule_passes.simps)
  have "distinct (map_keys (states ?be))" by (simp only: evaluateRules_def passes_distinct)
  then have hid: "{t. \<exists>s. (t, s) \<in> set (states ?be) \<and> hidden s} = {t. fst (decides (states ?be) t)}"
    by (rule hidden_set')
  have none: "states ?be = []" if "refused ?be \<noteq> None" using that unfolding evaluateRules_def by (rule refused_states)
  have "test_rules tree ans = fold (report_state tree) (states ?be)
      \<lparr>hiddenOptionIds = [], hiddenGroupIds = [], hiddenValueIds = [], requiredOptionIds = [], optionalOptionIds = [],
        test_passes = passes ?be, test_refused = refused ?be\<rparr>"
    using none by (simp add: test_rules_def comp_def Let_def)
  then show ?thesis using reports_hidden [of tree "states ?be"] unfolding doc eq hid [symmetric]
    by (simp add: reported_hidden_def)
qed

definition tested_tree :: option_set_tree where
  "tested_tree = \<lparr>os_id = ''s1'', os_name = ''Engraving'', os_version = Fin 1, os_groups = os_groups example_tree,
     os_rules = [\<lparr>re_rule = hide_when_set\<lparr>sr_targetId := ''o2'', sr_conditions :=
       JArr [JObj [(''optionId'', JStr ''o1''), (''operator'', JStr ''is_not_empty'')]]\<rparr>,
       re_isEnabled = True, re_disabledReason = None\<rparr>]\<rparr>"

lemma tested_tree_reports: "reported_hidden (test_rules tested_tree [(''o1'', JStr ''x'')]) = {''o2''}"
  by code_simp

theorem tester_predicts_storefront_witness:
  "\<exists>doc. toPublished tested_tree = Some doc
     \<and> fst (sf_decides (sf_states (evaluate (elements (js_get doc ''rules'')) [(''o1'', JStr ''x'')] (containment tested_tree))) ''o2'')"
proof -
  obtain doc where doc: "toPublished tested_tree = Some doc"
    by (simp add: toPublished_def groupToPublished_def optionToPublished_def toPublishedOptionPricing_def tested_tree_def example_tree_def)
  have "list_all (\<lambda>r. well_formed_rule (re_rule r)) (os_rules tested_tree)" "text_answers [(''o1'', JStr ''x'')]"
    by (simp_all add: tested_tree_def hide_when_set_def well_formed_rule_def text_answers_def)
  from tester_predicts_storefront [OF doc this] doc tested_tree_reports show ?thesis by auto
qed

end
