(* ===== verification/Tree_Loader.thy ===== *)
theory Tree_Loader
  imports Serializer Tables "HOL-Library.Multiset"
begin

text \<open>
  Loading an option set (\<open>src/option-sets/serialization/option-set-tree.loader.ts\<close>): one query per level,
  the children bucketed under their parents. A table is the list of its rows in whatever order the
  storage engine keeps them; a child row carries the key of its parent and the time it was deleted,
  which is the sentinel while it is live. The theorem is that the storage order does not matter.
\<close>

section \<open>The order of the child queries\<close>

text \<open>\<open>CHILD_ORDER\<close>: by \<open>sortOrder\<close>, then by \<open>id\<close>. The column is an integer.\<close>

datatype sort_position = At (sort_order: int) (sort_id: string)

instantiation sort_position :: linorder
begin

definition less_eq_sort_position :: "sort_position \<Rightarrow> sort_position \<Rightarrow> bool" where
  "p \<le> q \<longleftrightarrow> sort_order p < sort_order q \<or> (sort_order p = sort_order q \<and> sort_id p \<le> sort_id q)"

definition less_sort_position :: "sort_position \<Rightarrow> sort_position \<Rightarrow> bool" where
  "p < q \<longleftrightarrow> sort_order p < sort_order q \<or> (sort_order p = sort_order q \<and> sort_id p < sort_id q)"

instance
  by standard (auto simp: less_eq_sort_position_def less_sort_position_def intro: sort_position.expand)

end

fun column_int :: "jsnum \<Rightarrow> int" where
  "column_int (Fin r) = \<lfloor>r\<rfloor>"
| "column_int _ = 0"

abbreviation group_position :: "group_entity \<Rightarrow> sort_position" where
  "group_position g \<equiv> At (column_int (ge_sortOrder g)) (ge_id g)"

abbreviation option_position :: "option_entity \<Rightarrow> sort_position" where
  "option_position n \<equiv> At (column_int (oe_sortOrder n)) (oe_id n)"

abbreviation item_position :: "item_entity \<Rightarrow> sort_position" where
  "item_position i \<equiv> At (column_int (ie_sortOrder i)) (ie_id i)"

abbreviation value_position :: "value_entity \<Rightarrow> sort_position" where
  "value_position v \<equiv> At (column_int (ve_sortOrder v)) (ve_id v)"

abbreviation rule_position :: "rule_entity \<Rightarrow> sort_position" where
  "rule_position r \<equiv> At (column_int (sr_sortOrder (re_rule r))) (sr_id (re_rule r))"

section \<open>The tables\<close>

definition LIVE_SENTINEL :: int where
  "LIVE_SENTINEL = 0"

record 'e child_row =
  row_parent :: string
  row_deletedAt :: int
  row_entity :: 'e

datatype set_status = DRAFT | PUBLISHED | ARCHIVED

record set_row =
  st_id :: string
  st_tenantId :: string
  st_storeId :: string
  st_name :: string
  st_status :: set_status
  st_version :: nat
  rowVersion :: nat
  publishedAt :: "int option"
  publishedBy :: "string option"
  publishedConfigVersion :: nat
  st_createdAt :: int
  st_deletedAt :: int

record authoring_db =
  db_sets :: "set_row list"
  db_groups :: "group_entity child_row list"
  db_options :: "option_entity child_row list"
  db_items :: "item_entity child_row list"
  db_values :: "value_entity child_row list"
  db_rules :: "rule_entity child_row list"

definition find_children :: "('e \<Rightarrow> sort_position) \<Rightarrow> string list \<Rightarrow> 'e child_row list \<Rightarrow> 'e child_row list" where
  "find_children pos parents rows =
     (if parents = [] then []
      else sort_key (\<lambda>r. pos (row_entity r))
        (filter (\<lambda>r. row_parent r \<in> set parents \<and> row_deletedAt r = LIVE_SENTINEL) rows))"

definition groupBy :: "'e child_row list \<Rightarrow> (string, 'e list) js_map" where
  "groupBy rows = fold (\<lambda>r buckets. map_set (row_parent r)
     ((case map_get buckets (row_parent r) of None \<Rightarrow> [] | Some bucket \<Rightarrow> bucket) @ [row_entity r]) buckets) rows []"

definition bucket_of :: "(string, 'e list) js_map \<Rightarrow> string \<Rightarrow> 'e list" where
  "bucket_of buckets k = (case map_get buckets k of None \<Rightarrow> [] | Some bucket \<Rightarrow> bucket)"

text \<open>The set itself comes from the repository, which sees the live sets of one tenant.\<close>

definition findById :: "string \<Rightarrow> set_row list \<Rightarrow> string \<Rightarrow> set_row option" where
  "findById tenantId sets i = find_row (\<lambda>s. st_id s = i \<and> st_deletedAt s = LIVE_SENTINEL \<and> st_tenantId s = tenantId) sets"

definition load :: "string \<Rightarrow> authoring_db \<Rightarrow> string \<Rightarrow> (set_row \<times> option_set_tree) option" where
  "load tenantId db optionSetId =
     (case findById tenantId (db_sets db) optionSetId of
        None \<Rightarrow> None
      | Some s \<Rightarrow>
         (let groups = map row_entity (find_children group_position [st_id s] (db_groups db));
              groupIds = map ge_id groups;
              options = find_children option_position groupIds (db_options db);
              items = find_children item_position groupIds (db_items db);
              vals = find_children value_position (map (\<lambda>r. oe_id (row_entity r)) options) (db_values db);
              rules = find_children rule_position [st_id s] (db_rules db);
              optionsByGroup = groupBy options;
              itemsByGroup = groupBy items;
              valuesByOption = groupBy vals
          in Some (s, \<lparr>os_id = st_id s, os_name = st_name s, os_version = Fin (of_nat (st_version s)),
               os_groups = map (\<lambda>g. g\<lparr>ge_items := bucket_of itemsByGroup (ge_id g),
                  ge_options := map (\<lambda>n. n\<lparr>oe_values := bucket_of valuesByOption (oe_id n)\<rparr>)
                    (bucket_of optionsByGroup (ge_id g))\<rparr>) groups,
               os_rules = map row_entity rules\<rparr>)))"

section \<open>The storage order does not matter\<close>

definition valid_children :: "('e \<Rightarrow> sort_position) \<Rightarrow> 'e child_row list \<Rightarrow> bool" where
  "valid_children pos rows \<longleftrightarrow> distinct (map (\<lambda>r. sort_id (pos (row_entity r))) rows)"

definition valid_authoring :: "authoring_db \<Rightarrow> bool" where
  "valid_authoring db \<longleftrightarrow> distinct (map st_id (db_sets db)) \<and> valid_children group_position (db_groups db)
     \<and> valid_children option_position (db_options db) \<and> valid_children item_position (db_items db)
     \<and> valid_children value_position (db_values db) \<and> valid_children rule_position (db_rules db)"

definition same_rows :: "authoring_db \<Rightarrow> authoring_db \<Rightarrow> bool" where
  "same_rows db db' \<longleftrightarrow> mset (db_sets db') = mset (db_sets db) \<and> mset (db_groups db') = mset (db_groups db)
     \<and> mset (db_options db') = mset (db_options db) \<and> mset (db_items db') = mset (db_items db)
     \<and> mset (db_values db') = mset (db_values db) \<and> mset (db_rules db') = mset (db_rules db)"

lemma find_children_order:
  assumes "valid_children pos rows" and "mset rows' = mset rows"
  shows "find_children pos parents rows' = find_children pos parents rows"
proof -
  let ?P = "\<lambda>r. row_parent r \<in> set parents \<and> row_deletedAt r = LIVE_SENTINEL"
  have "inj_on (\<lambda>r. sort_id (pos (row_entity r))) (set rows)"
    using assms(1) by (simp add: valid_children_def distinct_map)
  then have "inj_on (\<lambda>r. pos (row_entity r)) (set (filter ?P rows'))"
    using mset_eq_setD [OF assms(2)] by (auto simp: inj_on_def)
  then have "sort_key (\<lambda>r. pos (row_entity r)) (filter ?P rows') = sort_key (\<lambda>r. pos (row_entity r)) (filter ?P rows)"
    using assms(2) by (intro sort_key_eq_sort_key) simp_all
  then show ?thesis by (simp add: find_children_def)
qed

lemma find_row_order:
  assumes "distinct (map key rows)" and "mset rows' = mset rows" and "\<And>r. P r \<Longrightarrow> key r = k"
  shows "find_row P rows' = find_row P rows"
proof (cases "find_row P rows")
  case None
  then have "find_row P rows' = None" using mset_eq_setD [OF assms(2)] by (simp add: find_row_def find_None_all)
  then show ?thesis using None by simp
next
  case (Some r)
  then have r: "r \<in> set rows" "P r" by (auto simp: find_row_def dest: find_Some_in)
  then have "find_row P rows' \<noteq> None" using mset_eq_setD [OF assms(2)] by (auto simp: find_row_def find_None_all)
  then obtain r' where r': "find_row P rows' = Some r'" "r' \<in> set rows'" "P r'"
    by (auto simp: find_row_def dest: find_Some_in)
  then have "r' = r" using r assms(1) assms(3) mset_eq_setD [OF assms(2)]
    by (metis distinct_map inj_onD)
  then show ?thesis using Some r' by simp
qed

text \<open>
  Loading an option set does not depend on the order the storage engine returns rows in: two databases
  with the same rows, ids being unique, load the same tree, so two builds of unchanged data agree.
\<close>

theorem load_deterministic:
  assumes "valid_authoring db" and "same_rows db db'"
  shows "load tenantId db' i = load tenantId db i"
proof -
  have sets: "findById tenantId (db_sets db') i = findById tenantId (db_sets db) i"
    unfolding findById_def using assms by (intro find_row_order [where key = st_id])
      (auto simp: valid_authoring_def same_rows_def)
  have "find_children group_position p (db_groups db') = find_children group_position p (db_groups db)"
    "find_children option_position p (db_options db') = find_children option_position p (db_options db)"
    "find_children item_position p (db_items db') = find_children item_position p (db_items db)"
    "find_children value_position p (db_values db') = find_children value_position p (db_values db)"
    "find_children rule_position p (db_rules db') = find_children rule_position p (db_rules db)" for p
    using assms by (auto simp: valid_authoring_def same_rows_def intro: find_children_order)
  then show ?thesis by (simp add: load_def sets Let_def split: option.split)
qed

text \<open>Two groups that share a sort order, stored either way around.\<close>

definition stored :: "group_entity list \<Rightarrow> authoring_db" where
  "stored gs = \<lparr>db_sets = [\<lparr>st_id = ''s1'', st_tenantId = ''t1'', st_storeId = ''w1'', st_name = ''Engraving'', st_status = DRAFT,
       st_version = 0, rowVersion = 0, publishedAt = None, publishedBy = None, publishedConfigVersion = 0,
       st_createdAt = 0, st_deletedAt = LIVE_SENTINEL\<rparr>],
     db_groups = map (\<lambda>g. \<lparr>row_parent = ''s1'', row_deletedAt = LIVE_SENTINEL, row_entity = g\<rparr>) gs,
     db_options = [], db_items = [], db_values = [], db_rules = []\<rparr>"

definition bare_group :: "string \<Rightarrow> group_entity" where
  "bare_group i = \<lparr>ge_id = i, ge_label = i, ge_description = None, displayType = ''section'', ge_sortOrder = Fin 0,
     isCollapsible = False, ge_isEnabled = True, ge_items = [], ge_options = []\<rparr>"

theorem load_deterministic_witness:
  "load ''t1'' (stored [bare_group ''b'', bare_group ''a'']) ''s1'' = load ''t1'' (stored [bare_group ''a'', bare_group ''b'']) ''s1''
   \<and> map ge_id (os_groups (snd (the (load ''t1'' (stored [bare_group ''b'', bare_group ''a'']) ''s1'')))) = [''a'', ''b'']"
proof
  have "valid_authoring (stored [bare_group ''a'', bare_group ''b''])"
    "same_rows (stored [bare_group ''a'', bare_group ''b'']) (stored [bare_group ''b'', bare_group ''a''])"
    by (simp_all add: valid_authoring_def valid_children_def same_rows_def stored_def bare_group_def add_mset_commute)
  then show "load ''t1'' (stored [bare_group ''b'', bare_group ''a'']) ''s1'' = load ''t1'' (stored [bare_group ''a'', bare_group ''b'']) ''s1''"
    by (rule load_deterministic)
  show "map ge_id (os_groups (snd (the (load ''t1'' (stored [bare_group ''b'', bare_group ''a'']) ''s1'')))) = [''a'', ''b'']"
    by code_simp
qed

end
