(* ===== verification/Platform.thy ===== *)
theory Platform
  imports Tree_Loader
begin

text \<open>
  The tables behind publishing and the plan, and the content revision of a store
  (\<open>src/common/config-version.service.ts\<close>). A call that throws returns \<open>Inl\<close> of the error and, being
  inside a transaction, no new state.
\<close>

section \<open>Tables\<close>

record version_row =
  vr_setId :: string
  vr_version :: nat
  vr_snapshot :: jsval
  vr_publishedBy :: "string option"
  vr_publishedAt :: int
  vr_note :: "string option"

record assignment_row =
  as_id :: string
  as_setId :: string
  as_mode :: string
  as_targetType :: "string option"
  as_targetRef :: "string option"
  as_priority :: int
  as_deletedAt :: int

record store_row =
  store_id :: string
  store_tenantId :: string
  configVersion :: nat
  pushUrl :: "string option"

record push_row =
  dl_storeId :: string
  dl_configVersion :: nat

record audit_row =
  au_action :: string
  au_resourceId :: string
  au_fromVersion :: "nat option"
  au_toVersion :: "nat option"
  au_restoredFrom :: "nat option"
  au_configVersion :: "nat option"
  au_warnings :: "(string \<times> string) list"

record plan_row =
  plan_id :: string
  plan_code :: string
  plan_name :: string
  plan_limits :: jsval
  plan_features :: jsval
  plan_sortOrder :: int
  plan_isPublic :: bool

record member_row =
  mem_tenantId :: string
  mem_revokedAt :: "int option"

record invitation_row =
  invite_tenantId :: string
  invite_acceptedAt :: "int option"
  invite_revokedAt :: "int option"
  invite_expiresAt :: int

record usage_row =
  us_tenantId :: string
  us_metric :: string
  us_value :: nat
  us_periodStart :: int

record product_row =
  prod_storeId :: string
  externalId :: string
  prod_name :: string
  prod_status :: string

record platform =
  pf_authoring :: authoring_db
  pf_versions :: "version_row list"
  pf_assignments :: "assignment_row list"
  pf_stores :: "store_row list"
  pf_pushes :: "push_row list"
  pf_audit :: "audit_row list"
  pf_plans :: "plan_row list"
  pf_tenantPlans :: "(string \<times> string) list"
  pf_members :: "member_row list"
  pf_invitations :: "invitation_row list"
  pf_usage :: "usage_row list"
  pf_products :: "product_row list"

abbreviation pf_sets :: "platform \<Rightarrow> set_row list" where
  "pf_sets db \<equiv> db_sets (pf_authoring db)"

definition update_sets :: "(set_row list \<Rightarrow> set_row list) \<Rightarrow> platform \<Rightarrow> platform" where
  "update_sets f db = db\<lparr>pf_authoring := (pf_authoring db)\<lparr>db_sets := f (pf_sets db)\<rparr>\<rparr>"

definition record_audit :: "audit_row \<Rightarrow> platform \<Rightarrow> platform" where
  "record_audit a db = db\<lparr>pf_audit := pf_audit db @ [a]\<rparr>"

datatype api_error =
    NotFound string
  | VersionMismatch nat
  | Validation "finding list"
  | PlanLimit string string "jsval" nat string
  | Refused string
  | Crash string

section \<open>The content revision of a store\<close>

definition enqueuePush :: "store_row option \<Rightarrow> nat \<Rightarrow> platform \<Rightarrow> platform" where
  "enqueuePush store v db = (case store of
       None \<Rightarrow> db
     | Some s \<Rightarrow> (case pushUrl s of
         None \<Rightarrow> db
       | Some url \<Rightarrow> if url = [] then db
           else db\<lparr>pf_pushes := pf_pushes db @ [\<lparr>dl_storeId = store_id s, dl_configVersion = v\<rparr>]\<rparr>))"

definition bump :: "string \<Rightarrow> platform \<Rightarrow> api_error + (nat \<times> platform)" where
  "bump storeId db =
     (if \<not> list_ex (\<lambda>s. store_id s = storeId) (pf_stores db)
      then Inl (Crash (''Cannot advance config_version: no store '' @ quoted storeId
        @ ''. The change that prompted this bump has been rolled back.''))
      else let stores = update_rows (\<lambda>s. store_id s = storeId) (\<lambda>s. s\<lparr>configVersion := configVersion s + 1\<rparr>) (pf_stores db);
               store = find_row (\<lambda>s. store_id s = storeId) stores;
               v = (case store of None \<Rightarrow> 0 | Some s \<Rightarrow> configVersion s)
           in Inr (v, enqueuePush store v (db\<lparr>pf_stores := stores\<rparr>)))"

definition bumpIfVisible :: "string \<Rightarrow> bool \<Rightarrow> platform \<Rightarrow> api_error + (nat option \<times> platform)" where
  "bumpIfVisible storeId wasVisible db =
     (if \<not> wasVisible then Inr (None, db)
      else bind_result (bump storeId db) (\<lambda>(v, db'). Inr (Some v, db')))"

definition store_version :: "platform \<Rightarrow> string \<Rightarrow> nat option" where
  "store_version db i = map_option configVersion (find_row (\<lambda>s. store_id s = i) (pf_stores db))"

lemma enqueuePush_same [simp]:
  "pf_stores (enqueuePush s v db) = pf_stores db" "pf_authoring (enqueuePush s v db) = pf_authoring db"
  "pf_versions (enqueuePush s v db) = pf_versions db" "pf_assignments (enqueuePush s v db) = pf_assignments db"
  "pf_plans (enqueuePush s v db) = pf_plans db" "pf_tenantPlans (enqueuePush s v db) = pf_tenantPlans db"
  "pf_audit (enqueuePush s v db) = pf_audit db"
  by (simp_all add: enqueuePush_def split: option.split)

lemma find_update_stores:
  "find_row (\<lambda>s. store_id s = i) (update_rows (\<lambda>s. store_id s = j) (\<lambda>s. s\<lparr>configVersion := f s\<rparr>) rows)
    = map_option (\<lambda>s. if i = j then s\<lparr>configVersion := f s\<rparr> else s) (find_row (\<lambda>s. store_id s = i) rows)"
  by (induction rows) (auto simp: find_row_def update_rows_def)

lemma update_stores_same:
  "map store_id (update_rows P (\<lambda>s. s\<lparr>configVersion := f s\<rparr>) rows) = map store_id rows"
  "map store_tenantId (update_rows P (\<lambda>s. s\<lparr>configVersion := f s\<rparr>) rows) = map store_tenantId rows"
  by (simp_all add: update_rows_def)

lemma bump_Inr:
  assumes "bump i db = Inr (v, db')"
  shows "store_version db' j = (if j = i then Some v else store_version db j)" and "store_version db i = Some (v - 1)" and "0 < v"
    and "pf_authoring db' = pf_authoring db" and "pf_versions db' = pf_versions db" and "pf_assignments db' = pf_assignments db"
    and "map store_id (pf_stores db') = map store_id (pf_stores db)" and "map store_tenantId (pf_stores db') = map store_tenantId (pf_stores db)"
proof -
  have ex: "list_ex (\<lambda>s. store_id s = i) (pf_stores db)" using assms by (simp add: bump_def split: if_splits)
  then obtain s where s: "find_row (\<lambda>s. store_id s = i) (pf_stores db) = Some s"
    by (cases "find_row (\<lambda>s. store_id s = i) (pf_stores db)") (auto simp: list_ex_iff find_row_def find_None_all)
  show "store_version db' j = (if j = i then Some v else store_version db j)" "store_version db i = Some (v - 1)" "0 < v"
    "pf_authoring db' = pf_authoring db" "pf_versions db' = pf_versions db" "pf_assignments db' = pf_assignments db"
    "map store_id (pf_stores db') = map store_id (pf_stores db)" "map store_tenantId (pf_stores db') = map store_tenantId (pf_stores db)"
    using assms ex s by (auto simp: bump_def Let_def store_version_def find_update_stores update_stores_same
        option.map_ident)
qed

end
