(* ===== verification/Publish_Service.thy ===== *)
theory Publish_Service
  imports Platform
begin

text \<open>
  Publishing and rolling back an option set (\<open>src/option-sets/publishing/publish.service.ts\<close>). A publish
  reads and serialises the draft outside the transaction (\<open>prepare\<close>) and writes the version inside it
  (\<open>write_version\<close>); the two are separate operations here because another request may run in between.
\<close>

section \<open>The checks' view of a loaded set\<close>

definition check_rule :: "rule_entity \<Rightarrow> publish_rule" where
  "check_rule r = \<lparr>pr_id = sr_id (re_rule r), pr_targetType = sr_targetType (re_rule r), pr_targetId = sr_targetId (re_rule r),
     pr_isEnabled = re_isEnabled r, pr_disabledReason = re_disabledReason r, pr_conditions = sr_conditions (re_rule r),
     pr_matchType = sr_matchType (re_rule r), pr_action = sr_action (re_rule r), pr_actionValue = sr_actionValue (re_rule r)\<rparr>"

definition publish_context_of :: "string \<Rightarrow> platform \<Rightarrow> string \<Rightarrow> (set_row \<times> option_set_tree \<times> publish_context) option" where
  "publish_context_of tenantId db optionSetId =
     (case load tenantId (pf_authoring db) optionSetId of
        None \<Rightarrow> None
      | Some (s, tree) \<Rightarrow> Some (s, tree,
          \<lparr>ctx_tree = check_tree tree,
           ctx_rules = map (\<lambda>r. check_rule (row_entity r)) (filter (\<lambda>r. row_parent r = optionSetId
             \<and> row_deletedAt r = LIVE_SENTINEL) (db_rules (pf_authoring db))),
           ctx_assignments = map as_id (filter (\<lambda>a. as_setId a = optionSetId \<and> as_deletedAt a = LIVE_SENTINEL)
             (pf_assignments db))\<rparr>))"

definition assertVersionMatches :: "nat \<Rightarrow> nat option \<Rightarrow> api_error + unit" where
  "assertVersionMatches current expected = (case expected of
       Some e \<Rightarrow> if e \<noteq> current then Inl (VersionMismatch current) else Inr ()
     | None \<Rightarrow> Inr ())"

text \<open>\<open>check\<close>, the dry run.\<close>

definition check_set :: "(string \<Rightarrow> bool) \<Rightarrow> string \<Rightarrow> platform \<Rightarrow> string \<Rightarrow> api_error + finding list" where
  "check_set regexp_ok tenantId db optionSetId =
     (case publish_context_of tenantId db optionSetId of
        None \<Rightarrow> Inl (NotFound ''Option set'')
      | Some (_, _, ctx) \<Rightarrow> Inr (runPublishChecks ctx (PUBLISH_VALIDATORS regexp_ok)))"

section \<open>Publishing\<close>

text \<open>\<open>{ ...object, [key]: v }\<close>\<close>

fun js_with :: "string \<Rightarrow> jsval \<Rightarrow> jsval \<Rightarrow> jsval" where
  "js_with k v (JObj kvs) = JObj (map_set k v kvs)"
| "js_with k v _ = JObj [(k, v)]"

record prepared =
  prep_version :: nat
  prep_snapshot :: jsval
  prep_findings :: "finding list"

definition prepare :: "(string \<Rightarrow> bool) \<Rightarrow> string \<Rightarrow> platform \<Rightarrow> string \<Rightarrow> nat option \<Rightarrow> api_error + prepared" where
  "prepare regexp_ok tenantId db optionSetId expectedRowVersion =
     (case publish_context_of tenantId db optionSetId of
        None \<Rightarrow> Inl (NotFound ''Option set'')
      | Some (s, tree, ctx) \<Rightarrow>
         bind_result (assertVersionMatches (rowVersion s) expectedRowVersion) (\<lambda>_.
           let findings = runPublishChecks ctx (PUBLISH_VALIDATORS regexp_ok) in
           if hasBlockers findings then Inl (Validation (filter (\<lambda>f. severity f = BLOCKER) findings))
           else case toPublished tree of
               None \<Rightarrow> Inl (Crash ''TypeError'')
             | Some snapshot \<Rightarrow> Inr \<lparr>prep_version = st_version s, prep_snapshot = snapshot, prep_findings = findings\<rparr>))"

definition lockSet :: "platform \<Rightarrow> string \<Rightarrow> set_row option" where
  "lockSet db optionSetId = find_row (\<lambda>s. st_id s = optionSetId \<and> st_deletedAt s = LIVE_SENTINEL) (pf_sets db)"

definition published_as :: "nat \<Rightarrow> int \<Rightarrow> string option \<Rightarrow> nat \<Rightarrow> set_row \<Rightarrow> set_row" where
  "published_as version now user config s = s\<lparr>st_status := PUBLISHED, st_version := version, publishedAt := Some now,
     publishedBy := user, publishedConfigVersion := config, rowVersion := rowVersion s + 1\<rparr>"

text \<open>The transaction of \<open>publish\<close> and of \<open>rollback\<close>: the version row, the revision of the store, the set.\<close>

definition write_version :: "int \<Rightarrow> string option \<Rightarrow> string \<Rightarrow> jsval \<Rightarrow> string option \<Rightarrow> platform
    \<Rightarrow> api_error + (nat \<times> nat \<times> platform)" where
  "write_version now user optionSetId snapshot note db =
     (case lockSet db optionSetId of
        None \<Rightarrow> Inl (NotFound ''Option set'')
      | Some s \<Rightarrow>
         (let version = st_version s + 1;
              row = \<lparr>vr_setId = optionSetId, vr_version = version,
                vr_snapshot = js_with ''version'' (JNum (Fin (of_nat version))) snapshot,
                vr_publishedBy = user, vr_publishedAt = now, vr_note = note\<rparr>
          in bind_result (bump (st_storeId s) (db\<lparr>pf_versions := pf_versions db @ [row]\<rparr>)) (\<lambda>(config, db').
               Inr (version, config,
                 update_sets (update_rows (\<lambda>s. st_id s = optionSetId) (published_as version now user config)) db'))))"

record publish_result =
  res_version :: nat
  res_publishedAt :: int
  res_configVersion :: nat
  res_warnings :: "finding list"

definition trimmed_note :: "string option \<Rightarrow> string option" where
  "trimmed_note note = (case note of None \<Rightarrow> None | Some n \<Rightarrow> if js_trim n = [] then None else Some (js_trim n))"

definition publish_commit :: "int \<Rightarrow> string option \<Rightarrow> string \<Rightarrow> prepared \<Rightarrow> string option \<Rightarrow> platform
    \<Rightarrow> api_error + (publish_result \<times> platform)" where
  "publish_commit now user optionSetId p note db =
     bind_result (write_version now user optionSetId (prep_snapshot p) (trimmed_note note) db) (\<lambda>(version, config, db').
       Inr (\<lparr>res_version = version, res_publishedAt = now, res_configVersion = config, res_warnings = prep_findings p\<rparr>,
         record_audit \<lparr>au_action = ''option_set.published'', au_resourceId = optionSetId, au_fromVersion = Some (prep_version p),
           au_toVersion = Some version, au_restoredFrom = None, au_configVersion = Some config,
           au_warnings = map (\<lambda>f. (f_code f, subject f)) (prep_findings p)\<rparr> db'))"

definition publish :: "(string \<Rightarrow> bool) \<Rightarrow> int \<Rightarrow> string \<Rightarrow> string option \<Rightarrow> string \<Rightarrow> string option \<Rightarrow> nat option \<Rightarrow> platform
    \<Rightarrow> api_error + (publish_result \<times> platform)" where
  "publish regexp_ok now tenantId user optionSetId note expectedRowVersion db =
     bind_result (prepare regexp_ok tenantId db optionSetId expectedRowVersion)
       (\<lambda>p. publish_commit now user optionSetId p note db)"

section \<open>History and rollback\<close>

record version_summary =
  sum_version :: nat
  sum_publishedAt :: int
  sum_publishedBy :: "string option"
  sum_note :: "string option"

definition versions :: "string \<Rightarrow> platform \<Rightarrow> string \<Rightarrow> api_error + version_summary list" where
  "versions tenantId db optionSetId =
     (case load tenantId (pf_authoring db) optionSetId of
        None \<Rightarrow> Inl (NotFound ''Option set'')
      | Some _ \<Rightarrow> Inr (map (\<lambda>v. \<lparr>sum_version = vr_version v, sum_publishedAt = vr_publishedAt v,
            sum_publishedBy = vr_publishedBy v, sum_note = vr_note v\<rparr>)
          (rev (sort_key vr_version (filter (\<lambda>v. vr_setId v = optionSetId) (pf_versions db))))))"

definition version_snapshot :: "string \<Rightarrow> platform \<Rightarrow> string \<Rightarrow> nat \<Rightarrow> api_error + jsval" where
  "version_snapshot tenantId db optionSetId v =
     (case load tenantId (pf_authoring db) optionSetId of
        None \<Rightarrow> Inl (NotFound ''Option set'')
      | Some _ \<Rightarrow> (case find_row (\<lambda>r. vr_setId r = optionSetId \<and> vr_version r = v) (pf_versions db) of
          None \<Rightarrow> Inl (NotFound ''Version'')
        | Some row \<Rightarrow> Inr (vr_snapshot row)))"

definition rollback_note :: "nat \<Rightarrow> string option \<Rightarrow> string" where
  "rollback_note v note = (case trimmed_note note of Some n \<Rightarrow> n
     | None \<Rightarrow> ''Rolled back to version '' @ show_nat (int v) @ ''.'')"

definition rollback :: "int \<Rightarrow> string \<Rightarrow> string option \<Rightarrow> string \<Rightarrow> nat \<Rightarrow> string option \<Rightarrow> nat option \<Rightarrow> platform
    \<Rightarrow> api_error + (publish_result \<times> platform)" where
  "rollback now tenantId user optionSetId v note expectedRowVersion db =
     (case load tenantId (pf_authoring db) optionSetId of
        None \<Rightarrow> Inl (NotFound ''Option set'')
      | Some (s, _) \<Rightarrow>
         bind_result (assertVersionMatches (rowVersion s) expectedRowVersion) (\<lambda>_.
         bind_result (version_snapshot tenantId db optionSetId v) (\<lambda>snapshot.
         bind_result (write_version now user optionSetId snapshot
             (Some (rollback_note v note)) db) (\<lambda>(version, config, db').
           Inr (\<lparr>res_version = version, res_publishedAt = now, res_configVersion = config, res_warnings = []\<rparr>,
             record_audit \<lparr>au_action = ''option_set.rolled_back'', au_resourceId = optionSetId, au_fromVersion = None,
               au_toVersion = Some version, au_restoredFrom = Some v, au_configVersion = Some config, au_warnings = []\<rparr> db')))))"

end
