(* ===== verification/Config_Document.thy ===== *)
theory Config_Document
  imports Publish_Service Subscriptions
begin

text \<open>
  What a storefront receives: the document of a store
  (\<open>src/option-sets/serialization/config-document.ts\<close>), assembled from the published snapshots, the live
  assignments and the state of the plan, and its conditional delivery (\<open>src/config-delivery/config-etag.ts\<close>,
  \<open>src/config-delivery/config-delivery.service.ts\<close>).
\<close>

definition CONFIG_SCHEMA_VERSION :: nat where
  "CONFIG_SCHEMA_VERSION = 1"

section \<open>The option sets\<close>

definition js_nullish :: "jsval \<Rightarrow> jsval \<Rightarrow> jsval" where
  "js_nullish v alt = (if v = JUndef \<or> v = JNull then alt else v)"

definition normaliseSnapshot :: "jsval \<Rightarrow> jsval" where
  "normaliseSnapshot snapshot = js_with ''groups'' (js_nullish (js_get snapshot ''groups'') (JArr []))
     (js_with ''rules'' (js_nullish (js_get snapshot ''rules'') (JArr [])) (js_with ''assignments'' (JArr []) snapshot))"

definition published_assignment :: "assignment_row \<Rightarrow> jsval" where
  "published_assignment a = JObj [(''mode'', JStr (as_mode a)), (''target_type'', nullable (as_targetType a)),
     (''target_ref'', nullable (as_targetRef a)), (''priority'', JNum (Fin (of_int (as_priority a))))]"

definition version_key :: "string \<Rightarrow> nat \<Rightarrow> string" where
  "version_key setId v = setId @ '':'' @ show_nat (int v)"

definition published_sets :: "string \<Rightarrow> set_row list \<Rightarrow> set_row list" where
  "published_sets storeId sets = sort_key (\<lambda>s. At (st_createdAt s) (st_id s))
     (filter (\<lambda>s. st_storeId s = storeId \<and> st_status s = PUBLISHED \<and> st_deletedAt s = LIVE_SENTINEL) sets)"

definition option_sets :: "string \<Rightarrow> platform \<Rightarrow> jsval list" where
  "option_sets storeId db =
     (let sets = published_sets storeId (pf_sets db);
          ids = map st_id sets;
          bySetAndVersion = fold (\<lambda>v. map_set (version_key (vr_setId v) (vr_version v)) v)
            (filter (\<lambda>v. vr_setId v \<in> set ids) (pf_versions db)) [];
          assignments = sort_key (\<lambda>a. At (as_priority a) (as_id a))
            (filter (\<lambda>a. as_setId a \<in> set ids \<and> as_deletedAt a = LIVE_SENTINEL) (pf_assignments db));
          bySet = fold (\<lambda>a m. map_set (as_setId a) ((case map_get m (as_setId a) of None \<Rightarrow> [] | Some forSet \<Rightarrow> forSet)
            @ [published_assignment a]) m) assignments []
      in flat_map (\<lambda>s. case map_get bySetAndVersion (version_key (st_id s) (st_version s)) of
           None \<Rightarrow> []
         | Some v \<Rightarrow> [js_with ''assignments'' (JArr (case map_get bySet (st_id s) of None \<Rightarrow> [] | Some forSet \<Rightarrow> forSet))
             (normaliseSnapshot (vr_snapshot v))]) sets)"

section \<open>The state of the plan\<close>

record plan_state =
  ps_code :: string
  ps_name :: string
  read_only :: bool
  grace_ends_at :: "string option"

text \<open>\<open>tenants t JOIN plans p ON p.id = t.planId\<close>\<close>

definition tenant_plan :: "platform \<Rightarrow> string \<Rightarrow> plan_row option" where
  "tenant_plan db tenantId = (case List.find (\<lambda>(t, _). t = tenantId) (pf_tenantPlans db) of
       None \<Rightarrow> None
     | Some (_, p) \<Rightarrow> find_row (\<lambda>r. plan_id r = p) (pf_plans db))"

definition planState :: "int \<Rightarrow> platform \<Rightarrow> billing_db \<Rightarrow> string \<Rightarrow> plan_state" where
  "planState now db billing tenantId =
     (case tenant_plan db tenantId of
        None \<Rightarrow> \<lparr>ps_code = ''unknown'', ps_name = ''Unknown'', read_only = False, grace_ends_at = None\<rparr>
      | Some p \<Rightarrow>
         (let grace = (case find_row (\<lambda>s. sub_tenantId s = tenantId) (db_subscriptions billing) of
                None \<Rightarrow> None | Some s \<Rightarrow> graceEndsAt s)
          in \<lparr>ps_code = plan_code p, ps_name = plan_name p,
               read_only = (case grace of None \<Rightarrow> False | Some e \<Rightarrow> e \<le> now),
               grace_ends_at = map_option iso_of_ms grace\<rparr>))"

section \<open>The document\<close>

record config_document =
  schema_version :: nat
  config_version :: nat
  cd_store_id :: string
  generated_at :: string
  cd_option_sets :: "jsval list"
  plan :: plan_state

definition build :: "int \<Rightarrow> string option \<Rightarrow> platform \<Rightarrow> billing_db \<Rightarrow> string \<Rightarrow> api_error + config_document" where
  "build now tenantId db billing storeId =
     (case find_row (\<lambda>s. store_id s = storeId \<and> (case tenantId of None \<Rightarrow> True | Some t \<Rightarrow> store_tenantId s = t)) (pf_stores db) of
        None \<Rightarrow> Inl (NotFound ''Store'')
      | Some store \<Rightarrow> Inr \<lparr>schema_version = CONFIG_SCHEMA_VERSION, config_version = configVersion store,
          cd_store_id = store_id store, generated_at = iso_of_ms now, cd_option_sets = option_sets storeId db,
          plan = planState now db billing (store_tenantId store)\<rparr>)"

section \<open>Conditional delivery\<close>

definition configEtag :: "string \<Rightarrow> nat \<Rightarrow> string" where
  "configEtag storeId v = ''W/'' @ quoted (storeId @ ''-'' @ show_nat (int v))"

text \<open>\<open>value.trim().replace(/^W\\//, '')\<close>\<close>

definition normalise_etag :: "string \<Rightarrow> string" where
  "normalise_etag v = (let t = js_trim v in if take 2 t = ''W/'' then drop 2 t else t)"

definition matchesEtag :: "string option \<Rightarrow> string \<Rightarrow> bool" where
  "matchesEtag header current = (case header of
       None \<Rightarrow> False
     | Some h \<Rightarrow> h \<noteq> [] \<and> list_ex (\<lambda>candidate. candidate = ''*'' \<or> candidate = normalise_etag current)
         (map normalise_etag (split_on (CHR '','') h)))"

datatype config_delivery = NotModified string | Document string config_document

definition currentVersion :: "platform \<Rightarrow> string \<Rightarrow> api_error + nat" where
  "currentVersion db storeId = (case find_row (\<lambda>s. store_id s = storeId) (pf_stores db) of
       None \<Rightarrow> Inl (NotFound ''Store'')
     | Some s \<Rightarrow> Inr (configVersion s))"

text \<open>\<open>tenantId\<close> is the tenant of the request: the guard of the store realm sets that of the store.\<close>

definition deliver :: "int \<Rightarrow> string option \<Rightarrow> platform \<Rightarrow> billing_db \<Rightarrow> string \<Rightarrow> string option \<Rightarrow> api_error + config_delivery" where
  "deliver now tenantId db billing storeId ifNoneMatch =
     bind_result (currentVersion db storeId) (\<lambda>v.
       let etag = configEtag storeId v in
       if matchesEtag ifNoneMatch etag then Inr (NotModified etag)
       else bind_result (build now tenantId db billing storeId) (\<lambda>document.
         Inr (Document (configEtag storeId (config_version document)) document)))"

end
