(* ===== verification/Plan_Limits.thy ===== *)
theory Plan_Limits
  imports Config_Document
begin

text \<open>
  The plan's ceilings: what a tenant uses (\<open>src/usage/usage-counter.service.ts\<close>), the guard that refuses
  one more and the report the dashboard shows (\<open>src/usage/plan-limit.guard.ts\<close>), and the guard of the
  plan's features (\<open>src/usage/plan-feature.guard.ts\<close>). A limit is a number, null (unlimited) or absent
  (unmetered), as the interface declares; \<open>json_parse\<close> is \<open>JSON.parse\<close> for a column that arrives as text.
\<close>

section \<open>Counting\<close>

datatype countable_metric = OptionSets | Stores | TeamSeats | ProductsAssigned | FileStorageMb

definition COUNTABLE_METRICS :: "countable_metric list" where
  "COUNTABLE_METRICS = [OptionSets, Stores, TeamSeats, ProductsAssigned, FileStorageMb]"

fun metric_name :: "countable_metric \<Rightarrow> string" where
  "metric_name OptionSets = ''option_sets''"
| "metric_name Stores = ''stores''"
| "metric_name TeamSeats = ''team_seats''"
| "metric_name ProductsAssigned = ''products_assigned''"
| "metric_name FileStorageMb = ''file_storage_mb''"

fun METRIC_LABEL :: "countable_metric \<Rightarrow> string" where
  "METRIC_LABEL OptionSets = ''option sets''"
| "METRIC_LABEL Stores = ''stores''"
| "METRIC_LABEL TeamSeats = ''team seats''"
| "METRIC_LABEL ProductsAssigned = ''product assignments''"
| "METRIC_LABEL FileStorageMb = ''MB of storage''"

definition count_rows :: "('a \<Rightarrow> bool) \<Rightarrow> 'a list \<Rightarrow> nat" where
  "count_rows P rows = length (filter P rows)"

fun usage_count :: "int \<Rightarrow> platform \<Rightarrow> string \<Rightarrow> countable_metric \<Rightarrow> nat" where
  "usage_count now db t OptionSets =
     count_rows (\<lambda>s. st_tenantId s = t \<and> st_deletedAt s = LIVE_SENTINEL) (pf_sets db)"
| "usage_count now db t Stores = count_rows (\<lambda>s. store_tenantId s = t) (pf_stores db)"
| "usage_count now db t TeamSeats =
     count_rows (\<lambda>m. mem_tenantId m = t \<and> mem_revokedAt m = None) (pf_members db)
     + count_rows (\<lambda>i. invite_tenantId i = t \<and> invite_acceptedAt i = None \<and> invite_revokedAt i = None \<and> now < invite_expiresAt i)
         (pf_invitations db)"
| "usage_count now db t ProductsAssigned =
     count_rows (\<lambda>(a, s). st_id s = as_setId a \<and> st_tenantId s = t \<and> as_deletedAt a = LIVE_SENTINEL \<and> st_deletedAt s = LIVE_SENTINEL)
       (List.product (pf_assignments db) (pf_sets db))"
| "usage_count now db t FileStorageMb =
     (case rev (sort_key us_periodStart (filter (\<lambda>u. us_tenantId u = t \<and> us_metric u = ''file_storage_mb'') (pf_usage db))) of
        [] \<Rightarrow> 0 | u # _ \<Rightarrow> us_value u)"

section \<open>The guard\<close>

definition asLimits :: "(string \<Rightarrow> jsval) \<Rightarrow> jsval \<Rightarrow> jsval" where
  "asLimits json_parse raw = (case raw of JStr s \<Rightarrow> json_parse s | _ \<Rightarrow> js_nullish raw (JObj []))"

definition below_limit :: "nat \<Rightarrow> jsval \<Rightarrow> bool" where
  "below_limit current limit = (case limit of JNum n \<Rightarrow> js_lt (Fin (of_nat current)) n | _ \<Rightarrow> False)"

definition better_plans :: "platform \<Rightarrow> plan_row \<Rightarrow> plan_row list" where
  "better_plans db p = sort_key plan_sortOrder (filter (\<lambda>q. plan_sortOrder p < plan_sortOrder q \<and> plan_isPublic q) (pf_plans db))"

definition raises :: "jsval \<Rightarrow> jsval \<Rightarrow> bool" where
  "raises raised limit = (case (raised, limit) of (JNum r, JNum l) \<Rightarrow> \<not> js_le r l | _ \<Rightarrow> False)"

definition explain_limit :: "(string \<Rightarrow> jsval) \<Rightarrow> platform \<Rightarrow> plan_row \<Rightarrow> countable_metric \<Rightarrow> nat \<Rightarrow> jsval \<Rightarrow> string" where
  "explain_limit json_parse db p metric current limit =
     (let label = METRIC_LABEL metric;
          here = ''The '' @ plan_name p @ '' plan allows '' @ js_String limit @ '' '' @ label @ ''. You have ''
            @ show_nat (int current) @ ''.''
      in case better_plans db p of
           [] \<Rightarrow> here
         | better # _ \<Rightarrow>
            (let raised = js_get (asLimits json_parse (plan_limits better)) (metric_name metric) in
             if raised = JNull then here @ '' Upgrade to '' @ plan_name better @ '' for unlimited '' @ label @ ''.''
             else if \<not> raises raised limit then here
             else here @ '' Upgrade to '' @ plan_name better @ '' for '' @ js_String raised @ '' '' @ label @ ''.''))"

definition assertWithinPlan :: "(string \<Rightarrow> jsval) \<Rightarrow> int \<Rightarrow> platform \<Rightarrow> string \<Rightarrow> countable_metric \<Rightarrow> api_error + unit" where
  "assertWithinPlan json_parse now db tenantId metric =
     (case tenant_plan db tenantId of
        None \<Rightarrow> Inr ()
      | Some p \<Rightarrow>
         (let limit = js_get (asLimits json_parse (plan_limits p)) (metric_name metric) in
          if limit = JNull \<or> limit = JUndef then Inr ()
          else let current = usage_count now db tenantId metric in
            if below_limit current limit then Inr ()
            else Inl (PlanLimit (explain_limit json_parse db p metric current limit) (metric_name metric) limit current (plan_code p))))"

section \<open>The report\<close>

record plan_usage =
  pu_metric :: countable_metric
  pu_label :: string
  pu_current :: nat
  pu_limit :: jsval
  overLimit :: bool
  atLimit :: bool

definition report :: "(string \<Rightarrow> jsval) \<Rightarrow> int \<Rightarrow> platform \<Rightarrow> string \<Rightarrow> plan_usage list" where
  "report json_parse now db tenantId =
     (case tenant_plan db tenantId of
        None \<Rightarrow> []
      | Some p \<Rightarrow> flat_map (\<lambda>metric.
          let limit = js_get (asLimits json_parse (plan_limits p)) (metric_name metric) in
          if limit = JUndef then []
          else let current = usage_count now db tenantId metric in
            [\<lparr>pu_metric = metric, pu_label = METRIC_LABEL metric, pu_current = current, pu_limit = limit,
              overLimit = (case limit of JNum n \<Rightarrow> js_lt n (Fin (of_nat current)) | _ \<Rightarrow> False),
              atLimit = (case limit of JNum n \<Rightarrow> js_le n (Fin (of_nat current)) | _ \<Rightarrow> False)\<rparr>]) COUNTABLE_METRICS)"

section \<open>Features\<close>

definition feature_label :: "string \<Rightarrow> string" where
  "feature_label f = (if f = ''analytics'' then ''Analytics'' else if f = ''conditional_rules'' then ''Conditional rules''
     else ''Rich text and HTML'')"

definition has_feature :: "(string \<Rightarrow> jsval) \<Rightarrow> plan_row \<Rightarrow> string \<Rightarrow> bool" where
  "has_feature json_parse p f \<longleftrightarrow> js_get (asLimits json_parse (plan_features p)) f = JBool True"

definition explain_feature :: "(string \<Rightarrow> jsval) \<Rightarrow> platform \<Rightarrow> plan_row \<Rightarrow> string \<Rightarrow> string" where
  "explain_feature json_parse db p f =
     (let here = feature_label f @ '' is not included in the '' @ plan_name p @ '' plan.''
      in case List.find (\<lambda>q. has_feature json_parse q f) (better_plans db p) of
           None \<Rightarrow> here
         | Some q \<Rightarrow> here @ '' Upgrade to '' @ plan_name q @ '' to use it.'')"

definition assertHasFeature :: "(string \<Rightarrow> jsval) \<Rightarrow> platform \<Rightarrow> string \<Rightarrow> string \<Rightarrow> api_error + unit" where
  "assertHasFeature json_parse db tenantId f =
     (case tenant_plan db tenantId of
        None \<Rightarrow> Inr ()
      | Some p \<Rightarrow> if has_feature json_parse p f then Inr () else Inl (Refused (explain_feature json_parse db p f)))"

definition hasFeature :: "(string \<Rightarrow> jsval) \<Rightarrow> platform \<Rightarrow> string \<Rightarrow> string \<Rightarrow> bool" where
  "hasFeature json_parse db tenantId f =
     (case tenant_plan db tenantId of None \<Rightarrow> False | Some p \<Rightarrow> has_feature json_parse p f)"

section \<open>Report and guard agree\<close>

lemma metric_in_all [simp]: "m \<in> set COUNTABLE_METRICS"
  by (cases m) (simp_all add: COUNTABLE_METRICS_def)

text \<open>A number limit that is not NaN.\<close>

definition proper_limit :: "jsval \<Rightarrow> bool" where
  "proper_limit v \<longleftrightarrow> v = JUndef \<or> v = JNull \<or> (\<exists>n. v = JNum n \<and> n \<noteq> NaN)"

lemma not_below_iff: "n \<noteq> NaN \<Longrightarrow> \<not> below_limit c (JNum n) \<longleftrightarrow> js_le n (Fin (of_nat c))"
  by (cases n) (auto simp: below_limit_def js_le_def)

text \<open>
  The dashboard and the guard agree: the report of a tenant's usage marks a metric as at its limit
  exactly when the guard refuses to create one more of it, and it marks as over the limit only what is at
  the limit.
\<close>

theorem report_matches_guard:
  assumes "\<And>p. tenant_plan db t = Some p \<Longrightarrow> proper_limit (js_get (asLimits json_parse (plan_limits p)) (metric_name m))"
  shows "(assertWithinPlan json_parse now db t m \<noteq> Inr ()
      \<longleftrightarrow> (\<exists>r\<in>set (report json_parse now db t). pu_metric r = m \<and> atLimit r))
    \<and> (\<forall>r\<in>set (report json_parse now db t). overLimit r \<longrightarrow> atLimit r)"
proof
  show "assertWithinPlan json_parse now db t m \<noteq> Inr ()
      \<longleftrightarrow> (\<exists>r\<in>set (report json_parse now db t). pu_metric r = m \<and> atLimit r)"
  proof (cases "tenant_plan db t")
    case None
    then show ?thesis by (simp add: assertWithinPlan_def report_def)
  next
    case (Some p)
    let ?l = "js_get (asLimits json_parse (plan_limits p)) (metric_name m)"
    consider "?l = JUndef \<or> ?l = JNull" | n where "?l = JNum n" "n \<noteq> NaN"
      using assms [OF Some] by (auto simp: proper_limit_def)
    then show ?thesis
    proof cases
      case 1
      then show ?thesis using Some by (auto simp: assertWithinPlan_def report_def Let_def split: if_splits)
    next
      case 2
      then show ?thesis using Some not_below_iff [OF 2(2), of "usage_count now db t m"]
        by (auto simp: assertWithinPlan_def report_def Let_def split: if_splits intro: bexI [of _ m])
    qed
  qed
  show "\<forall>r\<in>set (report json_parse now db t). overLimit r \<longrightarrow> atLimit r"
    by (cases "tenant_plan db t") (auto simp: report_def Let_def split: if_splits, auto simp: js_le_def split: jsval.splits)
qed

definition small_shop :: platform where
  "small_shop = \<lparr>pf_authoring = stored [], pf_versions = [], pf_assignments = [],
     pf_stores = [\<lparr>store_id = ''w1'', store_tenantId = ''t1'', configVersion = 0, pushUrl = None\<rparr>], pf_pushes = [], pf_audit = [],
     pf_plans = [\<lparr>plan_id = ''p1'', plan_code = ''free'', plan_name = ''Free'',
       plan_limits = JObj [(''option_sets'', JNum (Fin 1)), (''stores'', JNull)], plan_features = JObj [],
       plan_sortOrder = 0, plan_isPublic = True\<rparr>],
     pf_tenantPlans = [(''t1'', ''p1'')], pf_members = [], pf_invitations = [], pf_usage = [], pf_products = []\<rparr>"

theorem report_matches_guard_witness:
  "assertWithinPlan (\<lambda>_. JNull) 0 small_shop ''t1'' OptionSets \<noteq> Inr ()
    \<and> assertWithinPlan (\<lambda>_. JNull) 0 small_shop ''t1'' Stores = Inr ()"
proof -
  have p: "tenant_plan small_shop ''t1'' = Some p \<Longrightarrow> js_get (asLimits (\<lambda>_. JNull) (plan_limits p)) ''option_sets'' = JNum (Fin 1)
      \<and> js_get (asLimits (\<lambda>_. JNull) (plan_limits p)) ''stores'' = JNull" for p
    by (auto simp: tenant_plan_def small_shop_def find_row_def asLimits_def js_nullish_def)
  have "\<exists>r\<in>set (report (\<lambda>_. JNull) 0 small_shop ''t1''). pu_metric r = OptionSets \<and> atLimit r"
    "\<not> (\<exists>r\<in>set (report (\<lambda>_. JNull) 0 small_shop ''t1''). pu_metric r = Stores \<and> atLimit r)" by code_simp+
  then show ?thesis using report_matches_guard [of small_shop "''t1''" "\<lambda>_. JNull" OptionSets 0]
      report_matches_guard [of small_shop "''t1''" "\<lambda>_. JNull" Stores 0] p by (auto simp: proper_limit_def)
qed

end
