(* ===== verification/Store_Writes.thy ===== *)
theory Store_Writes
  imports Plan_Limits
begin

text \<open>
  The writes beside publishing that change what a storefront receives: creating and removing an option
  set (\<open>src/option-sets/option-sets.service.ts\<close>, \<open>src/option-sets/cascade.service.ts\<close>), its assignments
  (\<open>src/option-sets/assignments.service.ts\<close>) and the invalidation after a plan change
  (\<open>src/billing/plan-change-invalidator.service.ts\<close>). \<open>new_id\<close> is the key the database generates.
\<close>

section \<open>Creating\<close>

definition assertStoreBelongsToTenant :: "platform \<Rightarrow> string \<Rightarrow> string \<Rightarrow> api_error + unit" where
  "assertStoreBelongsToTenant db tenantId storeId =
     (if list_ex (\<lambda>s. store_id s = storeId \<and> store_tenantId s = tenantId) (pf_stores db) then Inr () else Inl (NotFound ''Store''))"

definition create_set :: "(string \<Rightarrow> jsval) \<Rightarrow> int \<Rightarrow> string \<Rightarrow> string \<Rightarrow> string \<Rightarrow> string \<Rightarrow> platform
    \<Rightarrow> api_error + (set_row \<times> platform)" where
  "create_set json_parse now tenantId new_id name storeId db =
     bind_result (assertStoreBelongsToTenant db tenantId storeId) (\<lambda>_.
     bind_result (assertWithinPlan json_parse now db tenantId OptionSets) (\<lambda>_.
       let s = \<lparr>st_id = new_id, st_tenantId = tenantId, st_storeId = storeId, st_name = js_trim name, st_status = DRAFT,
             st_version = 0, rowVersion = 1, publishedAt = None, publishedBy = None, publishedConfigVersion = 0,
             st_createdAt = now, st_deletedAt = LIVE_SENTINEL\<rparr>
       in Inr (s, record_audit \<lparr>au_action = ''option_set.created'', au_resourceId = new_id, au_fromVersion = None,
            au_toVersion = None, au_restoredFrom = None, au_configVersion = None, au_warnings = []\<rparr>
            (update_sets (\<lambda>sets. sets @ [s]) db))))"

section \<open>Removing\<close>

definition live_ids :: "('e \<Rightarrow> string) \<Rightarrow> string list \<Rightarrow> 'e child_row list \<Rightarrow> string list" where
  "live_ids key parents rows = map (\<lambda>r. key (row_entity r))
     (filter (\<lambda>r. row_parent r \<in> set parents \<and> row_deletedAt r = LIVE_SENTINEL) rows)"

definition soft_delete :: "('e \<Rightarrow> string) \<Rightarrow> string list \<Rightarrow> int \<Rightarrow> 'e child_row list \<Rightarrow> 'e child_row list" where
  "soft_delete key ids deletedAt rows =
     update_rows (\<lambda>r. key (row_entity r) \<in> set ids) (\<lambda>r. r\<lparr>row_deletedAt := deletedAt\<rparr>) rows"

definition delete_children :: "string \<Rightarrow> int \<Rightarrow> authoring_db \<Rightarrow> authoring_db" where
  "delete_children optionSetId deletedAt adb =
     (let groupIds = live_ids ge_id [optionSetId] (db_groups adb);
          optionIds = live_ids oe_id groupIds (db_options adb);
          valueIds = live_ids ve_id optionIds (db_values adb)
      in adb\<lparr>db_values := soft_delete ve_id valueIds deletedAt (db_values adb),
          db_options := soft_delete oe_id optionIds deletedAt (db_options adb),
          db_items := soft_delete ie_id (live_ids ie_id groupIds (db_items adb)) deletedAt (db_items adb),
          db_groups := soft_delete ge_id groupIds deletedAt (db_groups adb),
          db_rules := soft_delete (\<lambda>r. sr_id (re_rule r)) (live_ids (\<lambda>r. sr_id (re_rule r)) [optionSetId] (db_rules adb))
            deletedAt (db_rules adb)\<rparr>)"

definition delete_assignments :: "string \<Rightarrow> int \<Rightarrow> assignment_row list \<Rightarrow> assignment_row list" where
  "delete_assignments optionSetId deletedAt rows =
     (let ids = map as_id (filter (\<lambda>a. as_setId a = optionSetId \<and> as_deletedAt a = LIVE_SENTINEL) rows) in
      update_rows (\<lambda>a. as_id a \<in> set ids) (\<lambda>a. a\<lparr>as_deletedAt := deletedAt\<rparr>) rows)"

text \<open>\<open>None\<close> is the \<open>AlreadyDeletedError\<close>; \<open>wasPublished\<close> is what the caller read before the transaction.\<close>

definition onOptionSetDeleted :: "string \<Rightarrow> int \<Rightarrow> string \<Rightarrow> bool \<Rightarrow> platform \<Rightarrow> api_error + platform option" where
  "onOptionSetDeleted optionSetId deletedAt storeId wasPublished db =
     (let claimed = (\<lambda>s. st_id s = optionSetId \<and> st_deletedAt s = LIVE_SENTINEL) in
      if \<not> list_ex claimed (pf_sets db) then Inr None
      else let db1 = update_sets (update_rows claimed (\<lambda>s. s\<lparr>st_deletedAt := deletedAt, rowVersion := rowVersion s + 1\<rparr>)) db
        in bind_result (bumpIfVisible storeId wasPublished db1) (\<lambda>(_, db2).
          Inr (Some (db2\<lparr>pf_authoring := delete_children optionSetId deletedAt (pf_authoring db2),
            pf_assignments := delete_assignments optionSetId deletedAt (pf_assignments db2)\<rparr>))))"

definition remove_commit :: "int \<Rightarrow> set_row \<Rightarrow> platform \<Rightarrow> api_error + platform" where
  "remove_commit now before db =
     bind_result (onOptionSetDeleted (st_id before) now (st_storeId before) (st_status before = PUBLISHED) db) (\<lambda>res.
       case res of
         None \<Rightarrow> Inr db
       | Some db' \<Rightarrow> Inr (record_audit \<lparr>au_action = ''option_set.deleted'', au_resourceId = st_id before, au_fromVersion = None,
           au_toVersion = None, au_restoredFrom = None, au_configVersion = None, au_warnings = []\<rparr> db'))"

definition remove_set :: "int \<Rightarrow> string \<Rightarrow> string \<Rightarrow> nat option \<Rightarrow> platform \<Rightarrow> api_error + platform" where
  "remove_set now tenantId optionSetId expectedRowVersion db =
     (case findById tenantId (pf_sets db) optionSetId of
        None \<Rightarrow> Inl (NotFound ''Option set'')
      | Some before \<Rightarrow>
          bind_result (assertVersionMatches (rowVersion before) expectedRowVersion) (\<lambda>_. remove_commit now before db))"

section \<open>Assignments\<close>

record assignment_target =
  tg_type :: string
  tg_ref :: string

record assignment_view =
  av_id :: string
  av_mode :: string
  av_targetType :: "string option"
  av_targetRef :: "string option"
  av_priority :: int
  av_productName :: "string option"
  av_productStatus :: "string option"

definition target_key :: "assignment_target \<Rightarrow> string" where
  "target_key g = tg_type g @ '':'' @ tg_ref g"

definition wanted_targets :: "assignment_target list \<Rightarrow> assignment_target list" where
  "wanted_targets targets = map snd (fold (\<lambda>g. map_set (target_key g) g) targets [])"

definition requireSet :: "string \<Rightarrow> platform \<Rightarrow> string \<Rightarrow> api_error + set_row" where
  "requireSet tenantId db optionSetId = (case findById tenantId (pf_sets db) optionSetId of
       None \<Rightarrow> Inl (NotFound ''Option set not found.'')
     | Some s \<Rightarrow> Inr s)"

definition existsInStore :: "string \<Rightarrow> platform \<Rightarrow> string \<Rightarrow> string \<Rightarrow> bool" where
  "existsInStore tenantId db storeId i \<longleftrightarrow>
     list_ex (\<lambda>p. prod_storeId p = storeId \<and> externalId p = i
       \<and> list_ex (\<lambda>s. store_id s = prod_storeId p \<and> store_tenantId s = tenantId) (pf_stores db)) (pf_products db)"

definition readAssignments :: "platform \<Rightarrow> string \<Rightarrow> string \<Rightarrow> assignment_view list" where
  "readAssignments db storeId optionSetId = flat_map (\<lambda>a.
     let view = (\<lambda>name status. \<lparr>av_id = as_id a, av_mode = as_mode a, av_targetType = as_targetType a, av_targetRef = as_targetRef a,
           av_priority = as_priority a, av_productName = name, av_productStatus = status\<rparr>);
         matching = filter (\<lambda>p. prod_storeId p = storeId \<and> as_targetRef a = Some (externalId p)) (pf_products db)
     in if matching = [] then [view None None]
        else map (\<lambda>p. view (Some (prod_name p)) (Some (prod_status p))) matching)
     (sort_key (\<lambda>a. At (as_priority a) (as_id a))
       (filter (\<lambda>a. as_setId a = optionSetId \<and> as_deletedAt a = LIVE_SENTINEL) (pf_assignments db)))"

definition list_assignments :: "string \<Rightarrow> platform \<Rightarrow> string \<Rightarrow> api_error + assignment_view list" where
  "list_assignments tenantId db optionSetId =
     bind_result (requireSet tenantId db optionSetId) (\<lambda>s. Inr (readAssignments db (st_storeId s) optionSetId))"

text \<open>\<open>result\<close>: the revision of the store advances and the live assignments are read back.\<close>

definition assignment_result :: "string \<Rightarrow> string \<Rightarrow> platform \<Rightarrow> api_error + (assignment_view list \<times> nat \<times> platform)" where
  "assignment_result storeId optionSetId db =
     bind_result (bump storeId db) (\<lambda>(v, db'). Inr (readAssignments db' storeId optionSetId, v, db'))"

definition has_key :: "assignment_row \<Rightarrow> string \<Rightarrow> bool" where
  "has_key a key \<longleftrightarrow> (case (as_targetType a, as_targetRef a) of (Some ty, Some r) \<Rightarrow> ty @ '':'' @ r = key | _ \<Rightarrow> False)"

definition upsert_assignment :: "(string \<Rightarrow> string) \<Rightarrow> string \<Rightarrow> assignment_target \<Rightarrow> assignment_row list \<Rightarrow> assignment_row list" where
  "upsert_assignment new_id optionSetId g rows =
     (if list_ex (\<lambda>a. as_setId a = optionSetId \<and> as_targetType a = Some (tg_type g) \<and> as_targetRef a = Some (tg_ref g)
          \<and> as_deletedAt a = LIVE_SENTINEL) rows
      then rows
      else rows @ [\<lparr>as_id = new_id (target_key g), as_setId = optionSetId, as_mode = ''manual'', as_targetType = Some (tg_type g),
        as_targetRef = Some (tg_ref g), as_priority = 0, as_deletedAt = LIVE_SENTINEL\<rparr>])"

fun repeat_check :: "nat \<Rightarrow> (api_error + unit) \<Rightarrow> api_error + unit" where
  "repeat_check 0 check = Inr ()"
| "repeat_check (Suc n) check = bind_result check (\<lambda>_. repeat_check n check)"

definition live_wanted :: "string \<Rightarrow> assignment_target list \<Rightarrow> platform \<Rightarrow> nat" where
  "live_wanted optionSetId wanted db = count_rows (\<lambda>a. as_setId a = optionSetId \<and> as_deletedAt a = LIVE_SENTINEL
     \<and> list_ex (\<lambda>g. has_key a (target_key g)) wanted) (pf_assignments db)"

definition assign :: "(string \<Rightarrow> jsval) \<Rightarrow> int \<Rightarrow> (string \<Rightarrow> string) \<Rightarrow> string \<Rightarrow> string \<Rightarrow> assignment_target list \<Rightarrow> platform
    \<Rightarrow> api_error + (assignment_view list \<times> nat \<times> platform)" where
  "assign json_parse now new_id tenantId optionSetId targets db =
     bind_result (requireSet tenantId db optionSetId) (\<lambda>s.
       let wanted = wanted_targets targets in
       case List.find (\<lambda>g. tg_type g = ''product'' \<and> \<not> existsInStore tenantId db (st_storeId s) (tg_ref g)) wanted of
         Some g \<Rightarrow> Inl (Refused (''No product '' @ tg_ref g @ '' in this option set'' @ [CHR 0x27] @ ''s store.''))
       | None \<Rightarrow>
           let additions = length wanted - live_wanted optionSetId wanted db in
           bind_result (repeat_check additions (assertWithinPlan json_parse now db tenantId ProductsAssigned)) (\<lambda>_.
             assignment_result (st_storeId s) optionSetId
               (db\<lparr>pf_assignments := fold (upsert_assignment new_id optionSetId) wanted (pf_assignments db)\<rparr>)))"

definition manual_target :: "string \<Rightarrow> assignment_target \<Rightarrow> assignment_row \<Rightarrow> bool" where
  "manual_target optionSetId g a \<longleftrightarrow> as_setId a = optionSetId \<and> as_mode a = ''manual'' \<and> as_targetType a = Some (tg_type g)
     \<and> as_targetRef a = Some (tg_ref g) \<and> as_deletedAt a = LIVE_SENTINEL"

definition unassign :: "int \<Rightarrow> string \<Rightarrow> string \<Rightarrow> assignment_target \<Rightarrow> platform
    \<Rightarrow> api_error + (assignment_view list \<times> nat \<times> platform)" where
  "unassign now tenantId optionSetId g db =
     bind_result (requireSet tenantId db optionSetId) (\<lambda>s.
       if \<not> list_ex (manual_target optionSetId g) (pf_assignments db)
       then Inl (NotFound ''That target is not assigned to this set.'')
       else assignment_result (st_storeId s) optionSetId
         (db\<lparr>pf_assignments := update_rows (manual_target optionSetId g) (\<lambda>a. a\<lparr>as_deletedAt := now\<rparr>) (pf_assignments db)\<rparr>))"

text \<open>No pair at all is an empty parenthesis, which the database refuses.\<close>

definition unassignMany :: "int \<Rightarrow> string \<Rightarrow> string \<Rightarrow> assignment_target list \<Rightarrow> platform
    \<Rightarrow> api_error + (assignment_view list \<times> nat \<times> nat \<times> platform)" where
  "unassignMany now tenantId optionSetId targets db =
     bind_result (requireSet tenantId db optionSetId) (\<lambda>s.
       let wanted = wanted_targets targets; gone = (\<lambda>a. list_ex (\<lambda>g. manual_target optionSetId g a) wanted) in
       if wanted = [] then Inl (Crash ''ER_PARSE_ERROR'')
       else bind_result (assignment_result (st_storeId s) optionSetId
           (db\<lparr>pf_assignments := update_rows gone (\<lambda>a. a\<lparr>as_deletedAt := now\<rparr>) (pf_assignments db)\<rparr>)) (\<lambda>(views, v, db').
             Inr (views, v, count_rows gone (pf_assignments db), db')))"

text \<open>
  The guard is asked once per new assignment and nothing is written in between, so all of its answers
  are the same: with one slot free, any number of targets is accepted.
\<close>

lemma repeat_check_same: "check = Inr () \<Longrightarrow> repeat_check n check = Inr ()"
  by (induction n) simp_all

definition one_slot_shop :: platform where
  "one_slot_shop = small_shop\<lparr>
     pf_plans := [\<lparr>plan_id = ''p1'', plan_code = ''free'', plan_name = ''Free'', plan_limits = JObj [(''products_assigned'', JNum (Fin 1))],
       plan_features = JObj [], plan_sortOrder = 0, plan_isPublic = True\<rparr>],
     pf_products := map (\<lambda>r. \<lparr>prod_storeId = ''w1'', externalId = r, prod_name = r, prod_status = ''publish''\<rparr>) [''20'', ''21'', ''22'']\<rparr>"

lemma bulk_assign_exceeds:
  "assertWithinPlan (\<lambda>_. JNull) 0 one_slot_shop ''t1'' ProductsAssigned = Inr ()
   \<and> (case assign (\<lambda>_. JNull) 0 id ''t1'' ''s1''
         (map (\<lambda>r. \<lparr>tg_type = ''product'', tg_ref = r\<rparr>) [''20'', ''21'', ''22'']) one_slot_shop of
       Inl _ \<Rightarrow> False
     | Inr (views, v, db) \<Rightarrow> usage_count 0 db ''t1'' ProductsAssigned = 3
         \<and> assertWithinPlan (\<lambda>_. JNull) 0 db ''t1'' ProductsAssigned \<noteq> Inr ())"
  by code_simp

section \<open>A plan change\<close>

fun invalidate_loop :: "store_row list \<Rightarrow> nat \<Rightarrow> platform \<Rightarrow> nat \<times> platform" where
  "invalidate_loop [] bumped db = (bumped, db)"
| "invalidate_loop (s # stores) bumped db = (case bump (store_id s) db of
       Inl _ \<Rightarrow> invalidate_loop stores bumped db
     | Inr (_, db') \<Rightarrow> invalidate_loop stores (bumped + 1) db')"

definition invalidate :: "string \<Rightarrow> platform \<Rightarrow> nat \<times> platform" where
  "invalidate tenantId db = invalidate_loop (filter (\<lambda>s. store_tenantId s = tenantId) (pf_stores db)) 0 db"

end
