(* ===== verification/Storefront_Correct.thy ===== *)
theory Storefront_Correct
  imports Store_Writes
begin

text \<open>
  What a storefront is served. The first section reduces the builder's queries and maps to one lookup per
  published set; the second states when the tables are well formed; then come requests one after the
  other, and the theorems about publishing, rolling back and caching.
\<close>

section \<open>Keys and buckets\<close>

definition digit_char :: "int \<Rightarrow> char" where
  "digit_char d = char_of (48 + d)"

lemma of_digit_char: "0 \<le> d \<Longrightarrow> d < 10 \<Longrightarrow> (of_char (digit_char d) :: int) = 48 + d"
  by (simp add: digit_char_def of_char_of)

lemma digit_char_inj: "0 \<le> d \<Longrightarrow> d < 10 \<Longrightarrow> 0 \<le> e \<Longrightarrow> e < 10 \<Longrightarrow> digit_char d = digit_char e \<Longrightarrow> d = e"
  by (metis add_left_cancel of_digit_char)

lemma digit_char_not_colon: "0 \<le> d \<Longrightarrow> d < 10 \<Longrightarrow> digit_char d \<noteq> CHR '':''"
proof
  assume d: "0 \<le> d" "d < 10" and "digit_char d = CHR '':''"
  then have "48 + d = (of_char (CHR '':'') :: int)" by (metis of_digit_char)
  then show False using d by simp
qed

lemma show_nat_step:
  "show_nat n = (if n < 10 then [digit_char n] else show_nat (n div 10) @ [digit_char (n mod 10)])"
  unfolding digit_char_def by (rule show_nat.simps)

lemma show_nat_Nil [simp]: "show_nat n \<noteq> []"
  by (subst show_nat_step) simp

lemma Nil_show_nat [simp]: "[] \<noteq> show_nat n"
  by (metis show_nat_Nil)

lemma show_nat_not_colon: "0 \<le> n \<Longrightarrow> CHR '':'' \<notin> set (show_nat n)"
proof (induction n rule: show_nat.induct)
  case (1 n)
  then show ?case using digit_char_not_colon [of n] digit_char_not_colon [of "n mod 10"]
    by (subst show_nat_step) auto
qed

lemma show_nat_inj: "0 \<le> n \<Longrightarrow> 0 \<le> m \<Longrightarrow> show_nat n = show_nat m \<Longrightarrow> n = m"
proof (induction n arbitrary: m rule: show_nat.induct)
  case (1 n)
  show ?case
  proof (cases "n < 10 \<or> m < 10")
    case True
    then show ?thesis using 1(2-4) digit_char_inj [of n m]
      by (auto simp: show_nat_step [of n] show_nat_step [of m] split: if_splits)
  next
    case False
    then have "show_nat (n div 10) = show_nat (m div 10)" "digit_char (n mod 10) = digit_char (m mod 10)"
      using 1(4) by (auto simp: show_nat_step [of n] show_nat_step [of m])
    then have "n div 10 = m div 10" "n mod 10 = m mod 10"
      using 1 False digit_char_inj [of "n mod 10" "m mod 10"] by auto
    then show ?thesis by (metis div_mult_mod_eq)
  qed
qed

lemma last_colon:
  assumes "a @ CHR '':'' # s = b @ CHR '':'' # t" and "CHR '':'' \<notin> set s" and "CHR '':'' \<notin> set t"
  shows "a = b \<and> s = t"
  using assms by (auto simp: append_eq_append_conv2 append_eq_Cons_conv Cons_eq_append_conv)

lemma version_key_inj [simp]: "version_key i v = version_key j w \<longleftrightarrow> i = j \<and> v = w"
  using last_colon [of i "show_nat (int v)" j "show_nat (int w)"] show_nat_not_colon [of "int v"] show_nat_not_colon [of "int w"]
    show_nat_inj [of "int v" "int w"]
  by (auto simp: version_key_def)

lemma map_get_fold_set:
  assumes "inj_on f (set xs)"
  shows "map_get (fold (\<lambda>x. map_set (f x) (g x)) xs m) k
    = (case List.find (\<lambda>x. f x = k) xs of None \<Rightarrow> map_get m k | Some x \<Rightarrow> Some (g x))"
  using assms
proof (induction xs arbitrary: m)
  case (Cons x xs)
  then show ?case
    by (auto simp: js_map_simps find_None_all inj_on_def split: option.split dest: find_Some_in)
qed simp

lemma map_get_fold_bucket:
  "(case map_get (fold (\<lambda>x m. map_set (f x) ((case map_get m (f x) of None \<Rightarrow> [] | Some b \<Rightarrow> b) @ [g x]) m) xs m) k of
      None \<Rightarrow> [] | Some b \<Rightarrow> b)
    = (case map_get m k of None \<Rightarrow> [] | Some b \<Rightarrow> b) @ map g (filter (\<lambda>x. f x = k) xs)"
  by (induction xs arbitrary: m) (auto simp: js_map_simps)

section \<open>One lookup per published set\<close>

definition live_assignments :: "platform \<Rightarrow> string \<Rightarrow> jsval list" where
  "live_assignments db i = map published_assignment (sort_key (\<lambda>a. At (as_priority a) (as_id a))
     (filter (\<lambda>a. as_setId a = i \<and> as_deletedAt a = LIVE_SENTINEL) (pf_assignments db)))"

definition snapshot_of :: "platform \<Rightarrow> string \<Rightarrow> nat \<Rightarrow> jsval option" where
  "snapshot_of db i v = map_option vr_snapshot (find_row (\<lambda>r. vr_setId r = i \<and> vr_version r = v) (pf_versions db))"

definition served :: "platform \<Rightarrow> string \<Rightarrow> nat \<Rightarrow> jsval option" where
  "served db i v = map_option (\<lambda>d. js_with ''assignments'' (JArr (live_assignments db i)) (normaliseSnapshot d)) (snapshot_of db i v)"

definition published_keys :: "string \<Rightarrow> platform \<Rightarrow> (string \<times> nat) list" where
  "published_keys w db = map (\<lambda>s. (st_id s, st_version s)) (published_sets w (pf_sets db))"

definition version_id :: "version_row \<Rightarrow> string \<times> nat" where
  "version_id v = (vr_setId v, vr_version v)"

definition valid_versions :: "platform \<Rightarrow> bool" where
  "valid_versions db \<longleftrightarrow> distinct (map version_id (pf_versions db))"

lemma find_filter: "(\<And>x. P x \<Longrightarrow> Q x) \<Longrightarrow> List.find P (filter Q xs) = List.find P xs"
  by (induction xs) auto

lemma option_sets_served:
  assumes "valid_versions db"
  shows "option_sets w db = flat_map (\<lambda>(i, v). case served db i v of None \<Rightarrow> [] | Some d \<Rightarrow> [d]) (published_keys w db)"
proof -
  define sets where "sets = published_sets w (pf_sets db)"
  define vs where "vs = filter (\<lambda>v. vr_setId v \<in> set (map st_id sets)) (pf_versions db)"
  define as where "as = sort_key (\<lambda>a. At (as_priority a) (as_id a))
    (filter (\<lambda>a. as_setId a \<in> set (map st_id sets) \<and> as_deletedAt a = LIVE_SENTINEL) (pf_assignments db))"
  have "inj_on version_id (set vs)"
    using assms by (auto simp: valid_versions_def vs_def distinct_map intro: inj_on_subset)
  then have inj: "inj_on (\<lambda>v. version_key (vr_setId v) (vr_version v)) (set vs)"
    by (auto simp: inj_on_def version_id_def)
  have version: "map_get (fold (\<lambda>v. map_set (version_key (vr_setId v) (vr_version v)) v) vs []) (version_key (st_id s) (st_version s))
      = find_row (\<lambda>r. vr_setId r = st_id s \<and> vr_version r = st_version s) (pf_versions db)" if "s \<in> set sets" for s
  proof -
    have "List.find (\<lambda>v. vr_setId v = st_id s \<and> vr_version v = st_version s) vs
        = find_row (\<lambda>r. vr_setId r = st_id s \<and> vr_version r = st_version s) (pf_versions db)"
      unfolding vs_def find_row_def using that by (intro find_filter) auto
    then show ?thesis using map_get_fold_set [OF inj, of "\<lambda>v. v" "[]" "version_key (st_id s) (st_version s)"]
      by (simp split: option.split)
  qed
  have assignments: "(case map_get (fold (\<lambda>a m. map_set (as_setId a) ((case map_get m (as_setId a) of None \<Rightarrow> [] | Some forSet \<Rightarrow> forSet)
        @ [published_assignment a]) m) as []) (st_id s) of None \<Rightarrow> [] | Some forSet \<Rightarrow> forSet) = live_assignments db (st_id s)"
    if "s \<in> set sets" for s
  proof -
    have "filter (\<lambda>a. as_setId a = st_id s) as = sort_key (\<lambda>a. At (as_priority a) (as_id a))
        (filter (\<lambda>a. as_setId a = st_id s \<and> as_deletedAt a = LIVE_SENTINEL) (pf_assignments db))"
      unfolding as_def using that by (auto simp: filter_sort intro!: arg_cong [where f = "sort_key _"] filter_cong)
    then show ?thesis using map_get_fold_bucket [of as_setId published_assignment as "[]" "st_id s"]
      by (simp add: live_assignments_def)
  qed
  have "flat_map (\<lambda>(i, v). case served db i v of None \<Rightarrow> [] | Some d \<Rightarrow> [d]) (published_keys w db)
      = flat_map (\<lambda>s. case served db (st_id s) (st_version s) of None \<Rightarrow> [] | Some d \<Rightarrow> [d]) sets"
    by (simp add: published_keys_def sets_def flat_map_def comp_def)
  also have "... = option_sets w db"
    unfolding option_sets_def Let_def sets_def [symmetric] vs_def [symmetric] as_def [symmetric] flat_map_def
    using version assignments by (auto simp: served_def snapshot_of_def split: option.split intro!: arg_cong [where f = concat])
  finally show ?thesis by simp
qed

lemma option_sets_cong:
  assumes "valid_versions db" "valid_versions db'" and "published_keys w db' = published_keys w db"
    and "\<And>i v. (i, v) \<in> set (published_keys w db) \<Longrightarrow> served db' i v = served db i v"
  shows "option_sets w db' = option_sets w db"
  unfolding option_sets_served [OF assms(1)] option_sets_served [OF assms(2)] assms(3) flat_map_def
  using assms(4) by (auto intro!: arg_cong [where f = concat])

section \<open>Requests\<close>

text \<open>
  One request after the other; one that is refused leaves the tables alone. \<open>EditDraft\<close> is any change of
  the draft, the name and the lock of a set included; what it may not touch is what only the other
  requests write. An insert whose generated key is taken is refused by the primary key.
\<close>

datatype store_request =
    PublishSet int string "string option" string "string option" "nat option"
  | RollbackSet int string "string option" string nat "string option" "nat option"
  | CreateSet int string string string string
  | RemoveSet int string string "nat option"
  | AssignTargets int "string \<Rightarrow> string" string string "assignment_target list"
  | UnassignTarget int string string assignment_target
  | UnassignTargets int string string "assignment_target list"
  | EditDraft authoring_db
  | PlanChanged string

definition draft_edit :: "authoring_db \<Rightarrow> authoring_db \<Rightarrow> bool" where
  "draft_edit adb adb' \<longleftrightarrow> map (\<lambda>s. s\<lparr>st_name := [], rowVersion := 0\<rparr>) (db_sets adb')
     = map (\<lambda>s. s\<lparr>st_name := [], rowVersion := 0\<rparr>) (db_sets adb)"

fun attempt :: "(string \<Rightarrow> bool) \<Rightarrow> (string \<Rightarrow> jsval) \<Rightarrow> store_request \<Rightarrow> platform \<Rightarrow> api_error + platform" where
  "attempt regexp_ok json_parse (PublishSet now t user i note expected) db =
     map_sum id snd (publish regexp_ok now t user i note expected db)"
| "attempt regexp_ok json_parse (RollbackSet now t user i v note expected) db =
     map_sum id snd (rollback now t user i v note expected db)"
| "attempt regexp_ok json_parse (CreateSet now t new_id name w) db =
     (if new_id \<in> st_id ` set (pf_sets db) then Inl (Crash ''ER_DUP_ENTRY'')
      else map_sum id snd (create_set json_parse now t new_id name w db))"
| "attempt regexp_ok json_parse (RemoveSet now t i expected) db = remove_set now t i expected db"
| "attempt regexp_ok json_parse (AssignTargets now new_id t i targets) db =
     bind_result (assign json_parse now new_id t i targets db) (\<lambda>(_, _, db').
       if distinct (map as_id (pf_assignments db')) then Inr db' else Inl (Crash ''ER_DUP_ENTRY''))"
| "attempt regexp_ok json_parse (UnassignTarget now t i g) db = map_sum id (\<lambda>(_, _, db'). db') (unassign now t i g db)"
| "attempt regexp_ok json_parse (UnassignTargets now t i gs) db = map_sum id (\<lambda>(_, _, _, db'). db') (unassignMany now t i gs db)"
| "attempt regexp_ok json_parse (EditDraft adb) db =
     (if draft_edit (pf_authoring db) adb then Inr (db\<lparr>pf_authoring := adb\<rparr>) else Inl (Refused ''EditDraft''))"
| "attempt regexp_ok json_parse (PlanChanged t) db = Inr (snd (invalidate t db))"

definition handle :: "(string \<Rightarrow> bool) \<Rightarrow> (string \<Rightarrow> jsval) \<Rightarrow> store_request \<Rightarrow> platform \<Rightarrow> platform" where
  "handle regexp_ok json_parse r db = (case attempt regexp_ok json_parse r db of Inl _ \<Rightarrow> db | Inr db' \<Rightarrow> db')"

abbreviation handle_all :: "(string \<Rightarrow> bool) \<Rightarrow> (string \<Rightarrow> jsval) \<Rightarrow> store_request list \<Rightarrow> platform \<Rightarrow> platform" where
  "handle_all regexp_ok json_parse rs db \<equiv> fold (handle regexp_ok json_parse) rs db"

definition valid_platform :: "platform \<Rightarrow> bool" where
  "valid_platform db \<longleftrightarrow> distinct (map st_id (pf_sets db)) \<and> distinct (map as_id (pf_assignments db)) \<and> valid_versions db
     \<and> fst ` version_id ` set (pf_versions db) \<subseteq> st_id ` set (pf_sets db)
     \<and> list_all (\<lambda>s. st_status s = PUBLISHED \<longrightarrow> 1 \<le> st_version s) (pf_sets db)
     \<and> list_all (\<lambda>s. \<forall>v. (st_id s, v) \<in> version_id ` set (pf_versions db) \<longleftrightarrow> 1 \<le> v \<and> v \<le> st_version s) (pf_sets db)"

lemma valid_history:
  "valid_platform db \<Longrightarrow> s \<in> set (pf_sets db) \<Longrightarrow> (st_id s, v) \<in> version_id ` set (pf_versions db) \<longleftrightarrow> 1 \<le> v \<and> v \<le> st_version s"
  unfolding valid_platform_def list_all_iff by blast

lemma valid_ids: "valid_platform db \<Longrightarrow> distinct (map st_id (pf_sets db))"
  by (simp add: valid_platform_def)

text \<open>What every request does: revisions never go back, and a store whose revision stays is served the same.\<close>

definition coherent :: "platform \<Rightarrow> platform \<Rightarrow> bool" where
  "coherent db db' \<longleftrightarrow> (\<forall>w. (\<forall>v. store_version db w = Some v \<longrightarrow> (\<exists>v'. store_version db' w = Some v' \<and> v \<le> v'))
     \<and> (store_version db' w = store_version db w \<longrightarrow> option_sets w db' = option_sets w db))"

lemma coherent_refl [simp]: "coherent db db"
  by (simp add: coherent_def)

lemma coherent_trans:
  assumes "coherent a b" and "coherent b c"
  shows "coherent a c"
  unfolding coherent_def
proof (intro allI conjI impI)
  fix w v assume "store_version a w = Some v"
  then obtain v1 where v1: "store_version b w = Some v1" "v \<le> v1" using assms(1) by (auto simp: coherent_def)
  then obtain v2 where "store_version c w = Some v2" "v1 \<le> v2" using assms(2) by (auto simp: coherent_def)
  then show "\<exists>v'. store_version c w = Some v' \<and> v \<le> v'" using v1 by auto
next
  fix w assume same: "store_version c w = store_version a w"
  have "store_version b w = store_version a w"
  proof (cases "store_version a w")
    case None
    have "store_version b w = None"
    proof (rule ccontr)
      assume "store_version b w \<noteq> None"
      then obtain v where "store_version b w = Some v" by blast
      then have "\<exists>v'. store_version c w = Some v'" using assms(2) unfolding coherent_def by blast
      then show False using same None by simp
    qed
    then show ?thesis using None by simp
  next
    case (Some v)
    then obtain v1 where v1: "store_version b w = Some v1" "v \<le> v1" using assms(1) by (auto simp: coherent_def)
    then obtain v2 where "store_version c w = Some v2" "v1 \<le> v2" using assms(2) by (auto simp: coherent_def)
    then show ?thesis using v1 Some same by simp
  qed
  then show "option_sets w c = option_sets w a" using same assms by (simp add: coherent_def)
qed

lemma coherent_step:
  assumes "valid_versions db" "valid_versions db'" and "store_version db w0 = Some (n - 1)" "0 < n"
    and "\<And>w. store_version db' w = (if w = w0 then Some n else store_version db w)"
    and "\<And>w. w \<noteq> w0 \<Longrightarrow> published_keys w db' = published_keys w db"
    and "\<And>w i v. w \<noteq> w0 \<Longrightarrow> (i, v) \<in> set (published_keys w db) \<Longrightarrow> served db' i v = served db i v"
  shows "coherent db db'"
  unfolding coherent_def
proof (intro allI conjI impI)
  fix w assume same: "store_version db' w = store_version db w"
  have "w \<noteq> w0" using same assms(3-5) by (auto split: if_splits)
  then show "option_sets w db' = option_sets w db" using assms by (intro option_sets_cong) auto
qed (use assms in \<open>auto split: if_splits\<close>)

subsection \<open>Writing a version\<close>

lemma set_row_unique:
  assumes "distinct (map st_id sets)" and "s \<in> set sets" and "s' \<in> set sets" and "st_id s = st_id s'"
  shows "s = s'"
  using assms by (metis distinct_map inj_onD)

lemma filter_update_other:
  assumes "\<And>s. s \<in> set rows \<Longrightarrow> P s \<Longrightarrow> \<not> Q s \<and> \<not> Q (f s)"
  shows "filter Q (update_rows P f rows) = filter Q rows"
  using assms by (induction rows) (auto simp: update_rows_def)

lemma set_update_rows: "set (update_rows P f rows) = f ` {x \<in> set rows. P x} \<union> {x \<in> set rows. \<not> P x}"
  by (auto simp: update_rows_def)

lemma published_keys_update:
  assumes "\<And>s. s \<in> set (pf_sets db) \<Longrightarrow> P s \<Longrightarrow> \<not> (st_storeId s = w \<and> st_status s = PUBLISHED \<and> st_deletedAt s = LIVE_SENTINEL)
      \<and> \<not> (st_storeId (f s) = w \<and> st_status (f s) = PUBLISHED \<and> st_deletedAt (f s) = LIVE_SENTINEL)"
    and "pf_sets db' = update_rows P f (pf_sets db)"
  shows "published_keys w db' = published_keys w db"
  unfolding published_keys_def published_sets_def assms(2)
  by (subst filter_update_other) (use assms(1) in auto)

lemma in_published_keys:
  "(i, v) \<in> set (published_keys w db) \<longleftrightarrow> (\<exists>s\<in>set (pf_sets db). st_id s = i \<and> st_version s = v \<and> st_storeId s = w
     \<and> st_status s = PUBLISHED \<and> st_deletedAt s = LIVE_SENTINEL)"
  by (auto simp: published_keys_def published_sets_def)

lemma write_version_Inr:
  assumes "write_version now user i snap note db = Inr (version, config, db')" and s: "lockSet db i = Some s"
  shows "s \<in> set (pf_sets db)" and "st_id s = i" and "st_deletedAt s = LIVE_SENTINEL" and "version = st_version s + 1"
    and "store_version db (st_storeId s) = Some (config - 1)" and "0 < config"
    and "store_version db' w = (if w = st_storeId s then Some config else store_version db w)"
    and "pf_sets db' = update_rows (\<lambda>s. st_id s = i) (published_as version now user config) (pf_sets db)"
    and "pf_versions db' = pf_versions db @ [\<lparr>vr_setId = i, vr_version = version,
      vr_snapshot = js_with ''version'' (JNum (Fin (of_nat version))) snap, vr_publishedBy = user, vr_publishedAt = now, vr_note = note\<rparr>]"
    and "pf_assignments db' = pf_assignments db"
proof -
  show "s \<in> set (pf_sets db)" "st_id s = i" "st_deletedAt s = LIVE_SENTINEL"
    using s by (auto simp: lockSet_def find_row_def dest: find_Some_in)
  let ?row = "\<lparr>vr_setId = i, vr_version = version, vr_snapshot = js_with ''version'' (JNum (Fin (of_nat version))) snap,
    vr_publishedBy = user, vr_publishedAt = now, vr_note = note\<rparr>"
  show "version = st_version s + 1" using assms by (auto simp: write_version_def Let_def bind_result_Inr_iff)
  obtain db1 where b: "bump (st_storeId s) (db\<lparr>pf_versions := pf_versions db @ [?row]\<rparr>) = Inr (config, db1)"
    and db': "db' = update_sets (update_rows (\<lambda>s. st_id s = i) (published_as version now user config)) db1"
    using assms by (auto simp: write_version_def Let_def bind_result_Inr_iff)
  note bump = bump_Inr [OF b]
  show "store_version db (st_storeId s) = Some (config - 1)" "0 < config"
    "store_version db' w = (if w = st_storeId s then Some config else store_version db w)"
    "pf_sets db' = update_rows (\<lambda>s. st_id s = i) (published_as version now user config) (pf_sets db)"
    "pf_versions db' = pf_versions db @ [?row]" "pf_assignments db' = pf_assignments db"
    using bump by (simp_all add: db' update_sets_def store_version_def)
qed

lemma find_snoc: "List.find P (xs @ [x]) = (if P x \<and> (\<forall>y\<in>set xs. \<not> P y) then Some x else List.find P xs)"
  by (induction xs) auto

lemma served_append_version:
  assumes "pf_versions db' = pf_versions db @ [row]" and "pf_assignments db' = pf_assignments db"
    and "(j, v) \<in> version_id ` set (pf_versions db) \<or> (j, v) \<noteq> version_id row"
  shows "served db' j v = served db j v"
proof -
  have "find_row (\<lambda>r. vr_setId r = j \<and> vr_version r = v) (pf_versions db')
      = find_row (\<lambda>r. vr_setId r = j \<and> vr_version r = v) (pf_versions db)"
    using assms(3) unfolding assms(1) find_row_def find_snoc by (auto simp: version_id_def)
  then show ?thesis by (simp add: served_def snapshot_of_def live_assignments_def assms(2))
qed

lemma write_version_step:
  assumes "write_version now user i snap note db = Inr (version, config, db')" and "valid_platform db"
  shows "valid_platform db'" and "coherent db db'" and "snapshot_of db' i version = Some (js_with ''version'' (JNum (Fin (of_nat version))) snap)"
    and "\<exists>s\<in>set (pf_sets db'). st_id s = i \<and> st_version s = version \<and> st_status s = PUBLISHED \<and> st_deletedAt s = LIVE_SENTINEL"
    and "\<And>j v. (j, v) \<in> version_id ` set (pf_versions db) \<Longrightarrow> (j, v) \<in> version_id ` set (pf_versions db') \<and> snapshot_of db' j v = snapshot_of db j v"
proof -
  obtain s where lock: "lockSet db i = Some s" using assms(1) by (auto simp: write_version_def split: option.splits)
  note wrote = write_version_Inr [OF assms(1) lock]
  note s = wrote(1-4) and sv = wrote(5-7) and sets = wrote(8) and vs = wrote(9) and as = wrote(10)
  note hist = valid_history [OF assms(2)]
  have new: "(i, version) \<notin> version_id ` set (pf_versions db)"
    using hist [OF s(1), of version] s by simp
  have only: "s' = s" if "s' \<in> set (pf_sets db)" "st_id s' = i" for s'
    using set_row_unique [OF valid_ids [OF assms(2)] that(1) s(1)] that(2) s(2) by simp
  have ids: "map st_id (pf_sets db') = map st_id (pf_sets db)"
    by (simp add: sets update_rows_def published_as_def)
  have in_sets: "s' \<in> set (pf_sets db') \<longleftrightarrow> s' = published_as version now user config s \<or> (s' \<in> set (pf_sets db) \<and> st_id s' \<noteq> i)" for s'
  proof -
    have "x \<in> set (pf_sets db) \<and> st_id x = i \<longleftrightarrow> x = s" for x
      using only [of x] s(1,2) by (cases "x = s") auto
    then have "{x \<in> set (pf_sets db). st_id x = i} = {s}" by simp
    then show ?thesis unfolding sets set_update_rows by simp
  qed
  have ver: "version_id ` set (pf_versions db') = insert (i, version) (version_id ` set (pf_versions db))"
    by (simp add: vs version_id_def)
  have old: "valid_versions db" "distinct (map as_id (pf_assignments db))" "fst ` version_id ` set (pf_versions db) \<subseteq> st_id ` set (pf_sets db)"
    "\<And>s. s \<in> set (pf_sets db) \<Longrightarrow> st_status s = PUBLISHED \<Longrightarrow> 1 \<le> st_version s"
    using assms(2) by (simp_all add: valid_platform_def list_all_iff)
  have versions: "valid_versions db'"
    using old(1) new by (simp add: valid_versions_def vs) (simp add: version_id_def)
  show "valid_platform db'"
    unfolding valid_platform_def
  proof (intro conjI)
    have "st_id ` set (pf_sets db') = st_id ` set (pf_sets db)" by (metis ids set_map)
    then show "fst ` version_id ` set (pf_versions db') \<subseteq> st_id ` set (pf_sets db')"
      using old(3) s(1,2) unfolding ver by auto
    show "list_all (\<lambda>s. st_status s = PUBLISHED \<longrightarrow> 1 \<le> st_version s) (pf_sets db')"
      using old(4) by (auto simp: list_all_iff in_sets published_as_def s(4))
    have "(st_id s', v) \<in> version_id ` set (pf_versions db') \<longleftrightarrow> 1 \<le> v \<and> v \<le> st_version s'" if "s' \<in> set (pf_sets db')" for s' v
    proof (cases "st_id s' = i")
      case True
      then have "s' = published_as version now user config s" using that in_sets by blast
      then show ?thesis using hist [OF s(1), of v] s unfolding ver by (auto simp: published_as_def)
    next
      case False
      then show ?thesis using hist [of s' v] that in_sets unfolding ver by (auto simp: published_as_def s(2))
    qed
    then show "list_all (\<lambda>s. \<forall>v. (st_id s, v) \<in> version_id ` set (pf_versions db') \<longleftrightarrow> 1 \<le> v \<and> v \<le> st_version s) (pf_sets db')"
      by (simp add: list_all_iff)
  qed (use valid_ids [OF assms(2)] versions old(2) in \<open>simp_all add: ids as\<close>)
  show "coherent db db'"
  proof (rule coherent_step [OF _ versions sv])
    show "valid_versions db" by (rule old)
    show "published_keys w db' = published_keys w db" if "w \<noteq> st_storeId s" for w
      using only that by (intro published_keys_update [OF _ sets]) (auto simp: published_as_def)
    show "served db' j v = served db j v" if "w \<noteq> st_storeId s" "(j, v) \<in> set (published_keys w db)" for w j v
      using that only by (intro served_append_version [OF vs as]) (auto simp: in_published_keys version_id_def)
  qed
  show "snapshot_of db' i version = Some (js_with ''version'' (JNum (Fin (of_nat version))) snap)"
    using new by (auto simp: snapshot_of_def vs find_row_def find_snoc version_id_def image_iff)
  show "\<exists>s\<in>set (pf_sets db'). st_id s = i \<and> st_version s = version \<and> st_status s = PUBLISHED \<and> st_deletedAt s = LIVE_SENTINEL"
    using s by (intro bexI [of _ "published_as version now user config s"]) (auto simp: in_sets published_as_def)
  show "(j, v) \<in> version_id ` set (pf_versions db') \<and> snapshot_of db' j v = snapshot_of db j v"
    if "(j, v) \<in> version_id ` set (pf_versions db)" for j v
    using that new unfolding ver
    by (auto simp: snapshot_of_def vs find_row_def find_snoc version_id_def)
qed

subsection \<open>The other writes\<close>

lemma record_audit_same [simp]:
  "pf_authoring (record_audit a db) = pf_authoring db" "pf_versions (record_audit a db) = pf_versions db"
  "pf_assignments (record_audit a db) = pf_assignments db" "pf_stores (record_audit a db) = pf_stores db"
  by (simp_all add: record_audit_def)

lemma audited [simp]:
  "valid_platform (record_audit a db) = valid_platform db" "coherent db' (record_audit a db) = coherent db' db"
  "snapshot_of (record_audit a db) = snapshot_of db" "published_keys w (record_audit a db) = published_keys w db"
  by (simp_all add: valid_platform_def valid_versions_def coherent_def option_sets_def store_version_def snapshot_of_def
      published_keys_def fun_eq_iff)

lemma valid_same_keys:
  assumes "valid_platform db" and "map (\<lambda>s. (st_id s, st_status s, st_version s)) (pf_sets db') = map (\<lambda>s. (st_id s, st_status s, st_version s)) (pf_sets db)"
    and "pf_versions db' = pf_versions db" and "distinct (map as_id (pf_assignments db'))"
  shows "valid_platform db'"
proof -
  have ids: "map st_id (pf_sets db') = map st_id (pf_sets db)"
    using arg_cong [OF assms(2), of "map fst"] by (simp add: comp_def)
  have all: "list_all (\<lambda>s. P (st_id s) (st_status s) (st_version s)) (pf_sets db')
      = list_all (\<lambda>s. P (st_id s) (st_status s) (st_version s)) (pf_sets db)" for P
    using arg_cong [OF assms(2), of "list_all (\<lambda>(i, st, v). P i st v)"] by (simp add: list_all_iff)
  have "st_id ` set (pf_sets db') = st_id ` set (pf_sets db)" by (metis ids set_map)
  then show ?thesis
    using assms(1,4) all [of "\<lambda>i st v. st = PUBLISHED \<longrightarrow> 1 \<le> v"]
      all [of "\<lambda>i st v. \<forall>n. (i, n) \<in> version_id ` set (pf_versions db) \<longleftrightarrow> 1 \<le> n \<and> n \<le> v"]
    unfolding valid_platform_def valid_versions_def assms(3) ids by blast
qed

lemma assignments_step:
  assumes "valid_platform db" and "findById t (pf_sets db) i = Some s" and "distinct (map as_id rows)"
    and "\<And>j. j \<noteq> i \<Longrightarrow> filter (\<lambda>a. as_setId a = j \<and> as_deletedAt a = LIVE_SENTINEL) rows
      = filter (\<lambda>a. as_setId a = j \<and> as_deletedAt a = LIVE_SENTINEL) (pf_assignments db)"
    and "assignment_result (st_storeId s) i (db\<lparr>pf_assignments := rows\<rparr>) = Inr (views, v, db')"
  shows "valid_platform db' \<and> coherent db db' \<and> pf_versions db' = pf_versions db"
proof -
  have s: "s \<in> set (pf_sets db)" "st_id s = i" using assms(2) by (auto simp: findById_def find_row_def dest: find_Some_in)
  have only: "s' = s" if "s' \<in> set (pf_sets db)" "st_id s' = i" for s'
    using set_row_unique [OF valid_ids [OF assms(1)] that(1) s(1)] that(2) s(2) by simp
  have b: "bump (st_storeId s) (db\<lparr>pf_assignments := rows\<rparr>) = Inr (v, db')"
    using assms(5) by (auto simp: assignment_result_def bind_result_Inr_iff)
  note bumped = bump_Inr [OF b]
  have same: "pf_authoring db' = pf_authoring db" "pf_versions db' = pf_versions db" "pf_assignments db' = rows"
    using bumped by simp_all
  have valid: "valid_platform db'" by (rule valid_same_keys [OF assms(1)]) (simp_all add: same assms(3))
  moreover have "coherent db db'"
  proof (rule coherent_step)
    show "valid_versions db" "valid_versions db'" using valid assms(1) by (simp_all add: valid_platform_def)
    show "store_version db (st_storeId s) = Some (v - 1)" "0 < v"
      "store_version db' w = (if w = st_storeId s then Some v else store_version db w)" for w
      using bumped by (simp_all add: store_version_def)
    show "published_keys w db' = published_keys w db" for w by (simp add: published_keys_def same)
    show "served db' j n = served db j n" if "w \<noteq> st_storeId s" "(j, n) \<in> set (published_keys w db)" for w j n
    proof -
      have "j \<noteq> i" using that only by (auto simp: in_published_keys)
      then show ?thesis using assms(4) by (simp add: served_def snapshot_of_def live_assignments_def same)
    qed
  qed
  ultimately show ?thesis using same by simp
qed

lemma assignment_result_rows:
  assumes "assignment_result w i db = Inr (views, v, db')"
  shows "pf_assignments db' = pf_assignments db"
proof -
  have "bump w db = Inr (v, db')" using assms by (auto simp: assignment_result_def bind_result_Inr_iff)
  then show ?thesis by (rule bump_Inr)
qed

lemma wanted_ids: "map as_id (update_rows P (\<lambda>a. a\<lparr>as_deletedAt := n\<rparr>) rows) = map as_id rows"
  by (simp add: update_rows_def)

lemma filter_upserts:
  "j \<noteq> i \<Longrightarrow> filter (\<lambda>a. as_setId a = j \<and> as_deletedAt a = LIVE_SENTINEL) (fold (upsert_assignment new_id i) gs rows)
    = filter (\<lambda>a. as_setId a = j \<and> as_deletedAt a = LIVE_SENTINEL) rows"
  by (induction gs arbitrary: rows) (auto simp: upsert_assignment_def)

lemma assign_step:
  assumes "assign json_parse now new_id t i targets db = Inr (views, v, db')" and "distinct (map as_id (pf_assignments db'))" and "valid_platform db"
  shows "valid_platform db' \<and> coherent db db' \<and> pf_versions db' = pf_versions db"
proof -
  obtain s where s: "findById t (pf_sets db) i = Some s"
    and r: "assignment_result (st_storeId s) i (db\<lparr>pf_assignments := fold (upsert_assignment new_id i) (wanted_targets targets) (pf_assignments db)\<rparr>)
      = Inr (views, v, db')"
    using assms(1) by (auto simp: assign_def requireSet_def Let_def bind_result_Inr_iff split: option.splits)
  have "pf_assignments db' = fold (upsert_assignment new_id i) (wanted_targets targets) (pf_assignments db)"
    using assignment_result_rows [OF r] by simp
  then have "distinct (map as_id (fold (upsert_assignment new_id i) (wanted_targets targets) (pf_assignments db)))"
    using assms(2) by simp
  then show ?thesis by (rule assignments_step [OF assms(3) s _ filter_upserts r])
qed

lemma unassign_step:
  assumes "unassign now t i g db = Inr (views, v, db')" and "valid_platform db"
  shows "valid_platform db' \<and> coherent db db' \<and> pf_versions db' = pf_versions db"
proof -
  obtain s where s: "findById t (pf_sets db) i = Some s"
    and r: "assignment_result (st_storeId s) i (db\<lparr>pf_assignments := update_rows (manual_target i g) (\<lambda>a. a\<lparr>as_deletedAt := now\<rparr>) (pf_assignments db)\<rparr>)
      = Inr (views, v, db')"
    using assms(1) by (auto simp: unassign_def requireSet_def Let_def bind_result_Inr_iff split: option.splits if_splits)
  show ?thesis
    by (rule assignments_step [OF assms(2) s _ _ r])
      (use assms(2) in \<open>auto simp: wanted_ids valid_platform_def manual_target_def intro!: filter_update_other\<close>)
qed

lemma unassignMany_step:
  assumes "unassignMany now t i gs db = Inr (views, v, n, db')" and "valid_platform db"
  shows "valid_platform db' \<and> coherent db db' \<and> pf_versions db' = pf_versions db"
proof -
  let ?gone = "\<lambda>a. list_ex (\<lambda>g. manual_target i g a) (wanted_targets gs)"
  obtain s where s: "findById t (pf_sets db) i = Some s"
    and r: "assignment_result (st_storeId s) i (db\<lparr>pf_assignments := update_rows ?gone (\<lambda>a. a\<lparr>as_deletedAt := now\<rparr>) (pf_assignments db)\<rparr>)
      = Inr (views, v, db')"
    using assms(1) by (auto simp: unassignMany_def requireSet_def Let_def bind_result_Inr_iff split: option.splits if_splits)
  show ?thesis
    by (rule assignments_step [OF assms(2) s _ _ r])
      (use assms(2) in \<open>auto simp: wanted_ids valid_platform_def manual_target_def list_ex_iff intro!: filter_update_other\<close>)
qed

lemma coherent_quiet:
  assumes "valid_versions db" and "valid_versions db'" and "\<And>w. store_version db' w = store_version db w"
    and "\<And>w. published_keys w db' = published_keys w db"
    and "\<And>w i v. (i, v) \<in> set (published_keys w db) \<Longrightarrow> served db' i v = served db i v"
  shows "coherent db db'"
  unfolding coherent_def using assms by (auto intro!: option_sets_cong)

lemma bump_step:
  assumes "bump w db = Inr (v, db')" and "valid_platform db"
  shows "valid_platform db' \<and> coherent db db' \<and> pf_versions db' = pf_versions db"
proof -
  note b = bump_Inr [OF assms(1)]
  have same: "pf_authoring db' = pf_authoring db" "pf_versions db' = pf_versions db" "pf_assignments db' = pf_assignments db"
    by (rule b)+
  have valid: "valid_platform db'"
    by (rule valid_same_keys [OF assms(2)]) (use assms(2) in \<open>simp_all add: same valid_platform_def\<close>)
  moreover have "coherent db db'"
    by (rule coherent_step [where n = v])
      (use b(1-3) valid assms(2) in \<open>simp_all add: valid_platform_def published_keys_def served_def snapshot_of_def live_assignments_def same\<close>)
  ultimately show ?thesis using same by simp
qed

lemma invalidate_step:
  "valid_platform db \<Longrightarrow> valid_platform (snd (invalidate_loop stores n db)) \<and> coherent db (snd (invalidate_loop stores n db))
    \<and> pf_versions (snd (invalidate_loop stores n db)) = pf_versions db"
proof (induction stores arbitrary: n db)
  case (Cons s stores)
  show ?case
  proof (cases "bump (store_id s) db")
    case (Inl e)
    then show ?thesis using Cons by simp
  next
    case (Inr r)
    then obtain v db' where b: "bump (store_id s) db = Inr (v, db')" by (cases r) auto
    note step = bump_step [OF b Cons.prems]
    then show ?thesis using Cons.IH [of db' "n + 1"] b coherent_trans [of db db'] by simp
  qed
qed simp

lemma create_step:
  assumes "create_set json_parse now t new_id name w db = Inr (s, db')" and "new_id \<notin> st_id ` set (pf_sets db)" and "valid_platform db"
  shows "valid_platform db' \<and> coherent db db' \<and> pf_versions db' = pf_versions db"
proof -
  obtain a where db': "db' = record_audit a (update_sets (\<lambda>sets. sets @ [s]) db)" and s: "st_id s = new_id" "st_status s = DRAFT" "st_version s = 0"
    using assms(1) by (auto simp: create_set_def bind_result_Inr_iff Let_def)
  let ?db = "update_sets (\<lambda>sets. sets @ [s]) db"
  have same: "pf_sets ?db = pf_sets db @ [s]" "pf_versions ?db = pf_versions db" "pf_assignments ?db = pf_assignments db"
    "pf_stores ?db = pf_stores db" by (simp_all add: update_sets_def)
  have old: "distinct (map as_id (pf_assignments db))" "valid_versions db" "fst ` version_id ` set (pf_versions db) \<subseteq> st_id ` set (pf_sets db)"
    "list_all (\<lambda>s. st_status s = PUBLISHED \<longrightarrow> 1 \<le> st_version s) (pf_sets db)"
    using assms(3) by (simp_all add: valid_platform_def)
  have "(new_id, v) \<notin> version_id ` set (pf_versions db)" for v
    using assms(2) old(3) by (metis fst_conv image_eqI subsetD)
  then have "(st_id s', v) \<in> version_id ` set (pf_versions db) \<longleftrightarrow> 1 \<le> v \<and> v \<le> st_version s'" if "s' \<in> set (pf_sets ?db)" for s' v
    using valid_history [OF assms(3), of s' v] that by (cases "s' = s") (simp_all add: same s)
  then have "list_all (\<lambda>s. \<forall>v. (st_id s, v) \<in> version_id ` set (pf_versions ?db) \<longleftrightarrow> 1 \<le> v \<and> v \<le> st_version s) (pf_sets ?db)"
    by (simp only: list_all_iff same(2)) blast
  moreover have "distinct (map st_id (pf_sets ?db))" using valid_ids [OF assms(3)] assms(2) by (simp add: same s)
  moreover have "fst ` version_id ` set (pf_versions db) \<subseteq> st_id ` set (pf_sets ?db)" using old(3) by (simp add: same) blast
  ultimately have valid: "valid_platform ?db"
    using old unfolding valid_platform_def by (simp add: valid_versions_def same s)
  moreover have "coherent db ?db"
    by (rule coherent_quiet) (use valid assms(3) s in \<open>simp_all add: valid_platform_def published_keys_def published_sets_def
      served_def snapshot_of_def live_assignments_def store_version_def same\<close>)
  ultimately show ?thesis by (simp add: db' same)
qed

lemma sort_key_map: "sort_key k (map g xs) = map g (sort_key (\<lambda>x. k (g x)) xs)"
proof -
  have "insort_key k (g x) (map g ys) = map g (insort_key (\<lambda>x. k (g x)) x ys)" for x ys
    by (induction ys) auto
  then show ?thesis by (induction xs) auto
qed

lemma edit_step:
  assumes "draft_edit (pf_authoring db) adb" and "valid_platform db"
  shows "valid_platform (db\<lparr>pf_authoring := adb\<rparr>) \<and> coherent db (db\<lparr>pf_authoring := adb\<rparr>)"
proof -
  let ?g = "\<lambda>s. s\<lparr>st_name := [], rowVersion := 0\<rparr>" and ?db = "db\<lparr>pf_authoring := adb\<rparr>"
  have g: "map ?g (pf_sets ?db) = map ?g (pf_sets db)" using assms(1) by (simp add: draft_edit_def)
  have keys: "map (\<lambda>s. (st_id s, st_status s, st_version s)) (pf_sets ?db) = map (\<lambda>s. (st_id s, st_status s, st_version s)) (pf_sets db)"
    using arg_cong [OF g, of "map (\<lambda>s. (st_id s, st_status s, st_version s))"] by (simp add: comp_def)
  have "published_keys w d = map (\<lambda>s. (st_id s, st_version s)) (published_sets w (map ?g (pf_sets d)))" for w d
    by (simp add: published_keys_def published_sets_def filter_map comp_def sort_key_map)
  then have published: "published_keys w ?db = published_keys w db" for w using g by simp
  have valid: "valid_platform ?db"
    using assms(2) by (intro valid_same_keys [OF assms(2) keys]) (simp_all add: valid_platform_def)
  moreover have "coherent db ?db"
    by (rule coherent_quiet) (use valid assms(2) published in \<open>simp_all add: valid_platform_def served_def snapshot_of_def
      live_assignments_def store_version_def\<close>)
  ultimately show ?thesis by simp
qed

lemma delete_children_sets [simp]: "db_sets (delete_children i n adb) = db_sets adb"
  by (simp add: delete_children_def Let_def)

lemma delete_assignments_ids: "map as_id (delete_assignments i n rows) = map as_id rows"
  by (simp add: delete_assignments_def Let_def wanted_ids)

lemma delete_assignments_other:
  assumes "distinct (map as_id rows)" and "j \<noteq> i"
  shows "filter (\<lambda>a. as_setId a = j \<and> as_deletedAt a = LIVE_SENTINEL) (delete_assignments i n rows)
    = filter (\<lambda>a. as_setId a = j \<and> as_deletedAt a = LIVE_SENTINEL) rows"
  unfolding delete_assignments_def Let_def
proof (rule filter_update_other)
  fix a assume a: "a \<in> set rows" "as_id a \<in> set (map as_id (filter (\<lambda>a. as_setId a = i \<and> as_deletedAt a = LIVE_SENTINEL) rows))"
  then obtain b where "b \<in> set rows" "as_id b = as_id a" "as_setId b = i" by auto
  then have "as_setId a = i" using assms(1) a(1) by (metis distinct_map inj_onD)
  then show "\<not> (as_setId a = j \<and> as_deletedAt a = LIVE_SENTINEL) \<and> \<not> (as_setId (a\<lparr>as_deletedAt := n\<rparr>) = j
      \<and> as_deletedAt (a\<lparr>as_deletedAt := n\<rparr>) = LIVE_SENTINEL)" using assms(2) by simp
qed

lemma remove_step:
  assumes "remove_set now t i expected db = Inr db'" and "valid_platform db"
  shows "valid_platform db' \<and> coherent db db' \<and> pf_versions db' = pf_versions db"
proof -
  obtain s where found: "findById t (pf_sets db) i = Some s" and commit: "remove_commit now s db = Inr db'"
    using assms(1) by (auto simp: remove_set_def bind_result_Inr_iff split: option.splits)
  have s: "s \<in> set (pf_sets db)" "st_id s = i" "st_deletedAt s = LIVE_SENTINEL"
    using found by (auto simp: findById_def find_row_def dest: find_Some_in)
  have only: "s' = s" if "s' \<in> set (pf_sets db)" "st_id s' = i" for s'
    using set_row_unique [OF valid_ids [OF assms(2)] that(1) s(1)] that(2) s(2) by simp
  define claimed :: "set_row \<Rightarrow> bool" where "claimed = (\<lambda>s. st_id s = i \<and> st_deletedAt s = LIVE_SENTINEL)"
  define gone :: "set_row \<Rightarrow> set_row" where "gone = (\<lambda>s. s\<lparr>st_deletedAt := now, rowVersion := rowVersion s + 1\<rparr>)"
  define db1 where "db1 = update_sets (update_rows claimed gone) db"
  have "list_ex claimed (pf_sets db)" using s by (auto simp: list_ex_iff claimed_def)
  then obtain bumped db2 a where b: "bumpIfVisible (st_storeId s) (st_status s = PUBLISHED) db1 = Inr (bumped, db2)"
    and db': "db' = record_audit a (db2\<lparr>pf_authoring := delete_children i now (pf_authoring db2),
      pf_assignments := delete_assignments i now (pf_assignments db2)\<rparr>)"
    using commit s by (auto simp: remove_commit_def onOptionSetDeleted_def Let_def bind_result_Inr_iff db1_def claimed_def gone_def)
  let ?db = "db2\<lparr>pf_authoring := delete_children i now (pf_authoring db2), pf_assignments := delete_assignments i now (pf_assignments db2)\<rparr>"
  have same: "pf_authoring db2 = pf_authoring db1" "pf_versions db2 = pf_versions db1" "pf_assignments db2 = pf_assignments db1"
    using b bump_Inr(4-6) [of "st_storeId s" db1] by (auto simp: bumpIfVisible_def bind_result_Inr_iff split: if_splits)
  have sets: "pf_sets ?db = update_rows claimed gone (pf_sets db)" "pf_versions ?db = pf_versions db"
    "pf_assignments ?db = delete_assignments i now (pf_assignments db)"
    by (simp_all add: same db1_def update_sets_def)
  have ids: "distinct (map as_id (pf_assignments db))" and vs: "valid_versions db" using assms(2) by (simp_all add: valid_platform_def)
  have valid: "valid_platform ?db"
    by (rule valid_same_keys [OF assms(2)]) (use ids sets in \<open>simp_all add: delete_assignments_ids update_rows_def gone_def\<close>)
  have vs': "valid_versions ?db" using valid by (simp add: valid_platform_def)
  have keys: "published_keys w ?db = published_keys w db" if "\<not> (st_storeId s = w \<and> st_status s = PUBLISHED)" for w
    using only that by (intro published_keys_update [OF _ sets(1)]) (auto simp: claimed_def gone_def)
  have serves: "served ?db j v = served db j v" if "j \<noteq> i" for j v
    using delete_assignments_other [OF ids that] by (simp add: served_def snapshot_of_def live_assignments_def sets)
  have published: "j \<noteq> i" if "(j, v) \<in> set (published_keys w db)" "\<not> (st_storeId s = w \<and> st_status s = PUBLISHED)" for w j v
    using that only by (auto simp: in_published_keys)
  have "coherent db ?db"
  proof (cases "st_status s = PUBLISHED")
    case False
    then have "store_version ?db w = store_version db w" for w
      using b by (auto simp: bumpIfVisible_def store_version_def db1_def update_sets_def)
    then show ?thesis using False keys serves published by (intro coherent_quiet [OF vs vs']) blast+
  next
    case True
    then obtain v where "bump (st_storeId s) db1 = Inr (v, db2)" using b by (auto simp: bumpIfVisible_def bind_result_Inr_iff)
    note bumped = bump_Inr(1-3) [OF this]
    have stores: "store_version db1 w = store_version db w" "store_version ?db w = store_version db2 w" for w
      by (simp_all add: store_version_def db1_def update_sets_def)
    show ?thesis
    proof (rule coherent_step [OF vs vs', of "st_storeId s" v])
      show "store_version db (st_storeId s) = Some (v - 1)" "0 < v"
        "store_version ?db w = (if w = st_storeId s then Some v else store_version db w)" for w
        using bumped by (simp_all add: stores)
      show "published_keys w ?db = published_keys w db" if "w \<noteq> st_storeId s" for w
        by (rule keys) (use that in simp)
      show "served ?db j n = served db j n" if "w \<noteq> st_storeId s" "(j, n) \<in> set (published_keys w db)" for w j n
        by (rule serves, rule published [OF that(2)]) (use that in simp)
    qed
  qed
  then show ?thesis using valid by (simp add: db' sets)
qed

section \<open>Every request\<close>

text \<open>A version, once written, keeps its snapshot.\<close>

definition keeps_history :: "platform \<Rightarrow> platform \<Rightarrow> bool" where
  "keeps_history db db' \<longleftrightarrow> (\<forall>j v. (j, v) \<in> version_id ` set (pf_versions db)
     \<longrightarrow> (j, v) \<in> version_id ` set (pf_versions db') \<and> snapshot_of db' j v = snapshot_of db j v)"

lemma keeps_history_same: "pf_versions db' = pf_versions db \<Longrightarrow> keeps_history db db'"
  by (simp add: keeps_history_def snapshot_of_def)

lemma keeps_history_trans: "keeps_history a b \<Longrightarrow> keeps_history b c \<Longrightarrow> keeps_history a c"
  by (simp add: keeps_history_def)

definition sound_step :: "platform \<Rightarrow> platform \<Rightarrow> bool" where
  "sound_step db db' \<longleftrightarrow> valid_platform db' \<and> coherent db db' \<and> keeps_history db db'"

lemma sound_step_same: "valid_platform db' \<and> coherent db db' \<and> pf_versions db' = pf_versions db \<Longrightarrow> sound_step db db'"
  by (simp add: sound_step_def keeps_history_same)

lemma write_version_sound:
  assumes "write_version now user i snap note db = Inr (version, config, db')" and "valid_platform db"
  shows "sound_step db (record_audit a db')"
  using write_version_step(1,2,5) [OF assms] by (simp add: sound_step_def keeps_history_def)

lemma publish_wrote:
  assumes "publish regexp_ok now t user i note expected db = Inr (res, db')"
  shows "\<exists>p db1 a. prepare regexp_ok t db i expected = Inr p
    \<and> write_version now user i (prep_snapshot p) (trimmed_note note) db = Inr (res_version res, res_configVersion res, db1)
    \<and> db' = record_audit a db1"
proof -
  obtain p where p: "prepare regexp_ok t db i expected = Inr p" "publish_commit now user i p note db = Inr (res, db')"
    using assms by (auto simp: publish_def bind_result_Inr_iff)
  obtain version config db1 where w: "write_version now user i (prep_snapshot p) (trimmed_note note) db = Inr (version, config, db1)"
    using p(2) by (auto simp: publish_commit_def bind_result_Inr_iff)
  then have "version = res_version res" "config = res_configVersion res" "\<exists>a. db' = record_audit a db1"
    using p(2) by (auto simp: publish_commit_def)
  then show ?thesis using p w by blast
qed

lemma rollback_wrote:
  assumes "rollback now t user i v note expected db = Inr (res, db')"
  shows "\<exists>snap db1 a. version_snapshot t db i v = Inr snap
    \<and> write_version now user i snap (Some (rollback_note v note)) db = Inr (res_version res, res_configVersion res, db1)
    \<and> db' = record_audit a db1"
proof -
  obtain snap where s: "version_snapshot t db i v = Inr snap"
    using assms by (auto simp: rollback_def bind_result_Inr_iff split: option.splits)
  obtain version config db1 where w: "write_version now user i snap (Some (rollback_note v note)) db = Inr (version, config, db1)"
    using assms s by (auto simp: rollback_def bind_result_Inr_iff split: option.splits)
  then have "version = res_version res" "config = res_configVersion res" "\<exists>a. db' = record_audit a db1"
    using assms s by (auto simp: rollback_def bind_result_Inr_iff split: option.splits)
  then show ?thesis using s w by blast
qed

lemma attempt_sound:
  assumes "attempt regexp_ok json_parse r db = Inr db'" and "valid_platform db"
  shows "sound_step db db'"
proof (cases r)
  case (PublishSet now t user i memo expected)
  then obtain res where "publish regexp_ok now t user i memo expected db = Inr (res, db')"
    using assms(1) by (cases "publish regexp_ok now t user i memo expected db") auto
  then show ?thesis using write_version_sound [OF _ assms(2)] publish_wrote by metis
next
  case (RollbackSet now t user i v memo expected)
  then obtain res where "rollback now t user i v memo expected db = Inr (res, db')"
    using assms(1) by (cases "rollback now t user i v memo expected db") auto
  then show ?thesis using write_version_sound [OF _ assms(2)] rollback_wrote by metis
next
  case (CreateSet now t new_id name w)
  then have "new_id \<notin> st_id ` set (pf_sets db)" using assms(1) by (simp split: if_splits)
  moreover obtain s where "create_set json_parse now t new_id name w db = Inr (s, db')"
    using CreateSet assms(1) by (cases "create_set json_parse now t new_id name w db") (auto split: if_splits)
  ultimately show ?thesis using create_step assms(2) by (intro sound_step_same) blast
next
  case (RemoveSet now t i expected)
  then show ?thesis using remove_step assms by (intro sound_step_same) simp
next
  case (AssignTargets now new_id t i targets)
  then obtain views v where "assign json_parse now new_id t i targets db = Inr (views, v, db')" "distinct (map as_id (pf_assignments db'))"
    using assms(1) by (auto simp: bind_result_Inr_iff split: if_splits)
  then show ?thesis using assign_step assms(2) by (intro sound_step_same) blast
next
  case (UnassignTarget now t i g)
  then obtain views v where "unassign now t i g db = Inr (views, v, db')"
    using assms(1) by (cases "unassign now t i g db") auto
  then show ?thesis using unassign_step assms(2) by (intro sound_step_same) blast
next
  case (UnassignTargets now t i gs)
  then obtain views v n where "unassignMany now t i gs db = Inr (views, v, n, db')"
    using assms(1) by (cases "unassignMany now t i gs db") auto
  then show ?thesis using unassignMany_step assms(2) by (intro sound_step_same) blast
next
  case (EditDraft adb)
  then have "draft_edit (pf_authoring db) adb" "db' = db\<lparr>pf_authoring := adb\<rparr>" using assms(1) by (auto split: if_splits)
  then show ?thesis using edit_step [OF _ assms(2), of adb] by (intro sound_step_same) simp
next
  case (PlanChanged t)
  then have "db' = snd (invalidate t db)" using assms(1) by simp
  then show ?thesis using invalidate_step [OF assms(2)] by (intro sound_step_same) (simp add: invalidate_def)
qed

lemma sound_step_trans: "sound_step a b \<Longrightarrow> sound_step b c \<Longrightarrow> sound_step a c"
  using coherent_trans keeps_history_trans by (auto simp: sound_step_def)

lemma handle_all_sound: "valid_platform db \<Longrightarrow> sound_step db (handle_all regexp_ok json_parse rs db)"
proof (induction rs arbitrary: db)
  case Nil
  then show ?case by (simp add: sound_step_same)
next
  case (Cons r rs)
  have step: "sound_step db (handle regexp_ok json_parse r db)"
  proof (cases "attempt regexp_ok json_parse r db")
    case (Inl e)
    then show ?thesis using Cons.prems by (simp add: handle_def sound_step_same)
  next
    case (Inr db')
    then show ?thesis using attempt_sound [OF Inr Cons.prems] by (simp add: handle_def)
  qed
  then have "valid_platform (handle regexp_ok json_parse r db)" by (simp add: sound_step_def)
  from sound_step_trans [OF step Cons.IH [OF this]] show ?case by simp
qed

end
