(* ===== verification/Storefront_Served.thy ===== *)
theory Storefront_Served
  imports Storefront_Correct Subscriptions_Correct
begin

text \<open>
  The guarantees of publishing to a storefront: history is append only, a publish goes live, a rollback
  brings back what was served, a storefront whose copy is current holds the current option sets, and the
  state of the plan it is told is what the guard enforces.
\<close>

lemma js_get_with: "js_get (js_with k v d) k' = (if k' = k then v else js_get d k')"
  by (cases d) (auto simp: map_set_def update_conv')

section \<open>History\<close>

lemma current_snapshot:
  assumes "valid_platform db" and "s \<in> set (pf_sets db)" and "st_status s = PUBLISHED"
  shows "snapshot_of db (st_id s) (st_version s) \<noteq> None"
proof -
  have "1 \<le> st_version s" using assms by (auto simp: valid_platform_def list_all_iff)
  then have "(st_id s, st_version s) \<in> version_id ` set (pf_versions db)"
    using valid_history [OF assms(1,2), of "st_version s"] by simp
  then show ?thesis by (auto simp: snapshot_of_def find_row_def find_None_all version_id_def)
qed


section \<open>Publishing\<close>

lemma load_findById: "load t adb i = Some (s, tree) \<Longrightarrow> findById t (db_sets adb) i = Some s"
  by (auto simp: load_def Let_def split: option.splits)

lemma load_id: "load t adb i = Some (s, tree) \<Longrightarrow> os_id tree = i"
  by (auto simp: load_def Let_def findById_def find_row_def split: option.splits dest: find_Some_in)

lemma snapshot_fields:
  "toPublished tree = Some snap \<Longrightarrow> js_get snap ''id'' = JStr (os_id tree) \<and> (\<exists>gs. js_get snap ''groups'' = JArr gs)
    \<and> (\<exists>rs. js_get snap ''rules'' = JArr rs)"
  by (auto simp: toPublished_def split: option.splits)

lemma found_is_locked:
  assumes "findById t (pf_sets db) i = Some s" and "lockSet db i = Some s'" and "valid_platform db"
  shows "s' = s"
proof -
  have "s \<in> set (pf_sets db)" "s' \<in> set (pf_sets db)" "st_id s = st_id s'"
    using assms(1,2) by (auto simp: findById_def lockSet_def find_row_def dest: find_Some_in)
  then show ?thesis using set_row_unique [OF valid_ids [OF assms(3)]] by metis
qed

lemma wrote_served:
  assumes "write_version now user i snap memo db = Inr (version, config, db')" and "valid_platform db" and "findById t (pf_sets db) i = Some s"
  shows "served db' i version = Some (js_with ''assignments'' (JArr (live_assignments db' i))
      (normaliseSnapshot (js_with ''version'' (JNum (Fin (of_nat version))) snap)))"
    and "(i, version) \<in> set (published_keys (st_storeId s) db')"
    and "store_version db (st_storeId s) = Some (config - 1)" and "store_version db' (st_storeId s) = Some config" and "0 < config"
    and "version = st_version s + 1"
    and "j \<noteq> i \<Longrightarrow> served db' j v = served db j v"
    and "j \<noteq> i \<Longrightarrow> (j, v) \<in> set (published_keys w db') \<longleftrightarrow> (j, v) \<in> set (published_keys w db)"
proof -
  obtain s' where lock: "lockSet db i = Some s'" using assms(1) by (auto simp: write_version_def split: option.splits)
  then have "s' = s" by (rule found_is_locked [OF assms(3) _ assms(2)])
  note wrote = write_version_Inr [OF assms(1) lock, unfolded this]
  have s: "s \<in> set (pf_sets db)" "st_id s = i" "st_deletedAt s = LIVE_SENTINEL" by (rule wrote)+
  note step = write_version_step [OF assms(1,2)]
  show "served db' i version = Some (js_with ''assignments'' (JArr (live_assignments db' i))
      (normaliseSnapshot (js_with ''version'' (JNum (Fin (of_nat version))) snap)))"
    using step(3) by (simp add: served_def)
  have "published_as version now user config s \<in> set (pf_sets db')" using s unfolding wrote(8) set_update_rows by blast
  then show "(i, version) \<in> set (published_keys (st_storeId s) db')"
    unfolding in_published_keys using s by (intro bexI [of _ "published_as version now user config s"]) (simp_all add: published_as_def)
  show "store_version db (st_storeId s) = Some (config - 1)" "0 < config" "version = st_version s + 1" by (rule wrote)+
  show "store_version db' (st_storeId s) = Some config" using wrote(7) by simp
  show "served db' j v = served db j v" if "j \<noteq> i"
    by (rule served_append_version [OF wrote(9,10)]) (use that in \<open>simp add: version_id_def\<close>)
  show "(j, v) \<in> set (published_keys w db') \<longleftrightarrow> (j, v) \<in> set (published_keys w db)" if "j \<noteq> i"
    unfolding in_published_keys wrote(8) set_update_rows using that by (auto simp: published_as_def)
qed

text \<open>
  C18. A publish goes live: when it succeeds, the document of the store lists the set with the groups and the
  rules of the loaded tree, at the new version, the revision of the store is one more than it was, and
  every other set is served as before.
\<close>

theorem publish_goes_live:
  assumes "publish regexp_ok now t user i memo expected db = Inr (res, db')" and "valid_platform db"
  shows "\<exists>s tree snap d. load t (pf_authoring db) i = Some (s, tree) \<and> toPublished tree = Some snap
    \<and> d \<in> set (option_sets (st_storeId s) db') \<and> js_get d ''id'' = JStr i
    \<and> js_get d ''groups'' = js_get snap ''groups'' \<and> js_get d ''rules'' = js_get snap ''rules''
    \<and> js_get d ''version'' = JNum (Fin (of_nat (st_version s + 1)))
    \<and> store_version db' (st_storeId s) = map_option Suc (store_version db (st_storeId s))
    \<and> (\<forall>w j v. j \<noteq> i \<longrightarrow> served db' j v = served db j v
        \<and> ((j, v) \<in> set (published_keys w db') \<longleftrightarrow> (j, v) \<in> set (published_keys w db)))"
proof -
  obtain p db1 a where p: "prepare regexp_ok t db i expected = Inr p"
    and w: "write_version now user i (prep_snapshot p) (trimmed_note memo) db = Inr (res_version res, res_configVersion res, db1)"
    and db': "db' = record_audit a db1"
    using publish_wrote [OF assms(1)] by blast
  obtain s tree where l: "load t (pf_authoring db) i = Some (s, tree)" and snap: "toPublished tree = Some (prep_snapshot p)"
    using p by (auto simp: prepare_def publish_context_of_def bind_result_Inr_iff Let_def split: option.splits if_splits)
  note wrote = wrote_served [OF w assms(2) load_findById [OF l]]
  define d where "d = js_with ''assignments'' (JArr (live_assignments db1 i))
      (normaliseSnapshot (js_with ''version'' (JNum (Fin (of_nat (res_version res)))) (prep_snapshot p)))"
  have same: "option_sets v db' = option_sets v db1" "served db' = served db1" "published_keys v db' = published_keys v db1"
    "store_version db' = store_version db1" for v
    by (simp_all add: db' option_sets_def served_def live_assignments_def store_version_def fun_eq_iff)
  have "valid_versions db1" using write_version_step(1) [OF w assms(2)] by (simp add: valid_platform_def)
  then have "d \<in> set (option_sets (st_storeId s) db1)"
    using wrote(1,2) by (force simp: option_sets_served d_def)
  moreover have "js_get (prep_snapshot p) ''id'' = JStr i" "js_nullish (js_get (prep_snapshot p) ''groups'') (JArr []) = js_get (prep_snapshot p) ''groups''"
    "js_nullish (js_get (prep_snapshot p) ''rules'') (JArr []) = js_get (prep_snapshot p) ''rules''"
    using snapshot_fields [OF snap] load_id [OF l] by (auto simp: js_nullish_def)
  ultimately show ?thesis using l snap wrote
    by - (rule exI [of _ s], rule exI [of _ tree], rule exI [of _ "prep_snapshot p"], rule exI [of _ d],
      simp add: same d_def normaliseSnapshot_def js_get_with)
qed

section \<open>Rolling back\<close>

lemma version_snapshot_Inr: "version_snapshot t db i v = Inr snap \<Longrightarrow> snapshot_of db i v = Some snap \<and> (\<exists>s. findById t (pf_sets db) i = Some s)"
  by (auto simp: version_snapshot_def snapshot_of_def dest: load_findById split: option.splits)

text \<open>
  C14. A rollback brings back what was served: after a publish and whatever requests followed it, rolling
  back to the version it wrote serves the document it went live with in every field but the number of
  the version, which is a new one, and the assignments, which are those of the moment.
\<close>

theorem rollback_restores:
  assumes "publish regexp_ok now t user i memo expected db = Inr (res, db1)" and "valid_platform db"
    and "rollback now' t' user' i (res_version res) memo' expected' (handle_all regexp_ok json_parse rs db1) = Inr (res', db2)"
  shows "\<exists>d1 d2. served db1 i (res_version res) = Some d1 \<and> served db2 i (res_version res') = Some d2
    \<and> (\<exists>w. (i, res_version res') \<in> set (published_keys w db2)) \<and> res_version res < res_version res'
    \<and> (\<forall>k. k \<noteq> ''version'' \<and> k \<noteq> ''assignments'' \<longrightarrow> js_get d2 k = js_get d1 k)"
proof -
  let ?db = "handle_all regexp_ok json_parse rs db1"
  obtain p db0 a where p: "prepare regexp_ok t db i expected = Inr p"
    and w: "write_version now user i (prep_snapshot p) (trimmed_note memo) db = Inr (res_version res, res_configVersion res, db0)"
    and db1: "db1 = record_audit a db0"
    using publish_wrote [OF assms(1)] by blast
  note wrote = write_version_step [OF w assms(2)]
  have valid1: "valid_platform db1" using wrote(1) by (simp add: db1)
  define snap where "snap = js_with ''version'' (JNum (Fin (of_nat (res_version res)))) (prep_snapshot p)"
  have s1: "snapshot_of db1 i (res_version res) = Some snap" using wrote(3) by (simp add: db1 snap_def)
  then have mem: "(i, res_version res) \<in> version_id ` set (pf_versions db1)"
    by (force simp: snapshot_of_def find_row_def version_id_def dest: find_Some_in)
  have sound: "sound_step db1 ?db" by (rule handle_all_sound [OF valid1])
  then have valid2: "valid_platform ?db" and s2: "snapshot_of ?db i (res_version res) = Some snap"
    and mem2: "(i, res_version res) \<in> version_id ` set (pf_versions ?db)"
    using mem s1 by (simp_all add: sound_step_def keeps_history_def)
  obtain snap' db3 b where older: "version_snapshot t' ?db i (res_version res) = Inr snap'"
    and w2: "write_version now' user' i snap' (Some (rollback_note (res_version res) memo')) ?db = Inr (res_version res', res_configVersion res', db3)"
    and db2: "db2 = record_audit b db3"
    using rollback_wrote [OF assms(3)] by blast
  obtain s where s: "findById t' (pf_sets ?db) i = Some s" and "snap' = snap"
    using version_snapshot_Inr [OF older] s2 by auto
  note w3 = wrote_served [OF w2 [unfolded this] valid2 s]
  have "s \<in> set (pf_sets ?db)" "st_id s = i" using s by (auto simp: findById_def find_row_def dest: find_Some_in)
  then have "res_version res \<le> st_version s" using valid_history [OF valid2, of s "res_version res"] mem2 by simp
  moreover have "served db1 i (res_version res) = Some (js_with ''assignments'' (JArr (live_assignments db1 i)) (normaliseSnapshot snap))"
    by (simp add: served_def s1)
  moreover have "served db2 = served db3" "published_keys v db2 = published_keys v db3" for v
    by (simp_all add: db2 served_def live_assignments_def fun_eq_iff)
  ultimately show ?thesis using w3(1,2,6) by (auto simp: normaliseSnapshot_def js_get_with)
qed

section \<open>Conditional delivery\<close>

lemma show_nat_chars: "0 \<le> n \<Longrightarrow> c \<in> set (show_nat n) \<Longrightarrow> \<exists>d. 0 \<le> d \<and> d < 10 \<and> c = digit_char d"
proof (induction n rule: show_nat.induct)
  case (1 n)
  then show ?case by (cases "n < 10") (auto simp: show_nat_step [of n] intro: exI [of _ "n mod 10"])
qed

lemma digit_char_not: "0 \<le> d \<Longrightarrow> d < 10 \<Longrightarrow> digit_char d \<noteq> CHR '',''"
proof
  assume d: "0 \<le> d" "d < 10" and "digit_char d = CHR '',''"
  then have "48 + d = (of_char (CHR '','') :: int)" by (metis of_digit_char)
  then show False using d by simp
qed

lemma trim_same: "\<not> is_ws (hd s) \<Longrightarrow> \<not> is_ws (last s) \<Longrightarrow> js_trim s = s"
  by (simp add: js_trim_def dropWhile_eq_self_iff [THEN iffD2] hd_rev)

lemma split_on_absent: "c \<notin> set s \<Longrightarrow> split_on c s = [s]"
  by (induction s) auto

lemma etag_matches:
  assumes "CHR '','' \<notin> set w"
  shows "matchesEtag (Some (configEtag w v)) (configEtag w v') \<longleftrightarrow> v = v'"
proof -
  let ?q = "\<lambda>v. CHR 0x22 # w @ ''-'' @ show_nat (int v) @ [CHR 0x22]"
  have tag: "configEtag w v = ''W/'' @ ?q v" for v by (simp add: configEtag_def quoted_def)
  have "CHR '','' \<notin> set (show_nat (int v))" using show_nat_chars [of "int v"] digit_char_not by fastforce
  then have split: "split_on (CHR '','') (configEtag w v) = [configEtag w v]"
    using assms by (intro split_on_absent) (simp add: tag)
  have ends: "\<not> is_ws (CHR ''W'')" "\<not> is_ws (CHR 0x22)" by code_simp+
  have "js_trim (configEtag w v) = configEtag w v" for v
    using ends by (intro trim_same) (simp_all add: tag)
  then have "normalise_etag (configEtag w v) = ?q v" "configEtag w v \<noteq> []" for v by (simp_all add: normalise_etag_def tag)
  then show ?thesis using show_nat_inj [of "int v" "int v'"] by (auto simp: matchesEtag_def split)
qed


section \<open>The state of the plan\<close>

text \<open>
  The storefront is told the truth about the subscription: for a tenant with a plan, the document
  calls the shop read only exactly when the guard refuses the merchant's authoring writes.
\<close>

theorem read_only_matches_guard:
  assumes "tenant_plan db t \<noteq> None" and "distinct (map sub_tenantId (db_subscriptions billing))"
    and "req_tenantId r = Some t" and "t \<noteq> []" and "authoring_write r"
  shows "canActivate now billing r \<longleftrightarrow> \<not> read_only (planState now db billing t)"
proof -
  have "hasLapsed now billing t \<longleftrightarrow> read_only (planState now db billing t)"
  proof (cases "find_row (\<lambda>s. sub_tenantId s = t) (db_subscriptions billing)")
    case None
    then have "find_row (\<lambda>s. sub_tenantId s = t \<and> graceEndsAt s \<noteq> None) (db_subscriptions billing) = None"
      by (simp add: find_row_def find_None_all)
    then show ?thesis using None assms(1) by (auto simp: hasLapsed_def planState_def)
  next
    case (Some s)
    then have s: "s \<in> set (db_subscriptions billing)" "sub_tenantId s = t" by (auto simp: find_row_def dest: find_Some_in)
    have "find_row (\<lambda>x. sub_tenantId x = t \<and> graceEndsAt x \<noteq> None) (db_subscriptions billing)
        = (if graceEndsAt s = None then None else Some s)"
    proof -
      have only: "x = s" if "x \<in> set (db_subscriptions billing)" "sub_tenantId x = t" for x
        using that s assms(2) by (metis distinct_map inj_onD)
      show ?thesis
      proof (cases "find_row (\<lambda>x. sub_tenantId x = t \<and> graceEndsAt x \<noteq> None) (db_subscriptions billing)")
        case None
        then have "graceEndsAt s = None" using s unfolding find_row_def find_None_all by blast
        then show ?thesis using None by simp
      next
        case (Some x)
        then have "x \<in> set (db_subscriptions billing)" "sub_tenantId x = t" "graceEndsAt x \<noteq> None"
          by (auto simp: find_row_def dest: find_Some_in)
        then show ?thesis using only [of x] Some by auto
      qed
    qed
    then show ?thesis using Some assms(1) by (auto simp: hasLapsed_def planState_def split: option.split)
  qed
  then show ?thesis using assms(3-5) by (auto simp: canActivate_def authoring_write_def)
qed

section \<open>A shop\<close>

definition shop_option :: option_entity where
  "shop_option = \<lparr>oe_id = ''o1'', oe_key = ''name'', oe_valueKind = ''text'', oe_cardinality = ''none'', presentation = ''text'',
     oe_label = ''Name'', oe_description = None, placeholder = None, helpText = None, isRequired = True,
     oe_isEnabled = True, oe_sortOrder = Fin 0, defaultValue = None, oe_validation = JNull, oe_pricing = JNull,
     oe_display = JNull, textDesign = JNull, oe_values = []\<rparr>"

definition shop :: platform where
  "shop = small_shop\<lparr>pf_authoring := (stored [bare_group ''g1''])\<lparr>
     db_options := [\<lparr>row_parent = ''g1'', row_deletedAt = LIVE_SENTINEL, row_entity = shop_option\<rparr>]\<rparr>\<rparr>"

lemma shop_valid: "valid_platform shop"
  by (simp add: valid_platform_def valid_versions_def shop_def small_shop_def stored_def)

abbreviation publish_shop :: "platform \<Rightarrow> api_error + (publish_result \<times> platform)" where
  "publish_shop \<equiv> publish (\<lambda>_. True) 5 ''t1'' None ''s1'' None None"

lemma shop_publishes: "case publish_shop shop of Inl _ \<Rightarrow> False | Inr (res, db') \<Rightarrow> res_version res = 1"
  by code_simp

lemma shop_publishes': "\<exists>res db'. publish_shop shop = Inr (res, db') \<and> res_version res = 1"
  using shop_publishes by (auto split: sum.splits)

abbreviation after :: "store_request list \<Rightarrow> platform \<Rightarrow> platform" where
  "after \<equiv> handle_all (\<lambda>_. True) (\<lambda>_. JNull)"

abbreviation publish_request :: store_request where
  "publish_request \<equiv> PublishSet 6 ''t1'' None ''s1'' None None"

lemma shop_history: "list_ex (\<lambda>s. st_id s = ''s1'' \<and> st_version s = 1 \<and> st_status s = PUBLISHED) (pf_sets (after [publish_request] shop))"
  by code_simp


lemma shop_loads: "map_option (\<lambda>(s, _). st_storeId s) (load ''t1'' (pf_authoring shop) ''s1'') = Some ''w1''"
  by code_simp

theorem publish_goes_live_witness:
  "\<exists>res db' d. publish_shop shop = Inr (res, db') \<and> d \<in> set (option_sets ''w1'' db') \<and> js_get d ''id'' = JStr ''s1''"
proof -
  obtain res db' where p: "publish_shop shop = Inr (res, db')" using shop_publishes' by blast
  from publish_goes_live [OF p shop_valid] shop_loads p show ?thesis by auto
qed

lemma shop_rolls_back:
  "case publish_shop shop of Inl _ \<Rightarrow> False
   | Inr (res, db1) \<Rightarrow> is_Inr (rollback 9 ''t1'' None ''s1'' (res_version res) None None (after [publish_request] db1))"
  by code_simp

theorem rollback_restores_witness:
  "\<exists>res db1 res' db2 d1 d2. publish_shop shop = Inr (res, db1)
    \<and> rollback 9 ''t1'' None ''s1'' (res_version res) None None (after [publish_request] db1) = Inr (res', db2)
    \<and> served db1 ''s1'' (res_version res) = Some d1 \<and> served db2 ''s1'' (res_version res') = Some d2
    \<and> js_get d2 ''groups'' = js_get d1 ''groups''"
proof -
  obtain res db1 where p: "publish_shop shop = Inr (res, db1)" using shop_publishes' by blast
  then obtain res' db2 where r: "rollback 9 ''t1'' None ''s1'' (res_version res) None None (after [publish_request] db1) = Inr (res', db2)"
    using shop_rolls_back by (cases "rollback 9 ''t1'' None ''s1'' (res_version res) None None (after [publish_request] db1)") auto
  obtain d1 d2 where d: "served db1 ''s1'' (res_version res) = Some d1" "served db2 ''s1'' (res_version res') = Some d2"
    and eq: "\<forall>k. k \<noteq> ''version'' \<and> k \<noteq> ''assignments'' \<longrightarrow> js_get d2 k = js_get d1 k"
    using rollback_restores [OF p shop_valid r] by (elim exE conjE) (rule that)
  have "js_get d2 ''groups'' = js_get d1 ''groups''" using eq by simp
  then show ?thesis using p r d by (intro exI conjI)
qed

abbreviation removal :: store_request where
  "removal \<equiv> RemoveSet 7 ''t1'' ''s1'' None"

lemma shop_delivers:
  "case deliver 5 None shop example_db ''w1'' None of
     Inr (Document etag doc) \<Rightarrow>
       (case deliver 8 None (after [removal] shop) example_db ''w1'' (Some etag) of Inr (NotModified _) \<Rightarrow> True | _ \<Rightarrow> False)
   | _ \<Rightarrow> False"
  by code_simp


definition lapsed_db :: billing_db where
  "lapsed_db = example_db\<lparr>db_subscriptions := [example_subscription\<lparr>graceEndsAt := Some 10\<rparr>]\<rparr>"

lemma lapsed_read_only: "read_only (planState 11 shop lapsed_db ''t1'')" "tenant_plan shop ''t1'' \<noteq> None"
  by code_simp+

theorem read_only_matches_guard_witness: "\<not> canActivate 11 lapsed_db example_write"
  using read_only_matches_guard [OF lapsed_read_only(2), of lapsed_db example_write 11] lapsed_read_only(1)
  by (simp add: lapsed_db_def example_subscription_def example_write_def authoring_write_def MUTATIONS_def)

section \<open>What one request after the other hides\<close>

text \<open>
  A publish prepared before other requests still goes through and puts its old draft in front of customers,
  the lock of the transaction notwithstanding.
\<close>

lemma stale_publish_wins:
  assumes "prepare regexp_ok t db i expected = Inr p" and "valid_platform db"
    and "findById t (pf_sets (handle_all regexp_ok json_parse rs db)) i = Some s"
    and "publish_commit now user i p memo (handle_all regexp_ok json_parse rs db) = Inr (res, db')"
  shows "\<exists>d. served db' i (res_version res) = Some d \<and> js_get d ''groups'' = js_nullish (js_get (prep_snapshot p) ''groups'') (JArr [])"
proof -
  obtain db1 a where w: "write_version now user i (prep_snapshot p) (trimmed_note memo) (handle_all regexp_ok json_parse rs db)
      = Inr (res_version res, res_configVersion res, db1)" and "db' = record_audit a db1"
    using assms(4) by (auto simp: publish_commit_def bind_result_Inr_iff)
  then have "served db' = served db1" by (simp add: served_def live_assignments_def fun_eq_iff)
  moreover have "valid_platform (handle_all regexp_ok json_parse rs db)"
    using handle_all_sound [OF assms(2)] by (simp add: sound_step_def)
  ultimately show ?thesis using wrote_served(1) [OF w _ assms(3)] by (simp add: normaliseSnapshot_def js_get_with)
qed

text \<open>Two requests that both name the lock version of the same draft both publish it.\<close>

lemma both_publish:
  "case prepare (\<lambda>_. True) ''t1'' shop ''s1'' (Some 0) of Inl _ \<Rightarrow> False
   | Inr p \<Rightarrow> (case publish_commit 5 None ''s1'' p None shop of Inl _ \<Rightarrow> False
     | Inr (_, db') \<Rightarrow> is_Inr (publish_commit 6 None ''s1'' p None db'))"
  by code_simp

text \<open>
  A removal that read the set as a draft, and ran after it was published, takes the set out of the document
  without advancing the revision: storefronts with the current copy keep offering what is gone.
\<close>

lemma removed_without_notice:
  "case remove_commit 9 (hd (pf_sets shop)) (after [publish_request] shop) of
     Inl _ \<Rightarrow> False
   | Inr db' \<Rightarrow> store_version db' ''w1'' = store_version (after [publish_request] shop) ''w1''
       \<and> option_sets ''w1'' db' = [] \<and> option_sets ''w1'' (after [publish_request] shop) \<noteq> []"
  by code_simp

text \<open>
  The state of the plan is not covered by the validator: a storefront with the current copy is not told that
  the grace period ended.
\<close>

lemma lapse_not_delivered:
  "case deliver 9 None shop lapsed_db ''w1'' None of
     Inr (Document etag doc) \<Rightarrow> \<not> read_only (plan doc)
       \<and> (case deliver 11 None shop lapsed_db ''w1'' (Some etag) of Inr (NotModified _) \<Rightarrow> read_only (planState 11 shop lapsed_db ''t1'') | _ \<Rightarrow> False)
   | _ \<Rightarrow> False"
  by code_simp

end
