(* ===== verification/Text_Cursor.thy ===== *)
theory Text_Cursor
  imports Platform
begin

text \<open>
  Keyset cursors over a text column (\<open>src/common/pagination/text-keyset-cursor.ts\<close>): the sort value and
  the id of the last row of a page, length-prefixed, as the base64url text of their UTF-8 bytes.

  A string is here the list of its UTF-16 code units (numbers below \<open>2 ^ 16\<close>), since the cursor is the
  one place where the width of a name matters; a buffer is the list of its bytes. \<open>Buffer.from\<close> and
  \<open>toString\<close> are written out: a lone surrogate and every maximal ill-formed byte sequence become
  \<open>U+FFFD\<close>; reading base64url skips what is not in the alphabet and stops at the padding.
\<close>

type_synonym units = "nat list"
type_synonym bytes = "nat list"

section \<open>UTF-16\<close>

definition is_high :: "nat \<Rightarrow> bool" where
  "is_high u \<longleftrightarrow> 0xD800 \<le> u \<and> u \<le> 0xDBFF"

definition is_low :: "nat \<Rightarrow> bool" where
  "is_low u \<longleftrightarrow> 0xDC00 \<le> u \<and> u \<le> 0xDFFF"

definition REPLACEMENT :: nat where "REPLACEMENT = 0xFFFD"

text \<open>The Unicode scalar values: code points that are not surrogates.\<close>

definition is_scalar :: "nat \<Rightarrow> bool" where
  "is_scalar p \<longleftrightarrow> p < 0xD800 \<or> 0xE000 \<le> p \<and> p < 0x110000"

definition point_units :: "nat \<Rightarrow> units" where
  "point_units p = (if p < 0x10000 then [p]
     else [0xD800 + (p - 0x10000) div 0x400, 0xDC00 + (p - 0x10000) mod 0x400])"

text \<open>A string that holds Unicode text is the units of a list of scalar values.\<close>

definition units_of :: "nat list \<Rightarrow> units" where
  "units_of ps = concat (map point_units ps)"

fun code_points :: "units \<Rightarrow> nat list" where
  "code_points [] = []"
| "code_points [u] = [if is_high u \<or> is_low u then REPLACEMENT else u]"
| "code_points (u # v # us) =
     (if is_high u \<and> is_low v then (0x10000 + (u - 0xD800) * 0x400 + (v - 0xDC00)) # code_points us
      else (if is_high u \<or> is_low u then REPLACEMENT else u) # code_points (v # us))"

text \<open>Every surrogate of a well-formed string is half of a pair.\<close>

fun well_formed :: "units \<Rightarrow> bool" where
  "well_formed [] \<longleftrightarrow> True"
| "well_formed [u] \<longleftrightarrow> u < 0x10000 \<and> \<not> is_high u \<and> \<not> is_low u"
| "well_formed (u # v # us) \<longleftrightarrow>
     (if is_high u then is_low v \<and> well_formed us
      else u < 0x10000 \<and> \<not> is_low u \<and> well_formed (v # us))"

section \<open>UTF-8\<close>

definition utf8_point :: "nat \<Rightarrow> bytes" where
  "utf8_point p = (if p < 0x80 then [p]
     else if p < 0x800 then [0xC0 + p div 64, 0x80 + p mod 64]
     else if p < 0x10000 then [0xE0 + p div 4096, 0x80 + p div 64 mod 64, 0x80 + p mod 64]
     else [0xF0 + p div 262144, 0x80 + p div 4096 mod 64, 0x80 + p div 64 mod 64, 0x80 + p mod 64])"

definition utf8_encode :: "units \<Rightarrow> bytes" where
  "utf8_encode us = concat (map utf8_point (code_points us))"

text \<open>
  What a lead byte announces: how many continuation bytes, the range of the first of them, and the
  bits it contributes itself.
\<close>

definition utf8_lead :: "nat \<Rightarrow> (nat \<times> nat \<times> nat \<times> nat) option" where
  "utf8_lead b = (if b < 0x80 then Some (0, 0, 0, b)
     else if 0xC2 \<le> b \<and> b \<le> 0xDF then Some (1, 0x80, 0xBF, b - 0xC0)
     else if b = 0xE0 then Some (2, 0xA0, 0xBF, 0)
     else if b = 0xED then Some (2, 0x80, 0x9F, 13)
     else if 0xE1 \<le> b \<and> b \<le> 0xEF then Some (2, 0x80, 0xBF, b - 0xE0)
     else if b = 0xF0 then Some (3, 0x90, 0xBF, 0)
     else if b = 0xF4 then Some (3, 0x80, 0x8F, 4)
     else if 0xF1 \<le> b \<and> b \<le> 0xF3 then Some (3, 0x80, 0xBF, b - 0xF0)
     else None)"

text \<open>A byte that does not continue the sequence is read again as a lead byte.\<close>

fun continue_point :: "nat \<Rightarrow> nat \<Rightarrow> nat \<Rightarrow> nat \<Rightarrow> bytes \<Rightarrow> nat \<times> bytes" where
  "continue_point 0 lo hi acc bs = (acc, bs)"
| "continue_point (Suc n) lo hi acc [] = (REPLACEMENT, [])"
| "continue_point (Suc n) lo hi acc (b # bs) =
     (if lo \<le> b \<and> b \<le> hi then continue_point n 0x80 0xBF (acc * 64 + (b - 0x80)) bs else (REPLACEMENT, b # bs))"

lemma continue_point_length: "length (snd (continue_point n lo hi acc bs)) \<le> length bs"
  by (induction n lo hi acc bs rule: continue_point.induct) auto

function utf8_decode :: "bytes \<Rightarrow> nat list" where
  "utf8_decode [] = []"
| "utf8_decode (b # bs) = (case utf8_lead b of
       None \<Rightarrow> REPLACEMENT # utf8_decode bs
     | Some (n, lo, hi, acc) \<Rightarrow>
         (case continue_point n lo hi acc bs of (p, rest) \<Rightarrow> p # utf8_decode rest))"
  by pat_completeness auto

lemma continue_point_shrinks: "(p, rest) = continue_point n lo hi acc bs \<Longrightarrow> length rest < Suc (length bs)"
  using continue_point_length [of n lo hi acc bs] by (metis less_Suc_eq_le snd_conv)

termination utf8_decode
  by (relation "measure length") (simp_all add: continue_point_shrinks)

section \<open>base64url\<close>

definition alphabet_char :: "nat \<Rightarrow> nat" where
  "alphabet_char s = (if s < 26 then 65 + s else if s < 52 then 71 + s else if s < 62 then s - 4
     else if s = 62 then 45 else 95)"

text \<open>The reader takes \<open>+\<close> and \<open>/\<close> for \<open>-\<close> and \<open>_\<close>.\<close>

definition alphabet_value :: "nat \<Rightarrow> nat option" where
  "alphabet_value c = (if 65 \<le> c \<and> c \<le> 90 then Some (c - 65) else if 97 \<le> c \<and> c \<le> 122 then Some (c - 71)
     else if 48 \<le> c \<and> c \<le> 57 then Some (c + 4) else if c = 43 \<or> c = 45 then Some 62
     else if c = 47 \<or> c = 95 then Some 63 else None)"

fun sextets :: "bytes \<Rightarrow> nat list" where
  "sextets [] = []"
| "sextets [a] = [a div 4, a mod 4 * 16]"
| "sextets [a, b] = [a div 4, a mod 4 * 16 + b div 16, b mod 16 * 4]"
| "sextets (a # b # c # bs) = [a div 4, a mod 4 * 16 + b div 16, b mod 16 * 4 + c div 64, c mod 64] @ sextets bs"

fun from_sextets :: "nat list \<Rightarrow> bytes" where
  "from_sextets (s # t # u # v # ss) =
     [s * 4 + t div 16, t mod 16 * 16 + u div 4, u mod 4 * 64 + v] @ from_sextets ss"
| "from_sextets [s, t, u] = [s * 4 + t div 16, t mod 16 * 16 + u div 4]"
| "from_sextets [s, t] = [s * 4 + t div 16]"
| "from_sextets ss = []"

definition to_base64url :: "bytes \<Rightarrow> units" where
  "to_base64url bs = map alphabet_char (sextets bs)"

definition from_base64url :: "units \<Rightarrow> bytes" where
  "from_base64url cs = from_sextets (List.map_filter alphabet_value (takeWhile (\<lambda>c. c \<noteq> 61) cs))"

section \<open>The cursor\<close>

definition MAX_CURSOR_LENGTH :: nat where "MAX_CURSOR_LENGTH = 512"

definition COLON :: nat where "COLON = 58"

fun decimal :: "nat \<Rightarrow> units" where
  "decimal n = (if n < 10 then [48 + n] else decimal (n div 10) @ [48 + n mod 10])"

declare decimal.simps [simp del]

definition is_digit_unit :: "nat \<Rightarrow> bool" where
  "is_digit_unit u \<longleftrightarrow> 48 \<le> u \<and> u \<le> 57"

definition number_of_digits :: "units \<Rightarrow> nat" where
  "number_of_digits us = foldl (\<lambda>n u. 10 * n + (u - 48)) 0 us"

definition is_hex :: "nat \<Rightarrow> bool" where
  "is_hex u \<longleftrightarrow> is_digit_unit u \<or> 97 \<le> u \<and> u \<le> 102 \<or> 65 \<le> u \<and> u \<le> 70"

text \<open>\<open>UUID_PATTERN\<close>: hexadecimal groups of 8, 4, 4, 4 and 12, joined by dashes.\<close>

definition is_uuid :: "units \<Rightarrow> bool" where
  "is_uuid us \<longleftrightarrow> length us = 36 \<and>
     list_all (\<lambda>(i, u). if i \<in> {8, 13, 18, 23} then u = 45 else is_hex u) (enumerate 0 us)"

record text_cursor_key =
  ck_value :: units
  ck_id :: units

definition encodeTextCursor :: "units \<Rightarrow> units \<Rightarrow> units" where
  "encodeTextCursor val ident = to_base64url (utf8_encode (decimal (length val) @ [COLON] @ val @ ident))"

text \<open>
  \<open>Number.isSafeInteger\<close> of a digit string: a number above \<open>2 ^ 53 - 1\<close> rounds to one that is not safe.
\<close>

definition decodeTextCursorOrNull :: "units \<Rightarrow> text_cursor_key option" where
  "decodeTextCursorOrNull cursor =
     (if length cursor = 0 \<or> MAX_CURSOR_LENGTH < length cursor then None
      else let raw = units_of (utf8_decode (from_base64url cursor));
               before = takeWhile (\<lambda>u. u \<noteq> COLON) raw
        in if before = [] \<or> length before = length raw then None
           else if \<not> list_all is_digit_unit before \<or> 9007199254740991 < number_of_digits before then None
           else let declared = number_of_digits before; body = drop (length before + 1) raw;
                    val = take declared body; ident = drop declared body
             in if length val \<noteq> declared \<or> \<not> is_uuid ident then None
                else Some \<lparr>ck_value = val, ck_id = ident\<rparr>)"

definition decodeTextCursor :: "units option \<Rightarrow> api_error + text_cursor_key option" where
  "decodeTextCursor cursor = (case cursor of
       None \<Rightarrow> Inr None
     | Some c \<Rightarrow> (case decodeTextCursorOrNull c of
           None \<Rightarrow> Inl (Refused ''INVALID_CURSOR'')
         | Some k \<Rightarrow> Inr (Some k)))"

section \<open>Text survives its encodings\<close>

lemma units_of_Cons [simp]: "units_of [] = []" "units_of (p # ps) = point_units p @ units_of ps"
  by (simp_all add: units_of_def)

lemma code_points_scalar: "well_formed us \<Longrightarrow> list_all is_scalar (code_points us)"
  by (induction us rule: code_points.induct) (auto simp: is_scalar_def is_high_def is_low_def split: if_splits)

lemma pair_units:
  assumes "is_high u" "is_low v"
  shows "point_units (0x10000 + (u - 0xD800) * 0x400 + (v - 0xDC00)) = [u, v]"
proof -
  from assms obtain a b where "u = 0xD800 + a" "a < 0x400" "v = 0xDC00 + b" "b < 0x400"
    by (auto simp: is_high_def is_low_def le_iff_add)
  then show ?thesis by (simp add: point_units_def)
qed

lemma units_of_code_points: "well_formed us \<Longrightarrow> units_of (code_points us) = us"
  by (induction us rule: code_points.induct) (auto simp: pair_units, auto simp: point_units_def)

lemma well_formed_small: "list_all (\<lambda>u. u < 0xD800) us \<Longrightarrow> well_formed us"
  by (induction us rule: well_formed.induct) (auto simp: is_high_def is_low_def)

lemma well_formed_append: "well_formed us \<Longrightarrow> well_formed vs \<Longrightarrow> well_formed (us @ vs)"
  by (induction us rule: well_formed.induct) (cases vs; auto split: if_splits)+

text \<open>A sequence is taken apart as it was put together, whatever follows it.\<close>

lemma split64: obtains q r where "p = q * 64 + r" "r < (64::nat)"
  by (metis div_mult_mod_eq mod_less_divisor zero_less_numeral)

lemma utf8_decode_ascii: "p < 0x80 \<Longrightarrow> utf8_decode (p # bs) = p # utf8_decode bs"
  by (simp add: utf8_lead_def)

lemma utf8_decode_two:
  assumes "2 \<le> a" "a < 32" "b < 64"
  shows "utf8_decode ((0xC0 + a) # (0x80 + b) # bs) = (a * 64 + b) # utf8_decode bs"
proof -
  have "utf8_lead (0xC0 + a) = Some (1, 0x80, 0xBF, a)" using assms by (simp add: utf8_lead_def)
  then show ?thesis using assms by simp
qed

lemma utf8_decode_three:
  assumes "a < 16" "b < 64" "c < 64" "a = 0 \<longrightarrow> 32 \<le> b" "a = 13 \<longrightarrow> b < 32"
  shows "utf8_decode ((0xE0 + a) # (0x80 + b) # (0x80 + c) # bs) = ((a * 64 + b) * 64 + c) # utf8_decode bs"
proof -
  have "utf8_lead (0xE0 + a) = Some (2, if a = 0 then 0xA0 else 0x80, if a = 13 then 0x9F else 0xBF, a)"
    using assms by (auto simp: utf8_lead_def)
  then show ?thesis using assms by (auto simp: numeral_2_eq_2)
qed

lemma utf8_decode_four:
  assumes "a < 5" "b < 64" "c < 64" "d < 64" "a = 0 \<longrightarrow> 16 \<le> b" "a = 4 \<longrightarrow> b < 16"
  shows "utf8_decode ((0xF0 + a) # (0x80 + b) # (0x80 + c) # (0x80 + d) # bs)
    = (((a * 64 + b) * 64 + c) * 64 + d) # utf8_decode bs"
proof -
  have "utf8_lead (0xF0 + a) = Some (3, if a = 0 then 0x90 else 0x80, if a = 4 then 0x8F else 0xBF, a)"
    using assms by (auto simp: utf8_lead_def)
  then show ?thesis using assms by (auto simp: numeral_3_eq_3)
qed

lemma digits_base_64:
  "(p div 4096 * 64 + p div 64 mod 64) * 64 + p mod 64 = (p::nat)"
  "((p div 262144 * 64 + p div 4096 mod 64) * 64 + p div 64 mod 64) * 64 + p mod 64 = p"
proof -
  have "p div 4096 = p div 64 div 64" "p div 262144 = p div 64 div 64 div 64" by (simp_all flip: div_mult2_eq)
  then show "(p div 4096 * 64 + p div 64 mod 64) * 64 + p mod 64 = p"
    "((p div 262144 * 64 + p div 4096 mod 64) * 64 + p div 64 mod 64) * 64 + p mod 64 = p" by simp_all
qed

lemma mod_of_div_64: "q div 64 = k \<Longrightarrow> q = k * 64 + q mod 64 \<and> q mod 64 < (64::nat)"
  using div_mult_mod_eq [of q 64] by simp

lemma scalar_bound: "is_scalar p \<Longrightarrow> p < 0x110000"
  by (auto simp: is_scalar_def)

lemma utf8_decode_point:
  assumes "is_scalar p"
  shows "utf8_decode (utf8_point p @ bs) = p # utf8_decode bs"
proof -
  consider "p < 0x80" | "0x80 \<le> p" "p < 0x800" | "0x800 \<le> p" "p < 0x10000" | "0x10000 \<le> p" "p < 0x110000"
    using scalar_bound [OF assms] by (meson not_less)
  then show ?thesis
  proof cases
    case 1
    then show ?thesis by (simp add: utf8_point_def utf8_decode_ascii del: utf8_decode.simps)
  next
    case 2
    then have "utf8_decode ((0xC0 + p div 64) # (0x80 + p mod 64) # bs) = (p div 64 * 64 + p mod 64) # utf8_decode bs"
      by (intro utf8_decode_two) auto
    then show ?thesis using 2 by (simp add: utf8_point_def)
  next
    case 3
    then have "utf8_decode ((0xE0 + p div 4096) # (0x80 + p div 64 mod 64) # (0x80 + p mod 64) # bs)
        = ((p div 4096 * 64 + p div 64 mod 64) * 64 + p mod 64) # utf8_decode bs"
    proof (intro utf8_decode_three)
      have q: "p div 4096 = p div 64 div 64" by (simp flip: div_mult2_eq)
      show "p div 4096 = 0 \<longrightarrow> 32 \<le> p div 64 mod 64" using 3 unfolding q by auto
      have "p div 64 < 864 \<or> 896 \<le> p div 64" using assms by (auto simp: is_scalar_def)
      then show "p div 4096 = 13 \<longrightarrow> p div 64 mod 64 < 32" unfolding q using mod_of_div_64 [of "p div 64" 13] by linarith
    qed auto
    then show ?thesis using 3 unfolding digits_base_64 by (simp add: utf8_point_def)
  next
    case 4
    then have "utf8_decode ((0xF0 + p div 262144) # (0x80 + p div 4096 mod 64) # (0x80 + p div 64 mod 64) # (0x80 + p mod 64) # bs)
        = (((p div 262144 * 64 + p div 4096 mod 64) * 64 + p div 64 mod 64) * 64 + p mod 64) # utf8_decode bs"
    proof (intro utf8_decode_four)
      have q: "p div 262144 = p div 4096 div 64" by (simp flip: div_mult2_eq)
      show "p div 262144 = 0 \<longrightarrow> 16 \<le> p div 4096 mod 64" using 4 unfolding q by auto
      have "p div 4096 < 272" using 4 by auto
      then show "p div 262144 = 4 \<longrightarrow> p div 4096 mod 64 < 16" unfolding q using mod_of_div_64 [of "p div 4096" 4] by linarith
    qed auto
    then show ?thesis using 4 unfolding digits_base_64 by (simp add: utf8_point_def)
  qed
qed

lemma utf8_decode_encode:
  assumes "well_formed us"
  shows "utf8_decode (utf8_encode us) = code_points us"
proof -
  have "list_all is_scalar ps \<Longrightarrow> utf8_decode (concat (map utf8_point ps)) = ps" for ps
    by (induction ps) (auto simp: utf8_decode_point)
  then show ?thesis using code_points_scalar [OF assms] by (simp add: utf8_encode_def)
qed

lemma utf8_point_bytes: "is_scalar p \<Longrightarrow> list_all (\<lambda>b. b < 256) (utf8_point p)"
  by (auto simp: utf8_point_def is_scalar_def)

lemma utf8_encode_bytes: "well_formed us \<Longrightarrow> list_all (\<lambda>b. b < 256) (utf8_encode us)"
  using code_points_scalar [of us] utf8_point_bytes by (fastforce simp: utf8_encode_def list_all_iff)

lemma sextets_small: "list_all (\<lambda>b. b < 256) bs \<Longrightarrow> list_all (\<lambda>s. s < 64) (sextets bs)"
  by (induction bs rule: sextets.induct) auto

lemma sextet_byte:
  "c < 256 \<Longrightarrow> (x * 4 + c div 64) mod 4 * 64 + c mod 64 = (c::nat)"
  "b < 256 \<Longrightarrow> (x * 16 + b div 16) mod 16 * 16 + (b mod 16 * 4 + y div 64) div 4 = b + y div 64 div 4"
  "b < 256 \<Longrightarrow> (a mod 4 * 16 + b div 16) div 16 = a mod 4"
proof -
  assume "c < 256"
  then have "c div 64 < 4" by simp
  then show "(x * 4 + c div 64) mod 4 * 64 + c mod 64 = c" by simp
next
  assume "b < 256"
  then have b: "b div 16 < 16" by simp
  then show "(a mod 4 * 16 + b div 16) div 16 = a mod 4" by simp
  have "(b mod 16 * 4 + y div 64) div 4 = b mod 16 + y div 64 div 4" by simp
  then show "(x * 16 + b div 16) mod 16 * 16 + (b mod 16 * 4 + y div 64) div 4 = b + y div 64 div 4" using b by simp
qed

lemma from_sextets_sextets: "list_all (\<lambda>b. b < 256) bs \<Longrightarrow> from_sextets (sextets bs) = bs"
proof (induction bs rule: sextets.induct)
  case (3 a b)
  then show ?case using sextet_byte(2) [of b "a mod 4" 0] sextet_byte(3) [of b a] by simp
next
  case (4 a b c bs)
  then have "c div 64 div 4 = 0" by (simp flip: div_mult2_eq)
  then show ?case using 4 sextet_byte(1) [of c "b mod 16"] sextet_byte(2) [of b "a mod 4" c] sextet_byte(3) [of b a] by simp
qed simp_all

lemma alphabet_value_char: "s < 64 \<Longrightarrow> alphabet_value (alphabet_char s) = Some s \<and> alphabet_char s \<noteq> 61"
  by (auto simp: alphabet_value_def alphabet_char_def)

lemma from_to_base64url: "list_all (\<lambda>b. b < 256) bs \<Longrightarrow> from_base64url (to_base64url bs) = bs"
proof -
  assume b: "list_all (\<lambda>b. b < 256) bs"
  have "list_all (\<lambda>s. s < 64) ss \<Longrightarrow> List.map_filter alphabet_value (takeWhile (\<lambda>c. c \<noteq> 61) (map alphabet_char ss)) = ss" for ss
    by (induction ss) (auto simp: List.map_filter_simps alphabet_value_char)
  then show ?thesis using sextets_small [OF b] from_sextets_sextets [OF b]
    by (simp add: from_base64url_def to_base64url_def)
qed

section \<open>A cursor is read back as it was written\<close>

lemma decimal_digits: "decimal n \<noteq> [] \<and> list_all is_digit_unit (decimal n)"
proof (induction n rule: decimal.induct)
  case (1 n)
  then show ?case by (subst (1 2) decimal.simps) (auto simp: is_digit_unit_def [abs_def])
qed

lemma number_of_decimal: "number_of_digits (decimal n) = n"
proof (induction n rule: decimal.induct)
  case (1 n)
  then show ?case by (subst decimal.simps) (auto simp: number_of_digits_def)
qed

lemma digits_before_colon:
  assumes "list_all is_digit_unit ds"
  shows "takeWhile (\<lambda>u. u \<noteq> COLON) (ds @ COLON # us) = ds"
  using assms by (induction ds) (auto simp: is_digit_unit_def COLON_def)

lemma uuid_units: "is_uuid us \<Longrightarrow> list_all (\<lambda>u. u < 128) us"
proof -
  assume u: "is_uuid us"
  have "u < 128" if mem: "u \<in> set us" for u
  proof -
    obtain i where "i < length us" "us ! i = u" using mem by (auto simp: in_set_conv_nth)
    then have "(i, u) \<in> set (enumerate 0 us)" by (simp add: in_set_enumerate_eq)
    then show ?thesis using u by (auto simp: is_uuid_def list_all_iff is_hex_def is_digit_unit_def split: if_splits)
  qed
  then show ?thesis by (simp add: list_all_iff)
qed

lemma encoded_bytes:
  assumes "well_formed val" "is_uuid ident"
  shows "utf8_decode (from_base64url (encodeTextCursor val ident)) = code_points (decimal (length val) @ [COLON] @ val @ ident)"
    and "well_formed (decimal (length val) @ [COLON] @ val @ ident)"
proof -
  have "well_formed (decimal (length val))" "well_formed [COLON]" "well_formed ident"
    using decimal_digits [of "length val"] uuid_units [OF assms(2)]
    by (fastforce intro!: well_formed_small simp: list_all_iff is_digit_unit_def COLON_def)+
  then show w: "well_formed (decimal (length val) @ [COLON] @ val @ ident)"
    using assms by (intro well_formed_append)
  then show "utf8_decode (from_base64url (encodeTextCursor val ident)) = code_points (decimal (length val) @ [COLON] @ val @ ident)"
    by (simp only: encodeTextCursor_def from_to_base64url [OF utf8_encode_bytes] utf8_decode_encode)
qed

lemma decode_encoded:
  assumes "well_formed val" "is_uuid ident" "length (encodeTextCursor val ident) \<le> MAX_CURSOR_LENGTH"
    "length val \<le> 9007199254740991"
  shows "decodeTextCursor (Some (encodeTextCursor val ident)) = Inr (Some \<lparr>ck_value = val, ck_id = ident\<rparr>)"
proof -
  let ?raw = "decimal (length val) @ COLON # val @ ident"
  have raw: "units_of (utf8_decode (from_base64url (encodeTextCursor val ident))) = ?raw"
    using encoded_bytes [OF assms(1,2)] units_of_code_points by simp
  have "takeWhile (\<lambda>u. u \<noteq> COLON) ?raw = decimal (length val)"
    using decimal_digits by (intro digits_before_colon) simp
  moreover have "encodeTextCursor val ident \<noteq> []"
    using raw by (auto simp: from_base64url_def List.map_filter_def)
  ultimately show ?thesis using assms decimal_digits [of "length val"]
    by (simp add: decodeTextCursor_def decodeTextCursorOrNull_def Let_def raw number_of_decimal)
qed

section \<open>Which names fit\<close>

lemma length_sextets: "length (sextets bs) = (4 * length bs + 2) div 3"
  by (induction bs rule: sextets.induct) auto

lemma utf8_encode_append:
  assumes "well_formed us"
  shows "utf8_encode (us @ vs) = utf8_encode us @ utf8_encode vs"
proof -
  have "code_points (us @ vs) = code_points us @ code_points vs"
    using assms by (induction us rule: well_formed.induct) (cases vs; auto split: if_splits)+
  then show ?thesis by (simp add: utf8_encode_def)
qed

lemma utf8_encode_ascii: "list_all (\<lambda>u. u < 128) us \<Longrightarrow> length (utf8_encode us) = length us"
  by (induction us rule: code_points.induct) (auto simp: utf8_encode_def utf8_point_def is_high_def is_low_def)

lemma cursor_length:
  assumes "well_formed val" "is_uuid ident"
  shows "length (encodeTextCursor val ident)
    = (4 * (length (decimal (length val)) + 37 + length (utf8_encode val)) + 2) div 3"
proof -
  have d: "list_all (\<lambda>u. u < 128) (decimal (length val) @ [COLON])"
    using decimal_digits [of "length val"] by (auto simp: list_all_iff is_digit_unit_def COLON_def)
  then have w: "well_formed (decimal (length val) @ [COLON])" by (fastforce intro!: well_formed_small simp: list_all_iff)
  have "utf8_encode (decimal (length val) @ [COLON] @ val @ ident)
      = utf8_encode (decimal (length val) @ [COLON]) @ utf8_encode val @ utf8_encode ident"
    using utf8_encode_append [OF w, of "val @ ident"] utf8_encode_append [OF assms(1), of ident] by simp
  then show ?thesis using utf8_encode_ascii [OF d] utf8_encode_ascii [OF uuid_units [OF assms(2)]] assms(2)
    by (simp add: encodeTextCursor_def to_base64url_def length_sextets is_uuid_def algebra_simps)
qed

lemma decimal_length: "n < 1000 \<Longrightarrow> length (decimal n) \<le> 3"
  by (simp add: decimal.simps [of n] decimal.simps [of "n div 10"] decimal.simps [of "n div 100"] flip: div_mult2_eq)

lemma cursor_fits:
  assumes "well_formed val" "is_uuid ident" "length val < 1000" "length (utf8_encode val) \<le> 344"
  shows "length (encodeTextCursor val ident) \<le> MAX_CURSOR_LENGTH"
  using cursor_length [OF assms(1,2)] decimal_length [OF assms(3)] assms(4) by (simp add: MAX_CURSOR_LENGTH_def)

text \<open>
  C29. A page's cursor brings the next request back to exactly the row the page ended with, for every
  product name of the column's width (255 characters) whose UTF-8 form takes at most 344 bytes: whatever
  separators, digits, quotes, accents or surrogate pairs the name holds, decoding the cursor returns
  the name and the id it was made from.
\<close>

theorem cursor_round_trip:
  assumes "well_formed val" "is_uuid ident" "length val < 1000" "length (utf8_encode val) \<le> 344"
  shows "decodeTextCursor (Some (encodeTextCursor val ident)) = Inr (Some \<lparr>ck_value = val, ck_id = ident\<rparr>)"
  using assms cursor_fits [OF assms] by (intro decode_encoded) simp_all

definition ascii :: "string \<Rightarrow> units" where
  "ascii s = map of_char s"

definition sample_uuid :: units where
  "sample_uuid = ascii ''0f3c9a1e-4b2d-4c6f-9a11-2e5d7c8b3f04''"

theorem cursor_round_trip_witness:
  "decodeTextCursor (Some (encodeTextCursor (ascii ''12:34 Special | '' @ [233, 0xD83C, 0xDF81]) sample_uuid))
     = Inr (Some \<lparr>ck_value = ascii ''12:34 Special | '' @ [233, 0xD83C, 0xDF81], ck_id = sample_uuid\<rparr>)"
proof (rule cursor_round_trip)
  show "is_uuid sample_uuid" by (simp add: is_uuid_def sample_uuid_def ascii_def is_hex_def is_digit_unit_def)
qed (simp_all add: ascii_def is_high_def is_low_def utf8_encode_def utf8_point_def)

text \<open>
  The bound is on the encoded text, not on the name: a name of 120 hiragana fits the column, and the cursor made of
  it is refused.
\<close>

lemma code_points_plain: "list_all (\<lambda>u. \<not> is_high u \<and> \<not> is_low u) us \<Longrightarrow> code_points us = us"
  by (induction us rule: code_points.induct) auto

lemma long_name_refused:
  defines "name \<equiv> replicate 120 0x3042"
  shows "well_formed name \<and> decodeTextCursor (Some (encodeTextCursor name sample_uuid)) = Inl (Refused ''INVALID_CURSOR'')"
proof -
  have w: "well_formed name" unfolding name_def by (rule well_formed_small) (simp add: list_all_iff)
  have "code_points name = name" unfolding name_def by (rule code_points_plain) (simp add: list_all_iff is_high_def is_low_def)
  then have "length (utf8_encode name) = 360"
    by (simp add: utf8_encode_def name_def utf8_point_def map_replicate_const length_concat sum_list_replicate)
  moreover have "is_uuid sample_uuid" by (simp add: is_uuid_def sample_uuid_def ascii_def is_hex_def is_digit_unit_def)
  moreover have "length (decimal (length name)) = 3" by (simp add: name_def decimal.simps)
  ultimately have "512 < length (encodeTextCursor name sample_uuid)" using w by (subst cursor_length) simp_all
  then show ?thesis using w by (simp add: decodeTextCursor_def decodeTextCursorOrNull_def MAX_CURSOR_LENGTH_def)
qed

end
