(* ===== verification/Catalogue.thy ===== *)
theory Catalogue
  imports Text_Cursor "HOL-Library.Product_Lexorder" "HOL-Library.List_Lexorder"
begin

text \<open>
  The mirror of a store's catalogue: the batches a store pushes, the sweep that removes what the store
  no longer holds (\<open>src/products/catalogue-ingest.service.ts\<close>), the plugin's side of that sweep
  (\<open>src/Catalogue/CatalogueReconciler.php\<close>), and the paged list a merchant picks products from
  (\<open>src/products/products.service.ts\<close> and \<open>products.repository.ts\<close>).

  The database compares text by its collation, which is a parameter: \<open>wt\<close> maps a text to its weight.
  What \<open>LIKE\<close> matches and how a date is parsed are parameters too.
\<close>

record store_product =
  sp_id :: units
  sp_storeId :: string
  sp_externalId :: units
  sp_name :: units
  sp_sku :: "units option"
  sp_type :: units
  sp_priceMinor :: "int option"
  sp_status :: units
  sp_permalink :: "units option"
  sp_imageUrl :: "units option"
  sp_categories :: "units list option"
  sp_tags :: "units list option"
  sp_syncedAt :: int
  sp_externalUpdatedAt :: "int option"

section \<open>Ingest\<close>

record ingest_product =
  ig_external_id :: units
  ig_name :: units
  ig_sku :: "units option"
  ig_type :: units
  ig_price_minor :: "int option"
  ig_status :: units
  ig_permalink :: "units option"
  ig_image_url :: "units option"
  ig_categories :: "units list option"
  ig_tags :: "units list option"
  ig_external_updated_at :: "units option"

definition parseTimestamp :: "(units \<Rightarrow> int option) \<Rightarrow> units option \<Rightarrow> int option" where
  "parseTimestamp date val = (case val of None \<Rightarrow> None | Some v \<Rightarrow> if v = [] then None else date v)"

text \<open>The row a pushed product would insert, under the id the database draws for it.\<close>

definition parametersFor :: "(units \<Rightarrow> int option) \<Rightarrow> int \<Rightarrow> units \<Rightarrow> string \<Rightarrow> ingest_product \<Rightarrow> store_product" where
  "parametersFor date now ident storeId product = \<lparr>sp_id = ident, sp_storeId = storeId, sp_externalId = ig_external_id product,
     sp_name = ig_name product, sp_sku = ig_sku product, sp_type = ig_type product,
     sp_priceMinor = ig_price_minor product, sp_status = ig_status product, sp_permalink = ig_permalink product,
     sp_imageUrl = ig_image_url product, sp_categories = ig_categories product, sp_tags = ig_tags product,
     sp_syncedAt = now, sp_externalUpdatedAt = parseTimestamp date (ig_external_updated_at product)\<rparr>"

text \<open>\<open>uq_store_products_external\<close>: the key two rows of the mirror may not share.\<close>

definition external_key :: "(units \<Rightarrow> 'w) \<Rightarrow> store_product \<Rightarrow> string \<times> 'w" where
  "external_key wt r = (sp_storeId r, wt (sp_externalId r))"

definition upsert_product :: "(units \<Rightarrow> 'w) \<Rightarrow> store_product \<Rightarrow> store_product list \<Rightarrow> store_product list" where
  "upsert_product wt row rows =
     (if list_ex (\<lambda>r. external_key wt r = external_key wt row) rows
      then map (\<lambda>r. if external_key wt r = external_key wt row
             then row\<lparr>sp_id := sp_id r, sp_storeId := sp_storeId r, sp_externalId := sp_externalId r\<rparr> else r) rows
      else rows @ [row])"

definition ingest :: "(units \<Rightarrow> 'w) \<Rightarrow> (units \<Rightarrow> int option) \<Rightarrow> int \<Rightarrow> (units \<Rightarrow> units) \<Rightarrow> string \<Rightarrow> ingest_product list
    \<Rightarrow> store_product list \<Rightarrow> nat \<times> store_product list" where
  "ingest wt date now new_id storeId products rows =
     (length products,
      fold (\<lambda>p. upsert_product wt (parametersFor date now (new_id (ig_external_id p)) storeId p)) products rows)"

section \<open>Removing what the store no longer holds\<close>

record reconcile_result =
  rc_checked :: nat
  rc_stale :: nat
  rc_removed :: nat

definition held_rows :: "(units \<Rightarrow> 'w::linorder) \<Rightarrow> string \<Rightarrow> units \<Rightarrow> units option \<Rightarrow> store_product list \<Rightarrow> store_product list" where
  "held_rows wt storeId rangeStart rangeEnd rows =
     filter (\<lambda>r. sp_storeId r = storeId \<and> wt rangeStart \<le> wt (sp_externalId r)
       \<and> (case rangeEnd of None \<Rightarrow> True | Some e \<Rightarrow> wt (sp_externalId r) \<le> wt e)) rows"

definition delete_external :: "(units \<Rightarrow> 'w) \<Rightarrow> string \<Rightarrow> units list \<Rightarrow> store_product list \<Rightarrow> store_product list" where
  "delete_external wt storeId ids rows =
     filter (\<lambda>r. \<not> (sp_storeId r = storeId \<and> list_ex (\<lambda>i. wt i = wt (sp_externalId r)) ids)) rows"

definition reconcile :: "(units \<Rightarrow> 'w::linorder) \<Rightarrow> string \<Rightarrow> units list \<Rightarrow> units option \<Rightarrow> bool \<Rightarrow> store_product list
    \<Rightarrow> reconcile_result \<times> store_product list" where
  "reconcile wt storeId ids range_start is_final rows =
     (let rangeStart = (case range_start of None \<Rightarrow> hd ids | Some s \<Rightarrow> s);
          rangeEnd = (if is_final then None else Some (last ids));
          stale = filter (\<lambda>i. i \<notin> set ids) (map sp_externalId (held_rows wt storeId rangeStart rangeEnd rows))
      in if \<not> is_final then (\<lparr>rc_checked = length ids, rc_stale = length stale, rc_removed = 0\<rparr>, rows)
         else if stale = [] then (\<lparr>rc_checked = length ids, rc_stale = 0, rc_removed = 0\<rparr>, rows)
         else let kept = delete_external wt storeId stale rows
              in (\<lparr>rc_checked = length ids, rc_stale = length stale, rc_removed = length rows - length kept\<rparr>, kept))"

definition remove_product :: "(units \<Rightarrow> 'w) \<Rightarrow> string \<Rightarrow> units \<Rightarrow> store_product list \<Rightarrow> bool \<times> store_product list" where
  "remove_product wt storeId external rows =
     (let kept = delete_external wt storeId [external] rows in (length kept < length rows, kept))"

text \<open>
  The plugin's sweep: the store's ids in string order, cut into pages, every page carrying the first id
  of the whole manifest and the last one marked final. A page that is not answered ends the sweep.
\<close>

definition PAGE_SIZE :: nat where "PAGE_SIZE = 10000"

function array_chunk :: "nat \<Rightarrow> 'a list \<Rightarrow> 'a list list" where
  "array_chunk n xs = (if xs = [] \<or> n = 0 then [] else take n xs # array_chunk n (drop n xs))"
  by pat_completeness auto

termination array_chunk
  by (relation "measure (\<lambda>(n, xs). length xs)") simp_all

declare array_chunk.simps [simp del]

fun send_loop :: "(units \<Rightarrow> 'w::linorder) \<Rightarrow> (nat \<Rightarrow> bool) \<Rightarrow> string \<Rightarrow> units \<Rightarrow> nat \<Rightarrow> nat \<Rightarrow> units list list \<Rightarrow> nat \<Rightarrow> store_product list
    \<Rightarrow> nat \<times> store_product list" where
  "send_loop wt answered storeId range_start final index [] removed rows = (removed, rows)"
| "send_loop wt answered storeId range_start final index (page # pages) removed rows =
     (if \<not> answered index then (0, rows)
      else case reconcile wt storeId page (Some range_start) (index = final) rows of
          (res, rows') \<Rightarrow> send_loop wt answered storeId range_start final (index + 1) pages (removed + rc_removed res) rows')"

definition send_pages :: "(units \<Rightarrow> 'w::linorder) \<Rightarrow> (nat \<Rightarrow> bool) \<Rightarrow> string \<Rightarrow> units list \<Rightarrow> store_product list
    \<Rightarrow> nat \<times> store_product list" where
  "send_pages wt answered storeId ids rows =
     (let pages = array_chunk PAGE_SIZE ids in send_loop wt answered storeId (hd ids) (length pages - 1) 0 pages 0 rows)"

definition sweep :: "(units \<Rightarrow> 'w::linorder) \<Rightarrow> (nat \<Rightarrow> bool) \<Rightarrow> bool \<Rightarrow> bool \<Rightarrow> string \<Rightarrow> units list \<Rightarrow> store_product list
    \<Rightarrow> nat \<times> store_product list" where
  "sweep wt answered is_linked walked storeId store_ids rows =
     (if \<not> is_linked \<or> \<not> walked \<or> store_ids = [] then (0, rows)
      else send_pages wt answered storeId (sort store_ids) rows)"

section \<open>The list\<close>

text \<open>\<open>escapeLike\<close>: \<open>\\<close>, \<open>%\<close> and \<open>_\<close> lose their meaning.\<close>

definition escapeLike :: "units \<Rightarrow> units" where
  "escapeLike term = concat (map (\<lambda>u. if u = 92 \<or> u = 37 \<or> u = 95 then [92, u] else [u]) term)"

record page_query =
  pq_storeId :: string
  pq_search :: "units option"
  pq_limit :: nat
  pq_after :: "text_cursor_key option"

definition product_key :: "(units \<Rightarrow> 'w) \<Rightarrow> store_product \<Rightarrow> 'w \<times> 'w" where
  "product_key wt r = (wt (sp_name r), wt (sp_id r))"

text \<open>The rows of a store that belongs to the caller, whose name starts with the term searched for.\<close>

definition in_scope :: "(units \<Rightarrow> units \<Rightarrow> bool) \<Rightarrow> string \<Rightarrow> store_row list \<Rightarrow> string \<Rightarrow> units option \<Rightarrow> store_product \<Rightarrow> bool" where
  "in_scope like tenantId stores storeId search r \<longleftrightarrow>
     list_ex (\<lambda>s. store_id s = sp_storeId r \<and> store_tenantId s = tenantId) stores
     \<and> sp_storeId r = storeId
     \<and> (case search of None \<Rightarrow> True | Some t \<Rightarrow> t = [] \<or> like (sp_name r) (escapeLike t @ [37]))"

definition page :: "(units \<Rightarrow> 'w::linorder) \<Rightarrow> (units \<Rightarrow> units \<Rightarrow> bool) \<Rightarrow> string \<Rightarrow> store_row list \<Rightarrow> page_query
    \<Rightarrow> store_product list \<Rightarrow> store_product list" where
  "page wt like tenantId stores q rows =
     take (pq_limit q) (sort_key (product_key wt)
       (filter (\<lambda>r. in_scope like tenantId stores (pq_storeId q) (pq_search q) r
          \<and> (case pq_after q of None \<Rightarrow> True | Some k \<Rightarrow> (wt (ck_value k), wt (ck_id k)) < product_key wt r)) rows))"

definition existsInStore_product :: "(units \<Rightarrow> 'w) \<Rightarrow> string \<Rightarrow> store_row list \<Rightarrow> string \<Rightarrow> units \<Rightarrow> store_product list \<Rightarrow> bool" where
  "existsInStore_product wt tenantId stores storeId external rows \<longleftrightarrow>
     0 < length (filter (\<lambda>r. list_ex (\<lambda>s. store_id s = sp_storeId r \<and> store_tenantId s = tenantId) stores
       \<and> sp_storeId r = storeId \<and> wt (sp_externalId r) = wt external) rows)"

record product_summary =
  sm_id :: units
  sm_externalId :: units
  sm_name :: units
  sm_sku :: "units option"
  sm_type :: units
  sm_priceMinor :: "int option"
  sm_status :: units
  sm_permalink :: "units option"
  sm_imageUrl :: "units option"

definition toSummary :: "store_product \<Rightarrow> product_summary" where
  "toSummary product = \<lparr>sm_id = sp_id product, sm_externalId = sp_externalId product, sm_name = sp_name product, sm_sku = sp_sku product,
     sm_type = sp_type product, sm_priceMinor = sp_priceMinor product, sm_status = sp_status product,
     sm_permalink = sp_permalink product, sm_imageUrl = sp_imageUrl product\<rparr>"

record product_page =
  pg_items :: "product_summary list"
  pg_cursor :: "units option"
  pg_hasMore :: bool
  pg_limit :: nat

record list_request =
  lr_storeId :: string
  lr_search :: "units option"
  lr_limit :: "nat option"

definition DEFAULT_PRODUCT_PAGE_SIZE :: nat where "DEFAULT_PRODUCT_PAGE_SIZE = 25"

definition request_limit :: "list_request \<Rightarrow> nat" where
  "request_limit q = (case lr_limit q of None \<Rightarrow> DEFAULT_PRODUCT_PAGE_SIZE | Some n \<Rightarrow> n)"

definition list_products :: "(units \<Rightarrow> 'w::linorder) \<Rightarrow> (units \<Rightarrow> units \<Rightarrow> bool) \<Rightarrow> string \<Rightarrow> store_row list \<Rightarrow> list_request
    \<Rightarrow> units option \<Rightarrow> store_product list \<Rightarrow> api_error + product_page" where
  "list_products wt like tenantId stores q cursor rows =
     bind_result (decodeTextCursor cursor) (\<lambda>after.
       let limit = request_limit q;
           found = page wt like tenantId stores
             \<lparr>pq_storeId = lr_storeId q, pq_search = lr_search q, pq_limit = limit + 1, pq_after = after\<rparr> rows;
           hasMore = limit < length found;
           items = (if hasMore then take limit found else found)
       in Inr \<lparr>pg_items = map toSummary items,
               pg_cursor = (if hasMore \<and> items \<noteq> [] then Some (encodeTextCursor (sp_name (last items)) (sp_id (last items))) else None),
               pg_hasMore = hasMore, pg_limit = limit\<rparr>)"

text \<open>
  A client that follows the cursors, one request against each state the catalogue is in: what it
  collected, and whether it came to a page without a cursor.
\<close>

fun walk :: "(units \<Rightarrow> 'w::linorder) \<Rightarrow> (units \<Rightarrow> units \<Rightarrow> bool) \<Rightarrow> string \<Rightarrow> store_row list \<Rightarrow> list_request
    \<Rightarrow> units option \<Rightarrow> store_product list list \<Rightarrow> api_error + (product_summary list \<times> bool)" where
  "walk wt like tenantId stores q cursor [] = Inr ([], False)"
| "walk wt like tenantId stores q cursor (rows # later) =
     bind_result (list_products wt like tenantId stores q cursor rows) (\<lambda>pg.
       case pg_cursor pg of
         None \<Rightarrow> Inr (pg_items pg, True)
       | Some c \<Rightarrow> bind_result (walk wt like tenantId stores q (Some c) later) (\<lambda>(items, finished).
           Inr (pg_items pg @ items, finished)))"

end
