(* ===== verification/Catalogue_Correct.thy ===== *)
theory Catalogue_Correct
  imports Catalogue
begin

text \<open>
  What the catalogue guarantees: a client that follows the cursors sees every product once, also while
  the catalogue changes under it; a sweep that fits one page removes exactly what the store dropped.
\<close>

section \<open>Sorted rows\<close>

text \<open>The rows of a page are a strictly ascending list: two of them never share a key.\<close>

definition distinct_keys :: "(units \<Rightarrow> 'w) \<Rightarrow> store_product list \<Rightarrow> bool" where
  "distinct_keys wt rows \<longleftrightarrow> distinct (map (\<lambda>r. wt (sp_id r)) rows)"

lemma distinct_keys_filter: "distinct_keys wt rows \<Longrightarrow> distinct_keys wt (filter P rows)"
  by (simp add: distinct_keys_def distinct_map_filter)

lemma sorted_strict:
  assumes "sorted (map f xs)" "distinct (map g xs)" "\<And>x y. f x = f y \<Longrightarrow> g x = g y"
  shows "sorted_wrt (<) (map f xs)"
proof -
  have "inj_on f (set xs)" "distinct xs" using assms(2,3) unfolding distinct_map inj_on_def by metis+
  then have "distinct (map f xs)" by (simp add: distinct_map)
  then show ?thesis using assms(1) by (simp add: strict_sorted_iff)
qed

lemma page_sorted:
  assumes "distinct_keys wt rows"
  shows "sorted_wrt (<) (map (product_key wt) (sort_key (product_key wt) (filter P rows)))"
proof (rule sorted_strict [where g = "\<lambda>r. wt (sp_id r)"])
  show "distinct (map (\<lambda>r. wt (sp_id r)) (sort_key (product_key wt) (filter P rows)))"
    using distinct_keys_filter [OF assms, of P] unfolding distinct_keys_def distinct_map
    by (simp add: distinct_filter)
qed (simp_all add: product_key_def)

lemma last_greatest: "sorted_wrt (<) (map f xs) \<Longrightarrow> x \<in> set xs \<Longrightarrow> f x \<le> f (last xs)"
  for f :: "'a \<Rightarrow> 'b::linorder"
  by (induction xs rule: rev_induct) (auto simp: sorted_wrt_append dest: less_imp_le)

text \<open>Cutting a strictly ascending list after some entries cuts it at the key of the last of them.\<close>

lemma cut_at_last:
  fixes f :: "'a \<Rightarrow> 'b::linorder"
  assumes "sorted_wrt (<) (map f xs)" "0 < n" "n < length xs"
  shows "take n xs = filter (\<lambda>x. f x \<le> f (last (take n xs))) xs" "drop n xs = filter (\<lambda>x. f (last (take n xs)) < f x) xs"
proof -
  let ?a = "take n xs" and ?b = "drop n xs"
  have "sorted_wrt (<) (map f ?a @ map f ?b)" using assms(1) by (simp flip: map_append)
  then have ab: "sorted_wrt (<) (map f ?a)" "\<forall>x\<in>set ?a. \<forall>y\<in>set ?b. f x < f y"
    by (auto simp: sorted_wrt_append)
  have ne: "?a \<noteq> []" using assms by auto
  have a: "\<forall>x\<in>set ?a. f x \<le> f (last ?a)"
    using last_greatest [OF ab(1)] by blast
  have b: "\<forall>y\<in>set ?b. f (last ?a) < f y" using ab(2) ne by auto
  have "filter (\<lambda>x. f x \<le> f (last ?a)) (?a @ ?b) = ?a" "filter (\<lambda>x. f (last ?a) < f x) (?a @ ?b) = ?b"
    unfolding filter_append using a b by (auto simp: filter_id_conv filter_empty_conv)
  then show "take n xs = filter (\<lambda>x. f x \<le> f (last (take n xs))) xs"
    "drop n xs = filter (\<lambda>x. f (last (take n xs)) < f x) xs" by simp_all
qed


section \<open>One page\<close>

text \<open>Rows whose cursor can be read back.\<close>

definition pageable :: "store_product \<Rightarrow> bool" where
  "pageable r \<longleftrightarrow> well_formed (sp_name r) \<and> is_uuid (sp_id r) \<and> length (sp_name r) < 1000
     \<and> length (utf8_encode (sp_name r)) \<le> 344"

lemma decode_pageable:
  assumes "pageable r"
  shows "decodeTextCursor (Some (encodeTextCursor (sp_name r) (sp_id r))) = Inr (Some \<lparr>ck_value = sp_name r, ck_id = sp_id r\<rparr>)"
  using assms cursor_fits [of "sp_name r" "sp_id r"] by (intro decode_encoded) (simp_all add: pageable_def)

text \<open>The rows a request is about, in the order of the list, and those of them after a key.\<close>

definition listed :: "(units \<Rightarrow> 'w::linorder) \<Rightarrow> (units \<Rightarrow> units \<Rightarrow> bool) \<Rightarrow> string \<Rightarrow> store_row list \<Rightarrow> list_request
    \<Rightarrow> store_product list \<Rightarrow> store_product list" where
  "listed wt like tenantId stores q rows =
     sort_key (product_key wt) (filter (in_scope like tenantId stores (lr_storeId q) (lr_search q)) rows)"

fun after_key :: "(units \<Rightarrow> 'w::linorder) \<Rightarrow> text_cursor_key option \<Rightarrow> store_product \<Rightarrow> bool" where
  "after_key wt None r \<longleftrightarrow> True"
| "after_key wt (Some k) r \<longleftrightarrow> (wt (ck_value k), wt (ck_id k)) < product_key wt r"

lemma page_listed:
  "page wt like tenantId stores \<lparr>pq_storeId = lr_storeId q, pq_search = lr_search q, pq_limit = n, pq_after = k\<rparr> rows
     = take n (filter (after_key wt k) (listed wt like tenantId stores q rows))"
  by (cases k) (simp_all add: page_def listed_def filter_sort conj_commute)

abbreviation row_key :: "store_product \<Rightarrow> text_cursor_key" where
  "row_key r \<equiv> \<lparr>ck_value = sp_name r, ck_id = sp_id r\<rparr>"

text \<open>
  What one request answers: all that is left and no cursor, or the first \<open>limit\<close> rows of what is left
  and a cursor that stands for the last of them.
\<close>

lemma list_products_page:
  fixes wt :: "units \<Rightarrow> 'w::linorder" and like tenantId stores
  assumes "decodeTextCursor cursor = Inr k" "0 < request_limit q" "\<forall>r\<in>set rows. pageable r"
  defines "left \<equiv> filter (after_key wt k) (listed wt like tenantId stores q rows)"
  obtains pg where "list_products wt like tenantId stores q cursor rows = Inr pg"
      "length left \<le> request_limit q" "pg_items pg = map toSummary left" "pg_cursor pg = None"
  | pg c where "list_products wt like tenantId stores q cursor rows = Inr pg" "request_limit q < length left"
      "pg_items pg = map toSummary (take (request_limit q) left)" "pg_cursor pg = Some c"
      "decodeTextCursor (Some c) = Inr (Some (row_key (last (take (request_limit q) left))))"
proof (cases "length left \<le> request_limit q")
  case True
  then show ?thesis using assms(1) by (intro that(1)) (auto simp: list_products_def Let_def page_listed left_def)
next
  case False
  let ?items = "take (request_limit q) left"
  have "set ?items \<subseteq> set rows" by (auto simp: left_def listed_def dest!: in_set_takeD)
  moreover have "?items \<noteq> []" using False assms(2) by auto
  ultimately have "?items \<noteq> []" "last ?items \<in> set rows" using last_in_set by blast+
  then show ?thesis using False assms(1,3) decode_pageable
    by (intro that(2)) (auto simp: list_products_def Let_def page_listed min_def simp flip: left_def)
qed

section \<open>Following the cursors\<close>

lemma filter_unique: "distinct xs \<Longrightarrow> x \<in> set xs \<Longrightarrow> \<forall>y\<in>set xs. P y \<longleftrightarrow> y = x \<Longrightarrow> filter P xs = [x]"
proof (induction xs)
  case (Cons y xs)
  then show ?case by (cases "y = x") (auto simp: filter_empty_conv)
qed simp

lemma after_row_key: "after_key wt (Some (row_key x)) r \<longleftrightarrow> product_key wt x < product_key wt r"
  by (simp add: product_key_def)

lemma after_key_trans: "after_key wt k x \<Longrightarrow> after_key wt (Some (row_key x)) r \<Longrightarrow> after_key wt k r"
  by (cases k) (auto simp: product_key_def)

lemma last_of_take:
  assumes "0 < n" "n < length (filter P xs)"
  shows "P (last (take n (filter P xs)))"
proof -
  have "take n (filter P xs) \<noteq> []" using assms by auto
  then have "last (take n (filter P xs)) \<in> set (filter P xs)" using last_in_set in_set_takeD by fast
  then show ?thesis by simp
qed

lemma listed_sorted:
  "distinct_keys wt rows \<Longrightarrow> sorted_wrt (<) (map (product_key wt) (filter P (listed wt like tenantId stores q rows)))"
  using page_sorted [of wt rows] by (simp add: listed_def filter_sort)

text \<open>
  The invariant of the walk from a cursor that stands for the key \<open>k\<close>: everything collected is after \<open>k\<close>,
  in strictly ascending order, and was in the catalogue at some request; a row that was there at every
  request is among it once the walk is finished.
\<close>

lemma walk_from:
  fixes wt :: "units \<Rightarrow> 'w::linorder"
  assumes "\<forall>rows\<in>set dbs. distinct_keys wt rows \<and> (\<forall>r\<in>set rows. pageable r)" "0 < request_limit q"
    "decodeTextCursor cursor = Inr k" "walk wt like tenantId stores q cursor dbs = Inr (items, finished)"
  shows "\<exists>rs. items = map toSummary rs \<and> sorted_wrt (<) (map (product_key wt) rs)
    \<and> (\<forall>r\<in>set rs. after_key wt k r \<and> (\<exists>rows\<in>set dbs. r \<in> set rows))
    \<and> (finished \<longrightarrow> (\<forall>r. in_scope like tenantId stores (lr_storeId q) (lr_search q) r \<and> after_key wt k r
          \<and> (\<forall>rows\<in>set dbs. r \<in> set rows) \<longrightarrow> r \<in> set rs))"
  using assms
proof (induction dbs arbitrary: cursor k items finished)
  case Nil
  then show ?case by auto
next
  case (Cons rows dbs)
  let ?left = "filter (after_key wt k) (listed wt like tenantId stores q rows)" and ?n = "request_limit q"
  have left: "set ?left = {r \<in> set rows. in_scope like tenantId stores (lr_storeId q) (lr_search q) r \<and> after_key wt k r}"
    by (auto simp: listed_def)
  have strict: "sorted_wrt (<) (map (product_key wt) ?left)" using Cons.prems(1) by (intro listed_sorted) simp
  have ok: "\<forall>r\<in>set rows. pageable r" using Cons.prems(1) by simp
  show ?case
  proof (cases rule: list_products_page [OF Cons.prems(3,2) ok, of wt like tenantId stores])
    case (1 pg)
    then have "items = map toSummary ?left" "finished" using Cons.prems(4) by simp_all
    then show ?thesis using strict left by (intro exI [of _ ?left]) auto
  next
    case (2 pg c)
    let ?page = "take ?n ?left" and ?k = "row_key (last (take ?n ?left))"
    obtain items' where w: "walk wt like tenantId stores q (Some c) dbs = Inr (items', finished)" "items = map toSummary ?page @ items'"
      using 2 Cons.prems(4) by (auto simp: bind_result_Inr_iff)
    from Cons.IH [OF _ Cons.prems(2) _ w(1), of "Some ?k"] 2 Cons.prems(1)
    obtain rs where rs: "items' = map toSummary rs" "sorted_wrt (<) (map (product_key wt) rs)"
      "\<forall>r\<in>set rs. after_key wt (Some ?k) r \<and> (\<exists>rows\<in>set dbs. r \<in> set rows)"
      "finished \<longrightarrow> (\<forall>r. in_scope like tenantId stores (lr_storeId q) (lr_search q) r \<and> after_key wt (Some ?k) r
          \<and> (\<forall>rows\<in>set dbs. r \<in> set rows) \<longrightarrow> r \<in> set rs)"
      by auto
    have page: "set ?page = {r \<in> set ?left. product_key wt r \<le> product_key wt (last ?page)}"
      using cut_at_last(1) [OF strict Cons.prems(2) 2(2)] by (metis set_filter)
    have strict_page: "sorted_wrt (<) (map (product_key wt) ?page)"
      using sorted_wrt_take [OF strict, of ?n] by (simp only: take_map)
    have last_page: "after_key wt k (last ?page)" using Cons.prems(2) 2(2) by (rule last_of_take)
    have "product_key wt x < product_key wt y" if "x \<in> set ?page" "y \<in> set rs" for x y
    proof -
      have "product_key wt x \<le> product_key wt (last ?page)" using that(1) unfolding page by simp
      also have "\<dots> < product_key wt y" using rs(3) that(2) by (simp add: product_key_def)
      finally show ?thesis .
    qed
    then have up: "sorted_wrt (<) (map (product_key wt) (?page @ rs))"
      using strict_page rs(2) unfolding map_append sorted_wrt_append by (simp add: image_iff)
    have from_db: "after_key wt k r \<and> (\<exists>rows\<in>set (rows # dbs). r \<in> set rows)" if "r \<in> set (?page @ rs)" for r
    proof (cases "r \<in> set ?page")
      case True
      then show ?thesis using page left by auto
    next
      case False
      then have "after_key wt (Some ?k) r \<and> (\<exists>rows\<in>set dbs. r \<in> set rows)" using that rs(3) by auto
      then show ?thesis using after_key_trans [OF last_page] by (meson list.set_intros(2))
    qed
    have none_lost: "r \<in> set (?page @ rs)"
      if "finished" "in_scope like tenantId stores (lr_storeId q) (lr_search q) r" "after_key wt k r"
        "\<forall>rows\<in>set (rows # dbs). r \<in> set rows" for r
    proof (cases "product_key wt r \<le> product_key wt (last ?page)")
      case True
      then show ?thesis using that left page by auto
    next
      case False
      then have "after_key wt (Some ?k) r" by (simp only: after_row_key not_le)
      then show ?thesis using that rs(4) by simp
    qed
    have "items = map toSummary (?page @ rs)" using w(2) rs(1) by simp
    with up from_db none_lost show ?thesis by (intro exI [of _ "?page @ rs"]) blast
  qed
qed


lemma walk_rest:
  fixes wt :: "units \<Rightarrow> 'w::linorder"
  assumes "distinct_keys wt rows" "\<forall>r\<in>set rows. pageable r" "0 < request_limit q" "decodeTextCursor cursor = Inr k"
    "length (filter (after_key wt k) (listed wt like tenantId stores q rows)) \<le> n * request_limit q" "0 < n"
  shows "walk wt like tenantId stores q cursor (replicate n rows)
    = Inr (map toSummary (filter (after_key wt k) (listed wt like tenantId stores q rows)), True)"
  using assms(4-)
proof (induction n arbitrary: cursor k)
  case (Suc n)
  let ?left = "\<lambda>k. filter (after_key wt k) (listed wt like tenantId stores q rows)" and ?n = "request_limit q"
  show ?case
  proof (cases rule: list_products_page [OF Suc.prems(1) assms(3,2), of wt like tenantId stores])
    case (1 pg)
    then show ?thesis by simp
  next
    case (2 pg c)
    let ?k = "Some (row_key (last (take ?n (?left k))))"
    have strict: "sorted_wrt (<) (map (product_key wt) (?left k))" using assms(1) by (rule listed_sorted)
    have "after_key wt k (last (take ?n (?left k)))" using assms(3) 2(2) by (rule last_of_take)
    then have "?left ?k = filter (\<lambda>x. product_key wt (last (take ?n (?left k))) < product_key wt x) (?left k)"
      by (auto simp: product_key_def intro!: filter_cong dest: after_key_trans)
    then have rest: "?left ?k = drop ?n (?left k)" using cut_at_last(2) [OF strict assms(3) 2(2)] by simp
    then have "length (?left ?k) \<le> n * ?n" "0 < n" using Suc.prems(2) 2(2) by (auto, cases n, auto)
    from Suc.IH [OF 2(5) this] show ?thesis using 2 unfolding rest by (simp flip: map_append)
  qed
qed simp

text \<open>
  Paging comes to an end and lists exactly what the search matches: over a catalogue nobody writes
  to, \<open>n\<close> requests that could hold all matching products return them, without an error and
  with no cursor left, in the order of name and id.
\<close>

theorem walk_lists_all:
  fixes wt :: "units \<Rightarrow> 'w::linorder"
  assumes "distinct_keys wt rows" "\<forall>r\<in>set rows. pageable r" "0 < request_limit q" "0 < n"
    "length (listed wt like tenantId stores q rows) \<le> n * request_limit q"
  shows "walk wt like tenantId stores q None (replicate n rows)
    = Inr (map toSummary (sort_key (product_key wt) (filter (in_scope like tenantId stores (lr_storeId q) (lr_search q)) rows)), True)"
  using walk_rest [OF assms(1,2,3), of None None like tenantId stores n] assms(4,5)
  by (simp add: decodeTextCursor_def listed_def)

section \<open>The sweep\<close>

text \<open>
  What a complete manifest deletes: the rows of the store from the floor up that its last page does not
  claim. The comparison of the \<open>DELETE\<close> is the database's, but the unique key makes it exact.
\<close>

definition unclaimed :: "(units \<Rightarrow> 'w::linorder) \<Rightarrow> string \<Rightarrow> units \<Rightarrow> units list \<Rightarrow> store_product \<Rightarrow> bool" where
  "unclaimed wt storeId start claimed r \<longleftrightarrow>
     sp_storeId r = storeId \<and> wt start \<le> wt (sp_externalId r) \<and> sp_externalId r \<notin> set claimed"

definition unique_external :: "(units \<Rightarrow> 'w) \<Rightarrow> store_product list \<Rightarrow> bool" where
  "unique_external wt rows \<longleftrightarrow> distinct (map (external_key wt) rows)"

lemma unique_externalD:
  "unique_external wt rows \<Longrightarrow> r \<in> set rows \<Longrightarrow> r' \<in> set rows \<Longrightarrow> sp_storeId r = sp_storeId r'
     \<Longrightarrow> wt (sp_externalId r) = wt (sp_externalId r') \<Longrightarrow> r = r'"
  by (auto simp: unique_external_def distinct_map external_key_def inj_on_def)

lemma reconcile_final:
  assumes "unique_external wt rows"
  shows "reconcile wt s claimed (Some start) True rows
    = (\<lparr>rc_checked = length claimed, rc_stale = length (filter (unclaimed wt s start claimed) rows),
        rc_removed = length (filter (unclaimed wt s start claimed) rows)\<rparr>, filter (\<lambda>r. \<not> unclaimed wt s start claimed r) rows)"
proof -
  let ?gone = "unclaimed wt s start claimed"
  have stale: "filter (\<lambda>i. i \<notin> set claimed) (map sp_externalId (held_rows wt s start None rows)) = map sp_externalId (filter ?gone rows)"
    by (auto simp: held_rows_def filter_map comp_def unclaimed_def intro!: arg_cong [of _ _ "map sp_externalId"] filter_cong)
  have "delete_external wt s (map sp_externalId (filter ?gone rows)) rows = filter (\<lambda>r. \<not> ?gone r) rows"
    unfolding delete_external_def
  proof (rule filter_cong [OF refl])
    fix r assume r: "r \<in> set rows"
    have "r' = r" if "r' \<in> set rows" "?gone r'" "sp_storeId r = s" "wt (sp_externalId r') = wt (sp_externalId r)" for r'
      using unique_externalD [OF assms that(1) r] that by (simp add: unclaimed_def)
    then show "(\<not> (sp_storeId r = s \<and> list_ex (\<lambda>i. wt i = wt (sp_externalId r)) (map sp_externalId (filter ?gone rows)))) = (\<not> ?gone r)"
      using r by (auto simp: list_ex_iff) (auto simp: unclaimed_def)
  qed
  moreover have "length rows - length (filter (\<lambda>r. \<not> ?gone r) rows) = length (filter ?gone rows)"
    using sum_length_filter_compl [of ?gone rows] by simp
  moreover have "filter (\<lambda>r. \<not> ?gone r) rows = rows" if "filter ?gone rows = []"
    using that by (simp add: filter_empty_conv filter_id_conv)
  ultimately show ?thesis by (cases "filter ?gone rows = []") (simp_all add: reconcile_def stale Let_def)
qed

lemma reconcile_page: "rc_removed (fst (reconcile wt s ids start False rows)) = 0 \<and> snd (reconcile wt s ids start False rows) = rows"
  by (simp add: reconcile_def Let_def)

text \<open>Only the last page of a sweep deletes, by what that page alone claims.\<close>

lemma send_loop_result:
  assumes "unique_external wt rows" "pages \<noteq> []" "\<forall>i<length pages. answered (index + i)"
  shows "send_loop wt answered s start (index + length pages - 1) index pages removed rows
    = (removed + length (filter (unclaimed wt s start (last pages)) rows), filter (\<lambda>r. \<not> unclaimed wt s start (last pages) r) rows)"
  using assms(2,3)
proof (induction pages arbitrary: index removed)
  case (Cons p pages)
  show ?case
  proof (cases "pages = []")
    case True
    then show ?thesis using reconcile_final [OF assms(1)] Cons.prems(2) by simp
  next
    case False
    have "answered index" "\<forall>i<length pages. answered (Suc index + i)" using Cons.prems(2) by fastforce+
    then show ?thesis using False Cons.IH [of "Suc index"] reconcile_page [of wt s p "Some start" rows]
      by (simp add: case_prod_beta Suc_le_eq)
  qed
qed simp

lemma array_chunk_one: "ids \<noteq> [] \<Longrightarrow> length ids \<le> n \<Longrightarrow> array_chunk n ids = [ids]"
  using array_chunk.simps [of n ids] array_chunk.simps [of n "[]"] by (cases ids) auto

lemma array_chunk_last:
  assumes "0 < n" "n < length ids"
  shows "array_chunk n ids \<noteq> [] \<and> set (last (array_chunk n ids)) \<subseteq> set (drop n ids)"
  using assms
proof (induction n ids rule: array_chunk.induct)
  case (1 n xs)
  have xs: "array_chunk n xs = take n xs # array_chunk n (drop n xs)" using 1 by (subst array_chunk.simps) auto
  show ?case
  proof (cases "n < length (drop n xs)")
    case True
    then have "array_chunk n (drop n xs) \<noteq> []" "set (last (array_chunk n (drop n xs))) \<subseteq> set (drop n (drop n xs))"
      using True "1.prems" "1.IH" by (cases "xs = []"; simp)+
    moreover have "set (drop n (drop n xs)) \<subseteq> set (drop n xs)" by (rule set_drop_subset)
    ultimately show ?thesis using xs by simp
  next
    case False
    then show ?thesis using 1 xs array_chunk_one [of "drop n xs" n] by simp
  qed
qed

text \<open>
  The daily sweep repairs the mirror exactly: for a store whose ids fit one page, the rows removed are
  those of this store, from its first id up, whose product the store no longer holds; every product
  the store holds, every row below its first id and every other store's row is kept, and the count
  reported is the number of rows removed.
\<close>

theorem sweep_exact:
  fixes wt :: "units \<Rightarrow> 'w::linorder"
  assumes "unique_external wt rows" "ids \<noteq> []" "length ids \<le> PAGE_SIZE" "answered 0"
  shows "sweep wt answered True True s ids rows
    = (length (filter (\<lambda>r. sp_storeId r = s \<and> wt (Min (set ids)) \<le> wt (sp_externalId r) \<and> sp_externalId r \<notin> set ids) rows),
       filter (\<lambda>r. \<not> (sp_storeId r = s \<and> wt (Min (set ids)) \<le> wt (sp_externalId r) \<and> sp_externalId r \<notin> set ids)) rows)"
proof -
  obtain i js where ids: "sort ids = i # js" using assms(2) by (cases "sort ids") (auto dest: arg_cong [of _ _ length])
  then have "set ids = insert i (set js)" "\<forall>j\<in>set js. i \<le> j"
    using sorted_sort [of ids] by (simp_all flip: set_sort [of "\<lambda>i. i" ids])
  then have "hd (sort ids) = Min (set ids)" "sort ids \<noteq> []" unfolding ids by (auto intro!: Min_eqI [symmetric])
  then show ?thesis
    using assms send_loop_result [of wt rows "[sort ids]" answered 0 s "hd (sort ids)" 0] array_chunk_one [of "sort ids" PAGE_SIZE]
    by (simp add: sweep_def send_pages_def Let_def unclaimed_def [abs_def])
qed

section \<open>Pushing products\<close>

text \<open>A push keeps the unique key and touches no row of another store.\<close>

lemma upsert_product_unique:
  assumes "unique_external wt rows"
  shows "unique_external wt (upsert_product wt row rows)"
proof -
  have "map (external_key wt) (map (\<lambda>r. if external_key wt r = external_key wt row
      then row\<lparr>sp_id := sp_id r, sp_storeId := sp_storeId r, sp_externalId := sp_externalId r\<rparr> else r) rows) = map (external_key wt) rows"
    by (simp add: external_key_def)
  then show ?thesis using assms
    by (auto simp: upsert_product_def unique_external_def list_ex_iff simp del: map_map)
qed

lemma ingest_unique:
  assumes "unique_external wt rows"
  shows "unique_external wt (snd (ingest wt date now new_id storeId products rows))"
proof -
  have "unique_external wt (fold (\<lambda>p. upsert_product wt (f p)) ps rows)" if "unique_external wt rows" for f :: "ingest_product \<Rightarrow> store_product" and ps rows
    using that by (induction ps arbitrary: rows) (simp_all add: upsert_product_unique)
  then show ?thesis using assms by (simp add: ingest_def)
qed

section \<open>A small catalogue\<close>

definition sample_product :: "nat \<Rightarrow> units \<Rightarrow> store_product" where
  "sample_product d name = \<lparr>sp_id = butlast sample_uuid @ [48 + d], sp_storeId = ''w1'', sp_externalId = [48 + d], sp_name = name,
     sp_sku = None, sp_type = [115], sp_priceMinor = Some 1500, sp_status = [112], sp_permalink = None, sp_imageUrl = None,
     sp_categories = None, sp_tags = None, sp_syncedAt = 0, sp_externalUpdatedAt = None\<rparr>"

definition hoodies :: "store_product list" where
  "hoodies = [sample_product 2 [66], sample_product 1 [66], sample_product 3 [65, 58]]"

abbreviation sample_store :: "store_row list" where
  "sample_store \<equiv> [\<lparr>store_id = ''w1'', store_tenantId = ''t1'', configVersion = 0, pushUrl = None\<rparr>]"

abbreviation one_by_one :: list_request where
  "one_by_one \<equiv> \<lparr>lr_storeId = ''w1'', lr_search = None, lr_limit = Some 1\<rparr>"

lemma sample_pageable: "d < 10 \<Longrightarrow> pageable (sample_product d [66])" "d < 10 \<Longrightarrow> pageable (sample_product d [65, 58])"
  by (auto simp: pageable_def sample_product_def sample_uuid_def ascii_def is_uuid_def is_hex_def is_digit_unit_def
      is_high_def is_low_def utf8_encode_def utf8_point_def)

lemma hoodies_ok: "distinct_keys (\<lambda>u. u) hoodies" "\<forall>r\<in>set hoodies. pageable r"
  using sample_pageable by (simp add: hoodies_def distinct_keys_def sample_product_def sample_uuid_def ascii_def)
    (simp add: hoodies_def sample_pageable)

lemma hoodies_sorted:
  "sort_key (product_key (\<lambda>u. u)) (filter (in_scope (\<lambda>_ _. True) ''t1'' sample_store ''w1'' None) hoodies)
     = [sample_product 3 [65, 58], sample_product 1 [66], sample_product 2 [66]]"
  by (simp add: hoodies_def in_scope_def sample_product_def product_key_def sample_uuid_def ascii_def)

theorem walk_lists_all_witness:
  "walk (\<lambda>u. u) (\<lambda>_ _. True) ''t1'' sample_store one_by_one None (replicate 3 hoodies)
     = Inr (map toSummary [sample_product 3 [65, 58], sample_product 1 [66], sample_product 2 [66]], True)"
  using walk_lists_all [OF hoodies_ok, of one_by_one 3 "\<lambda>_ _. True" "''t1''" sample_store]
  by (simp add: request_limit_def listed_def hoodies_sorted)


lemma hoodies_unique: "unique_external (\<lambda>u. u) hoodies"
  by (simp add: unique_external_def external_key_def hoodies_def sample_product_def)

theorem sweep_exact_witness:
  "snd (sweep (\<lambda>u. u) (\<lambda>_. True) True True ''w1'' [[51], [49]] hoodies) = [sample_product 1 [66], sample_product 3 [65, 58]]"
proof -
  have "Min {[51], [49]} = [49::nat]" by (rule Min_eqI) auto
  then show ?thesis
    using sweep_exact [OF hoodies_unique, of "[[51], [49]]" "\<lambda>_. True" "''w1''"]
    by (simp add: PAGE_SIZE_def hoodies_def sample_product_def)
qed

text \<open>
  A manifest of more than one page deletes what its earlier pages claimed: the final page carries the
  floor of the whole manifest, and the cloud compares the mirror from there with the final page alone.
\<close>

lemma sweep_loses_earlier_pages:
  assumes "unique_external wt rows" "distinct ids" "PAGE_SIZE < length ids" "\<forall>i. answered i"
    "r \<in> set rows" "sp_storeId r = s" "sp_externalId r \<in> set (take PAGE_SIZE (sort ids))"
    "\<forall>i\<in>set ids. wt (hd (sort ids)) \<le> wt i"
  shows "r \<notin> set (snd (sweep wt answered True True s ids rows))"
proof -
  let ?pages = "array_chunk PAGE_SIZE (sort ids)"
  have last: "?pages \<noteq> []" "set (last ?pages) \<subseteq> set (drop PAGE_SIZE (sort ids))"
    using array_chunk_last [of PAGE_SIZE "sort ids"] assms(3) by (simp_all add: PAGE_SIZE_def)
  have "set (take PAGE_SIZE (sort ids)) \<inter> set (drop PAGE_SIZE (sort ids)) = {}"
    using assms(2) by (simp add: set_take_disj_set_drop_if_distinct)
  then have "unclaimed wt s (hd (sort ids)) (last ?pages) r"
    using assms(6,7,8) last(2) in_set_takeD [OF assms(7)] by (auto simp: unclaimed_def)
  then show ?thesis
    using send_loop_result [OF assms(1) last(1), of answered 0 s "hd (sort ids)" 0] assms(3,4)
    by (auto simp: sweep_def send_pages_def Let_def)
qed

end
