(* ===== verification/Design_Geometry.thy ===== *)
theory Design_Geometry
  imports Js_Rounding
begin

text \<open>
  Where the layers of a design sit. The rendering side reads a stored layer
  (\<open>src/shared/design/layer-geometry.ts\<close>); the editing side writes a layer when its style changes
  (\<open>src/lib/design-lab/style-geometry.ts\<close>) and converts between the pixels of the editor and the stored
  fractions (\<open>src/lib/design-lab/store.ts\<close>). All numbers are doubles and every operation rounds.

  A field a stored design may lack is an \<open>option\<close>.
\<close>

section \<open>Numbers\<close>

text \<open>\<open>Math.max\<close>, \<open>Math.min\<close> and \<open>Math.round\<close>; \<open>a || d\<close> on a number.\<close>

definition js_max :: "jsnum \<Rightarrow> jsnum \<Rightarrow> jsnum" where
  "js_max a b = (if a = NaN \<or> b = NaN then NaN else if js_lt a b then b else a)"

definition js_min :: "jsnum \<Rightarrow> jsnum \<Rightarrow> jsnum" where
  "js_min a b = (if a = NaN \<or> b = NaN then NaN else if js_lt b a then b else a)"

fun js_round :: "jsnum \<Rightarrow> jsnum" where
  "js_round (Fin a) = Fin (of_int \<lfloor>a + 1/2\<rfloor>)"
| "js_round x = x"

definition num_truthy :: "jsnum \<Rightarrow> bool" where
  "num_truthy a \<longleftrightarrow> a \<noteq> NaN \<and> a \<noteq> Fin 0"

definition num_or :: "jsnum \<Rightarrow> jsnum \<Rightarrow> jsnum" where
  "num_or a d = (if num_truthy a then a else d)"

definition HALF :: jsnum where "HALF = Fin (1/2)"

abbreviation halved :: "jsnum \<Rightarrow> jsnum" where
  "halved a \<equiv> js_div a (Fin 2)"

section \<open>Layers\<close>

datatype layer_style = Free | Cover | Fit | Fullw | Fullh

datatype layer_shape = No_Shape | Square | Rounded | Circle | Heart | Star | Image_Mask

record layer_crop =
  lc_style :: "layer_style option"
  lc_xPct :: "jsnum option"
  lc_yPct :: "jsnum option"
  lc_wPct :: "jsnum option"
  lc_rot :: "jsnum option"
  lc_opacity :: "jsnum option"

record layer_pos =
  xPct :: jsnum
  yPct :: jsnum
  wPct :: jsnum
  hPct :: jsnum

record design_layer =
  dl_name :: string
  dl_src :: string
  dl_natW :: jsnum
  dl_natH :: jsnum
  dl_pos :: layer_pos
  dl_rot :: "jsnum option"
  dl_style :: "layer_style option"
  dl_opacity :: "jsnum option"
  dl_shape :: "layer_shape option"
  dl_shapeSrc :: "string option"
  dl_crop :: "layer_crop option"
  dl_visible :: "bool option"

datatype layer_kind = Layer | Background

record editor_layer =
  el_id :: string
  el_name :: string
  el_src :: string
  el_natW :: jsnum
  el_natH :: jsnum
  el_kind :: layer_kind
  el_cx :: jsnum
  el_cy :: jsnum
  el_w :: jsnum
  el_h :: jsnum
  el_rot :: jsnum
  el_style :: layer_style
  el_opacity :: jsnum
  el_shape :: layer_shape
  el_shapeSrc :: "string option"
  el_crop :: "layer_crop option"
  el_visible :: bool
  el_locked :: bool

section \<open>Rendering\<close>

record layer_rect =
  lr_x :: jsnum
  lr_y :: jsnum
  lr_w :: jsnum
  lr_h :: jsnum
  lr_cx :: jsnum
  lr_cy :: jsnum
  lr_rot :: jsnum

definition clampInside :: "jsnum \<Rightarrow> jsnum \<Rightarrow> jsnum \<Rightarrow> jsnum" where
  "clampInside v half extent =
     (if js_le (js_mul (Fin 2) half) extent then js_max half (js_min (js_sub extent half) v)
      else js_max (js_sub extent half) (js_min half v))"

definition opt_num :: "jsnum option \<Rightarrow> jsnum" where
  "opt_num v = (case v of None \<Rightarrow> NaN | Some n \<Rightarrow> n)"

text \<open>Older crops lack the box: \<open>Number.isFinite(crop.wPct)\<close> tells them apart.\<close>

definition crop_boxed :: "layer_crop option \<Rightarrow> layer_crop option" where
  "crop_boxed crop = (case crop of None \<Rightarrow> None | Some c \<Rightarrow> if is_finite_num (opt_num (lc_wPct c)) then Some c else None)"

definition effectiveShape :: "layer_shape option \<Rightarrow> layer_crop option \<Rightarrow> string option \<Rightarrow> layer_shape" where
  "effectiveShape shape crop shapeSrc =
     (let s = (case shape of None \<Rightarrow> No_Shape | Some s \<Rightarrow> s) in
      if s = Square \<and> crop_boxed crop = None then No_Shape
      else if s = Image_Mask \<and> shapeSrc \<in> {None, Some ''''} then No_Shape
      else s)"

definition frameClipId :: "string \<Rightarrow> string \<Rightarrow> string \<Rightarrow> string" where
  "frameClipId prefix groupIndex imageIndex = filter (\<lambda>c. c \<noteq> CHR '':'') prefix @ ''-dlf-'' @ groupIndex @ ''-'' @ imageIndex"

text \<open>\<open>Math.max(w / natW, h / natH)\<close>: the scale at which an image covers a box; with \<open>js_min\<close> it fits in.\<close>

definition scale_by :: "(jsnum \<Rightarrow> jsnum \<Rightarrow> jsnum) \<Rightarrow> jsnum \<Rightarrow> jsnum \<Rightarrow> jsnum \<Rightarrow> jsnum \<Rightarrow> jsnum" where
  "scale_by pick w h natW natH = pick (js_div w natW) (js_div h natH)"

definition pct_or_half :: "layer_crop option \<Rightarrow> (layer_crop \<Rightarrow> jsnum option) \<Rightarrow> jsnum" where
  "pct_or_half crop f = (case crop of None \<Rightarrow> HALF | Some c \<Rightarrow> (case f c of None \<Rightarrow> HALF | Some n \<Rightarrow> n))"

text \<open>Width, height and centre of the image inside a frame of size \<open>fw\<close> by \<open>fh\<close>.\<close>

definition frame_box :: "jsnum \<Rightarrow> jsnum \<Rightarrow> layer_crop option \<Rightarrow> jsnum \<Rightarrow> jsnum \<Rightarrow> jsnum \<times> jsnum \<times> jsnum \<times> jsnum" where
  "frame_box natW natH crop fw fh =
     (let aspect = js_div natW natH;
          style = (case crop of None \<Rightarrow> Cover | Some c \<Rightarrow> (case lc_style c of None \<Rightarrow> Free | Some s \<Rightarrow> s));
          x = js_mul (pct_or_half crop lc_xPct) fw; y = js_mul (pct_or_half crop lc_yPct) fh
      in case style of
           Cover \<Rightarrow> (let s = scale_by js_max fw fh natW natH in (js_mul natW s, js_mul natH s, halved fw, halved fh))
         | Fit \<Rightarrow> (let s = scale_by js_min fw fh natW natH; w = js_mul natW s; h = js_mul natH s
             in (w, h, clampInside x (halved w) fw, clampInside y (halved h) fh))
         | Fullw \<Rightarrow> (fw, js_div fw aspect, halved fw, y)
         | Fullh \<Rightarrow> (js_mul fh aspect, fh, x, halved fh)
         | Free \<Rightarrow> (case crop of
               Some c \<Rightarrow> (let w = js_mul (opt_num (lc_wPct c)) fw
                 in (w, js_div w aspect, js_mul (opt_num (lc_xPct c)) fw, js_mul (opt_num (lc_yPct c)) fh))
             | None \<Rightarrow> (let s = scale_by js_max fw fh natW natH in (js_mul natW s, js_mul natH s, halved fw, halved fh))))"

definition frameImageRect :: "jsnum \<Rightarrow> jsnum \<Rightarrow> layer_crop option \<Rightarrow> jsnum \<Rightarrow> jsnum \<Rightarrow> jsnum \<Rightarrow> jsnum
    \<Rightarrow> jsnum \<times> jsnum \<times> jsnum \<times> jsnum" where
  "frameImageRect natW natH crop fx fy fw fh =
     (case frame_box (num_or natW (Fin 1)) (num_or natH (Fin 1)) (crop_boxed crop) fw fh of (w, h, cx, cy) \<Rightarrow>
        (js_sub (js_add fx cx) (halved w), js_sub (js_add fy cy) (halved h), w, h))"

definition rectOf :: "jsnum \<Rightarrow> jsnum \<Rightarrow> jsnum \<Rightarrow> jsnum \<Rightarrow> jsnum \<Rightarrow> layer_rect" where
  "rectOf cx cy w h rot = \<lparr>lr_x = js_sub cx (halved w), lr_y = js_sub cy (halved h), lr_w = w, lr_h = h,
     lr_cx = cx, lr_cy = cy, lr_rot = rot\<rparr>"

definition style_of :: "design_layer \<Rightarrow> layer_style" where
  "style_of l = (case dl_style l of None \<Rightarrow> Free | Some s \<Rightarrow> s)"

definition rotationOf :: "design_layer \<Rightarrow> jsnum" where
  "rotationOf l = (if dl_style l = Some Free then (case dl_rot l of None \<Rightarrow> Fin 0 | Some r \<Rightarrow> r) else Fin 0)"

text \<open>Freely sized frames, ratio-locked frames, and plain layers by the image's own aspect.\<close>

definition layerRect :: "design_layer \<Rightarrow> jsnum \<Rightarrow> jsnum \<Rightarrow> layer_rect" where
  "layerRect l vbW vbH =
     (let natW = num_or (dl_natW l) (Fin 1); natH = num_or (dl_natH l) (Fin 1); aspect = js_div natW natH;
          shape = effectiveShape (dl_shape l) (dl_crop l) (dl_shapeSrc l); pos = dl_pos l;
          x = js_mul (xPct pos) vbW; y = js_mul (yPct pos) vbH;
          box = (\<lambda>(w, h, cx, cy). rectOf cx cy w h (rotationOf l))
      in if shape = Square \<or> shape = Image_Mask then
           (let fw0 = js_mul (wPct pos) vbW; fh0 = (if js_lt (Fin 0) (hPct pos) then js_mul (hPct pos) vbH else fw0);
                frameAspect = js_div fw0 (num_or fh0 (Fin 1))
            in box (case style_of l of
                 Cover \<Rightarrow> (let s = scale_by js_max vbW vbH fw0 fh0 in (js_mul fw0 s, js_mul fh0 s, halved vbW, halved vbH))
               | Fit \<Rightarrow> (let s = scale_by js_min vbW vbH fw0 fh0; w = js_mul fw0 s; h = js_mul fh0 s
                   in (w, h, clampInside x (halved w) vbW, clampInside y (halved h) vbH))
               | Fullw \<Rightarrow> (vbW, js_div vbW frameAspect, halved vbW, y)
               | Fullh \<Rightarrow> (js_mul vbH frameAspect, vbH, x, halved vbH)
               | Free \<Rightarrow> (fw0, fh0, x, y)))
         else if shape \<noteq> No_Shape then
           box (case style_of l of
               Cover \<Rightarrow> (let side = js_max vbW vbH in (side, side, halved vbW, halved vbH))
             | Fit \<Rightarrow> (let side = js_min vbW vbH
                 in (side, side, clampInside x (halved side) vbW, clampInside y (halved side) vbH))
             | Fullw \<Rightarrow> (vbW, vbW, halved vbW, y)
             | Fullh \<Rightarrow> (vbH, vbH, x, halved vbH)
             | Free \<Rightarrow> (let side = js_mul (wPct pos) vbW in (side, side, x, y)))
         else
           box (case style_of l of
               Cover \<Rightarrow> (let s = scale_by js_max vbW vbH natW natH in (js_mul natW s, js_mul natH s, halved vbW, halved vbH))
             | Fit \<Rightarrow> (let s = scale_by js_min vbW vbH natW natH; w = js_mul natW s; h = js_mul natH s
                 in (w, h, clampInside x (halved w) vbW, clampInside y (halved h) vbH))
             | Fullw \<Rightarrow> (vbW, js_div vbW aspect, halved vbW, y)
             | Fullh \<Rightarrow> (js_mul vbH aspect, vbH, x, halved vbH)
             | Free \<Rightarrow> (let w = js_mul (wPct pos) vbW in (w, js_div w aspect, x, y))))"

section \<open>Editing\<close>

definition CANVAS_BASE_H :: jsnum where "CANVAS_BASE_H = Fin 460"

definition freeDefaultSize :: "jsnum \<Rightarrow> jsnum \<Rightarrow> jsnum \<Rightarrow> jsnum \<Rightarrow> jsnum \<times> jsnum" where
  "freeDefaultSize natW natH cw ch =
     (let layerRatio = (if js_lt (Fin 0) natW \<and> js_lt (Fin 0) natH then js_div natW natH else Fin 1);
          bgRatio = (if js_lt (Fin 0) cw \<and> js_lt (Fin 0) ch then js_div cw ch else Fin 1)
      in if js_lt layerRatio bgRatio then (let h = js_mul ch HALF in (js_mul h layerRatio, h))
         else (let w = js_mul cw HALF in (w, js_div w layerRatio)))"

definition resize :: "jsnum \<Rightarrow> jsnum \<Rightarrow> editor_layer \<Rightarrow> editor_layer" where
  "resize w h l = l\<lparr>el_w := w, el_h := h\<rparr>"

definition centre :: "jsnum \<Rightarrow> jsnum \<Rightarrow> editor_layer \<Rightarrow> editor_layer" where
  "centre cx cy l = l\<lparr>el_cx := cx, el_cy := cy, el_rot := Fin 0\<rparr>"

text \<open>The centre \<open>fit\<close> keeps, inside the canvas.\<close>

definition keep_inside :: "jsnum \<Rightarrow> jsnum \<Rightarrow> editor_layer \<Rightarrow> editor_layer" where
  "keep_inside cw ch l = centre (clampInside (el_cx l) (halved (el_w l)) cw) (clampInside (el_cy l) (halved (el_h l)) ch) l"

definition applyStyleGeometry :: "editor_layer \<Rightarrow> jsnum \<Rightarrow> jsnum \<Rightarrow> editor_layer" where
  "applyStyleGeometry l cw ch =
     (let aspect = js_div (el_natW l) (el_natH l); w = el_w l; h = el_h l in
      if el_shape l = Square \<or> el_shape l = Image_Mask then
        (let frameAspect = num_or (if num_truthy h then js_div w h else Fin 1) (Fin 1) in
         case el_style l of
           Cover \<Rightarrow> (let s = scale_by js_max cw ch (num_or w (Fin 1)) (num_or h (Fin 1))
             in centre (halved cw) (halved ch) (resize (js_mul w s) (js_mul h s) l))
         | Fit \<Rightarrow> (let s = scale_by js_min cw ch (num_or w (Fin 1)) (num_or h (Fin 1))
             in keep_inside cw ch (resize (js_mul w s) (js_mul h s) l))
         | Fullw \<Rightarrow> centre (halved cw) (el_cy l) (resize cw (js_div cw frameAspect) l)
         | Fullh \<Rightarrow> centre (el_cx l) (halved ch) (resize (js_mul ch frameAspect) ch l)
         | Free \<Rightarrow> l)
      else if el_shape l \<noteq> No_Shape then
        (case el_style l of
           Cover \<Rightarrow> centre (halved cw) (halved ch) (resize (js_max cw ch) (js_max cw ch) l)
         | Fit \<Rightarrow> keep_inside cw ch (resize (js_min cw ch) (js_min cw ch) l)
         | Fullw \<Rightarrow> centre (halved cw) (el_cy l) (resize cw cw l)
         | Fullh \<Rightarrow> centre (el_cx l) (halved ch) (resize ch ch l)
         | Free \<Rightarrow> (let side = num_or (js_min w h) w in resize side side l))
      else
        (case el_style l of
           Cover \<Rightarrow> (let s = scale_by js_max cw ch (el_natW l) (el_natH l)
             in centre (halved cw) (halved ch) (resize (js_mul (el_natW l) s) (js_mul (el_natH l) s) l))
         | Fit \<Rightarrow> (let s = scale_by js_min cw ch (el_natW l) (el_natH l)
             in keep_inside cw ch (resize (js_mul (el_natW l) s) (js_mul (el_natH l) s) l))
         | Fullw \<Rightarrow> centre (halved cw) (el_cy l) (resize cw (js_div cw aspect) l)
         | Fullh \<Rightarrow> centre (el_cx l) (halved ch) (resize (js_mul ch aspect) ch l)
         | Free \<Rightarrow> (case freeDefaultSize (el_natW l) (el_natH l) cw ch of (w', h') \<Rightarrow> resize w' h' l)))"

section \<open>Between pixels and fractions\<close>

definition editorLayerToDesign :: "editor_layer \<Rightarrow> jsnum \<Rightarrow> jsnum \<Rightarrow> design_layer" where
  "editorLayerToDesign l cw ch = \<lparr>dl_name = el_name l, dl_src = el_src l, dl_natW = el_natW l, dl_natH = el_natH l,
     dl_pos = \<lparr>xPct = js_div (el_cx l) cw, yPct = js_div (el_cy l) ch, wPct = js_div (el_w l) cw, hPct = js_div (el_h l) ch\<rparr>,
     dl_rot = Some (el_rot l), dl_style = Some (el_style l), dl_opacity = Some (el_opacity l), dl_shape = Some (el_shape l),
     dl_shapeSrc = (if el_shape l = Image_Mask then el_shapeSrc l else None),
     dl_crop = (if el_shape l = No_Shape then None else el_crop l), dl_visible = Some (el_visible l)\<rparr>"

definition designLayerToEditor :: "design_layer \<Rightarrow> jsnum \<Rightarrow> jsnum \<Rightarrow> string \<Rightarrow> editor_layer" where
  "designLayerToEditor d cw ch ident =
     (let natW = num_or (dl_natW d) (Fin 1); natH = num_or (dl_natH d) (Fin 1); w = js_mul (wPct (dl_pos d)) cw;
          shape = effectiveShape (dl_shape d) (dl_crop d) (dl_shapeSrc d);
          h = (if shape = No_Shape then js_mul w (js_div natH natW)
               else if shape = Square \<or> shape = Image_Mask then
                 (if js_lt (Fin 0) (hPct (dl_pos d)) then js_mul (hPct (dl_pos d)) ch else w)
               else w)
      in \<lparr>el_id = ident, el_name = (if dl_name d = [] then ''Layer'' else dl_name d), el_src = dl_src d, el_natW = natW, el_natH = natH,
          el_kind = Layer, el_cx = js_mul (xPct (dl_pos d)) cw, el_cy = js_mul (yPct (dl_pos d)) ch, el_w = w, el_h = h,
          el_rot = (case dl_rot d of None \<Rightarrow> Fin 0 | Some r \<Rightarrow> r), el_style = style_of d,
          el_opacity = (case dl_opacity d of None \<Rightarrow> Fin 100 | Some p \<Rightarrow> p), el_shape = shape,
          el_shapeSrc = (if shape = Image_Mask then dl_shapeSrc d else None),
          el_crop = (if shape = No_Shape then None else dl_crop d),
          el_visible = (case dl_visible d of None \<Rightarrow> True | Some v \<Rightarrow> v), el_locked = False\<rparr>)"

end
