(* ===== verification/Design_Parts.thy ===== *)
theory Design_Parts
  imports Design_Geometry
begin

text \<open>
  The parts of a layer the editor changes: where the image sits inside its frame
  (\<open>src/lib/design-lab/crop-geometry.ts\<close>) and the one text of a design
  (\<open>src/lib/design-lab/text-model.ts\<close>).
\<close>

section \<open>The image inside its frame\<close>

definition MIN_LAYER_SIZE :: jsnum where "MIN_LAYER_SIZE = Fin 24"
definition CROP_OFF_FRAME_MARGIN :: jsnum where "CROP_OFF_FRAME_MARGIN = Fin 20"
definition MAX_CROP_SCALE :: jsnum where "MAX_CROP_SCALE = Fin 8"

definition clamp :: "jsnum \<Rightarrow> jsnum \<Rightarrow> jsnum \<Rightarrow> jsnum" where
  "clamp v lo hi = js_max lo (js_min hi v)"

record move_axes =
  ma_x :: bool
  ma_y :: bool
  ma_clamp :: bool

text \<open>No crop means \<open>cover\<close>; a crop without a style does too.\<close>

definition cropAxes :: "editor_layer \<Rightarrow> move_axes" where
  "cropAxes l =
     (let style = (case el_crop l of None \<Rightarrow> Cover | Some c \<Rightarrow> (case lc_style c of None \<Rightarrow> Cover | Some s \<Rightarrow> s)) in
      case style of
        Cover \<Rightarrow> \<lparr>ma_x = False, ma_y = False, ma_clamp = False\<rparr>
      | Fullw \<Rightarrow> \<lparr>ma_x = False, ma_y = True, ma_clamp = True\<rparr>
      | Fullh \<Rightarrow> \<lparr>ma_x = True, ma_y = False, ma_clamp = True\<rparr>
      | Fit \<Rightarrow> (case frameImageRect (el_natW l) (el_natH l) (el_crop l) (Fin 0) (Fin 0) (el_w l) (el_h l) of (x, y, w, h) \<Rightarrow>
          \<lparr>ma_x = js_lt w (js_sub (el_w l) HALF), ma_y = js_lt h (js_sub (el_h l) HALF), ma_clamp = True\<rparr>)
      | Free \<Rightarrow> \<lparr>ma_x = True, ma_y = True, ma_clamp = False\<rparr>)"

record crop_box =
  icx :: jsnum
  icy :: jsnum
  cb_w :: jsnum

definition clampCropBox :: "editor_layer \<Rightarrow> crop_box \<Rightarrow> crop_box" where
  "clampCropBox l box =
     (let fw = num_or (el_w l) (Fin 1); fh = num_or (el_h l) (Fin 1);
          aspect = js_div (num_or (el_natW l) (Fin 1)) (num_or (el_natH l) (Fin 1));
          w = clamp (cb_w box) MIN_LAYER_SIZE (js_mul fw MAX_CROP_SCALE); h = js_div w aspect;
          off = (\<lambda>v extent size. clamp v (js_add (halved (js_neg size)) CROP_OFF_FRAME_MARGIN)
            (js_sub (js_add extent (halved size)) CROP_OFF_FRAME_MARGIN))
      in if ma_clamp (cropAxes l)
         then \<lparr>icx = clampInside (icx box) (halved w) fw, icy = clampInside (icy box) (halved h) fh, cb_w = w\<rparr>
         else \<lparr>icx = off (icx box) fw w, icy = off (icy box) fh h, cb_w = w\<rparr>)"

definition cropDefault :: "editor_layer \<Rightarrow> layer_style \<Rightarrow> layer_crop" where
  "cropDefault l style =
     (let fw = num_or (el_w l) (Fin 1); fh = num_or (el_h l) (Fin 1);
          natW = num_or (el_natW l) (Fin 1); natH = num_or (el_natH l) (Fin 1);
          s = scale_by js_max fw fh natW natH
      in \<lparr>lc_style = Some style, lc_xPct = Some HALF, lc_yPct = Some HALF, lc_wPct = Some (js_div (js_mul natW s) fw),
          lc_rot = Some (Fin 0), lc_opacity = Some (Fin 100)\<rparr>)"

definition cropBoxToCrop :: "editor_layer \<Rightarrow> crop_box \<Rightarrow> layer_crop option \<Rightarrow> layer_crop" where
  "cropBoxToCrop l box previous =
     (let fw = num_or (el_w l) (Fin 1); fh = num_or (el_h l) (Fin 1);
          base = (case previous of None \<Rightarrow> cropDefault l Free | Some c \<Rightarrow> c)
      in base\<lparr>lc_xPct := Some (js_div (icx box) fw), lc_yPct := Some (js_div (icy box) fh), lc_wPct := Some (js_div (cb_w box) fw)\<rparr>)"

record shape_change =
  sc_shape :: layer_shape
  sc_w :: jsnum
  sc_h :: jsnum
  sc_crop :: "layer_crop option"
  sc_resetStyle :: bool

definition shapeChangeFor :: "editor_layer \<Rightarrow> layer_shape \<Rightarrow> shape_change" where
  "shapeChangeFor l nxt =
     (if nxt = No_Shape \<or> el_shape l = nxt
      then \<lparr>sc_shape = No_Shape, sc_w = el_w l, sc_h = el_h l, sc_crop = None, sc_resetStyle = True\<rparr>
      else
        let mustSquare = nxt \<noteq> Square \<and> \<not> js_num_eq (el_w l) (el_h l);
            edge = num_or (js_min (el_w l) (el_h l)) (el_w l);
            (w, h) = (if mustSquare then (edge, edge) else (el_w l, el_h l));
            squared = l\<lparr>el_w := w, el_h := h\<rparr>
        in \<lparr>sc_shape = nxt, sc_w = w, sc_h = h,
            sc_crop = (if el_shape l = No_Shape then Some (cropDefault squared Free)
              else case el_crop l of None \<Rightarrow> Some (cropDefault squared Free) | Some c \<Rightarrow> Some c),
            sc_resetStyle = False\<rparr>)"

section \<open>Text\<close>

datatype text_align = Align_Left | Align_Center | Align_Right
datatype text_valign = Align_Top | Align_Middle | Align_Bottom

record editor_text =
  et_text :: string
  et_font :: string
  et_size :: jsnum
  et_bold :: bool
  et_italic :: bool
  et_align :: text_align
  et_valign :: text_valign
  et_color :: string
  et_cx :: jsnum
  et_cy :: jsnum
  et_w :: jsnum
  et_h :: jsnum
  et_rot :: jsnum
  et_curve :: jsnum
  et_letterSpacing :: jsnum
  et_advanceRatio :: "jsnum option"

text \<open>The stored form: an absent number that is multiplied reads as \<open>NaN\<close>.\<close>

record text_design =
  td_text :: string
  td_font :: string
  td_sizePct :: jsnum
  td_bold :: bool
  td_italic :: bool
  td_align :: text_align
  td_valign :: "text_valign option"
  td_color :: string
  td_xPct :: jsnum
  td_yPct :: jsnum
  td_wPct :: jsnum
  td_hPct :: "jsnum option"
  td_rot :: "jsnum option"
  td_curve :: "jsnum option"
  td_letterSpacing :: "jsnum option"
  td_advanceRatio :: "jsnum option"

definition MAX_TEXT_CURVE :: jsnum where "MAX_TEXT_CURVE = Fin 100"
definition MIN_TEXT_SIZE :: jsnum where "MIN_TEXT_SIZE = Fin 4"

definition finite_or :: "jsnum \<Rightarrow> jsnum \<Rightarrow> jsnum" where
  "finite_or a d = (if is_finite_num a then a else d)"

definition clampText :: "editor_text \<Rightarrow> editor_text" where
  "clampText t = t\<lparr>
     et_size := finite_or (js_max MIN_TEXT_SIZE (et_size t)) MIN_TEXT_SIZE,
     et_w := js_max MIN_TEXT_SIZE (et_w t),
     et_h := (if \<not> js_num_eq (et_h t) (Fin 0) \<or> \<not> is_finite_num (et_h t)
              then if is_finite_num (et_h t) then js_max MIN_TEXT_SIZE (et_h t) else Fin 0
              else et_h t),
     et_curve := finite_or (js_max (js_neg MAX_TEXT_CURVE) (js_min MAX_TEXT_CURVE (et_curve t))) (Fin 0),
     et_letterSpacing := finite_or (et_letterSpacing t) (Fin 0),
     et_rot := finite_or (et_rot t) (Fin 0),
     et_advanceRatio := (case et_advanceRatio t of None \<Rightarrow> None
        | Some a \<Rightarrow> if \<not> is_finite_num a \<or> js_le a (Fin 0) then None else Some a)\<rparr>"

definition defaultText :: "jsnum \<Rightarrow> jsnum \<Rightarrow> editor_text" where
  "defaultText cw ch = clampText \<lparr>et_text = ''Your text here'', et_font = ''Roboto'',
     et_size = js_round (js_mul ch (to_num (7/100))), et_bold = False, et_italic = False, et_align = Align_Center,
     et_valign = Align_Middle, et_color = ''#000000'', et_cx = halved cw, et_cy = halved ch,
     et_w = js_round (js_mul cw (to_num (8/10))), et_h = Fin 0, et_rot = Fin 0, et_curve = Fin 0,
     et_letterSpacing = Fin 0, et_advanceRatio = None\<rparr>"

definition editorTextToDesign :: "editor_text \<Rightarrow> jsnum \<Rightarrow> jsnum \<Rightarrow> text_design" where
  "editorTextToDesign t cw ch =
     (let width = num_or cw (Fin 1); height = num_or ch (Fin 1) in
      \<lparr>td_text = et_text t, td_font = et_font t, td_sizePct = js_div (et_size t) height, td_bold = et_bold t,
       td_italic = et_italic t, td_align = et_align t, td_valign = Some (et_valign t), td_color = et_color t,
       td_xPct = js_div (et_cx t) width, td_yPct = js_div (et_cy t) height, td_wPct = js_div (et_w t) width,
       td_hPct = (if js_lt (Fin 0) (et_h t) then Some (js_div (et_h t) height) else None),
       td_rot = Some (et_rot t), td_curve = Some (et_curve t),
       td_letterSpacing = (if js_num_eq (et_letterSpacing t) (Fin 0) then None else Some (js_div (et_letterSpacing t) height)),
       td_advanceRatio = et_advanceRatio t\<rparr>)"

definition or_default :: "'a \<Rightarrow> 'a option \<Rightarrow> 'a" where
  "or_default d v = (case v of None \<Rightarrow> d | Some x \<Rightarrow> x)"

definition designTextToEditor :: "text_design \<Rightarrow> jsnum \<Rightarrow> jsnum \<Rightarrow> editor_text" where
  "designTextToEditor d cw ch =
     (let width = num_or cw (Fin 1); height = num_or ch (Fin 1) in
      \<lparr>et_text = td_text d, et_font = td_font d, et_size = js_mul (td_sizePct d) height, et_bold = td_bold d,
       et_italic = td_italic d, et_align = td_align d, et_valign = or_default Align_Middle (td_valign d), et_color = td_color d,
       et_cx = js_mul (td_xPct d) width, et_cy = js_mul (td_yPct d) height, et_w = js_mul (td_wPct d) width,
       et_h = js_mul (or_default (Fin 0) (td_hPct d)) height, et_rot = or_default (Fin 0) (td_rot d),
       et_curve = or_default (Fin 0) (td_curve d), et_letterSpacing = js_mul (or_default (Fin 0) (td_letterSpacing d)) height,
       et_advanceRatio = td_advanceRatio d\<rparr>)"

section \<open>What the clamp guarantees\<close>

text \<open>
  The bounds every surface draws a text with. The width has only its floor: \<open>clampText\<close> does not test it for
  being finite.
\<close>

definition text_bounded :: "editor_text \<Rightarrow> bool" where
  "text_bounded t \<longleftrightarrow> is_finite_num (et_size t) \<and> js_le MIN_TEXT_SIZE (et_size t)
     \<and> is_finite_num (et_h t) \<and> (et_h t = Fin 0 \<or> js_le MIN_TEXT_SIZE (et_h t))
     \<and> is_finite_num (et_curve t) \<and> js_le (js_neg MAX_TEXT_CURVE) (et_curve t) \<and> js_le (et_curve t) MAX_TEXT_CURVE
     \<and> is_finite_num (et_letterSpacing t) \<and> is_finite_num (et_rot t)
     \<and> (\<forall>a. et_advanceRatio t = Some a \<longrightarrow> is_finite_num a \<and> js_lt (Fin 0) a)
     \<and> (et_w t = NaN \<or> js_le MIN_TEXT_SIZE (et_w t))"

lemma clamp_size:
  "is_finite_num (finite_or (js_max MIN_TEXT_SIZE x) MIN_TEXT_SIZE)" "js_le MIN_TEXT_SIZE (finite_or (js_max MIN_TEXT_SIZE x) MIN_TEXT_SIZE)"
  "is_finite_num x \<Longrightarrow> js_le MIN_TEXT_SIZE x \<Longrightarrow> finite_or (js_max MIN_TEXT_SIZE x) MIN_TEXT_SIZE = x"
  by (cases x; auto simp: js_max_def js_le_def finite_or_def MIN_TEXT_SIZE_def)+

lemma clamp_width:
  "js_max MIN_TEXT_SIZE x = NaN \<or> js_le MIN_TEXT_SIZE (js_max MIN_TEXT_SIZE x)"
  "x = NaN \<or> js_le MIN_TEXT_SIZE x \<Longrightarrow> js_max MIN_TEXT_SIZE x = x"
  by (cases x; auto simp: js_max_def js_le_def MIN_TEXT_SIZE_def)+

definition clamped_height :: "jsnum \<Rightarrow> jsnum" where
  "clamped_height x = (if \<not> js_num_eq x (Fin 0) \<or> \<not> is_finite_num x
     then if is_finite_num x then js_max MIN_TEXT_SIZE x else Fin 0 else x)"

lemma clamp_height:
  "is_finite_num (clamped_height x)" "clamped_height x = Fin 0 \<or> js_le MIN_TEXT_SIZE (clamped_height x)"
  "is_finite_num x \<Longrightarrow> x = Fin 0 \<or> js_le MIN_TEXT_SIZE x \<Longrightarrow> clamped_height x = x"
  by (cases x; auto simp: clamped_height_def js_max_def js_le_def MIN_TEXT_SIZE_def)+

definition clamped_curve :: "jsnum \<Rightarrow> jsnum" where
  "clamped_curve x = finite_or (js_max (js_neg MAX_TEXT_CURVE) (js_min MAX_TEXT_CURVE x)) (Fin 0)"

lemma clamp_curve:
  "is_finite_num (clamped_curve x)" "js_le (js_neg MAX_TEXT_CURVE) (clamped_curve x)" "js_le (clamped_curve x) MAX_TEXT_CURVE"
  "is_finite_num x \<Longrightarrow> js_le (js_neg MAX_TEXT_CURVE) x \<Longrightarrow> js_le x MAX_TEXT_CURVE \<Longrightarrow> clamped_curve x = x"
  by (cases x; auto simp: clamped_curve_def js_max_def js_min_def js_le_def finite_or_def MAX_TEXT_CURVE_def)+

definition usable_ratio :: "jsnum option \<Rightarrow> jsnum option" where
  "usable_ratio r = (case r of None \<Rightarrow> None | Some a \<Rightarrow> if \<not> is_finite_num a \<or> js_le a (Fin 0) then None else Some a)"

lemma clamp_ratio:
  "usable_ratio r = Some a \<Longrightarrow> is_finite_num a \<and> js_lt (Fin 0) a"
  "\<forall>a. r = Some a \<longrightarrow> is_finite_num a \<and> js_lt (Fin 0) a \<Longrightarrow> usable_ratio r = r"
proof -
  have lt: "js_lt (Fin 0) a \<longleftrightarrow> \<not> js_le a (Fin 0)" if "is_finite_num a" for a
    using that by (cases a) (auto simp: js_le_def)
  show "usable_ratio r = Some a \<Longrightarrow> is_finite_num a \<and> js_lt (Fin 0) a"
    by (auto simp: usable_ratio_def lt split: option.splits if_splits)
  show "\<forall>a. r = Some a \<longrightarrow> is_finite_num a \<and> js_lt (Fin 0) a \<Longrightarrow> usable_ratio r = r"
    by (cases r) (auto simp: usable_ratio_def lt)
qed

lemma clamp_finite: "is_finite_num (finite_or x (Fin 0))" "is_finite_num x \<Longrightarrow> finite_or x d = x"
  by (simp_all add: finite_or_def)

lemma clampText_fields:
  "clampText t = t\<lparr>et_size := finite_or (js_max MIN_TEXT_SIZE (et_size t)) MIN_TEXT_SIZE, et_w := js_max MIN_TEXT_SIZE (et_w t),
     et_h := clamped_height (et_h t), et_curve := clamped_curve (et_curve t), et_letterSpacing := finite_or (et_letterSpacing t) (Fin 0),
     et_rot := finite_or (et_rot t) (Fin 0), et_advanceRatio := usable_ratio (et_advanceRatio t)\<rparr>"
  by (simp add: clampText_def clamped_height_def clamped_curve_def usable_ratio_def)

lemma clampText_bounded: "text_bounded (clampText t)"
  unfolding text_bounded_def clampText_fields
  using clamp_size(1,2) clamp_width(1) clamp_height(1,2) clamp_curve(1,2,3) clamp_finite(1) clamp_ratio(1) by simp

lemma clampText_fix: "text_bounded t \<Longrightarrow> clampText t = t"
  unfolding text_bounded_def clampText_fields
  by (simp add: clamp_size(3) clamp_width(2) clamp_height(3) clamp_curve(4) clamp_finite(2) clamp_ratio(2))


text \<open>The width escapes: a stored text without one is opened with a width that is no number.\<close>

lemma width_not_clamped: "et_w (clampText (t\<lparr>et_w := NaN\<rparr>)) = NaN"
  by (simp add: clampText_def js_max_def)

end
