(* ===== verification/Design_Store.thy ===== *)
theory Design_Store
  imports Design_Parts Js_Value
begin

text \<open>
  The state of the design editor (\<open>src/lib/design-lab/store.ts\<close>): its layers from back to front, its one
  text, the selection, and the history of snapshots that undo and redo walk.

  The code hands layers around as references into the list; an operation on a layer names it here by its id. A
  snapshot is text made by \<open>JSON.stringify\<close>: a number that is not finite is written as \<open>null\<close>, which every
  later operation reads as zero. The listeners and the elements of the page are not modelled; what
  \<open>fitCanvas\<close> measures is a pair of numbers.
\<close>

definition HISTORY_LIMIT :: nat where "HISTORY_LIMIT = 80"
definition DUPLICATE_OFFSET :: jsnum where "DUPLICATE_OFFSET = Fin 16"

record snapshot =
  sn_layers :: "editor_layer list"
  sn_text :: "editor_text option"
  sn_textSelected :: bool
  sn_selectedId :: "string option"
  sn_bg :: string
  sn_checker :: bool
  sn_cw :: jsnum
  sn_ch :: jsnum

record design_store =
  layers :: "editor_layer list"
  ds_text :: "editor_text option"
  textSelected :: bool
  selectedId :: "string option"
  cropping :: "string option"
  bg :: string
  checker :: bool
  cw :: jsnum
  ch :: jsnum
  canvasScale :: jsnum
  history :: "snapshot list"
  hidx :: int
  suppressHistory :: bool
  stage :: "(jsnum \<times> jsnum) option"
  ds_version :: nat
  counter :: nat

definition new_store :: "nat \<Rightarrow> design_store" where
  "new_store n = \<lparr>layers = [], ds_text = None, textSelected = False, selectedId = None, cropping = None, bg = ''#ffffff'',
     checker = False, cw = Fin 392, ch = Fin 464, canvasScale = Fin 1, history = [], hidx = -1, suppressHistory = False,
     stage = None, ds_version = 0, counter = n\<rparr>"

definition layer_id :: "nat \<Rightarrow> string" where
  "layer_id n = ''L'' @ show_nat (int n)"

definition notify :: "design_store \<Rightarrow> design_store" where
  "notify s = s\<lparr>ds_version := ds_version s + 1\<rparr>"

definition attachStage :: "(jsnum \<times> jsnum) option \<Rightarrow> design_store \<Rightarrow> design_store" where
  "attachStage els s = s\<lparr>stage := els\<rparr>"

text \<open>Change the layers that have an id, in place.\<close>

definition on_layer :: "string \<Rightarrow> (editor_layer \<Rightarrow> editor_layer) \<Rightarrow> design_store \<Rightarrow> design_store" where
  "on_layer ident f s = s\<lparr>layers := map (\<lambda>l. if el_id l = ident then f l else l) (layers s)\<rparr>"

definition find_layer :: "string \<Rightarrow> design_store \<Rightarrow> editor_layer option" where
  "find_layer ident s = List.find (\<lambda>l. el_id l = ident) (layers s)"

section \<open>The canvas\<close>

definition fitCanvas :: "design_store \<Rightarrow> design_store" where
  "fitCanvas s = (case stage s of None \<Rightarrow> s | Some (stageW, stageH) \<Rightarrow>
     if js_le stageW (Fin 0) \<or> js_le stageH (Fin 0) then s
     else
       let padY = js_max (Fin 12) (js_min (Fin 20) (js_mul stageH (to_num (5/100))));
           padX = js_max (Fin 16) (js_min (Fin 60) (js_mul stageW (to_num (9/100))));
           availW = js_sub stageW (js_mul (Fin 2) padX); availH = js_sub stageH (js_mul (Fin 2) padY)
       in if js_le availW (Fin 0) \<or> js_le availH (Fin 0) then s
          else s\<lparr>canvasScale := js_max (to_num (1/10)) (js_min (js_min (js_div availW (cw s)) (js_div availH (ch s))) (to_num (16/10)))\<rparr>)"

definition resized_layer :: "jsnum \<Rightarrow> jsnum \<Rightarrow> jsnum \<Rightarrow> jsnum \<Rightarrow> editor_layer \<Rightarrow> editor_layer" where
  "resized_layer newW newH sx sy l =
     (if el_kind l = Background then l\<lparr>el_cx := halved newW, el_cy := halved newH, el_w := newW, el_h := newH\<rparr>
      else
        let l' = l\<lparr>el_cx := js_mul (el_cx l) sx, el_cy := js_mul (el_cy l) sy\<rparr> in
        if el_style l = Free then
          (let w = js_mul (el_w l) sx in
           l'\<lparr>el_w := w, el_h := (if el_shape l = No_Shape then js_mul w (js_div (el_natH l) (el_natW l))
             else if el_shape l = Square then js_mul (el_h l) sy
             else if el_shape l = Image_Mask then js_mul (el_h l) sx
             else w)\<rparr>)
        else applyStyleGeometry l' newW newH)"

definition setCanvasSize :: "jsnum \<Rightarrow> jsnum \<Rightarrow> design_store \<Rightarrow> design_store" where
  "setCanvasSize natW natH s =
     (if \<not> num_truthy natW \<or> \<not> num_truthy natH then s
      else
        let newH = CANVAS_BASE_H; newW = js_round (js_mul newH (js_div natW natH));
            sx = js_div newW (cw s); sy = js_div newH (ch s)
        in if js_num_eq sx (Fin 1) \<and> js_num_eq sy (Fin 1) then s
           else s\<lparr>cw := newW, ch := newH, layers := map (resized_layer newW newH sx sy) (layers s)\<rparr>)"

section \<open>History\<close>

definition json_num :: "jsnum \<Rightarrow> jsnum" where
  "json_num a = finite_or a (Fin 0)"

definition json_crop :: "layer_crop \<Rightarrow> layer_crop" where
  "json_crop c = c\<lparr>lc_xPct := map_option json_num (lc_xPct c), lc_yPct := map_option json_num (lc_yPct c),
     lc_wPct := map_option json_num (lc_wPct c), lc_rot := map_option json_num (lc_rot c),
     lc_opacity := map_option json_num (lc_opacity c)\<rparr>"

definition json_layer :: "editor_layer \<Rightarrow> editor_layer" where
  "json_layer l = l\<lparr>el_natW := json_num (el_natW l), el_natH := json_num (el_natH l), el_cx := json_num (el_cx l),
     el_cy := json_num (el_cy l), el_w := json_num (el_w l), el_h := json_num (el_h l), el_rot := json_num (el_rot l),
     el_opacity := json_num (el_opacity l), el_crop := map_option json_crop (el_crop l)\<rparr>"

definition json_text :: "editor_text \<Rightarrow> editor_text" where
  "json_text t = t\<lparr>et_size := json_num (et_size t), et_cx := json_num (et_cx t), et_cy := json_num (et_cy t),
     et_w := json_num (et_w t), et_h := json_num (et_h t), et_rot := json_num (et_rot t), et_curve := json_num (et_curve t),
     et_letterSpacing := json_num (et_letterSpacing t), et_advanceRatio := map_option json_num (et_advanceRatio t)\<rparr>"

definition serialize :: "design_store \<Rightarrow> snapshot" where
  "serialize s = \<lparr>sn_layers = map json_layer (layers s), sn_text = map_option json_text (ds_text s), sn_textSelected = textSelected s,
     sn_selectedId = selectedId s, sn_bg = bg s, sn_checker = checker s, sn_cw = json_num (cw s), sn_ch = json_num (ch s)\<rparr>"

text \<open>\<open>slice(0, hidx + 1)\<close>, \<open>push\<close>, and \<open>shift\<close> when the limit is passed.\<close>

definition commit :: "design_store \<Rightarrow> design_store" where
  "commit s =
     (if suppressHistory s then s
      else
        let pushed = take (nat (hidx s + 1)) (history s) @ [serialize s];
            kept = (if HISTORY_LIMIT < length pushed then tl pushed else pushed)
        in s\<lparr>history := kept, hidx := int (length kept) - 1\<rparr>)"

definition restore :: "snapshot \<Rightarrow> design_store \<Rightarrow> design_store" where
  "restore sn s =
     (let s1 = s\<lparr>layers := sn_layers sn, ds_text := sn_text sn, textSelected := sn_textSelected sn, selectedId := sn_selectedId sn,
            bg := sn_bg sn, checker := sn_checker sn\<rparr>;
          s2 = (if num_truthy (sn_cw sn) \<and> num_truthy (sn_ch sn) then s1\<lparr>cw := sn_cw sn, ch := sn_ch sn\<rparr> else s1)
      in notify (fitCanvas s2))"

definition canUndo :: "design_store \<Rightarrow> bool" where
  "canUndo s \<longleftrightarrow> 0 < hidx s"

definition canRedo :: "design_store \<Rightarrow> bool" where
  "canRedo s \<longleftrightarrow> hidx s < int (length (history s)) - 1"

definition undo :: "design_store \<Rightarrow> design_store" where
  "undo s = (if 0 < hidx s then restore (history s ! nat (hidx s - 1)) (s\<lparr>hidx := hidx s - 1\<rparr>) else s)"

definition redo :: "design_store \<Rightarrow> design_store" where
  "redo s = (if hidx s < int (length (history s)) - 1
     then restore (history s ! nat (hidx s + 1)) (s\<lparr>hidx := hidx s + 1\<rparr>) else s)"

definition commit_notify :: "design_store \<Rightarrow> design_store" where
  "commit_notify s = notify (commit s)"

section \<open>Layers\<close>

definition backgroundLayer :: "design_store \<Rightarrow> editor_layer option" where
  "backgroundLayer s = List.find (\<lambda>l. el_kind l = Background) (layers s)"

definition getSelected :: "design_store \<Rightarrow> editor_layer option" where
  "getSelected s = (case selectedId s of None \<Rightarrow> None | Some i \<Rightarrow> find_layer i s)"

definition overlays :: "design_store \<Rightarrow> editor_layer list" where
  "overlays s = filter (\<lambda>l. el_kind l \<noteq> Background) (layers s)"

definition exportDesign :: "design_store \<Rightarrow> design_layer list" where
  "exportDesign s = map (\<lambda>l. editorLayerToDesign l (cw s) (ch s)) (overlays s)"

definition exportText :: "design_store \<Rightarrow> text_design option" where
  "exportText s = map_option (\<lambda>t. editorTextToDesign t (cw s) (ch s)) (ds_text s)"

definition restart_history :: "design_store \<Rightarrow> design_store" where
  "restart_history s = commit_notify (s\<lparr>history := [], hidx := -1\<rparr>)"

definition importText :: "text_design option \<Rightarrow> design_store \<Rightarrow> design_store" where
  "importText stored s =
     (let t = map_option (\<lambda>d. clampText (designTextToEditor d (cw s) (ch s))) stored in
      restart_history (s\<lparr>ds_text := t, textSelected := t \<noteq> None \<and> selectedId s = None\<rparr>))"

record design_image =
  di_src :: string
  di_name :: string
  di_natW :: jsnum
  di_natH :: jsnum

definition import_background :: "design_image option \<Rightarrow> design_store \<Rightarrow> design_store" where
  "import_background background s = (case background of None \<Rightarrow> s | Some b \<Rightarrow>
     if di_src b = [] then s
     else
       let natW = num_or (di_natW b) (Fin 1); natH = num_or (di_natH b) (Fin 1); s1 = setCanvasSize natW natH s
       in s1\<lparr>counter := counter s1 + 1, layers := layers s1 @
            [\<lparr>el_id = layer_id (counter s1 + 1), el_name = (if di_name b = [] then ''Background'' else di_name b), el_src = di_src b,
              el_natW = natW, el_natH = natH, el_kind = Background, el_cx = halved (cw s1), el_cy = halved (ch s1),
              el_w = cw s1, el_h = ch s1, el_rot = Fin 0, el_style = Cover, el_opacity = Fin 100, el_shape = No_Shape,
              el_shapeSrc = None, el_crop = None, el_visible = True, el_locked = True\<rparr>]\<rparr>)"

definition import_layer :: "design_layer \<Rightarrow> design_store \<Rightarrow> design_store" where
  "import_layer stored s =
     (let l = designLayerToEditor stored (cw s) (ch s) (layer_id (counter s + 1));
          placed = (if el_style l \<noteq> Free then applyStyleGeometry l (cw s) (ch s) else l)
      in s\<lparr>counter := counter s + 1, layers := layers s @ [placed]\<rparr>)"

definition last_overlay :: "design_store \<Rightarrow> string option" where
  "last_overlay s = (if overlays s = [] then None else Some (el_id (last (overlays s))))"

definition importDesign :: "design_layer list \<Rightarrow> design_image option \<Rightarrow> design_store \<Rightarrow> design_store" where
  "importDesign data background s =
     (let s1 = s\<lparr>suppressHistory := True, layers := [], ds_text := None, textSelected := False, selectedId := None\<rparr>;
          s2 = fold import_layer data (import_background background s1);
          s3 = s2\<lparr>selectedId := last_overlay s2, suppressHistory := False\<rparr>
      in fitCanvas (restart_history s3))"

definition selectLayer :: "string option \<Rightarrow> design_store \<Rightarrow> design_store" where
  "selectLayer ident s = s\<lparr>selectedId := ident, textSelected := False\<rparr>"

definition addLayer :: "string \<Rightarrow> string \<Rightarrow> jsnum \<Rightarrow> jsnum \<Rightarrow> (editor_layer \<Rightarrow> editor_layer) \<Rightarrow> design_store \<Rightarrow> design_store" where
  "addLayer src nm natW natH opts s =
     (let (w, h) = freeDefaultSize natW natH (cw s) (ch s); n = counter s + 1;
          l = opts \<lparr>el_id = layer_id n, el_name = (if nm = [] then ''Layer '' @ show_nat (int n) else nm), el_src = src,
            el_natW = natW, el_natH = natH, el_kind = Layer, el_cx = halved (cw s), el_cy = halved (ch s), el_w = w, el_h = h,
            el_rot = Fin 0, el_style = Free, el_opacity = Fin 100, el_shape = No_Shape, el_shapeSrc = None, el_crop = None,
            el_visible = True, el_locked = False\<rparr>;
          s1 = s\<lparr>counter := n, layers := layers s @ [l]\<rparr>
      in commit_notify (if el_kind l \<noteq> Background then selectLayer (Some (el_id l)) s1 else s1))"

text \<open>The copy goes directly above the original; \<open>indexOf\<close> of a layer that is gone is \<open>-1\<close>, so in front.\<close>

definition place_above :: "string \<Rightarrow> editor_layer list \<Rightarrow> nat" where
  "place_above ident ls = (if ident \<in> el_id ` set ls then length (takeWhile (\<lambda>l. el_id l \<noteq> ident) ls) + 1 else 0)"

definition duplicateLayer :: "editor_layer option \<Rightarrow> design_store \<Rightarrow> design_store" where
  "duplicateLayer layer s = (case layer of None \<Rightarrow> s | Some l \<Rightarrow>
     if el_kind l = Background then s
     else
       let n = counter s + 1; j = json_layer l; i = place_above (el_id l) (layers s);
           copy = j\<lparr>el_id := layer_id n, el_cx := js_add (el_cx j) DUPLICATE_OFFSET, el_cy := js_add (el_cy j) DUPLICATE_OFFSET\<rparr>
       in commit_notify (selectLayer (Some (layer_id n))
            (s\<lparr>counter := n, layers := take i (layers s) @ copy # drop i (layers s)\<rparr>)))"

definition duplicateSelected :: "design_store \<Rightarrow> design_store" where
  "duplicateSelected s = duplicateLayer (getSelected s) s"

definition removeLayerById :: "string \<Rightarrow> design_store \<Rightarrow> design_store" where
  "removeLayerById ident s =
     (let s1 = s\<lparr>layers := filter (\<lambda>l. el_id l \<noteq> ident) (layers s)\<rparr>;
          s2 = (if cropping s1 = Some ident then s1\<lparr>cropping := None\<rparr> else s1)
      in commit_notify (if selectedId s2 = Some ident then selectLayer (last_overlay s2) s2 else s2))"

definition deleteLayer :: "string \<Rightarrow> design_store \<Rightarrow> design_store" where
  "deleteLayer ident s = (case find_layer ident s of None \<Rightarrow> s | Some l \<Rightarrow>
     if el_kind l = Background then s else removeLayerById ident s)"

definition toggleLock :: "string \<Rightarrow> design_store \<Rightarrow> design_store" where
  "toggleLock ident s = commit_notify (on_layer ident (\<lambda>l. l\<lparr>el_locked := \<not> el_locked l\<rparr>) s)"

definition toggleVisible :: "string \<Rightarrow> design_store \<Rightarrow> design_store" where
  "toggleVisible ident s = commit_notify (on_layer ident (\<lambda>l. l\<lparr>el_visible := \<not> el_visible l\<rparr>) s)"

text \<open>\<open>select\<close>, which also leaves the crop mode of another layer.\<close>

definition select_layer :: "string option \<Rightarrow> design_store \<Rightarrow> design_store" where
  "select_layer ident s =
     notify (selectLayer ident (if cropping s \<noteq> None \<and> cropping s \<noteq> ident then commit (s\<lparr>cropping := None\<rparr>) else s))"

text \<open>\<open>indexOf\<close> in the reversed list: \<open>-1\<close>, so in front, for a layer the list does not name.\<close>

definition order_index :: "string list \<Rightarrow> string \<Rightarrow> int" where
  "order_index order ident = (if ident \<in> set order then int (length (takeWhile (\<lambda>i. i \<noteq> ident) order)) else -1)"

definition pin_background :: "editor_layer list \<Rightarrow> editor_layer list" where
  "pin_background ls =
     (case List.extract (\<lambda>l. el_kind l = Background) ls of
        None \<Rightarrow> ls
      | Some (before, b, after) \<Rightarrow> b # before @ after)"

definition reorderByIds :: "string list \<Rightarrow> design_store \<Rightarrow> design_store" where
  "reorderByIds topToBottomIds s =
     commit_notify (s\<lparr>layers := pin_background (sort_key (\<lambda>l. order_index (rev topToBottomIds) (el_id l)) (layers s))\<rparr>)"

section \<open>Text\<close>

definition selectText :: "design_store \<Rightarrow> design_store" where
  "selectText s =
     (if ds_text s = None then s
      else notify ((if cropping s \<noteq> None \<and> cropping s \<noteq> Some '''' then commit (s\<lparr>cropping := None\<rparr>) else s)
        \<lparr>selectedId := None, textSelected := True\<rparr>))"

definition addText :: "design_store \<Rightarrow> design_store" where
  "addText s =
     (if ds_text s \<noteq> None then selectText s
      else commit_notify (s\<lparr>ds_text := Some (defaultText (cw s) (ch s)), selectedId := None, textSelected := True\<rparr>))"

definition removeText :: "design_store \<Rightarrow> design_store" where
  "removeText s = (if ds_text s = None then s else commit_notify (s\<lparr>ds_text := None, textSelected := False\<rparr>))"

definition getSelectedText :: "design_store \<Rightarrow> editor_text option" where
  "getSelectedText s = (if textSelected s then ds_text s else None)"

definition patch_text :: "(editor_text \<Rightarrow> editor_text) \<Rightarrow> design_store \<Rightarrow> design_store" where
  "patch_text patch s = s\<lparr>ds_text := map_option (\<lambda>t. clampText (patch t)) (ds_text s)\<rparr>"

definition updateText :: "(editor_text \<Rightarrow> editor_text) \<Rightarrow> design_store \<Rightarrow> design_store" where
  "updateText patch s = (if ds_text s = None then s else commit_notify (patch_text patch s))"

definition nudgeText :: "(editor_text \<Rightarrow> editor_text) \<Rightarrow> design_store \<Rightarrow> design_store" where
  "nudgeText patch s = (if ds_text s = None then s else notify (patch_text patch s))"

section \<open>Style, alignment, transform\<close>

definition inCropMode :: "editor_layer \<Rightarrow> design_store \<Rightarrow> bool" where
  "inCropMode l s \<longleftrightarrow> el_shape l \<noteq> No_Shape \<and> cropping s = Some (el_id l)"

text \<open>An operation on the selected layer, with nothing to do when there is none.\<close>

definition on_selected :: "(editor_layer \<Rightarrow> design_store \<Rightarrow> design_store) \<Rightarrow> design_store \<Rightarrow> design_store" where
  "on_selected f s = (case getSelected s of None \<Rightarrow> s | Some l \<Rightarrow> f l s)"

definition setStyle :: "layer_style \<Rightarrow> design_store \<Rightarrow> design_store" where
  "setStyle style = on_selected (\<lambda>l s. commit_notify
     (if inCropMode l s then s
      else on_layer (el_id l) (\<lambda>l. applyStyleGeometry (l\<lparr>el_style := style\<rparr>) (cw s) (ch s)) s))"

datatype edge = Low | Middle | High

definition aligned :: "edge \<Rightarrow> jsnum \<Rightarrow> jsnum \<Rightarrow> jsnum" where
  "aligned to box extent = (case to of Low \<Rightarrow> halved box | Middle \<Rightarrow> halved extent | High \<Rightarrow> js_sub extent (halved box))"

definition alignH :: "edge \<Rightarrow> design_store \<Rightarrow> design_store" where
  "alignH to = on_selected (\<lambda>l s. if inCropMode l s then s
     else commit_notify (on_layer (el_id l) (\<lambda>l. l\<lparr>el_cx := aligned to (el_w l) (cw s)\<rparr>) s))"

definition alignV :: "edge \<Rightarrow> design_store \<Rightarrow> design_store" where
  "alignV to = on_selected (\<lambda>l s. if inCropMode l s then s
     else commit_notify (on_layer (el_id l) (\<lambda>l. l\<lparr>el_cy := aligned to (el_h l) (ch s)\<rparr>) s))"

definition setRotation :: "jsnum \<Rightarrow> design_store \<Rightarrow> design_store" where
  "setRotation deg = on_selected (\<lambda>l s. notify (on_layer (el_id l) (\<lambda>l. l\<lparr>el_rot := deg\<rparr>) s))"

definition setOpacity :: "jsnum \<Rightarrow> design_store \<Rightarrow> design_store" where
  "setOpacity pct = on_selected (\<lambda>l s. notify (on_layer (el_id l)
     (\<lambda>l. l\<lparr>el_opacity := js_max (Fin 0) (js_min (Fin 100) (js_round pct))\<rparr>) s))"

definition nudge :: "jsnum \<Rightarrow> jsnum \<Rightarrow> design_store \<Rightarrow> design_store" where
  "nudge dx dy = on_selected (\<lambda>l s. if el_locked l then s
     else notify (on_layer (el_id l) (\<lambda>l. l\<lparr>el_cx := js_add (el_cx l) dx, el_cy := js_add (el_cy l) dy\<rparr>) s))"

definition reshaped :: "layer_shape \<Rightarrow> jsnum \<Rightarrow> jsnum \<Rightarrow> editor_layer \<Rightarrow> editor_layer" where
  "reshaped shape w h l =
     (let change = shapeChangeFor l shape;
          l1 = l\<lparr>el_shape := sc_shape change, el_w := sc_w change, el_h := sc_h change, el_crop := sc_crop change\<rparr>
      in if sc_resetStyle change
         then (case freeDefaultSize (el_natW l) (el_natH l) w h of (w', h') \<Rightarrow> l1\<lparr>el_style := Free, el_w := w', el_h := h'\<rparr>)
         else if el_style l1 \<noteq> Free then applyStyleGeometry l1 w h
         else l1)"

definition setShapeOn :: "string \<Rightarrow> layer_shape \<Rightarrow> design_store \<Rightarrow> design_store" where
  "setShapeOn ident shape s = (case find_layer ident s of None \<Rightarrow> s | Some l \<Rightarrow>
     (let s1 = on_layer ident (reshaped shape (cw s) (ch s)) s in
      commit_notify (if sc_resetStyle (shapeChangeFor l shape) \<and> cropping s = Some ident then s1\<lparr>cropping := None\<rparr> else s1)))"

definition setCropBox :: "string \<Rightarrow> crop_box \<Rightarrow> design_store \<Rightarrow> design_store" where
  "setCropBox ident box s = (case find_layer ident s of None \<Rightarrow> s | Some l \<Rightarrow>
     if el_shape l = No_Shape then s
     else notify (on_layer ident (\<lambda>l. l\<lparr>el_crop := Some (cropBoxToCrop l (clampCropBox l box) (el_crop l))\<rparr>) s))"

definition setInnerRotation :: "string \<Rightarrow> jsnum \<Rightarrow> design_store \<Rightarrow> design_store" where
  "setInnerRotation ident deg s = (case find_layer ident s of None \<Rightarrow> s | Some l \<Rightarrow>
     if el_shape l = No_Shape then s
     else
       let normalised = js_mod (js_add (js_mod deg (Fin 360)) (Fin 360)) (Fin 360) in
       notify (on_layer ident (\<lambda>l. l\<lparr>el_crop := Some ((case el_crop l of None \<Rightarrow> cropDefault l Free | Some c \<Rightarrow> c)\<lparr>lc_rot := Some normalised\<rparr>)\<rparr>) s))"

definition enterCrop :: "string \<Rightarrow> design_store \<Rightarrow> design_store" where
  "enterCrop ident s = (case find_layer ident s of None \<Rightarrow> s | Some l \<Rightarrow>
     if el_kind l = Background \<or> el_shape l = No_Shape \<or> el_locked l then s
     else notify (on_layer ident (\<lambda>l. l\<lparr>el_crop := Some (case el_crop l of None \<Rightarrow> cropDefault l Free | Some c \<Rightarrow> c)\<rparr>)
       ((selectLayer (Some ident) s)\<lparr>cropping := Some ident\<rparr>)))"

definition exitCrop :: "design_store \<Rightarrow> design_store" where
  "exitCrop s = (if cropping s = None then s else commit_notify (s\<lparr>cropping := None\<rparr>))"

definition setBg :: "string \<Rightarrow> design_store \<Rightarrow> design_store" where
  "setBg colour s = commit_notify (s\<lparr>bg := colour\<rparr>)"

definition setChecker :: "bool \<Rightarrow> design_store \<Rightarrow> design_store" where
  "setChecker on s = commit_notify (s\<lparr>checker := on\<rparr>)"

end
