(* ===== verification/Design_Store_Correct.thy ===== *)
theory Design_Store_Correct
  imports Design_Store Design_Geometry_Correct
begin

text \<open>
  What holds of the editor after any sequence of its operations, and what undo and redo bring back.
\<close>

section \<open>The invariant\<close>

text \<open>The background, if there is one, is the bottom layer.\<close>

definition pinned :: "editor_layer list \<Rightarrow> bool" where
  "pinned ls \<longleftrightarrow> (\<forall>l\<in>set (tl ls). el_kind l \<noteq> Background)"

text \<open>The text and a layer are never selected together, and no text is selected that is not there.\<close>

definition exclusive :: "bool \<Rightarrow> 'a option \<Rightarrow> string option \<Rightarrow> bool" where
  "exclusive tsel txt sel \<longleftrightarrow> (tsel \<longrightarrow> txt \<noteq> None \<and> sel = None)"

text \<open>A snapshot holds what survives being written as text.\<close>

definition written :: "snapshot \<Rightarrow> bool" where
  "written sn \<longleftrightarrow> map json_layer (sn_layers sn) = sn_layers sn \<and> map_option json_text (sn_text sn) = sn_text sn
     \<and> json_num (sn_cw sn) = sn_cw sn \<and> json_num (sn_ch sn) = sn_ch sn"

definition snapshot_ok :: "snapshot \<Rightarrow> bool" where
  "snapshot_ok sn \<longleftrightarrow> pinned (sn_layers sn) \<and> exclusive (sn_textSelected sn) (sn_text sn) (sn_selectedId sn) \<and> written sn"

definition content_ok :: "design_store \<Rightarrow> bool" where
  "content_ok s \<longleftrightarrow> pinned (layers s) \<and> exclusive (textSelected s) (ds_text s) (selectedId s)"

definition history_ok :: "design_store \<Rightarrow> bool" where
  "history_ok s \<longleftrightarrow> length (history s) \<le> HISTORY_LIMIT \<and> (\<forall>sn\<in>set (history s). snapshot_ok sn)
     \<and> (history s = [] \<and> hidx s = -1 \<or> 0 \<le> hidx s \<and> hidx s < int (length (history s)))"

definition editor_ok :: "design_store \<Rightarrow> bool" where
  "editor_ok s \<longleftrightarrow> content_ok s \<and> history_ok s \<and> \<not> suppressHistory s"

section \<open>What an operation touches\<close>

lemma ok_notify [simp]:
  "content_ok (notify s) = content_ok s" "history_ok (notify s) = history_ok s" "suppressHistory (notify s) = suppressHistory s"
  by (simp_all add: notify_def content_ok_def history_ok_def)

lemma same_scale: "\<exists>z. s = s\<lparr>canvasScale := z\<rparr>" "\<exists>z. s\<lparr>canvasScale := y\<rparr> = s\<lparr>canvasScale := z\<rparr>"
proof -
  have "s = s\<lparr>canvasScale := canvasScale s\<rparr>" by simp
  then show "\<exists>z. s = s\<lparr>canvasScale := z\<rparr>" by (rule exI)
qed auto

lemma fitCanvas_scale: "\<exists>z. fitCanvas s = s\<lparr>canvasScale := z\<rparr>"
  unfolding fitCanvas_def Let_def by (simp only: split: option.split prod.split if_split) (use same_scale in blast)

lemma fitCanvas_fields [simp]:
  "layers (fitCanvas s) = layers s" "ds_text (fitCanvas s) = ds_text s" "textSelected (fitCanvas s) = textSelected s"
  "selectedId (fitCanvas s) = selectedId s" "bg (fitCanvas s) = bg s" "checker (fitCanvas s) = checker s" "cw (fitCanvas s) = cw s"
  "ch (fitCanvas s) = ch s" "history (fitCanvas s) = history s" "hidx (fitCanvas s) = hidx s"
  "suppressHistory (fitCanvas s) = suppressHistory s" "cropping (fitCanvas s) = cropping s"
  using fitCanvas_scale [of s] by auto

lemma ok_fitCanvas [simp]: "content_ok (fitCanvas s) = content_ok s" "history_ok (fitCanvas s) = history_ok s"
  by (simp_all add: content_ok_def history_ok_def)

lemma json_kind [simp]: "el_kind (json_layer l) = el_kind l"
  by (simp add: json_layer_def)

lemma pinned_map: "(\<And>l. el_kind (f l) = el_kind l) \<Longrightarrow> pinned (map f ls) = pinned ls"
  by (cases ls) (auto simp: pinned_def)

lemma in_tl: "x \<in> set (tl xs) \<Longrightarrow> x \<in> set xs"
  by (cases xs) auto

lemma pinned_filter: "pinned ls \<Longrightarrow> pinned (filter P ls)"
  by (cases ls) (auto simp: pinned_def dest: in_tl)

lemma pinned_snoc: "pinned ls \<Longrightarrow> el_kind l \<noteq> Background \<Longrightarrow> pinned (ls @ [l])"
  by (cases ls) (auto simp: pinned_def)

lemma pinned_insert:
  "pinned ls \<Longrightarrow> el_kind l \<noteq> Background \<Longrightarrow> 0 < i \<Longrightarrow> ls \<noteq> [] \<Longrightarrow> pinned (take i ls @ l # drop i ls)"
  by (cases ls; cases i) (auto simp: pinned_def dest: in_set_takeD in_set_dropD)

definition backgrounds :: "editor_layer list \<Rightarrow> editor_layer list" where
  "backgrounds ls = filter (\<lambda>l. el_kind l = Background) ls"

lemma pinned_one_background: "pinned ls \<Longrightarrow> length (backgrounds ls) \<le> 1"
proof (cases ls)
  case (Cons l rest)
  moreover assume "pinned ls"
  ultimately have "backgrounds rest = []" by (auto simp: pinned_def backgrounds_def filter_empty_conv)
  then show ?thesis using Cons by (simp add: backgrounds_def)
qed (simp add: backgrounds_def)

lemma pinned_pin_background:
  assumes "length (backgrounds ls) \<le> 1"
  shows "pinned (pin_background ls)"
proof (cases "List.extract (\<lambda>l. el_kind l = Background) ls")
  case None
  then have "\<forall>l\<in>set ls. el_kind l \<noteq> Background" by (simp add: extract_None_iff)
  then show ?thesis by (auto simp: pin_background_def None pinned_def dest: in_tl)
next
  case (Some r)
  obtain before b after where r: "r = (before, b, after)" by (cases r)
  then have "ls = before @ b # after" "el_kind b = Background" using extract_SomeE Some by fastforce+
  then have "backgrounds (before @ after) = []" using assms by (simp add: backgrounds_def)
  then have "\<forall>l\<in>set (before @ after). el_kind l \<noteq> Background" by (simp only: backgrounds_def filter_empty_conv)
  then show ?thesis by (auto simp: pin_background_def Some r pinned_def)
qed

lemma pinned_reorder: "pinned ls \<Longrightarrow> pinned (pin_background (sort_key f ls))"
  using pinned_one_background [of ls] by (intro pinned_pin_background) (simp add: backgrounds_def filter_sort)

lemma json_idem [simp]:
  "json_num (json_num a) = json_num a" "json_crop (json_crop c) = json_crop c" "json_layer (json_layer l) = json_layer l"
  "json_text (json_text t) = json_text t"
proof -
  show n: "json_num (json_num a) = json_num a" for a by (cases a) (simp_all add: json_num_def finite_or_def)
  then have "json_num \<circ> json_num = json_num" by auto
  with n show c: "json_crop (json_crop c) = json_crop c" "json_text (json_text t) = json_text t" for c
    by (simp_all add: json_crop_def json_text_def option.map_comp)
  then have "json_crop \<circ> json_crop = json_crop" by auto
  with n show "json_layer (json_layer l) = json_layer l" by (simp add: json_layer_def option.map_comp)
qed

lemma serialize_ok: "content_ok s \<Longrightarrow> snapshot_ok (serialize s)"
  by (auto simp: content_ok_def snapshot_ok_def serialize_def pinned_map exclusive_def written_def option.map_comp comp_def)

section \<open>Every operation keeps it\<close>

named_theorems editor_intro \<open>operations that keep the invariant\<close>

lemma content_commit [simp]:
  "layers (commit s) = layers s" "ds_text (commit s) = ds_text s" "textSelected (commit s) = textSelected s"
  "selectedId (commit s) = selectedId s" "suppressHistory (commit s) = suppressHistory s" "cw (commit s) = cw s" "ch (commit s) = ch s"
  "counter (commit s) = counter s" "cropping (commit s) = cropping s" "bg (commit s) = bg s" "checker (commit s) = checker s"
  by (simp_all add: commit_def Let_def)

lemma ok_commit [editor_intro]:
  assumes "editor_ok s"
  shows "editor_ok (commit s)"
proof -
  let ?pushed = "take (nat (hidx s + 1)) (history s) @ [serialize s]"
  let ?kept = "if HISTORY_LIMIT < length ?pushed then tl ?pushed else ?pushed"
  have s: "content_ok s" "history_ok s" "\<not> suppressHistory s" using assms by (simp_all add: editor_ok_def)
  have "\<forall>sn\<in>set ?kept. snapshot_ok sn"
    using s serialize_ok [OF s(1)] by (auto simp: history_ok_def dest!: in_tl dest: in_set_takeD split: if_splits)
  moreover have "length ?kept \<le> HISTORY_LIMIT" "?kept \<noteq> []"
    using s by (auto simp: history_ok_def HISTORY_LIMIT_def min_def tl_append split: list.split)
  ultimately have "history_ok (commit s)"
    using s(3) unfolding commit_def Let_def by (auto simp: history_ok_def)
  then show ?thesis using s by (simp add: editor_ok_def content_ok_def)
qed

lemma ok_notify_intro [editor_intro]: "editor_ok s \<Longrightarrow> editor_ok (notify s)"
  by (simp add: editor_ok_def)

lemma ok_commit_notify [editor_intro]: "editor_ok s \<Longrightarrow> editor_ok (commit_notify s)"
  by (simp add: commit_notify_def editor_intro)

text \<open>A change outside the history is judged by the layers, the text and the selection alone.\<close>

lemma ok_change:
  assumes "editor_ok s" "history s' = history s" "hidx s' = hidx s" "suppressHistory s' = suppressHistory s"
    "pinned (layers s')" "exclusive (textSelected s') (ds_text s') (selectedId s')"
  shows "editor_ok s'"
  using assms by (simp add: editor_ok_def content_ok_def history_ok_def)

lemma okD: "editor_ok s \<Longrightarrow> pinned (layers s)" "editor_ok s \<Longrightarrow> exclusive (textSelected s) (ds_text s) (selectedId s)"
  by (simp_all add: editor_ok_def content_ok_def)

lemma ok_fields [editor_intro]:
  "editor_ok s \<Longrightarrow> editor_ok (s\<lparr>cropping := c\<rparr>)" "editor_ok s \<Longrightarrow> editor_ok (s\<lparr>bg := colour\<rparr>)"
  "editor_ok s \<Longrightarrow> editor_ok (s\<lparr>checker := on\<rparr>)" "editor_ok s \<Longrightarrow> editor_ok (s\<lparr>stage := els\<rparr>)"
  "editor_ok s \<Longrightarrow> editor_ok (s\<lparr>counter := n\<rparr>)"
  by (simp_all add: editor_ok_def content_ok_def history_ok_def)

lemma ok_selectLayer [editor_intro]: "editor_ok s \<Longrightarrow> editor_ok (selectLayer i s)"
  by (simp add: editor_ok_def content_ok_def history_ok_def selectLayer_def exclusive_def)

lemma ok_on_layer [editor_intro]:
  assumes "editor_ok s" "\<And>l. el_kind (f l) = el_kind l"
  shows "editor_ok (on_layer i f s)"
proof -
  have "pinned (map (\<lambda>l. if el_id l = i then f l else l) (layers s))" using okD(1) [OF assms(1)] assms(2) by (subst pinned_map) auto
  then show ?thesis using okD(2) [OF assms(1)] by (intro ok_change [OF assms(1)]) (simp_all add: on_layer_def)
qed

lemma ok_fitCanvas_intro [editor_intro]: "editor_ok s \<Longrightarrow> editor_ok (fitCanvas s)"
  by (simp add: editor_ok_def)

lemma ok_restore:
  assumes "editor_ok s" "snapshot_ok sn"
  shows "editor_ok (restore sn s)"
proof -
  let ?s1 = "s\<lparr>layers := sn_layers sn, ds_text := sn_text sn, textSelected := sn_textSelected sn, selectedId := sn_selectedId sn,
            bg := sn_bg sn, checker := sn_checker sn\<rparr>"
  have "editor_ok ?s1" "editor_ok (?s1\<lparr>cw := a, ch := b\<rparr>)" for a b
    using assms by (simp_all add: editor_ok_def content_ok_def history_ok_def snapshot_ok_def)
  then show ?thesis by (simp add: restore_def Let_def editor_intro)
qed

lemma ok_hidx:
  assumes "editor_ok s" "0 \<le> i" "i < int (length (history s))"
  shows "editor_ok (s\<lparr>hidx := i\<rparr>)" "snapshot_ok (history s ! nat i)"
  using assms by (auto simp: editor_ok_def content_ok_def history_ok_def)

lemma ok_undo [editor_intro]: "editor_ok s \<Longrightarrow> editor_ok (undo s)"
proof (cases "0 < hidx s")
  case True
  assume "editor_ok s"
  moreover from this True have "0 \<le> hidx s - 1" "hidx s - 1 < int (length (history s))"
    by (auto simp: editor_ok_def history_ok_def)
  ultimately show ?thesis using True by (simp add: undo_def ok_restore [OF ok_hidx])
qed (simp add: undo_def)

lemma ok_redo [editor_intro]: "editor_ok s \<Longrightarrow> editor_ok (redo s)"
proof (cases "canRedo s")
  case True
  assume "editor_ok s"
  moreover from this True have "0 \<le> hidx s + 1" "hidx s + 1 < int (length (history s))"
    by (auto simp: editor_ok_def history_ok_def canRedo_def)
  ultimately show ?thesis using True by (simp add: redo_def canRedo_def ok_restore [OF ok_hidx])
qed (simp add: redo_def canRedo_def)

lemma ok_layers:
  "editor_ok s \<Longrightarrow> pinned ls \<Longrightarrow> editor_ok (s\<lparr>layers := ls\<rparr>)"
  by (simp add: editor_ok_def content_ok_def history_ok_def)

lemma ok_addLayer:
  assumes "editor_ok s" "\<And>l. el_kind (opts l) = el_kind l"
  shows "editor_ok (addLayer src nm natW natH opts s)"
proof -
  have "pinned (layers s @ [opts l])" if "el_kind l = Layer" for l
    using okD(1) [OF assms(1)] assms(2) that by (intro pinned_snoc) simp_all
  then show ?thesis unfolding addLayer_def Let_def
    by (auto split: prod.split simp: assms(2) intro!: editor_intro ok_layers [of "s\<lparr>counter := n\<rparr>" for n, simplified] assms(1))
qed

lemma ok_duplicateLayer:
  assumes "editor_ok s" "l \<in> set (layers s)"
  shows "editor_ok (duplicateLayer (Some l) s)"
proof -
  have i: "0 < place_above (el_id l) (layers s)" "layers s \<noteq> []" using assms(2) by (auto simp: place_above_def)
  have "editor_ok (s\<lparr>counter := n, layers := take (place_above (el_id l) (layers s)) (layers s) @ c # drop (place_above (el_id l) (layers s)) (layers s)\<rparr>)"
    if "el_kind c \<noteq> Background" for n c
    using ok_layers [OF ok_fields(5) [OF assms(1)] pinned_insert [OF okD(1) [OF assms(1)] that i]] by simp
  then show ?thesis using assms(1) by (auto simp: duplicateLayer_def Let_def intro!: editor_intro)
qed

lemma ok_removeLayerById [editor_intro]: "editor_ok s \<Longrightarrow> editor_ok (removeLayerById i s)"
  using pinned_filter [OF okD(1)] by (auto simp: removeLayerById_def Let_def intro!: editor_intro ok_layers)

lemma ok_deleteLayer [editor_intro]: "editor_ok s \<Longrightarrow> editor_ok (deleteLayer i s)"
  by (auto simp: deleteLayer_def intro: editor_intro split: option.split)

lemma ok_toggles [editor_intro]: "editor_ok s \<Longrightarrow> editor_ok (toggleLock i s)" "editor_ok s \<Longrightarrow> editor_ok (toggleVisible i s)"
  by (simp_all add: toggleLock_def toggleVisible_def editor_intro)

lemma ok_select_layer [editor_intro]: "editor_ok s \<Longrightarrow> editor_ok (select_layer i s)"
  by (simp add: select_layer_def editor_intro)

lemma ok_reorderByIds [editor_intro]: "editor_ok s \<Longrightarrow> editor_ok (reorderByIds ids s)"
  using pinned_reorder [OF okD(1)] by (auto simp: reorderByIds_def intro!: editor_intro ok_layers)

lemma ok_selectText [editor_intro]: "editor_ok s \<Longrightarrow> editor_ok (selectText s)"
proof -
  assume s: "editor_ok s"
  have "editor_ok (s'\<lparr>selectedId := None, textSelected := True\<rparr>)" if "editor_ok s'" "ds_text s' \<noteq> None" for s'
    using that by (simp add: editor_ok_def content_ok_def history_ok_def exclusive_def)
  then have "editor_ok (s\<lparr>selectedId := None, textSelected := True\<rparr>)"
      "editor_ok ((commit (s\<lparr>cropping := None\<rparr>))\<lparr>selectedId := None, textSelected := True\<rparr>)" if "ds_text s \<noteq> None"
    using s that by (simp_all add: editor_intro)
  then show ?thesis using s by (auto simp: selectText_def intro!: ok_notify_intro)
qed

lemma ok_texts [editor_intro]:
  "editor_ok s \<Longrightarrow> editor_ok (addText s)" "editor_ok s \<Longrightarrow> editor_ok (removeText s)"
  "editor_ok s \<Longrightarrow> editor_ok (updateText p s)" "editor_ok s \<Longrightarrow> editor_ok (nudgeText p s)"
proof -
  assume s: "editor_ok s"
  have "editor_ok (s\<lparr>ds_text := Some t, selectedId := None, textSelected := True\<rparr>)" "editor_ok (s\<lparr>ds_text := None, textSelected := False\<rparr>)"
    "editor_ok (patch_text p s)" for t
    using s by (auto simp: editor_ok_def content_ok_def history_ok_def exclusive_def patch_text_def)
  then show "editor_ok (addText s)" "editor_ok (removeText s)" "editor_ok (updateText p s)" "editor_ok (nudgeText p s)"
    using s by (auto simp: addText_def removeText_def updateText_def nudgeText_def intro!: editor_intro)
qed

lemma ok_on_selected:
  assumes "editor_ok s" "\<And>l. getSelected s = Some l \<Longrightarrow> editor_ok (f l s)"
  shows "editor_ok (on_selected f s)"
  using assms by (auto simp: on_selected_def split: option.split)

lemma ok_transforms [editor_intro]:
  assumes "editor_ok s"
  shows "editor_ok (setStyle style s)" "editor_ok (alignH e s)" "editor_ok (alignV e s)" "editor_ok (setRotation a s)"
    "editor_ok (setOpacity a s)" "editor_ok (nudge a b s)"
  unfolding setStyle_def alignH_def alignV_def setRotation_def setOpacity_def nudge_def
  using assms by (auto intro!: ok_on_selected editor_intro)

lemma reshaped_kind [simp]: "el_kind (reshaped shape w h l) = el_kind l"
  by (simp add: reshaped_def Let_def split: prod.split)

lemma ok_shapes [editor_intro]:
  assumes "editor_ok s"
  shows "editor_ok (setShapeOn i shape s)" "editor_ok (setCropBox i box s)" "editor_ok (setInnerRotation i a s)"
    "editor_ok (enterCrop i s)" "editor_ok (exitCrop s)" "editor_ok (setBg colour s)" "editor_ok (setChecker on s)" "editor_ok (attachStage els s)"
  using assms
  by (auto simp: setShapeOn_def setCropBox_def setInnerRotation_def enterCrop_def exitCrop_def setBg_def setChecker_def
      attachStage_def Let_def intro!: editor_intro split: option.split)

section \<open>Loading\<close>

lemma resized_kind [simp]: "el_kind (resized_layer a b c d l) = el_kind l"
  by (simp add: resized_layer_def Let_def)

lemma setCanvasSize_fields [simp]:
  "layers s = [] \<Longrightarrow> layers (setCanvasSize a b s) = []" "textSelected (setCanvasSize a b s) = textSelected s"
  "ds_text (setCanvasSize a b s) = ds_text s" "selectedId (setCanvasSize a b s) = selectedId s"
  by (simp_all add: setCanvasSize_def Let_def)

lemma ok_setCanvasSize [editor_intro]: "editor_ok s \<Longrightarrow> editor_ok (setCanvasSize a b s)"
  by (auto simp: setCanvasSize_def Let_def pinned_map okD intro!: ok_change [of s])

lemma ok_import_layer:
  assumes "pinned (layers s)"
  shows "pinned (layers (import_layer stored s))" "ds_text (import_layer stored s) = ds_text s" "textSelected (import_layer stored s) = textSelected s"
proof -
  have "el_kind (designLayerToEditor stored a b i) = Layer" for a b i by (simp add: designLayerToEditor_def Let_def)
  then show "pinned (layers (import_layer stored s))" using assms by (auto simp: import_layer_def Let_def intro!: pinned_snoc)
qed (simp_all add: import_layer_def Let_def)

lemma import_layers:
  assumes "pinned (layers s)"
  shows "pinned (layers (fold import_layer data s)) \<and> textSelected (fold import_layer data s) = textSelected s
    \<and> ds_text (fold import_layer data s) = ds_text s"
  using assms by (induction data arbitrary: s) (simp_all add: ok_import_layer)

lemma import_background_empty:
  assumes "layers s = []"
  shows "pinned (layers (import_background b s))" "textSelected (import_background b s) = textSelected s"
  using assms by (simp_all add: import_background_def Let_def pinned_def split: option.split)

lemma ok_restart:
  assumes "pinned (layers s)" "exclusive (textSelected s) (ds_text s) (selectedId s)" "\<not> suppressHistory s"
  shows "editor_ok (restart_history s)"
proof -
  have "editor_ok (s\<lparr>history := [], hidx := -1\<rparr>)"
    using assms by (simp add: editor_ok_def content_ok_def history_ok_def HISTORY_LIMIT_def)
  then show ?thesis by (simp add: restart_history_def editor_intro)
qed

lemma ok_importDesign [editor_intro]: "editor_ok (importDesign data background s)"
proof -
  let ?s1 = "s\<lparr>suppressHistory := True, layers := [], ds_text := None, textSelected := False, selectedId := None\<rparr>"
  let ?s2 = "fold import_layer data (import_background background ?s1)"
  have "pinned (layers ?s2) \<and> \<not> textSelected ?s2"
    using import_layers [of "import_background background ?s1" data] import_background_empty [of ?s1 background] by simp
  then show ?thesis by (auto simp: importDesign_def Let_def exclusive_def intro!: editor_intro ok_restart)
qed

lemma ok_importText [editor_intro]: "editor_ok s \<Longrightarrow> editor_ok (importText d s)"
  unfolding importText_def Let_def by (rule ok_restart) (auto simp: exclusive_def okD editor_ok_def content_ok_def)

section \<open>The editor at work\<close>

text \<open>
  One call of the store by the components of the editor. A layer handed to \<open>duplicateLayer\<close> is one the store holds; the
  extra fields of \<open>addLayer\<close> do not make a background.
\<close>

inductive edit_step :: "design_store \<Rightarrow> design_store \<Rightarrow> bool" where
  step_open: "edit_step s (importText txt (importDesign data background s))"
| step_commit: "edit_step s (commit s)"
| step_undo: "edit_step s (undo s)"
| step_redo: "edit_step s (redo s)"
| step_canvas: "edit_step s (setCanvasSize natW natH s)"
| step_fit: "edit_step s (fitCanvas (attachStage els s))"
| step_add: "(\<And>l. el_kind (opts l) = el_kind l) \<Longrightarrow> edit_step s (addLayer src nm natW natH opts s)"
| step_duplicate: "l \<in> set (layers s) \<Longrightarrow> edit_step s (duplicateLayer (Some l) s)"
| step_delete: "edit_step s (deleteLayer i s)"
| step_remove: "edit_step s (removeLayerById i s)"
| step_lock: "edit_step s (toggleLock i s)"
| step_visible: "edit_step s (toggleVisible i s)"
| step_select: "edit_step s (select_layer sel s)"
| step_reorder: "edit_step s (reorderByIds ids s)"
| step_addText: "edit_step s (addText s)"
| step_removeText: "edit_step s (removeText s)"
| step_selectText: "edit_step s (selectText s)"
| step_updateText: "edit_step s (updateText patch s)"
| step_nudgeText: "edit_step s (nudgeText patch s)"
| step_style: "edit_step s (setStyle style s)"
| step_alignH: "edit_step s (alignH e s)"
| step_alignV: "edit_step s (alignV e s)"
| step_rotate: "edit_step s (setRotation a s)"
| step_opacity: "edit_step s (setOpacity a s)"
| step_nudge: "edit_step s (nudge a b s)"
| step_shape: "edit_step s (setShapeOn i shape s)"
| step_cropBox: "edit_step s (setCropBox i box s)"
| step_inner: "edit_step s (setInnerRotation i a s)"
| step_enter: "edit_step s (enterCrop i s)"
| step_exit: "edit_step s (exitCrop s)"
| step_bg: "edit_step s (setBg colour s)"
| step_checker: "edit_step s (setChecker on s)"

lemma edit_step_ok: "edit_step s s' \<Longrightarrow> editor_ok s \<Longrightarrow> editor_ok s'"
  by (induction rule: edit_step.induct) (auto intro: editor_intro ok_addLayer ok_duplicateLayer simp: attachStage_def)

inductive editor :: "design_store \<Rightarrow> bool" where
  editor_new: "editor (new_store n)"
| editor_step: "editor s \<Longrightarrow> edit_step s s' \<Longrightarrow> editor s'"

lemma editor_invariant: "editor s \<Longrightarrow> editor_ok s"
  by (induction rule: editor.induct)
    (auto simp: new_store_def editor_ok_def content_ok_def history_ok_def pinned_def exclusive_def HISTORY_LIMIT_def
      dest: edit_step_ok [unfolded editor_ok_def content_ok_def history_ok_def pinned_def exclusive_def])

text \<open>
  C22. Whatever a merchant does in the design editor, in any order and for any length of time: the history holds at most
  eighty snapshots and points into itself, so undo and redo never reach outside it; the product photo stays
  the bottom layer; and the text and a layer are never selected at once, nor a text that is not there.
\<close>

theorem editor_safe:
  assumes "editor s"
  shows "length (history s) \<le> 80 \<and> -1 \<le> hidx s \<and> hidx s < int (length (history s))
    \<and> (\<forall>i<length (layers s). el_kind (layers s ! i) = Background \<longrightarrow> i = 0)
    \<and> (textSelected s \<longrightarrow> ds_text s \<noteq> None \<and> selectedId s = None)"
proof -
  have ok: "editor_ok s" using assms by (rule editor_invariant)
  have "i = 0" if "i < length (layers s)" "el_kind (layers s ! i) = Background" for i
    using okD(1) [OF ok] that by (cases "layers s"; cases i) (auto simp: pinned_def)
  then show ?thesis using ok by (auto simp: editor_ok_def content_ok_def history_ok_def exclusive_def HISTORY_LIMIT_def)
qed

theorem editor_safe_witness:
  "selectedId (addText (new_store 0)) = None \<and> length (history (addText (new_store 0))) \<le> 80"
proof -
  have "textSelected (addText (new_store 0))"
    by (simp add: addText_def new_store_def commit_notify_def notify_def)
  moreover have "editor (addText (new_store 0))" by (rule editor_step [OF editor_new step_addText])
  ultimately show ?thesis using editor_safe [of "addText (new_store 0)"] by blast
qed

section \<open>Undo and redo\<close>

definition sized :: "snapshot \<Rightarrow> bool" where
  "sized sn \<longleftrightarrow> num_truthy (sn_cw sn) \<and> num_truthy (sn_ch sn)"

lemma restore_fields [simp]:
  "history (restore sn s) = history s" "hidx (restore sn s) = hidx s" "suppressHistory (restore sn s) = suppressHistory s"
  "cropping (restore sn s) = cropping s"
  by (simp_all add: restore_def Let_def notify_def)

lemma serialize_restore: "written sn \<Longrightarrow> sized sn \<Longrightarrow> serialize (restore sn s) = sn"
  by (cases sn) (simp add: restore_def Let_def notify_def serialize_def written_def sized_def)

text \<open>The state shows the snapshot the index points to.\<close>

definition at_index :: "design_store \<Rightarrow> bool" where
  "at_index s \<longleftrightarrow> serialize s = history s ! nat (hidx s)"

lemma undo_step:
  assumes "\<forall>sn\<in>set (history s). written sn \<and> sized sn" "0 < hidx s" "hidx s < int (length (history s))"
  shows "history (undo s) = history s \<and> hidx (undo s) = hidx s - 1 \<and> at_index (undo s)"
proof -
  have "history s ! nat (hidx s - 1) \<in> set (history s)" using assms(2,3) by (intro nth_mem) auto
  then show ?thesis using assms by (simp add: undo_def at_index_def serialize_restore)
qed

lemma redo_step:
  assumes "\<forall>sn\<in>set (history s). written sn \<and> sized sn" "0 \<le> hidx s" "hidx s + 1 < int (length (history s))"
  shows "history (redo s) = history s \<and> hidx (redo s) = hidx s + 1 \<and> at_index (redo s)"
proof -
  have "history s ! nat (hidx s + 1) \<in> set (history s)" using assms(2,3) by (intro nth_mem) auto
  then show ?thesis using assms by (simp add: redo_def at_index_def serialize_restore)
qed

lemma undo_many:
  assumes "\<forall>sn\<in>set (history s). written sn \<and> sized sn" "int n \<le> hidx s" "hidx s < int (length (history s))"
  shows "history ((undo ^^ n) s) = history s \<and> hidx ((undo ^^ n) s) = hidx s - int n \<and> (0 < n \<longrightarrow> at_index ((undo ^^ n) s))"
  using assms(2)
proof (induction n)
  case (Suc n)
  then show ?case using undo_step [of "(undo ^^ n) s"] assms(1,3) by auto
qed simp

lemma redo_many:
  assumes "\<forall>sn\<in>set (history s). written sn \<and> sized sn" "0 \<le> hidx s" "hidx s + int n < int (length (history s))"
  shows "history ((redo ^^ n) s) = history s \<and> hidx ((redo ^^ n) s) = hidx s + int n \<and> (0 < n \<longrightarrow> at_index ((redo ^^ n) s))"
  using assms(3)
proof (induction n)
  case (Suc n)
  then show ?case using redo_step [of "(redo ^^ n) s"] assms(1,2) by auto
qed simp

lemma commit_at_index:
  assumes "history_ok s" "\<not> suppressHistory s"
  shows "at_index (commit s) \<and> hidx (commit s) = int (length (history (commit s))) - 1"
proof -
  let ?pushed = "take (nat (hidx s + 1)) (history s) @ [serialize s]"
  let ?kept = "if HISTORY_LIMIT < length ?pushed then tl ?pushed else ?pushed"
  obtain kept where k: "kept = ?kept" by blast
  then have "history (commit s) = kept" "hidx (commit s) = int (length kept) - 1" "serialize (commit s) = serialize s"
    using assms(2) by (simp_all add: commit_def Let_def serialize_def)
  moreover have "last kept = serialize s" "kept \<noteq> []" unfolding k by (auto simp: HISTORY_LIMIT_def tl_append split: list.split)
  moreover have "nat (int (length kept) - 1) = length kept - 1" by simp
  ultimately show ?thesis by (simp add: at_index_def last_conv_nth nat_diff_distrib)
qed

text \<open>What a commit leaves of the history: the snapshots up to the one the editor stood on, the oldest dropped at the limit.\<close>

lemma commit_history:
  assumes "editor_ok s" "0 < n" "n < 80" "int n \<le> hidx s + 1"
  shows "set (history (commit s)) \<subseteq> insert (serialize s) (set (history s)) \<and> n < length (history (commit s))
    \<and> history (commit s) ! (length (history (commit s)) - 1 - n) = history s ! nat (hidx s + 1 - int n)"
proof -
  define m where "m = nat (hidx s + 1)"
  have m: "m \<le> length (history s)" "n \<le> m" "nat (hidx s + 1 - int n) = m - n" "length (history s) \<le> 80"
    using assms by (auto simp: m_def editor_ok_def history_ok_def HISTORY_LIMIT_def)
  let ?pushed = "take m (history s) @ [serialize s]"
  have h: "history (commit s) = (if 80 < length ?pushed then tl ?pushed else ?pushed)"
    using assms(1) by (simp add: commit_def Let_def m_def editor_ok_def HISTORY_LIMIT_def)
  show ?thesis
  proof (cases "80 < length ?pushed")
    case True
    then have "m = length (history s)" "Suc (length (history s) - Suc n) = length (history s) - n"
      using m(1,4) assms(3) by auto
    then show ?thesis using True m assms(2,3) unfolding h by (auto simp: nth_tl nth_append dest: in_tl)
  next
    case False
    then show ?thesis using m assms(2,3) unfolding h by (auto simp: nth_append dest: in_set_takeD)
  qed
qed

text \<open>
  C23. Undo takes back exactly what was committed and redo brings it back: after a commit, one undo shows the snapshot the editor
  stood on before it, \<open>n\<close> undos the one \<open>n - 1\<close> steps before that, whatever had been undone, nudged or thrown away
  earlier; and \<open>n\<close> redos restore the committed design with its layers, its text, its selection and its canvas.
\<close>

theorem undo_redo_round_trip:
  assumes "editor s" "\<forall>sn\<in>set (history s). sized sn" "sized (serialize s)" "0 < n" "n < 80" "int n \<le> hidx s + 1"
  shows "serialize ((undo ^^ n) (commit s)) = history s ! nat (hidx s + 1 - int n)
    \<and> serialize ((redo ^^ n) ((undo ^^ n) (commit s))) = serialize s"
proof -
  let ?c = "commit s" and ?h = "history (commit s)"
  have ok: "editor_ok s" "editor_ok ?c" using editor_invariant [OF assms(1)] by (simp_all add: editor_intro)
  have i: "hidx s < int (length (history s))" "-1 \<le> hidx s" using ok(1) by (auto simp: editor_ok_def history_ok_def)
  have kept: "set ?h \<subseteq> insert (serialize s) (set (history s))" "n < length ?h"
    "?h ! (length ?h - 1 - n) = history s ! nat (hidx s + 1 - int n)"
    using commit_history [OF ok(1) assms(4,5,6)] by auto
  have w: "\<forall>sn\<in>set ?h. written sn \<and> sized sn"
    using ok(2) kept(1) assms(2,3) by (auto simp: editor_ok_def history_ok_def snapshot_ok_def)
  have c: "at_index ?c" "hidx ?c = int (length ?h) - 1" using commit_at_index ok(1) by (simp_all add: editor_ok_def)
  let ?u = "(undo ^^ n) ?c"
  have u: "history ?u = ?h" "hidx ?u = hidx ?c - int n" "at_index ?u"
    using undo_many [OF w, of n] assms(4) kept(2) c(2) by simp_all
  have "history ((redo ^^ n) ?u) = ?h" "hidx ((redo ^^ n) ?u) = hidx ?c" "at_index ((redo ^^ n) ?u)"
    using redo_many [of ?u n] w u assms(4) kept(2) c(2) by simp_all
  then have "serialize ((redo ^^ n) ?u) = serialize ?c" using c(1) by (simp add: at_index_def)
  moreover have "serialize ?c = serialize s" by (simp add: serialize_def)
  moreover have "nat (hidx ?c - int n) = length ?h - 1 - n" using kept(2) c(2) by (simp add: nat_diff_distrib)
  ultimately show ?thesis using u kept(3) by (simp add: at_index_def)
qed

definition two_commits :: design_store where
  "two_commits = setBg ''#000000'' (commit (new_store 0))"

theorem undo_redo_round_trip_witness:
  "sn_bg (serialize ((undo ^^ 2) (commit two_commits))) = ''#ffffff''
    \<and> sn_bg (serialize ((redo ^^ 2) ((undo ^^ 2) (commit two_commits)))) = ''#000000''"
proof -
  have "editor (commit (new_store 0))" using editor_new step_commit by (rule editor_step)
  then have "editor two_commits" unfolding two_commits_def using step_bg by (rule editor_step)
  moreover have "sized (serialize (new_store 0))" "sized (serialize two_commits)"
    by (simp_all add: sized_def two_commits_def serialize_def new_store_def setBg_def commit_notify_def notify_def
        json_num_def finite_or_def num_truthy_def)
  moreover have two_commits_state: "history two_commits = [serialize (new_store 0), serialize two_commits]" "hidx two_commits = 1"
    by (simp_all add: two_commits_def setBg_def commit_notify_def notify_def commit_def new_store_def serialize_def HISTORY_LIMIT_def)
  ultimately have "serialize ((undo ^^ 2) (commit two_commits)) = serialize (new_store 0)
      \<and> serialize ((redo ^^ 2) ((undo ^^ 2) (commit two_commits))) = serialize two_commits"
    using undo_redo_round_trip [of two_commits 2] by (simp add: two_commits_state)
  then show ?thesis by (simp add: serialize_def new_store_def two_commits_def setBg_def commit_notify_def notify_def)
qed

text \<open>
  Crop mode is not part of a snapshot and an undo does not leave it: the next selection of another layer commits, and
  what was undone cannot be redone.
\<close>

lemma select_after_undo_loses_redo:
  assumes "editor s" "canUndo s" "cropping s = Some c" "sel \<noteq> Some c"
  shows "canRedo (undo s) \<and> \<not> canRedo (select_layer sel (undo s))"
proof -
  have ok: "editor_ok (undo s)" "hidx s < int (length (history s))"
    using editor_invariant [OF assms(1)] by (simp add: editor_intro, auto simp: editor_ok_def history_ok_def)
  have "history_ok ((undo s)\<lparr>cropping := None\<rparr>)" "\<not> suppressHistory ((undo s)\<lparr>cropping := None\<rparr>)"
    using ok_fields(1) [OF ok(1), of None] by (simp_all add: editor_ok_def)
  from commit_at_index [OF this] show ?thesis
    using assms(2,3,4) ok(2) by (auto simp: canUndo_def canRedo_def undo_def select_layer_def selectLayer_def notify_def)
qed

end
