(* ===== verification/Connect.thy ===== *)
theory Connect
  imports Plan_Limits
begin

text \<open>
  How a shop is connected (\<open>src/stores/connect.service.ts\<close>, \<open>store-state.ts\<close>, \<open>store-state.service.ts\<close>),
  disconnected and given a new credential (\<open>src/stores/stores.service.ts\<close>), and the guards that admit its
  requests (\<open>src/auth/guards/store-token.guard.ts\<close>, \<open>site-match.guard.ts\<close>).

  A handler reads outside its transaction and writes inside it. A request in progress is a value of
  \<open>connect_run\<close>; \<open>run_step\<close> executes its next query or its whole transaction, so that other requests may
  run in between. The hash functions, the parser of URLs and \<open>JSON.parse\<close> are the fields of
  \<open>connect_env\<close>; random tokens and generated ids are parameters of a step. Times are in milliseconds.
\<close>

record url =
  url_protocol :: string
  url_host :: string
  url_pathname :: string

record connect_env =
  hashToken :: "string \<Rightarrow> string"
  pkceChallenge :: "string \<Rightarrow> string"
  new_URL :: "string \<Rightarrow> url option"
  json_parser :: "string \<Rightarrow> jsval"

section \<open>The state machine of a store\<close>

datatype store_status = DISCONNECTED | CONNECTING | CONNECTED | ERROR | REVOKED

fun status_name :: "store_status \<Rightarrow> string" where
  "status_name DISCONNECTED = ''disconnected''"
| "status_name CONNECTING = ''connecting''"
| "status_name CONNECTED = ''connected''"
| "status_name ERROR = ''error''"
| "status_name REVOKED = ''revoked''"

fun allowedPredecessors :: "store_status \<Rightarrow> store_status list" where
  "allowedPredecessors CONNECTING = [DISCONNECTED, CONNECTING, CONNECTED, ERROR, REVOKED]"
| "allowedPredecessors CONNECTED = [CONNECTING, ERROR]"
| "allowedPredecessors ERROR = [CONNECTED, ERROR]"
| "allowedPredecessors DISCONNECTED = [CONNECTING, CONNECTED, ERROR, REVOKED, DISCONNECTED]"
| "allowedPredecessors REVOKED = [CONNECTING, CONNECTED, ERROR, REVOKED]"

definition canTransition :: "store_status \<Rightarrow> store_status \<Rightarrow> bool" where
  "canTransition from to \<longleftrightarrow> from \<in> set (allowedPredecessors to)"

section \<open>Tables\<close>

record connection_code =
  cc_id :: string
  cc_siteUrl :: string
  cc_callback :: string
  cc_pushUrl :: "string option"
  cc_stateHash :: string
  cc_challenge :: string
  cc_pluginVersion :: "string option"
  cc_requestExpiresAt :: int
  cc_codeHash :: "string option"
  cc_tenantId :: "string option"
  cc_storeId :: "string option"
  cc_approvedAt :: "int option"
  cc_codeExpiresAt :: "int option"
  cc_redeemedAt :: "int option"

text \<open>The columns of a store beside the revision of its content.\<close>

record linked_store = store_row +
  store_name :: string
  storeUrl :: string
  store_status :: store_status
  connectedAt :: "int option"
  lastSeenAt :: "int option"
  storageBytes :: "nat option"
  pluginVersion :: "string option"
  wpVersion :: "string option"
  wcVersion :: "string option"
  phpVersion :: "string option"

record store_credential =
  cr_id :: string
  cr_storeId :: string
  cr_tokenHash :: string
  cr_tokenPrefix :: string
  cr_lastUsedAt :: "int option"
  cr_revokedAt :: "int option"
  cr_expiresAt :: "int option"

record store_event =
  ev_action :: string
  ev_resourceId :: string
  ev_tenantId :: "string option"
  ev_changes :: jsval

record connect_db =
  cn_codes :: "connection_code list"
  cn_stores :: "linked_store list"
  cn_credentials :: "store_credential list"
  cn_tenants :: "(string \<times> string) list"
  cn_events :: "store_event list"
  cn_platform :: platform

text \<open>The plan guard counts the same table of stores.\<close>

definition platform_view :: "connect_db \<Rightarrow> platform" where
  "platform_view db = (cn_platform db)\<lparr>pf_stores := map store_row.truncate (cn_stores db)\<rparr>"

datatype connect_error =
    InvalidRequest
  | RequestGone
  | ValidationFailed string
  | StoreNotFound
  | NoLiveCredential
  | Unauthenticated
  | WrongSite
  | OverPlan api_error
  | Failure string

section \<open>Audit\<close>

definition record_event :: "store_event \<Rightarrow> connect_db \<Rightarrow> connect_db" where
  "record_event e db = db\<lparr>cn_events := cn_events db @ [e]\<rparr>"

definition recordChange :: "store_event \<Rightarrow> string list \<Rightarrow> connect_db \<Rightarrow> connect_db" where
  "recordChange e keys db =
     (case find_row (\<lambda>x. ev_resourceId x = ev_resourceId e \<and> ev_action x = ev_action e) (rev (cn_events db)) of
        None \<Rightarrow> record_event e db
      | Some previous \<Rightarrow>
         if list_all (\<lambda>f. strict_eq (js_get (ev_changes previous) f) (js_get (ev_changes e) f)) keys then db
         else record_event e db)"

section \<open>Addresses\<close>

definition lower_char :: "char \<Rightarrow> char" where
  "lower_char c = (let n = code_of c in
     if 65 \<le> n \<and> n \<le> 90 \<or> 192 \<le> n \<and> n \<le> 222 \<and> n \<noteq> 215 then char_of (n + 32) else c)"

definition js_lower :: "string \<Rightarrow> string" where
  "js_lower s = map lower_char s"

definition strip_slashes :: "string \<Rightarrow> string" where
  "strip_slashes p = rev (dropWhile (\<lambda>c. c = CHR ''/'') (rev p))"

text \<open>\<open>None\<close> is the \<open>TypeError\<close> of \<open>new URL\<close>.\<close>

definition normaliseUrl :: "connect_env \<Rightarrow> string \<Rightarrow> string option" where
  "normaliseUrl env val = map_option
     (\<lambda>u. url_protocol u @ ''//'' @ js_lower (url_host u) @ strip_slashes (url_pathname u)) (new_URL env (js_trim val))"

definition originOf :: "connect_env \<Rightarrow> string \<Rightarrow> string" where
  "originOf env val = (case new_URL env (js_trim val) of None \<Rightarrow> [] | Some u \<Rightarrow> url_protocol u @ ''//'' @ js_lower (url_host u))"

definition hostOf :: "connect_env \<Rightarrow> string \<Rightarrow> string" where
  "hostOf env val = take 255 (case new_URL env val of None \<Rightarrow> val | Some u \<Rightarrow> js_lower (url_host u))"

definition safeNormalise :: "connect_env \<Rightarrow> string \<Rightarrow> string" where
  "safeNormalise env val = (case normaliseUrl env val of None \<Rightarrow> js_lower (js_trim val) | Some u \<Rightarrow> u)"

section \<open>Transitions\<close>

text \<open>
  \<open>UPDATE stores SET status = ? WHERE id = ? AND status IN (\<dots>)\<close>, and whether it changed one row.
\<close>

definition transition :: "int \<Rightarrow> string \<Rightarrow> store_status \<Rightarrow> linked_store list \<Rightarrow> bool \<times> linked_store list" where
  "transition now storeId to stores =
     (let hit = (\<lambda>s. store_id s = storeId \<and> canTransition (store_status s) to) in
      (length (filter hit stores) = 1,
       update_rows hit (\<lambda>s. s\<lparr>store_status := to, connectedAt := (if to = CONNECTED then Some now else connectedAt s)\<rparr>) stores))"

section \<open>Beginning a handshake\<close>

definition REQUEST_TTL_MS :: int where "REQUEST_TTL_MS = 30 * 60000"
definition CODE_TTL_MS :: int where "CODE_TTL_MS = 5 * 60000"

record initiate_dto =
  in_site_url :: string
  in_callback :: string
  in_push_url :: "string option"
  in_state :: string
  in_challenge :: string
  in_plugin_version :: "string option"

text \<open>An address made by \<open>new URL\<close> and \<open>searchParams.set\<close>: its base and the parameters set.\<close>

record redirect =
  rd_url :: string
  rd_params :: "(string \<times> string) list"

definition initiate :: "connect_env \<Rightarrow> int \<Rightarrow> string \<Rightarrow> initiate_dto \<Rightarrow> connect_db \<Rightarrow> connect_error + (redirect \<times> connect_db)" where
  "initiate env now new_id dto db =
     (case normaliseUrl env (in_site_url dto) of
        None \<Rightarrow> Inl (Failure ''Invalid URL'')
      | Some siteUrl \<Rightarrow>
         (let callback = js_trim (in_callback dto);
              pushUrl = (case in_push_url dto of None \<Rightarrow> None | Some u \<Rightarrow> if js_trim u = [] then None else Some (js_trim u)) in
          if originOf env callback \<noteq> originOf env siteUrl
          then Inl (ValidationFailed ''callback must share an origin with site_url.'')
          else if (case pushUrl of None \<Rightarrow> False | Some u \<Rightarrow> originOf env u \<noteq> originOf env siteUrl)
          then Inl (ValidationFailed ''push_url must share an origin with site_url.'')
          else Inr (\<lparr>rd_url = ''/connect'', rd_params = [(''request'', new_id), (''state'', in_state dto)]\<rparr>,
            db\<lparr>cn_codes := cn_codes db @ [\<lparr>cc_id = new_id, cc_siteUrl = siteUrl, cc_callback = callback, cc_pushUrl = pushUrl,
              cc_stateHash = hashToken env (in_state dto), cc_challenge = in_challenge dto,
              cc_pluginVersion = in_plugin_version dto, cc_requestExpiresAt = now + REQUEST_TTL_MS,
              cc_codeHash = None, cc_tenantId = None, cc_storeId = None, cc_approvedAt = None,
              cc_codeExpiresAt = None, cc_redeemedAt = None\<rparr>]\<rparr>)))"

section \<open>Describing and approving a request\<close>

record authorize_dto =
  au_request :: string
  au_state :: string

text \<open>The columns \<open>authorize\<close> selects; the push URL is not among them.\<close>

record pending_request =
  pr_id :: string
  pr_siteUrl :: string
  pr_callback :: string
  pr_stateHash :: string
  pr_requestExpiresAt :: int
  pr_approvedAt :: "int option"

definition select_request :: "string \<Rightarrow> connect_db \<Rightarrow> pending_request option" where
  "select_request i db = map_option
     (\<lambda>c. \<lparr>pr_id = cc_id c, pr_siteUrl = cc_siteUrl c, pr_callback = cc_callback c, pr_stateHash = cc_stateHash c,
        pr_requestExpiresAt = cc_requestExpiresAt c, pr_approvedAt = cc_approvedAt c\<rparr>)
     (find_row (\<lambda>c. cc_id c = i) (cn_codes db))"

definition tokensMatch :: "string \<Rightarrow> string \<Rightarrow> bool" where
  "tokensMatch a b \<longleftrightarrow> length a = length b \<and> a = b"

definition request_open :: "connect_env \<Rightarrow> int \<Rightarrow> string \<Rightarrow> pending_request \<Rightarrow> bool" where
  "request_open env now state p \<longleftrightarrow>
     pr_approvedAt p = None \<and> \<not> pr_requestExpiresAt p \<le> now \<and> tokensMatch (hashToken env state) (pr_stateHash p)"

record describe_result =
  de_site_url :: string
  de_plugin_version :: "string option"
  de_expires_at :: string

definition describe :: "connect_env \<Rightarrow> int \<Rightarrow> authorize_dto \<Rightarrow> connect_db \<Rightarrow> connect_error + describe_result" where
  "describe env now dto db =
     (case find_row (\<lambda>c. cc_id c = au_request dto) (cn_codes db) of
        None \<Rightarrow> Inl RequestGone
      | Some c \<Rightarrow>
         if cc_approvedAt c \<noteq> None \<or> cc_requestExpiresAt c \<le> now \<or> \<not> tokensMatch (hashToken env (au_state dto)) (cc_stateHash c)
         then Inl RequestGone
         else Inr \<lparr>de_site_url = cc_siteUrl c, de_plugin_version = cc_pluginVersion c,
           de_expires_at = iso_of_ms (cc_requestExpiresAt c)\<rparr>)"

definition createOrReuseStore :: "connect_env \<Rightarrow> int \<Rightarrow> string \<Rightarrow> string \<Rightarrow> string \<Rightarrow> string option \<Rightarrow> connect_db
    \<Rightarrow> connect_error + (string \<times> bool \<times> connect_db)" where
  "createOrReuseStore env now new_id tenantId siteUrl push db =
     (case find_row (\<lambda>s. store_tenantId s = tenantId \<and> storeUrl s = siteUrl) (cn_stores db) of
        Some existing \<Rightarrow>
         (let (reconnecting, stores) = transition now (store_id existing) CONNECTING (cn_stores db) in
          if \<not> reconnecting then Inl InvalidRequest
          else Inr (store_id existing, True,
            db\<lparr>cn_stores := update_rows (\<lambda>s. store_id s = store_id existing) (\<lambda>s. s\<lparr>pushUrl := push\<rparr>) stores\<rparr>))
      | None \<Rightarrow>
         (case assertWithinPlan (json_parser env) now (platform_view db) tenantId Stores of
            Inl e \<Rightarrow> Inl (OverPlan e)
          | Inr _ \<Rightarrow> Inr (new_id, False, db\<lparr>cn_stores := cn_stores db @
              [\<lparr>store_id = new_id, store_tenantId = tenantId, configVersion = 0, pushUrl = push,
                store_name = hostOf env siteUrl, storeUrl = siteUrl, store_status = CONNECTING, connectedAt = None,
                lastSeenAt = None, storageBytes = None, pluginVersion = None, wpVersion = None, wcVersion = None,
                phpVersion = None\<rparr>]\<rparr>)))"

text \<open>The transaction of \<open>authorize\<close>. \<open>Inl\<close> rolls it back.\<close>

definition authorize_commit :: "connect_env \<Rightarrow> int \<Rightarrow> string \<Rightarrow> string \<Rightarrow> string \<Rightarrow> pending_request \<Rightarrow> connect_db
    \<Rightarrow> connect_error + (string \<times> bool \<times> connect_db)" where
  "authorize_commit env now new_id code tenantId request db =
     (let claims = (\<lambda>c. cc_id c = pr_id request \<and> cc_approvedAt c = None);
          db1 = db\<lparr>cn_codes := update_rows claims (\<lambda>c. c\<lparr>cc_approvedAt := Some now, cc_codeHash := Some (hashToken env code),
            cc_codeExpiresAt := Some (now + CODE_TTL_MS), cc_tenantId := Some tenantId\<rparr>) (cn_codes db)\<rparr> in
      if length (filter claims (cn_codes db)) \<noteq> 1 then Inl InvalidRequest
      else bind_result (createOrReuseStore env now new_id tenantId (pr_siteUrl request) None db1)
        (\<lambda>(storeId, reconnected, db2). Inr (storeId, reconnected,
          db2\<lparr>cn_codes := update_rows (\<lambda>c. cc_id c = pr_id request) (\<lambda>c. c\<lparr>cc_storeId := Some storeId\<rparr>) (cn_codes db2)\<rparr>)))"

section \<open>Redeeming a code\<close>

record exchange_dto =
  ex_code :: string
  ex_verifier :: string
  ex_site_url :: string

record exchange_result =
  er_token :: string
  er_store_id :: string
  er_tenant_name :: string
  er_config_version :: nat

definition STORE_TOKEN_MARKER :: string where "STORE_TOKEN_MARKER = ''osk_live_''"

definition generateStoreToken :: "connect_env \<Rightarrow> string \<Rightarrow> string \<times> string \<times> string" where
  "generateStoreToken env random = (STORE_TOKEN_MARKER @ random, hashToken env (STORE_TOKEN_MARKER @ random), take 8 random)"

definition add_credential :: "connect_env \<Rightarrow> string \<Rightarrow> string \<Rightarrow> string \<Rightarrow> connect_db \<Rightarrow> connect_db" where
  "add_credential env new_id random storeId db =
     (let (plaintext, h, prefix) = generateStoreToken env random in
      db\<lparr>cn_credentials := cn_credentials db @ [\<lparr>cr_id = new_id, cr_storeId = storeId, cr_tokenHash = h, cr_tokenPrefix = prefix,
        cr_lastUsedAt = None, cr_revokedAt = None, cr_expiresAt = None\<rparr>]\<rparr>)"

text \<open>The code joined to its tenant.\<close>

definition select_code :: "connect_env \<Rightarrow> string \<Rightarrow> connect_db \<Rightarrow> (connection_code \<times> string) option" where
  "select_code env code db =
     (case find_row (\<lambda>(c, t, name). cc_codeHash c = Some (hashToken env code) \<and> cc_tenantId c = Some t)
             (List.product (cn_codes db) (cn_tenants db)) of
        None \<Rightarrow> None
      | Some (c, t, name) \<Rightarrow> Some (c, name))"

definition code_open :: "connect_env \<Rightarrow> int \<Rightarrow> exchange_dto \<Rightarrow> connection_code \<Rightarrow> connect_error + bool" where
  "code_open env now dto c =
     (if cc_redeemedAt c \<noteq> None \<or> (case cc_codeExpiresAt c of None \<Rightarrow> True | Some e \<Rightarrow> e \<le> now)
        \<or> \<not> tokensMatch (pkceChallenge env (ex_verifier dto)) (cc_challenge c) then Inr False
      else case normaliseUrl env (ex_site_url dto) of
          None \<Rightarrow> Inl (Failure ''Invalid URL'')
        | Some u \<Rightarrow> Inr (u = cc_siteUrl c))"

definition exchange_commit :: "connect_env \<Rightarrow> int \<Rightarrow> string \<Rightarrow> string \<Rightarrow> connection_code \<Rightarrow> connect_db \<Rightarrow> connect_error + connect_db" where
  "exchange_commit env now new_id random row db =
     (let spends = (\<lambda>c. cc_id c = cc_id row \<and> cc_redeemedAt c = None) in
      if length (filter spends (cn_codes db)) \<noteq> 1 then Inl InvalidRequest
      else case cc_storeId row of
          None \<Rightarrow> Inl (Failure ''storeId cannot be null'')
        | Some storeId \<Rightarrow>
           (let db1 = add_credential env new_id random storeId
                  (db\<lparr>cn_codes := update_rows spends (\<lambda>c. c\<lparr>cc_redeemedAt := Some now\<rparr>) (cn_codes db)\<rparr>);
                (connected, stores) = transition now storeId CONNECTED (cn_stores db1)
            in if connected then Inr (db1\<lparr>cn_stores := stores\<rparr>) else Inl InvalidRequest))"

end
