(* ===== verification/Store_Access.thy ===== *)
theory Store_Access
  imports Connect
begin

text \<open>
  A connected store: its disconnection, the rotation of its credential and its daily report
  (\<open>src/stores/stores.service.ts\<close>), the storage it counts towards its plan (\<open>src/usage/usage.service.ts\<close>), the
  guards that admit its requests (\<open>src/auth/guards/store-token.guard.ts\<close>, \<open>site-match.guard.ts\<close>), and all
  requests of the connection running side by side.
\<close>

section \<open>Storage\<close>

definition BYTES_PER_MB :: nat where "BYTES_PER_MB = 1024 * 1024"

definition storage_megabytes :: "nat \<Rightarrow> nat" where
  "storage_megabytes bytes = (if 0 < bytes then max 1 ((bytes + (BYTES_PER_MB - 1)) div BYTES_PER_MB) else 0)"

definition live_bytes :: "string \<Rightarrow> linked_store list \<Rightarrow> nat" where
  "live_bytes tenantId stores = sum_list (map (\<lambda>s. case storageBytes s of None \<Rightarrow> 0 | Some b \<Rightarrow> b)
     (filter (\<lambda>s. store_tenantId s = tenantId \<and> store_status s \<noteq> DISCONNECTED \<and> store_status s \<noteq> REVOKED) stores))"

text \<open>The first moment of the month.\<close>

definition month_start :: "int \<Rightarrow> int" where
  "month_start now = (let days = now div 86400000; (y, mo, d) = civil_from_days days in (days - (d - 1)) * 86400000)"

text \<open>\<open>INSERT \<dots> ON DUPLICATE KEY UPDATE\<close> on tenant, metric and period.\<close>

definition record_usage :: "int \<Rightarrow> string \<Rightarrow> string \<Rightarrow> nat \<Rightarrow> usage_row list \<Rightarrow> usage_row list" where
  "record_usage now tenantId metric v rows = save_row (\<lambda>u. (us_tenantId u, us_metric u, us_periodStart u))
     \<lparr>us_tenantId = tenantId, us_metric = metric, us_value = v, us_periodStart = month_start now\<rparr> rows"

definition recordStorage :: "int \<Rightarrow> string \<Rightarrow> connect_db \<Rightarrow> connect_db" where
  "recordStorage now tenantId db = db\<lparr>cn_platform := (cn_platform db)\<lparr>pf_usage :=
     record_usage now tenantId ''file_storage_mb'' (storage_megabytes (live_bytes tenantId (cn_stores db))) (pf_usage (cn_platform db))\<rparr>\<rparr>"

section \<open>Disconnecting\<close>

definition find_store :: "string \<Rightarrow> string \<Rightarrow> connect_db \<Rightarrow> linked_store option" where
  "find_store tenantId i db = find_row (\<lambda>s. store_id s = i \<and> store_tenantId s = tenantId) (cn_stores db)"

definition revoke_credentials :: "int \<Rightarrow> string \<Rightarrow> connect_db \<Rightarrow> nat \<times> connect_db" where
  "revoke_credentials now storeId db =
     (let live = (\<lambda>r. cr_storeId r = storeId \<and> cr_revokedAt r = None) in
      (length (filter live (cn_credentials db)),
       db\<lparr>cn_credentials := update_rows live (\<lambda>r. r\<lparr>cr_revokedAt := Some now\<rparr>) (cn_credentials db)\<rparr>))"

text \<open>The transaction of \<open>disconnect\<close>: the number of revoked credentials.\<close>

definition disconnect_commit :: "int \<Rightarrow> linked_store \<Rightarrow> connect_db \<Rightarrow> connect_error + (nat \<times> connect_db)" where
  "disconnect_commit now store db =
     (let (revoked, db1) = revoke_credentials now (store_id store) db;
          (moved, stores) = transition now (store_id store) DISCONNECTED (cn_stores db1) in
      if \<not> moved then Inl StoreNotFound
      else Inr (revoked, recordStorage now (store_tenantId store)
        (db1\<lparr>cn_stores := stores,
           cn_codes := update_rows (\<lambda>c. cc_storeId c = Some (store_id store) \<and> cc_redeemedAt c = None)
             (\<lambda>c. c\<lparr>cc_redeemedAt := Some now\<rparr>) (cn_codes db1)\<rparr>)))"

definition disconnected_event :: "string option \<Rightarrow> linked_store \<Rightarrow> nat \<Rightarrow> connect_db \<Rightarrow> connect_db" where
  "disconnected_event tenantId store revoked db =
     (if 0 < revoked \<or> store_status store \<noteq> DISCONNECTED
      then record_event \<lparr>ev_action = ''store.disconnected'', ev_resourceId = store_id store, ev_tenantId = tenantId,
        ev_changes = JObj [(''status'', JStr (status_name DISCONNECTED)), (''credentialsRevoked'', JNum (Fin (of_nat revoked)))]\<rparr> db
      else db)"

section \<open>Rotating the credential\<close>

definition may_rotate :: "linked_store \<Rightarrow> bool" where
  "may_rotate store \<longleftrightarrow> store_status store = CONNECTED \<or> store_status store = ERROR"

definition rotate_commit :: "connect_env \<Rightarrow> int \<Rightarrow> string \<Rightarrow> string \<Rightarrow> string \<Rightarrow> connect_db \<Rightarrow> connect_db" where
  "rotate_commit env now new_id random storeId db = add_credential env new_id random storeId (snd (revoke_credentials now storeId db))"

definition rotated_event :: "string option \<Rightarrow> linked_store \<Rightarrow> string \<Rightarrow> string option \<Rightarrow> connect_db \<Rightarrow> connect_db" where
  "rotated_event tenantId store prefix reason = record_event
     \<lparr>ev_action = ''store.credential_rotated'', ev_resourceId = store_id store, ev_tenantId = tenantId,
       ev_changes = JObj [(''prefix'', JStr prefix), (''reason'', case reason of None \<Rightarrow> JNull | Some r \<Rightarrow> JStr r)]\<rparr>"

section \<open>The guards of a store's requests\<close>

definition LAST_USED_THROTTLE_MS :: int where "LAST_USED_THROTTLE_MS = 5 * 60000"

definition bearerToken :: "string option \<Rightarrow> string" where
  "bearerToken authorization =
     (case split_on (CHR '' '') (case authorization of None \<Rightarrow> [] | Some h \<Rightarrow> h) of
        scheme # val # _ \<Rightarrow> if js_lower scheme = ''bearer'' \<and> val \<noteq> [] then val else []
      | _ \<Rightarrow> [])"

definition touchLastUsed :: "int \<Rightarrow> store_credential \<Rightarrow> connect_db \<Rightarrow> connect_db" where
  "touchLastUsed now r db =
     (if (case cr_lastUsedAt r of None \<Rightarrow> False | Some t \<Rightarrow> now - t < LAST_USED_THROTTLE_MS) then db
      else db\<lparr>cn_credentials := update_rows (\<lambda>x. cr_id x = cr_id r) (\<lambda>x. x\<lparr>cr_lastUsedAt := Some now\<rparr>) (cn_credentials db)\<rparr>)"

text \<open>The credential joined to its store.\<close>

definition select_credential :: "connect_env \<Rightarrow> string \<Rightarrow> connect_db \<Rightarrow> (store_credential \<times> linked_store) option" where
  "select_credential env presented db =
     find_row (\<lambda>(r, s). cr_tokenHash r = hashToken env presented \<and> store_id s = cr_storeId r)
       (List.product (cn_credentials db) (cn_stores db))"

definition store_token_guard :: "connect_env \<Rightarrow> int \<Rightarrow> string option \<Rightarrow> connect_db \<Rightarrow> connect_error + (linked_store \<times> connect_db)" where
  "store_token_guard env now authorization db =
     (let presented = bearerToken authorization in
      if presented = [] then Inl Unauthenticated
      else case select_credential env presented db of
          None \<Rightarrow> Inl Unauthenticated
        | Some (r, s) \<Rightarrow>
           if cr_revokedAt r \<noteq> None then Inl Unauthenticated
           else if (case cr_expiresAt r of None \<Rightarrow> False | Some e \<Rightarrow> e \<le> now) then Inl Unauthenticated
           else Inr (s, touchLastUsed now r db))"

definition site_match_guard :: "connect_env \<Rightarrow> string option \<Rightarrow> linked_store \<Rightarrow> connect_db \<Rightarrow> connect_error + unit" where
  "site_match_guard env header store db =
     (if store_id store = [] \<or> storeUrl store = [] then Inl Unauthenticated
      else case header of
          None \<Rightarrow> Inr ()
        | Some presented \<Rightarrow>
           if js_trim presented = [] then Inr ()
           else if safeNormalise env presented = safeNormalise env (storeUrl store) then Inr ()
           else Inl WrongSite)"

text \<open>What a refusal for the wrong site leaves in the log.\<close>

definition site_mismatch :: "string \<Rightarrow> linked_store \<Rightarrow> connect_db \<Rightarrow> connect_db" where
  "site_mismatch presented store = recordChange
     \<lparr>ev_action = ''store.site_mismatch'', ev_resourceId = store_id store, ev_tenantId = Some (store_tenantId store),
       ev_changes = JObj [(''expected'', JStr (storeUrl store)), (''presented'', JStr (take 255 (js_trim presented)))]\<rparr> [''presented'']"

definition admit :: "connect_env \<Rightarrow> int \<Rightarrow> string option \<Rightarrow> string option \<Rightarrow> connect_db \<Rightarrow> (connect_error + linked_store) \<times> connect_db" where
  "admit env now authorization header db =
     (case store_token_guard env now authorization db of
        Inl e \<Rightarrow> (Inl e, db)
      | Inr (s, db1) \<Rightarrow>
         (case site_match_guard env header s db1 of
            Inr _ \<Rightarrow> (Inr s, db1)
          | Inl e \<Rightarrow> (Inl e, if e = WrongSite then site_mismatch (the header) s db1 else db1)))"

section \<open>The daily report\<close>

record heartbeat_dto =
  hb_plugin_version :: "string option"
  hb_wp_version :: "string option"
  hb_wc_version :: "string option"
  hb_php_version :: "string option"
  hb_connection_state :: "store_status option"
  hb_supported_schema_version :: "nat option"
  hb_schema_refused :: bool
  hb_storage_bytes :: "nat option"

record heartbeat_result =
  hr_config_version :: nat
  hr_status :: store_status
  hr_reauthorize :: bool
  hr_uploads_allowed :: bool
  hr_storage_limit_mb :: jsval
  hr_storage_used_mb :: nat

definition isExpectedDisagreement :: "store_status \<Rightarrow> store_status \<Rightarrow> bool" where
  "isExpectedDisagreement pluginState cloudState \<longleftrightarrow> pluginState = REVOKED \<and> (cloudState = CONNECTED \<or> cloudState = ERROR)"

definition coalesce :: "'a option \<Rightarrow> 'a option \<Rightarrow> 'a option" where
  "coalesce a b = (case a of None \<Rightarrow> b | Some _ \<Rightarrow> a)"

definition storageAllowance :: "connect_env \<Rightarrow> int \<Rightarrow> string \<Rightarrow> connect_db \<Rightarrow> bool \<times> jsval \<times> nat" where
  "storageAllowance env now tenantId db =
     (case find_row (\<lambda>u. pu_metric u = FileStorageMb) (report (json_parser env) now (platform_view db) tenantId) of
        None \<Rightarrow> (True, JNull, 0)
      | Some u \<Rightarrow> (if pu_limit u = JNull then True else \<not> atLimit u, pu_limit u, pu_current u))"

definition record_telemetry :: "int \<Rightarrow> string \<Rightarrow> heartbeat_dto \<Rightarrow> connect_db \<Rightarrow> connect_db" where
  "record_telemetry now storeId dto db = db\<lparr>cn_stores := update_rows (\<lambda>s. store_id s = storeId)
     (\<lambda>s. s\<lparr>lastSeenAt := Some now, pluginVersion := coalesce (hb_plugin_version dto) (pluginVersion s),
        wpVersion := coalesce (hb_wp_version dto) (wpVersion s), wcVersion := coalesce (hb_wc_version dto) (wcVersion s),
        phpVersion := coalesce (hb_php_version dto) (phpVersion s)\<rparr>) (cn_stores db)\<rparr>"

definition report_storage :: "int \<Rightarrow> linked_store \<Rightarrow> nat option \<Rightarrow> connect_db \<Rightarrow> connect_db" where
  "report_storage now store bytes db = (case bytes of
       None \<Rightarrow> db
     | Some b \<Rightarrow> recordStorage now (store_tenantId store)
         (db\<lparr>cn_stores := update_rows (\<lambda>s. store_id s = store_id store) (\<lambda>s. s\<lparr>storageBytes := Some b\<rparr>) (cn_stores db)\<rparr>))"

definition report_state :: "linked_store \<Rightarrow> store_status option \<Rightarrow> connect_db \<Rightarrow> connect_db" where
  "report_state store claim db = (case claim of
       None \<Rightarrow> db
     | Some st \<Rightarrow>
        if st \<noteq> store_status store \<and> \<not> isExpectedDisagreement st (store_status store)
        then recordChange \<lparr>ev_action = ''store.state_mismatch'', ev_resourceId = store_id store, ev_tenantId = Some (store_tenantId store),
          ev_changes = JObj [(''pluginState'', JStr (status_name st)), (''cloudState'', JStr (status_name (store_status store))),
            (''siteUrl'', JStr (storeUrl store))]\<rparr> [''pluginState'', ''cloudState''] db
        else db)"

definition report_schema :: "linked_store \<Rightarrow> heartbeat_dto \<Rightarrow> connect_db \<Rightarrow> connect_db" where
  "report_schema store dto db =
     (if hb_schema_refused dto
      then recordChange \<lparr>ev_action = ''store.schema_unsupported'', ev_resourceId = store_id store, ev_tenantId = Some (store_tenantId store),
        ev_changes = JObj [(''supportedSchemaVersion'', case hb_supported_schema_version dto of None \<Rightarrow> JNull | Some v \<Rightarrow> JNum (Fin (of_nat v))),
          (''pluginVersion'', case hb_plugin_version dto of None \<Rightarrow> JNull | Some v \<Rightarrow> JStr v),
          (''siteUrl'', JStr (storeUrl store))]\<rparr> [''supportedSchemaVersion'', ''pluginVersion''] db
      else db)"

definition heartbeat :: "connect_env \<Rightarrow> int \<Rightarrow> string \<Rightarrow> heartbeat_dto \<Rightarrow> connect_db \<Rightarrow> connect_error + (heartbeat_result \<times> connect_db)" where
  "heartbeat env now storeId dto db =
     (case find_row (\<lambda>s. store_id s = storeId) (cn_stores db) of
        None \<Rightarrow> Inl Unauthenticated
      | Some store \<Rightarrow>
         (let db1 = report_storage now store (hb_storage_bytes dto) (record_telemetry now storeId dto db);
              db2 = report_schema store dto (report_state store (hb_connection_state dto) db1);
              (allowed, limitMb, usedMb) = storageAllowance env now (store_tenantId store) db2
          in Inr (\<lparr>hr_config_version = configVersion store, hr_status = store_status store, hr_reauthorize = False,
            hr_uploads_allowed = allowed, hr_storage_limit_mb = limitMb, hr_storage_used_mb = usedMb\<rparr>, db2)))"

section \<open>Requests in progress\<close>

text \<open>What a request executes next, with what it has read so far.\<close>

datatype connect_run =
    AuthorizeFind authorize_dto string
  | AuthorizeCommit authorize_dto string pending_request
  | AuthorizeDone authorize_dto string "connect_error + redirect"
  | ExchangeFind exchange_dto
  | ExchangeCommit exchange_dto connection_code string
  | ExchangeVersion exchange_dto connection_code string string
  | ExchangeDone exchange_dto "connect_error + exchange_result"
  | DisconnectFind string string
  | DisconnectCommit linked_store
  | DisconnectDone string "connect_error + nat"
  | RotateFind string string "string option"
  | RotateCommit linked_store "string option"
  | RotateDone string "connect_error + string"

text \<open>The last step of each handler also writes its audit entry.\<close>

fun run_step :: "connect_env \<Rightarrow> int \<Rightarrow> string \<Rightarrow> string \<Rightarrow> connect_run \<Rightarrow> connect_db \<Rightarrow> connect_run \<times> connect_db" where
  "run_step env now new_id random (AuthorizeFind dto tenantId) db =
     (case select_request (au_request dto) db of
        None \<Rightarrow> (AuthorizeDone dto tenantId (Inl InvalidRequest), db)
      | Some request \<Rightarrow>
         if \<not> request_open env now (au_state dto) request then (AuthorizeDone dto tenantId (Inl InvalidRequest), db)
         else (AuthorizeCommit dto tenantId request, db))"
| "run_step env now new_id random (AuthorizeCommit dto tenantId request) db =
     (case authorize_commit env now new_id random tenantId request db of
        Inl e \<Rightarrow> (AuthorizeDone dto tenantId (Inl e), db)
      | Inr (storeId, reconnected, db1) \<Rightarrow>
         (AuthorizeDone dto tenantId (Inr \<lparr>rd_url = pr_callback request, rd_params = [(''code'', random), (''state'', au_state dto)]\<rparr>),
          record_event \<lparr>ev_action = (if reconnected then ''store.reconnect_authorized'' else ''store.connect_authorized''),
            ev_resourceId = storeId, ev_tenantId = Some tenantId,
            ev_changes = JObj [(''siteUrl'', JStr (pr_siteUrl request)), (''status'', JStr (status_name CONNECTING))]\<rparr> db1))"
| "run_step env now new_id random (ExchangeFind dto) db =
     (case select_code env (ex_code dto) db of
        None \<Rightarrow> (ExchangeDone dto (Inl InvalidRequest), db)
      | Some (row, tenantName) \<Rightarrow>
         (case code_open env now dto row of
            Inl e \<Rightarrow> (ExchangeDone dto (Inl e), db)
          | Inr False \<Rightarrow> (ExchangeDone dto (Inl InvalidRequest), db)
          | Inr True \<Rightarrow> (ExchangeCommit dto row tenantName, db)))"
| "run_step env now new_id random (ExchangeCommit dto row tenantName) db =
     (case exchange_commit env now new_id random row db of
        Inl e \<Rightarrow> (ExchangeDone dto (Inl e), db)
      | Inr db1 \<Rightarrow> (ExchangeVersion dto row tenantName (fst (generateStoreToken env random)),
          record_event \<lparr>ev_action = ''store.connected'', ev_resourceId = the (cc_storeId row), ev_tenantId = cc_tenantId row,
            ev_changes = JObj [(''status'', JStr (status_name CONNECTED)), (''siteUrl'', JStr (cc_siteUrl row))]\<rparr> db1))"
| "run_step env now new_id random (ExchangeVersion dto row tenantName token) db =
     (ExchangeDone dto (Inr \<lparr>er_token = token, er_store_id = the (cc_storeId row), er_tenant_name = tenantName,
        er_config_version = (case find_row (\<lambda>s. store_id s = the (cc_storeId row)) (cn_stores db) of
            None \<Rightarrow> 0 | Some s \<Rightarrow> configVersion s)\<rparr>), db)"
| "run_step env now new_id random (DisconnectFind tenantId storeId) db =
     (case find_store tenantId storeId db of
        None \<Rightarrow> (DisconnectDone storeId (Inl StoreNotFound), db)
      | Some store \<Rightarrow> (DisconnectCommit store, db))"
| "run_step env now new_id random (DisconnectCommit store) db =
     (case disconnect_commit now store db of
        Inl e \<Rightarrow> (DisconnectDone (store_id store) (Inl e), db)
      | Inr (revoked, db1) \<Rightarrow>
         (DisconnectDone (store_id store) (Inr revoked), disconnected_event (Some (store_tenantId store)) store revoked db1))"
| "run_step env now new_id random (RotateFind tenantId storeId reason) db =
     (case find_store tenantId storeId db of
        None \<Rightarrow> (RotateDone storeId (Inl StoreNotFound), db)
      | Some store \<Rightarrow>
         if may_rotate store then (RotateCommit store reason, db) else (RotateDone storeId (Inl NoLiveCredential), db))"
| "run_step env now new_id random (RotateCommit store reason) db =
     (let (plaintext, h, prefix) = generateStoreToken env random in
      (RotateDone (store_id store) (Inr plaintext),
       rotated_event (Some (store_tenantId store)) store prefix reason (rotate_commit env now new_id random (store_id store) db)))"
| "run_step env now new_id random run db = (run, db)"

section \<open>Requests side by side\<close>

record connect_state =
  ct_db :: connect_db
  ct_runs :: "connect_run list"

text \<open>
  A random token is one whose hash, and a generated id one that, no row holds yet.
\<close>

datatype connect_action =
    Initiate int string initiate_dto
  | StartAuthorize authorize_dto string
  | StartExchange exchange_dto
  | StartDisconnect string string
  | StartRotate string string "string option"
  | Heartbeat int "string option" "string option" heartbeat_dto
  | PluginDisconnect int "string option" "string option"
  | Next nat int string string

definition unused :: "connect_env \<Rightarrow> string \<Rightarrow> string \<Rightarrow> connect_db \<Rightarrow> bool" where
  "unused env new_id random db \<longleftrightarrow>
     new_id \<notin> store_id ` set (cn_stores db) \<and> new_id \<notin> cr_id ` set (cn_credentials db)
     \<and> Some (hashToken env random) \<notin> cc_codeHash ` set (cn_codes db)
     \<and> hashToken env (fst (generateStoreToken env random)) \<notin> cr_tokenHash ` set (cn_credentials db)"

fun connect_perform :: "connect_env \<Rightarrow> connect_action \<Rightarrow> connect_state \<Rightarrow> connect_state option" where
  "connect_perform env (Initiate now new_id dto) s =
     (if new_id \<in> cc_id ` set (cn_codes (ct_db s)) then None
      else case initiate env now new_id dto (ct_db s) of
          Inl e \<Rightarrow> Some s
        | Inr (to_dashboard, db) \<Rightarrow> Some (s\<lparr>ct_db := db\<rparr>))"
| "connect_perform env (StartAuthorize dto tenantId) s = Some (s\<lparr>ct_runs := ct_runs s @ [AuthorizeFind dto tenantId]\<rparr>)"
| "connect_perform env (StartExchange dto) s = Some (s\<lparr>ct_runs := ct_runs s @ [ExchangeFind dto]\<rparr>)"
| "connect_perform env (StartDisconnect tenantId storeId) s = Some (s\<lparr>ct_runs := ct_runs s @ [DisconnectFind tenantId storeId]\<rparr>)"
| "connect_perform env (StartRotate tenantId storeId reason) s = Some (s\<lparr>ct_runs := ct_runs s @ [RotateFind tenantId storeId reason]\<rparr>)"
| "connect_perform env (Heartbeat now authorization header dto) s =
     (case admit env now authorization header (ct_db s) of
        (Inl e, db) \<Rightarrow> Some (s\<lparr>ct_db := db\<rparr>)
      | (Inr store, db) \<Rightarrow> (case heartbeat env now (store_id store) dto db of
            Inl e \<Rightarrow> Some (s\<lparr>ct_db := db\<rparr>)
          | Inr (res, db1) \<Rightarrow> Some (s\<lparr>ct_db := db1\<rparr>)))"
| "connect_perform env (PluginDisconnect now authorization header) s =
     (case admit env now authorization header (ct_db s) of
        (Inl e, db) \<Rightarrow> Some (s\<lparr>ct_db := db\<rparr>)
      | (Inr store, db) \<Rightarrow> Some \<lparr>ct_db = db, ct_runs = ct_runs s @ [DisconnectFind (store_tenantId store) (store_id store)]\<rparr>)"
| "connect_perform env (Next n now new_id random) s =
     (if n < length (ct_runs s) \<and> unused env new_id random (ct_db s)
      then let (run, db) = run_step env now new_id random (ct_runs s ! n) (ct_db s)
           in Some \<lparr>ct_db = db, ct_runs = (ct_runs s)[n := run]\<rparr>
      else None)"

definition connect_start :: "(string \<times> string) list \<Rightarrow> platform \<Rightarrow> connect_state" where
  "connect_start tenants pf = \<lparr>ct_db = \<lparr>cn_codes = [], cn_stores = [], cn_credentials = [], cn_tenants = tenants, cn_events = [],
     cn_platform = pf\<rparr>, ct_runs = []\<rparr>"

inductive connect_reachable :: "connect_env \<Rightarrow> (string \<times> string) list \<Rightarrow> platform \<Rightarrow> connect_state \<Rightarrow> bool" for env tenants pf where
  Start: "connect_reachable env tenants pf (connect_start tenants pf)"
| Step: "connect_reachable env tenants pf s \<Longrightarrow> connect_perform env a s = Some s' \<Longrightarrow> connect_reachable env tenants pf s'"

primrec run_connect :: "connect_env \<Rightarrow> connect_action list \<Rightarrow> connect_state \<Rightarrow> connect_state option" where
  "run_connect env [] s = Some s"
| "run_connect env (a # as) s = (case connect_perform env a s of None \<Rightarrow> None | Some s' \<Rightarrow> run_connect env as s')"

end
