(* ===== verification/Store_Access_Invariant.thy ===== *)
theory Store_Access_Invariant
  imports Store_Access Claims
begin

text \<open>
  The invariant of the requests that connect, disconnect and re-key shops: the tables stay well formed, what
  a request in progress has read stays true, an approved code was approved by a merchant of its tenant, and
  a code is won by one request.
\<close>

section \<open>Updates\<close>

lemma map_update_rows: "(\<And>x. f (g x) = f x) \<Longrightarrow> map f (update_rows P g rows) = map f rows"
  by (simp add: update_rows_def)

lemma in_update_rows: "x \<in> set (update_rows P g rows) \<longleftrightarrow> (\<exists>y\<in>set rows. x = (if P y then g y else y))"
  by (auto simp: update_rows_def)

lemma ball_update_rows: "(\<forall>x\<in>set (update_rows P g rows). Q x) \<longleftrightarrow> (\<forall>y\<in>set rows. Q (if P y then g y else y))"
  by (auto simp: update_rows_def)

text \<open>A statement that names a primary key hits one row at most.\<close>

lemma length_filter_key:
  assumes "distinct (map key rows)" and "\<And>x. P x \<Longrightarrow> key x = k"
  shows "length (filter P rows) = 1 \<longleftrightarrow> (\<exists>x\<in>set rows. P x)"
proof
  assume "\<exists>x\<in>set rows. P x"
  then obtain x where x: "x \<in> set rows" "P x" by blast
  have "filter P rows = [x]"
    using assms x
  proof (induction rows)
    case (Cons y rows)
    show ?case
    proof (cases "y = x")
      case True
      have "\<not> P z" if "z \<in> set rows" for z
        using that Cons.prems(1) Cons.prems(2) [of z] Cons.prems(2) [of x] x(2) by (auto simp: True rev_image_eqI)
      then have "filter P rows = []" by (simp add: filter_empty_conv)
      then show ?thesis by (simp add: True x(2))
    next
      case False
      then have "x \<in> set rows" using Cons.prems(3) by simp
      moreover from this have "\<not> P y" using Cons.prems(1,2) x(2) by (metis distinct.simps(2) image_eqI list.set_map list.simps(9))
      ultimately show ?thesis using Cons by simp
    qed
  qed simp
  then show "length (filter P rows) = 1" by simp
next
  assume "length (filter P rows) = 1"
  then have "filter P rows \<noteq> []" by auto
  then show "\<exists>x\<in>set rows. P x" by (simp add: filter_empty_conv)
qed

section \<open>Well-formed tables\<close>

definition store_key :: "linked_store \<Rightarrow> string \<times> string \<times> string" where
  "store_key s = (store_id s, store_tenantId s, storeUrl s)"

definition code_key :: "connection_code \<Rightarrow> string \<times> string \<times> string \<times> string \<times> string" where
  "code_key c = (cc_id c, cc_siteUrl c, cc_callback c, cc_stateHash c, cc_challenge c)"

definition same_code :: "connection_code \<Rightarrow> connection_code \<Rightarrow> bool" where
  "same_code c d \<longleftrightarrow> c\<lparr>cc_redeemedAt := None\<rparr> = d\<lparr>cc_redeemedAt := None\<rparr>"

text \<open>An approved code names the store of its tenant for its site; a pending one names nothing.\<close>

definition code_ok :: "(string \<times> string \<times> string) set \<Rightarrow> connection_code \<Rightarrow> bool" where
  "code_ok stores c \<longleftrightarrow> (case cc_codeHash c of
       None \<Rightarrow> cc_approvedAt c = None \<and> cc_tenantId c = None \<and> cc_storeId c = None \<and> cc_redeemedAt c = None
     | Some h \<Rightarrow> cc_approvedAt c \<noteq> None \<and> (\<exists>t w. cc_tenantId c = Some t \<and> cc_storeId c = Some w \<and> (w, t, cc_siteUrl c) \<in> stores))"

definition store_keys :: "connect_db \<Rightarrow> (string \<times> string \<times> string) set" where
  "store_keys db = store_key ` set (cn_stores db)"

definition hashes_differ :: "connection_code list \<Rightarrow> bool" where
  "hashes_differ codes \<longleftrightarrow> (\<forall>c\<in>set codes. \<forall>d\<in>set codes. cc_codeHash c \<noteq> None \<longrightarrow> cc_codeHash c = cc_codeHash d \<longrightarrow> cc_id c = cc_id d)"

definition db_ok :: "connect_db \<Rightarrow> bool" where
  "db_ok db \<longleftrightarrow> distinct (map cc_id (cn_codes db)) \<and> distinct (map store_id (cn_stores db))
     \<and> distinct (map (\<lambda>s. (store_tenantId s, storeUrl s)) (cn_stores db))
     \<and> (\<forall>c\<in>set (cn_codes db). code_ok (store_keys db) c) \<and> hashes_differ (cn_codes db)
     \<and> cr_storeId ` set (cn_credentials db) \<subseteq> store_id ` set (cn_stores db)
     \<and> distinct (map cr_tokenHash (cn_credentials db)) \<and> pushUrl ` set (cn_stores db) \<subseteq> {None}"

text \<open>What no request undoes.\<close>

definition evolves :: "connect_db \<Rightarrow> connect_db \<Rightarrow> bool" where
  "evolves db db' \<longleftrightarrow> store_keys db \<subseteq> store_keys db'
     \<and> (\<forall>c\<in>set (cn_codes db). \<exists>c'\<in>set (cn_codes db'). code_key c' = code_key c
          \<and> (cc_codeHash c \<noteq> None \<longrightarrow> same_code c c' \<and> (cc_redeemedAt c \<noteq> None \<longrightarrow> cc_redeemedAt c' \<noteq> None)))"

lemma same_code_parts:
  assumes "same_code c d"
  shows "cc_id c = cc_id d" "cc_siteUrl c = cc_siteUrl d" "cc_callback c = cc_callback d" "cc_stateHash c = cc_stateHash d"
    "cc_challenge c = cc_challenge d" "cc_codeHash c = cc_codeHash d" "cc_tenantId c = cc_tenantId d" "cc_storeId c = cc_storeId d"
    "cc_approvedAt c = cc_approvedAt d" "cc_codeExpiresAt c = cc_codeExpiresAt d" "code_key c = code_key d"
  using assms by (cases c; cases d; simp add: same_code_def code_key_def)+

lemma evolves_refl: "evolves db db"
  by (auto simp: evolves_def same_code_def)

lemma evolves_trans:
  assumes "evolves a b" and "evolves b c"
  shows "evolves a c"
  unfolding evolves_def
proof (intro conjI ballI)
  show "store_keys a \<subseteq> store_keys c" using assms by (auto simp: evolves_def)
  fix x assume "x \<in> set (cn_codes a)"
  then obtain y where y: "y \<in> set (cn_codes b)" "code_key y = code_key x"
    "cc_codeHash x \<noteq> None \<longrightarrow> same_code x y \<and> (cc_redeemedAt x \<noteq> None \<longrightarrow> cc_redeemedAt y \<noteq> None)"
    using assms(1) unfolding evolves_def by blast
  then obtain z where z: "z \<in> set (cn_codes c)" "code_key z = code_key y"
    "cc_codeHash y \<noteq> None \<longrightarrow> same_code y z \<and> (cc_redeemedAt y \<noteq> None \<longrightarrow> cc_redeemedAt z \<noteq> None)"
    using assms(2) unfolding evolves_def by blast
  show "\<exists>z\<in>set (cn_codes c). code_key z = code_key x
      \<and> (cc_codeHash x \<noteq> None \<longrightarrow> same_code x z \<and> (cc_redeemedAt x \<noteq> None \<longrightarrow> cc_redeemedAt z \<noteq> None))"
  proof (intro bexI [OF _ z(1)] conjI impI)
    show "code_key z = code_key x" using y(2) z(2) by simp
    assume x: "cc_codeHash x \<noteq> None"
    then have s: "same_code x y" "same_code y z" using y(3) z(3) same_code_parts(6) [of x y] by simp_all
    then show "same_code x z" unfolding same_code_def by (rule trans)
    show "cc_redeemedAt z \<noteq> None" if "cc_redeemedAt x \<noteq> None"
      using that x y(3) z(3) same_code_parts(6) [OF s(1)] by simp
  qed
qed

text \<open>The columns the invariant reads.\<close>

definition db_view :: "connect_db \<Rightarrow> connection_code list \<times> ((string \<times> string \<times> string) \<times> string option) list \<times> (string \<times> string) list" where
  "db_view db = (cn_codes db, map (\<lambda>s. (store_key s, pushUrl s)) (cn_stores db), map (\<lambda>r. (cr_storeId r, cr_tokenHash r)) (cn_credentials db))"

lemma view_parts:
  assumes "db_view db' = db_view db"
  shows "cn_codes db' = cn_codes db" "store_keys db' = store_keys db" "map store_id (cn_stores db') = map store_id (cn_stores db)"
    "map (\<lambda>s. (store_tenantId s, storeUrl s)) (cn_stores db') = map (\<lambda>s. (store_tenantId s, storeUrl s)) (cn_stores db)"
    "map pushUrl (cn_stores db') = map pushUrl (cn_stores db)" "map cr_storeId (cn_credentials db') = map cr_storeId (cn_credentials db)"
    "map cr_tokenHash (cn_credentials db') = map cr_tokenHash (cn_credentials db)"
proof -
  have s: "map (\<lambda>s. (store_key s, pushUrl s)) (cn_stores db') = map (\<lambda>s. (store_key s, pushUrl s)) (cn_stores db)"
    and r: "map (\<lambda>r. (cr_storeId r, cr_tokenHash r)) (cn_credentials db') = map (\<lambda>r. (cr_storeId r, cr_tokenHash r)) (cn_credentials db)"
    using assms by (simp_all add: db_view_def)
  show "cn_codes db' = cn_codes db" using assms by (simp add: db_view_def)
  show "map store_id (cn_stores db') = map store_id (cn_stores db)"
    using arg_cong [OF s, of "map (fst \<circ> fst)"] by (simp add: comp_def store_key_def)
  show "map (\<lambda>s. (store_tenantId s, storeUrl s)) (cn_stores db') = map (\<lambda>s. (store_tenantId s, storeUrl s)) (cn_stores db)"
    using arg_cong [OF s, of "map (snd \<circ> fst)"] by (simp add: comp_def store_key_def)
  show "map pushUrl (cn_stores db') = map pushUrl (cn_stores db)" using arg_cong [OF s, of "map snd"] by (simp add: comp_def)
  have "map store_key (cn_stores db') = map store_key (cn_stores db)" using arg_cong [OF s, of "map fst"] by (simp add: comp_def)
  then show "store_keys db' = store_keys db" unfolding store_keys_def by (metis list.set_map)
  show "map cr_storeId (cn_credentials db') = map cr_storeId (cn_credentials db)"
    using arg_cong [OF r, of "map fst"] by (simp add: comp_def)
  show "map cr_tokenHash (cn_credentials db') = map cr_tokenHash (cn_credentials db)"
    using arg_cong [OF r, of "map snd"] by (simp add: comp_def)
qed

lemma view_ok:
  assumes "db_view db' = db_view db"
  shows "db_ok db' = db_ok db" and "evolves db db'" and "evolves db' db"
proof -
  note p = view_parts [OF assms]
  have sets: "store_id ` set (cn_stores db') = store_id ` set (cn_stores db)" "pushUrl ` set (cn_stores db') = pushUrl ` set (cn_stores db)"
    "cr_storeId ` set (cn_credentials db') = cr_storeId ` set (cn_credentials db)"
    using p by (metis list.set_map)+
  show "db_ok db' = db_ok db" unfolding db_ok_def p sets ..
  show "evolves db db'" "evolves db' db" using p(1,2) by (auto simp: evolves_def same_code_def)
qed

lemma view_cong [simp]:
  "db_view (db\<lparr>cn_events := e\<rparr>) = db_view db" "db_view (db\<lparr>cn_platform := pf\<rparr>) = db_view db"
  "db_view (record_event x db) = db_view db" "db_view (recordStorage now t db) = db_view db"
  by (simp_all add: db_view_def record_event_def recordStorage_def)

lemma view_events [simp]: "db_view (recordChange e keys db) = db_view db" "db_view (disconnected_event t st n db) = db_view db"
    "db_view (rotated_event t st p r db) = db_view db"
  by (simp_all add: recordChange_def disconnected_event_def rotated_event_def split: option.split)

lemma transition_view:
  "map (\<lambda>s. (store_key s, pushUrl s)) (snd (transition now w to stores)) = map (\<lambda>s. (store_key s, pushUrl s)) stores"
  by (simp add: transition_def Let_def update_rows_def store_key_def)

lemma view_rows [simp]: "db_view (touchLastUsed now r db) = db_view db" "db_view (snd (revoke_credentials now w db)) = db_view db"
    "db_view (record_telemetry now w dto db) = db_view db"
  by (simp_all add: db_view_def touchLastUsed_def revoke_credentials_def record_telemetry_def Let_def update_rows_def store_key_def)

lemma view_transition [simp]: "db_view (db\<lparr>cn_stores := snd (transition now w to (cn_stores db))\<rparr>) = db_view db"
  by (simp add: db_view_def transition_view)

lemma view_report [simp]: "db_view (report_storage now st b db) = db_view db" "db_view (report_state st c db) = db_view db"
    "db_view (report_schema st dto db) = db_view db"
  by (auto simp: report_storage_def report_state_def report_schema_def split: option.split)
     (simp add: db_view_def update_rows_def store_key_def)

lemma heartbeat_view: "heartbeat env now w dto db = Inr (res, db') \<Longrightarrow> db_view db' = db_view db"
  by (auto simp: heartbeat_def Let_def split: option.splits prod.splits)

lemma admit_view: "admit env now authorization header db = (res, db') \<Longrightarrow> db_view db' = db_view db"
  by (auto simp: admit_def store_token_guard_def site_mismatch_def Let_def split: sum.splits option.splits prod.splits if_splits)

section \<open>Every operation keeps the tables well formed\<close>

lemma code_by_id: "db_ok db \<Longrightarrow> c \<in> set (cn_codes db) \<Longrightarrow> d \<in> set (cn_codes db) \<Longrightarrow> cc_id c = cc_id d \<Longrightarrow> c = d"
  unfolding db_ok_def distinct_map by (meson inj_onD)

lemma ok_code: "db_ok db \<Longrightarrow> c \<in> set (cn_codes db) \<Longrightarrow> code_ok (store_keys db) c"
  and ok_hashes: "db_ok db \<Longrightarrow> hashes_differ (cn_codes db)"
  by (simp_all add: db_ok_def)

lemma code_ok_store: "code_ok K c \<Longrightarrow> cc_storeId c \<noteq> None \<Longrightarrow> cc_codeHash c \<noteq> None"
  by (cases "cc_codeHash c") (simp_all add: code_ok_def)

lemma code_ok_redeem: "code_ok K c \<Longrightarrow> cc_codeHash c \<noteq> None \<Longrightarrow> code_ok K (c\<lparr>cc_redeemedAt := t\<rparr>)"
  by (cases "cc_codeHash c") (simp_all add: code_ok_def)

lemma redeem_ok:
  assumes "db_ok db" and "\<And>c. c \<in> set (cn_codes db) \<Longrightarrow> P c \<Longrightarrow> cc_codeHash c \<noteq> None"
  shows "db_ok (db\<lparr>cn_codes := update_rows P (\<lambda>c. c\<lparr>cc_redeemedAt := Some now\<rparr>) (cn_codes db)\<rparr>)"
    and "evolves db (db\<lparr>cn_codes := update_rows P (\<lambda>c. c\<lparr>cc_redeemedAt := Some now\<rparr>) (cn_codes db)\<rparr>)"
proof -
  let ?g = "\<lambda>c. c\<lparr>cc_redeemedAt := Some now\<rparr>" and ?d = "db\<lparr>cn_codes := update_rows P (\<lambda>c. c\<lparr>cc_redeemedAt := Some now\<rparr>) (cn_codes db)\<rparr>"
  have k: "store_keys ?d = store_keys db" by (simp add: store_keys_def)
  have "code_ok (store_keys db) (if P c then ?g c else c)" if "c \<in> set (cn_codes db)" for c
    using ok_code [OF assms(1) that] assms(2) [OF that] code_ok_redeem by simp
  moreover have "hashes_differ (update_rows P ?g (cn_codes db))"
    using ok_hashes [OF assms(1)] by (simp add: hashes_differ_def ball_update_rows)
  ultimately show "db_ok ?d"
    using assms(1) unfolding db_ok_def k by (simp add: map_update_rows ball_update_rows)
  show "evolves db ?d"
    unfolding evolves_def k
  proof (intro conjI ballI)
    fix c assume c: "c \<in> set (cn_codes db)"
    show "\<exists>c'\<in>set (cn_codes ?d). code_key c' = code_key c
      \<and> (cc_codeHash c \<noteq> None \<longrightarrow> same_code c c' \<and> (cc_redeemedAt c \<noteq> None \<longrightarrow> cc_redeemedAt c' \<noteq> None))"
      using c by (intro bexI [of _ "if P c then ?g c else c"]) (auto simp: in_update_rows same_code_def code_key_def)
  qed simp
qed

lemma add_credential_ok:
  assumes "db_ok db" and "w \<in> store_id ` set (cn_stores db)"
    and "hashToken env (fst (generateStoreToken env random)) \<notin> cr_tokenHash ` set (cn_credentials db)"
  shows "db_ok (add_credential env i random w db)" and "evolves db (add_credential env i random w db)"
  using assms by (auto simp: add_credential_def generateStoreToken_def db_ok_def evolves_def store_keys_def same_code_def)

lemma add_code_ok:
  assumes "db_ok db" and "cc_id c \<notin> cc_id ` set (cn_codes db)" and "cc_codeHash c = None" "cc_approvedAt c = None"
    "cc_tenantId c = None" "cc_storeId c = None" "cc_redeemedAt c = None"
  shows "db_ok (db\<lparr>cn_codes := cn_codes db @ [c]\<rparr>)" and "evolves db (db\<lparr>cn_codes := cn_codes db @ [c]\<rparr>)"
proof -
  have k: "store_keys (db\<lparr>cn_codes := cn_codes db @ [c]\<rparr>) = store_keys db" by (simp add: store_keys_def)
  have "hashes_differ (cn_codes db @ [c])"
    unfolding hashes_differ_def
  proof (intro ballI impI)
    fix a b assume ab: "a \<in> set (cn_codes db @ [c])" "b \<in> set (cn_codes db @ [c])" "cc_codeHash a \<noteq> None" "cc_codeHash a = cc_codeHash b"
    have "a \<noteq> c" "b \<noteq> c" using assms(3) ab(3) ab(3) [unfolded ab(4)] by blast+
    then have "a \<in> set (cn_codes db)" "b \<in> set (cn_codes db)" using ab(1,2) by simp_all
    then show "cc_id a = cc_id b" using ok_hashes [OF assms(1)] ab(3,4) unfolding hashes_differ_def by blast
  qed
  then show "db_ok (db\<lparr>cn_codes := cn_codes db @ [c]\<rparr>)"
    using assms unfolding db_ok_def k by (simp add: code_ok_def)
  show "evolves db (db\<lparr>cn_codes := cn_codes db @ [c]\<rparr>)" by (auto simp: evolves_def k same_code_def)
qed

lemma initiate_ok:
  assumes "db_ok db" and "i \<notin> cc_id ` set (cn_codes db)" and "initiate env now i dto db = Inr (to, db')"
  shows "db_ok db'" and "evolves db db'"
proof -
  obtain c where c: "db' = db\<lparr>cn_codes := cn_codes db @ [c]\<rparr>" "cc_id c = i" "cc_codeHash c = None" "cc_approvedAt c = None"
    "cc_tenantId c = None" "cc_storeId c = None" "cc_redeemedAt c = None"
    using assms(3) by (fastforce simp: initiate_def Let_def split: option.splits if_splits)
  then show "db_ok db'" "evolves db db'" using add_code_ok [OF assms(1), of c] assms(2) by auto
qed

text \<open>\<open>Inr\<close> of the exchange: it spent the code of the row it read and connected the store of that code.\<close>

lemma exchange_commit_Inr:
  assumes "exchange_commit env now i random row db = Inr db'"
  obtains c w where "c \<in> set (cn_codes db)" "cc_id c = cc_id row" "cc_redeemedAt c = None" "cc_storeId row = Some w"
    "db' = (let db1 = add_credential env i random w (db\<lparr>cn_codes := update_rows (\<lambda>c. cc_id c = cc_id row \<and> cc_redeemedAt c = None)
        (\<lambda>c. c\<lparr>cc_redeemedAt := Some now\<rparr>) (cn_codes db)\<rparr>) in db1\<lparr>cn_stores := snd (transition now w CONNECTED (cn_stores db1))\<rparr>)"
proof -
  let ?P = "\<lambda>c. cc_id c = cc_id row \<and> cc_redeemedAt c = None"
  have n: "length (filter ?P (cn_codes db)) = 1" using assms by (auto simp: exchange_commit_def Let_def split: if_splits)
  then have "filter ?P (cn_codes db) \<noteq> []" by auto
  then obtain c where "c \<in> set (cn_codes db)" "?P c" by (auto simp: filter_empty_conv)
  moreover obtain w where "cc_storeId row = Some w" using assms n by (auto simp: exchange_commit_def Let_def split: option.splits)
  ultimately show ?thesis using assms n
    by (intro that [of c w]) (auto simp: exchange_commit_def Let_def split: if_splits prod.splits)
qed

lemma exchange_ok:
  assumes "db_ok db" and "exchange_commit env now i random row db = Inr db'" and "unused env i random db"
    and "\<exists>c\<in>set (cn_codes db). same_code c row" and "cc_codeHash row \<noteq> None"
  shows "db_ok db'" and "evolves db db'"
proof -
  let ?P = "\<lambda>c. cc_id c = cc_id row \<and> cc_redeemedAt c = None"
  let ?d = "db\<lparr>cn_codes := update_rows ?P (\<lambda>c. c\<lparr>cc_redeemedAt := Some now\<rparr>) (cn_codes db)\<rparr>"
  obtain c w where c: "cc_storeId row = Some w"
    and db': "db' = (let db1 = add_credential env i random w ?d in db1\<lparr>cn_stores := snd (transition now w CONNECTED (cn_stores db1))\<rparr>)"
    by (rule exchange_commit_Inr [OF assms(2)]) blast
  obtain r where r: "r \<in> set (cn_codes db)" "same_code r row" using assms(4) by blast
  note s = same_code_parts [OF r(2)]
  have hashed: "cc_codeHash x \<noteq> None" if "x \<in> set (cn_codes db)" "?P x" for x
  proof -
    have "x = r" using code_by_id [OF assms(1) that(1) r(1)] that(2) s(1) by simp
    then show ?thesis using s(6) assms(5) by simp
  qed
  have ok: "db_ok ?d" "evolves db ?d" using redeem_ok [OF assms(1), of ?P] hashed by blast+
  have "code_ok (store_keys db) r" using assms(1) r(1) by (simp add: db_ok_def)
  then have "w \<in> store_id ` set (cn_stores ?d)"
    using s(6,8) assms(5) c by (auto simp: code_ok_def store_keys_def store_key_def image_iff split: option.splits)
  moreover have "hashToken env (fst (generateStoreToken env random)) \<notin> cr_tokenHash ` set (cn_credentials ?d)"
    using assms(3) by (simp add: unused_def)
  ultimately have add: "db_ok (add_credential env i random w ?d)" "evolves ?d (add_credential env i random w ?d)"
    using add_credential_ok [OF ok(1)] by blast+
  have v: "db_view db' = db_view (add_credential env i random w ?d)" by (simp add: db' Let_def)
  show "db_ok db'" using view_ok(1) [OF v] add(1) by simp
  show "evolves db db'" using evolves_trans [OF evolves_trans [OF ok(2) add(2)] view_ok(2) [OF v]] .
qed

lemma disconnect_commit_Inr:
  assumes "disconnect_commit now st db = Inr (n, db')"
  shows "db' = recordStorage now (store_tenantId st)
    ((snd (revoke_credentials now (store_id st) db))\<lparr>cn_stores := snd (transition now (store_id st) DISCONNECTED (cn_stores db)),
       cn_codes := update_rows (\<lambda>c. cc_storeId c = Some (store_id st) \<and> cc_redeemedAt c = None)
         (\<lambda>c. c\<lparr>cc_redeemedAt := Some now\<rparr>) (cn_codes db)\<rparr>)"
  using assms by (auto simp: disconnect_commit_def revoke_credentials_def Let_def split: prod.splits if_splits)

lemma disconnect_ok:
  assumes "db_ok db" and "disconnect_commit now st db = Inr (n, db')"
  shows "db_ok db'" and "evolves db db'"
proof -
  let ?r = "snd (revoke_credentials now (store_id st) db)"
  let ?d = "?r\<lparr>cn_stores := snd (transition now (store_id st) DISCONNECTED (cn_stores ?r))\<rparr>"
  let ?P = "\<lambda>c. cc_storeId c = Some (store_id st) \<and> cc_redeemedAt c = None"
  have same: "cn_stores ?r = cn_stores db" "cn_codes ?r = cn_codes db" by (simp_all add: revoke_credentials_def Let_def)
  have v: "db_view ?d = db_view db" by simp
  note d = view_ok [OF v]
  have ok: "db_ok ?d" using d(1) assms(1) by simp
  have "cc_codeHash c \<noteq> None" if "c \<in> set (cn_codes ?d)" "?P c" for c
    using code_ok_store [OF ok_code [OF ok that(1)]] that(2) by simp
  note red = redeem_ok [OF ok, of ?P now, OF this]
  have w: "db_view db' = db_view (?d\<lparr>cn_codes := update_rows ?P (\<lambda>c. c\<lparr>cc_redeemedAt := Some now\<rparr>) (cn_codes ?d)\<rparr>)"
    unfolding disconnect_commit_Inr [OF assms(2)] by (simp add: db_view_def same recordStorage_def)
  show "db_ok db'" unfolding view_ok(1) [OF w] by (rule red(1))
  show "evolves db db'" by (rule evolves_trans [OF evolves_trans [OF d(2) red(2)] view_ok(2) [OF w]])
qed

lemma rotate_ok:
  assumes "db_ok db" and "unused env i random db" and "w \<in> store_id ` set (cn_stores db)"
  shows "db_ok (rotate_commit env now i random w db)" and "evolves db (rotate_commit env now i random w db)"
proof -
  let ?r = "snd (revoke_credentials now w db)"
  have v: "db_view ?r = db_view db" by simp
  note r = view_ok [OF v] and p = view_parts [OF v]
  have "cr_tokenHash ` set (cn_credentials ?r) = cr_tokenHash ` set (cn_credentials db)" "store_id ` set (cn_stores ?r) = store_id ` set (cn_stores db)"
    using p by (metis list.set_map)+
  then have add: "db_ok (add_credential env i random w ?r)" "evolves ?r (add_credential env i random w ?r)"
    using add_credential_ok [of ?r w env random i] r(1) assms by (simp_all add: unused_def)
  show "db_ok (rotate_commit env now i random w db)" using add(1) by (simp add: rotate_commit_def)
  show "evolves db (rotate_commit env now i random w db)"
    using evolves_trans [OF r(2) add(2)] by (simp add: rotate_commit_def)
qed

lemma create_store_Inr:
  assumes "createOrReuseStore env now i t site None db = Inr (w, reconnected, db')" and "db_ok db" and "i \<notin> store_id ` set (cn_stores db)"
  obtains stores where "db' = db\<lparr>cn_stores := stores\<rparr>" "(w, t, site) \<in> store_keys db'" "db_ok db'" "evolves db db'"
    "\<And>s. s \<in> set stores \<Longrightarrow> store_id s = w \<Longrightarrow> store_status s = CONNECTING"
    "filter (\<lambda>s. store_tenantId s \<noteq> t) stores = filter (\<lambda>s. store_tenantId s \<noteq> t) (cn_stores db)"
    "\<And>s. s \<in> set stores \<Longrightarrow> store_id s \<noteq> w \<Longrightarrow> s \<in> set (cn_stores db)"
proof (cases "find_row (\<lambda>s. store_tenantId s = t \<and> storeUrl s = site) (cn_stores db)")
  case None
  obtain new where new: "db' = db\<lparr>cn_stores := cn_stores db @ [new]\<rparr>" "store_id new = i" "store_tenantId new = t" "storeUrl new = site"
    "pushUrl new = None" "store_status new = CONNECTING" and w: "w = i"
    using assms(1) None by (fastforce simp: createOrReuseStore_def split: sum.splits)
  have fresh: "(t, site) \<notin> (\<lambda>s. (store_tenantId s, storeUrl s)) ` set (cn_stores db)"
    using None by (auto simp: find_row_def find_None_all)
  have k: "store_keys db' = insert (i, t, site) (store_keys db)" using new(2-4) by (auto simp: new(1) store_keys_def store_key_def)
  have "code_ok (insert x K) c" if "code_ok K c" for x K c using that by (auto simp: code_ok_def split: option.splits)
  then have "db_ok db'" using assms(2,3) fresh new(2-5) unfolding db_ok_def k by (auto simp: new(1))
  moreover have "evolves db db'" unfolding evolves_def k by (auto simp: new(1) same_code_def)
  moreover have "store_status s = CONNECTING" if "s \<in> set (cn_stores db @ [new])" "store_id s = w" for s
    using that assms(3) new(6) by (auto simp: w)
  moreover have "s \<in> set (cn_stores db)" if "s \<in> set (cn_stores db @ [new])" "store_id s \<noteq> w" for s
    using that new(2) by (auto simp: w)
  moreover have "(w, t, site) \<in> store_keys db'" by (simp add: k w)
  moreover have "filter (\<lambda>s. store_tenantId s \<noteq> t) (cn_stores db @ [new]) = filter (\<lambda>s. store_tenantId s \<noteq> t) (cn_stores db)"
    using new(3) by simp
  ultimately show ?thesis by (intro that [OF new(1)])
next
  case (Some e)
  then have e: "e \<in> set (cn_stores db)" "store_tenantId e = t" "storeUrl e = site"
    using find_Some_in [of _ _ e] unfolding find_row_def by fastforce+
  let ?s = "update_rows (\<lambda>s. store_id s = store_id e) (\<lambda>s. s\<lparr>pushUrl := None\<rparr>) (snd (transition now (store_id e) CONNECTING (cn_stores db)))"
  have w: "w = store_id e" "db' = db\<lparr>cn_stores := ?s\<rparr>"
    using assms(1) Some by (auto simp: createOrReuseStore_def split: prod.splits if_splits)
  have none: "pushUrl s = None" if "s \<in> set (cn_stores db)" for s using assms(2) that by (auto simp: db_ok_def)
  have same: "s\<lparr>store_status := st, pushUrl := None\<rparr> = s\<lparr>store_status := st\<rparr>" if "s \<in> set (cn_stores db)" for s st
    using none [OF that] by (cases s) simp
  have to: "canTransition st CONNECTING" for st by (cases st) (simp_all add: canTransition_def)
  have s: "?s = update_rows (\<lambda>s. store_id s = store_id e) (\<lambda>s. s\<lparr>store_status := CONNECTING\<rparr>) (cn_stores db)"
    using same by (auto simp: transition_def update_rows_def to)
  have "db_view db' = db_view db" unfolding w(2) s by (simp add: db_view_def update_rows_def store_key_def)
  moreover have "(w, t, site) \<in> store_keys db" using e by (auto simp: w store_keys_def store_key_def)
  moreover have "filter (\<lambda>s. store_tenantId s \<noteq> t) ?s = filter (\<lambda>s. store_tenantId s \<noteq> t) (cn_stores db)"
  proof -
    have "x = e" if "x \<in> set (cn_stores db)" "store_id x = store_id e" for x
      using assms(2) e(1) that unfolding db_ok_def distinct_map by (meson inj_onD)
    then have "filter (\<lambda>s. store_tenantId s \<noteq> t) (map (\<lambda>s. if store_id s = store_id e then s\<lparr>store_status := CONNECTING\<rparr> else s) rows)
        = filter (\<lambda>s. store_tenantId s \<noteq> t) rows" if "set rows \<subseteq> set (cn_stores db)" for rows
      using that e(2) by (induction rows) auto
    then show ?thesis unfolding s unfolding update_rows_def by simp
  qed
  moreover have "store_id x = w \<Longrightarrow> store_status x = CONNECTING" "store_id x \<noteq> w \<Longrightarrow> x \<in> set (cn_stores db)" if "x \<in> set ?s" for x
    using that unfolding s in_update_rows by (auto simp: w(1))
  ultimately show ?thesis using view_ok [of db' db] view_parts(2) [of db' db] assms(2)
    by (intro that [OF w(2)]) auto
qed

definition approve :: "int \<Rightarrow> string \<Rightarrow> string \<Rightarrow> string \<Rightarrow> connection_code \<Rightarrow> connection_code" where
  "approve now h t w c = c\<lparr>cc_approvedAt := Some now, cc_codeHash := Some h, cc_codeExpiresAt := Some (now + CODE_TTL_MS),
     cc_tenantId := Some t, cc_storeId := Some w\<rparr>"

lemma approve_ok:
  assumes "db_ok db" and "c \<in> set (cn_codes db)" "cc_codeHash c = None" and "Some h \<notin> cc_codeHash ` set (cn_codes db)"
    and "(w, t, cc_siteUrl c) \<in> store_keys db"
  shows "db_ok (db\<lparr>cn_codes := update_rows (\<lambda>x. cc_id x = cc_id c) (approve now h t w) (cn_codes db)\<rparr>)"
    and "evolves db (db\<lparr>cn_codes := update_rows (\<lambda>x. cc_id x = cc_id c) (approve now h t w) (cn_codes db)\<rparr>)"
proof -
  let ?u = "update_rows (\<lambda>x. cc_id x = cc_id c) (approve now h t w) (cn_codes db)"
  have k: "store_keys (db\<lparr>cn_codes := ?u\<rparr>) = store_keys db" by (simp add: store_keys_def)
  have c: "x = c" if "x \<in> set (cn_codes db)" "cc_id x = cc_id c" for x using code_by_id [OF assms(1) that(1) assms(2) that(2)] .
  have "code_ok (store_keys db) (if cc_id x = cc_id c then approve now h t w x else x)" if "x \<in> set (cn_codes db)" for x
    using ok_code [OF assms(1) that] c [OF that] assms(5) by (auto simp: approve_def code_ok_def)
  then have ok: "\<forall>x\<in>set ?u. code_ok (store_keys db) x" by (simp add: ball_update_rows)
  have "hashes_differ ?u"
    unfolding hashes_differ_def ball_update_rows
  proof (intro ballI impI)
    fix a b assume ab: "a \<in> set (cn_codes db)" "b \<in> set (cn_codes db)"
    assume n: "cc_codeHash (if cc_id a = cc_id c then approve now h t w a else a) \<noteq> None"
      and e: "cc_codeHash (if cc_id a = cc_id c then approve now h t w a else a) = cc_codeHash (if cc_id b = cc_id c then approve now h t w b else b)"
    have h: "cc_codeHash x \<noteq> Some h" if "x \<in> set (cn_codes db)" for x using assms(4) that by (metis image_eqI)
    consider "cc_id a = cc_id c" "cc_id b = cc_id c" | "cc_id a = cc_id c" "cc_id b \<noteq> cc_id c"
      | "cc_id a \<noteq> cc_id c" "cc_id b = cc_id c" | "cc_id a \<noteq> cc_id c" "cc_id b \<noteq> cc_id c" by blast
    then show "cc_id (if cc_id a = cc_id c then approve now h t w a else a) = cc_id (if cc_id b = cc_id c then approve now h t w b else b)"
    proof cases
      case 4
      then have "cc_codeHash a \<noteq> None" "cc_codeHash a = cc_codeHash b" using n e by simp_all
      then have "cc_id a = cc_id b" using ok_hashes [OF assms(1)] ab unfolding hashes_differ_def by blast
      then show ?thesis using 4 by simp
    qed (use h [OF ab(1)] h [OF ab(2)] e in \<open>simp_all add: approve_def\<close>)
  qed
  moreover have "map cc_id ?u = map cc_id (cn_codes db)" by (rule map_update_rows) (simp add: approve_def)
  ultimately show "db_ok (db\<lparr>cn_codes := ?u\<rparr>)" using assms(1) ok unfolding db_ok_def k by simp
  show "evolves db (db\<lparr>cn_codes := ?u\<rparr>)"
    unfolding evolves_def k
  proof (intro conjI ballI)
    fix x assume x: "x \<in> set (cn_codes db)"
    then show "\<exists>c'\<in>set (cn_codes (db\<lparr>cn_codes := ?u\<rparr>)). code_key c' = code_key x
      \<and> (cc_codeHash x \<noteq> None \<longrightarrow> same_code x c' \<and> (cc_redeemedAt x \<noteq> None \<longrightarrow> cc_redeemedAt c' \<noteq> None))"
      using c [OF x] assms(3) by (intro bexI [of _ "if cc_id x = cc_id c then approve now h t w x else x"])
        (auto simp: in_update_rows same_code_def code_key_def approve_def)
  qed simp
qed

lemma authorize_commit_Inr:
  assumes "authorize_commit env now i random t p db = Inr (w, reconnected, db')" and "db_ok db" and "unused env i random db"
    and c: "c \<in> set (cn_codes db)" "cc_id c = pr_id p" "cc_siteUrl c = pr_siteUrl p"
  obtains stores where "cc_codeHash c = None"
    "db' = db\<lparr>cn_stores := stores, cn_codes := update_rows (\<lambda>x. cc_id x = cc_id c) (approve now (hashToken env random) t w) (cn_codes db)\<rparr>"
    "db_ok db'" "evolves db db'"
    "\<And>s. s \<in> set stores \<Longrightarrow> store_id s = w \<Longrightarrow> store_status s = CONNECTING" "w \<in> store_id ` set stores"
    "filter (\<lambda>s. store_tenantId s \<noteq> t) stores = filter (\<lambda>s. store_tenantId s \<noteq> t) (cn_stores db)"
    "\<And>s. s \<in> set stores \<Longrightarrow> store_id s \<noteq> w \<Longrightarrow> s \<in> set (cn_stores db)"
proof -
  let ?claims = "\<lambda>c. cc_id c = pr_id p \<and> cc_approvedAt c = None"
  let ?g = "\<lambda>c. c\<lparr>cc_approvedAt := Some now, cc_codeHash := Some (hashToken env random), cc_codeExpiresAt := Some (now + CODE_TTL_MS), cc_tenantId := Some t\<rparr>"
  let ?db1 = "db\<lparr>cn_codes := update_rows ?claims ?g (cn_codes db)\<rparr>"
  have n: "length (filter ?claims (cn_codes db)) = 1" using assms(1) by (auto simp: authorize_commit_def Let_def split: if_splits)
  then have "filter ?claims (cn_codes db) \<noteq> []" by auto
  then obtain x where x: "x \<in> set (cn_codes db)" "?claims x" by (auto simp: filter_empty_conv)
  then have "x = c" using code_by_id [OF assms(2) _ c(1)] c(2) by simp
  then have open': "cc_approvedAt c = None" using x(2) by simp
  then have h: "cc_codeHash c = None" using ok_code [OF assms(2) c(1)] by (cases "cc_codeHash c") (simp_all add: code_ok_def)
  obtain db2 where db2: "createOrReuseStore env now i t (pr_siteUrl p) None ?db1 = Inr (w, reconnected, db2)"
    and db': "db' = db2\<lparr>cn_codes := update_rows (\<lambda>c. cc_id c = pr_id p) (\<lambda>c. c\<lparr>cc_storeId := Some w\<rparr>) (cn_codes db2)\<rparr>"
    using assms(1) n by (auto simp: authorize_commit_def Let_def bind_result_Inr_iff)
  have "createOrReuseStore env now i t (pr_siteUrl p) None db = Inr (w, reconnected, db2\<lparr>cn_codes := cn_codes db\<rparr>)"
    using db2 by (auto simp: createOrReuseStore_def Let_def platform_view_def split: option.splits sum.splits prod.splits if_splits)
  from create_store_Inr [OF this assms(2)] obtain stores where s: "db2\<lparr>cn_codes := cn_codes db\<rparr> = db\<lparr>cn_stores := stores\<rparr>"
    "(w, t, pr_siteUrl p) \<in> store_keys (db\<lparr>cn_stores := stores\<rparr>)" "db_ok (db\<lparr>cn_stores := stores\<rparr>)" "evolves db (db\<lparr>cn_stores := stores\<rparr>)"
    "\<And>s. s \<in> set stores \<Longrightarrow> store_id s = w \<Longrightarrow> store_status s = CONNECTING"
    "filter (\<lambda>s. store_tenantId s \<noteq> t) stores = filter (\<lambda>s. store_tenantId s \<noteq> t) (cn_stores db)"
    "\<And>s. s \<in> set stores \<Longrightarrow> store_id s \<noteq> w \<Longrightarrow> s \<in> set (cn_stores db)"
    using assms(3) by (auto simp: unused_def)
  have codes2: "cn_codes db2 = update_rows ?claims ?g (cn_codes db)"
    using db2 by (auto simp: createOrReuseStore_def Let_def split: option.splits sum.splits prod.splits if_splits)
  have "y = c" if "y \<in> set (cn_codes db)" "cc_id y = pr_id p" for y using code_by_id [OF assms(2) that(1) c(1)] that(2) c(2) by simp
  then have codes: "cn_codes db' = update_rows (\<lambda>x. cc_id x = cc_id c) (approve now (hashToken env random) t w) (cn_codes db)"
    using open' by (auto simp: db' codes2 update_rows_def c(2) approve_def)
  have eq: "db' = db\<lparr>cn_stores := stores, cn_codes := update_rows (\<lambda>x. cc_id x = cc_id c) (approve now (hashToken env random) t w) (cn_codes db)\<rparr>"
    using s(1) codes unfolding db' by (cases db2; cases db) simp
  have "w \<in> store_id ` set stores" using s(2) by (force simp: store_keys_def store_key_def)
  moreover note approve_ok [OF s(3), of c "hashToken env random" w t now]
  ultimately show ?thesis using s(2-) h c assms(3) evolves_trans [OF s(4)] by (intro that [OF h eq]) (auto simp: eq unused_def)
qed

section \<open>Requests in progress\<close>

text \<open>What an exchange has proved: it knows the code, the verifier of the handshake and its site.\<close>

definition granted :: "connect_env \<Rightarrow> exchange_dto \<Rightarrow> connection_code \<Rightarrow> bool" where
  "granted env dto row \<longleftrightarrow> cc_codeHash row = Some (hashToken env (ex_code dto))
     \<and> pkceChallenge env (ex_verifier dto) = cc_challenge row \<and> normaliseUrl env (ex_site_url dto) = Some (cc_siteUrl row)"

definition redeemed :: "connect_db \<Rightarrow> connection_code \<Rightarrow> bool" where
  "redeemed db row \<longleftrightarrow> (\<exists>c\<in>set (cn_codes db). same_code c row \<and> cc_redeemedAt c \<noteq> None)"

fun run_ok :: "connect_env \<Rightarrow> connect_db \<Rightarrow> connect_run \<Rightarrow> bool" where
  "run_ok env db (AuthorizeCommit dto t p) \<longleftrightarrow> pr_id p = au_request dto \<and> hashToken env (au_state dto) = pr_stateHash p
     \<and> (\<exists>c\<in>set (cn_codes db). cc_id c = pr_id p \<and> cc_siteUrl c = pr_siteUrl p \<and> cc_stateHash c = pr_stateHash p)"
| "run_ok env db (ExchangeCommit dto row name) \<longleftrightarrow> granted env dto row \<and> (\<exists>c\<in>set (cn_codes db). same_code c row)"
| "run_ok env db (ExchangeVersion dto row name token) \<longleftrightarrow> granted env dto row \<and> redeemed db row"
| "run_ok env db (ExchangeDone dto (Inr res)) \<longleftrightarrow>
     (\<exists>row. granted env dto row \<and> redeemed db row \<and> er_store_id res = the (cc_storeId row))"
| "run_ok env db (DisconnectCommit st) \<longleftrightarrow> store_key st \<in> store_keys db"
| "run_ok env db (RotateCommit st reason) \<longleftrightarrow> store_key st \<in> store_keys db"
| "run_ok env db r \<longleftrightarrow> True"

lemma evolves_code:
  assumes "evolves db db'" and "c \<in> set (cn_codes db)"
  obtains c' where "c' \<in> set (cn_codes db')" "code_key c' = code_key c"
    "cc_codeHash c \<noteq> None \<Longrightarrow> same_code c c'" "cc_codeHash c \<noteq> None \<Longrightarrow> cc_redeemedAt c \<noteq> None \<Longrightarrow> cc_redeemedAt c' \<noteq> None"
  using assms unfolding evolves_def by blast

lemma evolves_same:
  assumes "evolves db db'" and "c \<in> set (cn_codes db)" and "same_code c row" and "cc_codeHash row \<noteq> None"
  obtains c' where "c' \<in> set (cn_codes db')" "same_code c' row" "cc_redeemedAt c \<noteq> None \<Longrightarrow> cc_redeemedAt c' \<noteq> None"
proof -
  have h: "cc_codeHash c \<noteq> None" using same_code_parts(6) [OF assms(3)] assms(4) by simp
  obtain c' where c': "c' \<in> set (cn_codes db')" "same_code c c'" "cc_redeemedAt c \<noteq> None \<Longrightarrow> cc_redeemedAt c' \<noteq> None"
    by (rule evolves_code [OF assms(1,2)]) (use h in blast)
  have "same_code c' row" using c'(2) assms(3) by (simp add: same_code_def)
  then show ?thesis using c' that by blast
qed

lemma redeemed_evolves: "redeemed db row \<Longrightarrow> cc_codeHash row \<noteq> None \<Longrightarrow> evolves db db' \<Longrightarrow> redeemed db' row"
  unfolding redeemed_def by (meson evolves_same)

lemma granted_hash: "granted env dto row \<Longrightarrow> cc_codeHash row \<noteq> None"
  by (simp add: granted_def)

lemma run_ok_evolves:
  assumes "run_ok env db r" and "evolves db db'"
  shows "run_ok env db' r"
proof -
  have keys: "store_keys db \<subseteq> store_keys db'" using assms(2) by (simp add: evolves_def)
  have key: "\<exists>c'\<in>set (cn_codes db'). code_key c' = code_key c" if "c \<in> set (cn_codes db)" for c
    using assms(2) that by (auto simp: evolves_def)
  have same: "\<exists>c'\<in>set (cn_codes db'). same_code c' row" if "c \<in> set (cn_codes db)" "same_code c row" "granted env dto row" for c row dto
    by (rule evolves_same [OF assms(2) that(1,2) granted_hash [OF that(3)]]) blast
  note red = redeemed_evolves [OF _ granted_hash assms(2)]
  show ?thesis
  proof (cases r)
    case (AuthorizeCommit dto t p)
    then obtain c where c: "c \<in> set (cn_codes db)" "cc_id c = pr_id p" "cc_siteUrl c = pr_siteUrl p" "cc_stateHash c = pr_stateHash p"
      using assms(1) by auto
    then show ?thesis using key [OF c(1)] assms(1) by (auto simp: AuthorizeCommit code_key_def)
  next
    case (ExchangeDone dto res)
    then show ?thesis using assms(1) red by (cases res) auto
  qed (use assms(1) keys same red in auto)
qed

lemma select_code_Some:
  assumes "select_code env code db = Some (row, name)"
  shows "row \<in> set (cn_codes db)" "cc_codeHash row = Some (hashToken env code)"
  using assms by (auto simp: select_code_def find_row_def split: option.splits dest: find_Some_in)

lemma select_request_Some:
  assumes "select_request i db = Some p"
  shows "pr_id p = i" and "\<exists>c\<in>set (cn_codes db). cc_id c = i \<and> cc_siteUrl c = pr_siteUrl p \<and> cc_stateHash c = pr_stateHash p"
proof -
  obtain c where c: "find_row (\<lambda>c. cc_id c = i) (cn_codes db) = Some c" using assms by (auto simp: select_request_def)
  have "c \<in> set (cn_codes db) \<and> cc_id c = i" using find_Some_in c unfolding find_row_def by fast
  then show "pr_id p = i" "\<exists>c\<in>set (cn_codes db). cc_id c = i \<and> cc_siteUrl c = pr_siteUrl p \<and> cc_stateHash c = pr_stateHash p"
    using assms c by (auto simp: select_request_def)
qed

lemma find_store_Some:
  assumes "find_store t w db = Some st"
  shows "st \<in> set (cn_stores db)" "store_id st = w" "store_tenantId st = t" "store_key st \<in> store_keys db"
  using assms by (auto simp: find_store_def find_row_def store_keys_def dest: find_Some_in)

lemma exchange_redeems:
  assumes "db_ok db" and "exchange_commit env now i random row db = Inr db'" and "\<exists>c\<in>set (cn_codes db). same_code c row"
  shows "redeemed db' row" and "\<not> redeemed db row"
proof -
  obtain c w where c: "c \<in> set (cn_codes db)" "cc_id c = cc_id row" "cc_redeemedAt c = None"
    and db': "db' = (let db1 = add_credential env i random w (db\<lparr>cn_codes := update_rows (\<lambda>c. cc_id c = cc_id row \<and> cc_redeemedAt c = None)
        (\<lambda>c. c\<lparr>cc_redeemedAt := Some now\<rparr>) (cn_codes db)\<rparr>) in db1\<lparr>cn_stores := snd (transition now w CONNECTED (cn_stores db1))\<rparr>)"
    by (rule exchange_commit_Inr [OF assms(2)]) blast
  have unique: "x = c" if "x \<in> set (cn_codes db)" "same_code x row" for x
    using code_by_id [OF assms(1) that(1) c(1)] same_code_parts(1) [OF that(2)] c(2) by simp
  then have same: "same_code c row" using assms(3) c(1) by blast
  have "cn_codes db' = update_rows (\<lambda>c. cc_id c = cc_id row \<and> cc_redeemedAt c = None) (\<lambda>c. c\<lparr>cc_redeemedAt := Some now\<rparr>) (cn_codes db)"
    by (simp add: db' Let_def add_credential_def generateStoreToken_def)
  then have "c\<lparr>cc_redeemedAt := Some now\<rparr> \<in> set (cn_codes db')" using c by (auto simp: in_update_rows)
  moreover have "same_code (c\<lparr>cc_redeemedAt := Some now\<rparr>) row" using same by (simp add: same_code_def)
  ultimately show "redeemed db' row" unfolding redeemed_def by force
  show "\<not> redeemed db row" using unique c(3) by (auto simp: redeemed_def)
qed

lemma events_ok [simp]:
  "db_ok (record_event x db) = db_ok db" "db_ok (disconnected_event t st n db) = db_ok db" "db_ok (rotated_event t st p r db) = db_ok db"
  "evolves a (record_event x db) = evolves a db" "evolves a (disconnected_event t st n db) = evolves a db"
  "evolves a (rotated_event t st p r db) = evolves a db" "redeemed (record_event x db) = redeemed db"
  "cn_codes (record_event x db) = cn_codes db" "cn_stores (record_event x db) = cn_stores db"
  "cn_credentials (record_event x db) = cn_credentials db"
  by (auto simp: db_ok_def evolves_def store_keys_def redeemed_def record_event_def disconnected_event_def rotated_event_def fun_eq_iff)

lemma run_step_ok:
  assumes "db_ok db" and "run_ok env db r" and "unused env i random db" and "run_step env now i random r db = (r', db')"
  shows "db_ok db' \<and> evolves db db' \<and> run_ok env db' r'"
proof (cases r)
  case (AuthorizeFind dto t)
  then show ?thesis using assms evolves_refl
    by (auto simp: request_open_def tokensMatch_def select_request_Some(1) split: option.splits if_splits dest: select_request_Some(2))
next
  case (AuthorizeCommit dto t p)
  show ?thesis
  proof (cases "authorize_commit env now i random t p db")
    case (Inl e)
    then show ?thesis using assms evolves_refl by (auto simp: AuthorizeCommit)
  next
    case (Inr res)
    obtain w re db1 where res: "res = (w, re, db1)" by (cases res)
    obtain c where c: "c \<in> set (cn_codes db)" "cc_id c = pr_id p" "cc_siteUrl c = pr_siteUrl p"
      using assms(2) by (auto simp: AuthorizeCommit)
    have "db_ok db1 \<and> evolves db db1"
      by (rule authorize_commit_Inr [OF Inr [unfolded res] assms(1,3) c]) blast
    then show ?thesis using assms(4) by (auto simp: AuthorizeCommit Inr res)
  qed
next
  case (ExchangeFind dto)
  show ?thesis
  proof (cases "select_code env (ex_code dto) db")
    case None
    then show ?thesis using assms evolves_refl by (auto simp: ExchangeFind)
  next
    case (Some rn)
    obtain row name where rn: "rn = (row, name)" by (cases rn)
    note s = select_code_Some [OF Some [unfolded rn]]
    have "granted env dto row" if "code_open env now dto row = Inr True"
      using that s(2) by (auto simp: code_open_def granted_def tokensMatch_def split: if_splits option.splits)
    moreover have "\<exists>c\<in>set (cn_codes db). same_code c row" using s(1) by (auto simp: same_code_def)
    ultimately show ?thesis using assms evolves_refl by (auto simp: ExchangeFind Some rn split: sum.splits bool.splits)
  qed
next
  case (ExchangeCommit dto row name)
  show ?thesis
  proof (cases "exchange_commit env now i random row db")
    case (Inl e)
    then show ?thesis using assms evolves_refl by (auto simp: ExchangeCommit)
  next
    case (Inr db1)
    have g: "granted env dto row" "\<exists>c\<in>set (cn_codes db). same_code c row" using assms(2) by (simp_all add: ExchangeCommit)
    note ok = exchange_ok [OF assms(1) Inr assms(3) g(2) granted_hash [OF g(1)]] and red = exchange_redeems(1) [OF assms(1) Inr g(2)]
    show ?thesis using assms(4) ok red g(1) by (auto simp: ExchangeCommit Inr)
  qed
next
  case (DisconnectCommit st)
  show ?thesis
  proof (cases "disconnect_commit now st db")
    case (Inr res)
    obtain n db1 where res: "res = (n, db1)" by (cases res)
    show ?thesis using assms(4) disconnect_ok [OF assms(1) Inr [unfolded res]] by (auto simp: DisconnectCommit Inr res)
  qed (use assms evolves_refl in \<open>auto simp: DisconnectCommit\<close>)
next
  case (RotateCommit st reason)
  have "store_id st \<in> store_id ` set (cn_stores db)"
    using assms(2) by (auto simp: RotateCommit store_keys_def store_key_def)
  then show ?thesis using assms(4) rotate_ok [OF assms(1,3)] by (auto simp: RotateCommit generateStoreToken_def)
qed (use assms evolves_refl find_store_Some in \<open>auto split: option.splits if_splits\<close>)

text \<open>A run wins a code when it has spent it; the code is spent when its row says so.\<close>

fun won_code :: "connect_env \<Rightarrow> string \<Rightarrow> connect_run \<Rightarrow> bool" where
  "won_code env h (ExchangeVersion dto row name token) \<longleftrightarrow> hashToken env (ex_code dto) = h"
| "won_code env h (ExchangeDone dto (Inr res)) \<longleftrightarrow> hashToken env (ex_code dto) = h"
| "won_code env h r \<longleftrightarrow> False"

definition spent_code :: "string \<Rightarrow> connect_db \<Rightarrow> bool" where
  "spent_code h db \<longleftrightarrow> (\<exists>c\<in>set (cn_codes db). cc_codeHash c = Some h \<and> cc_redeemedAt c \<noteq> None)"

lemma spent_code_evolves:
  assumes "spent_code h db" and "evolves db db'"
  shows "spent_code h db'"
proof -
  obtain c where c: "c \<in> set (cn_codes db)" "cc_codeHash c = Some h" "cc_redeemedAt c \<noteq> None"
    using assms(1) by (auto simp: spent_code_def)
  show ?thesis
    by (rule evolves_code [OF assms(2) c(1)]) (use c same_code_parts(6) [of c] in \<open>fastforce simp: spent_code_def\<close>)
qed

lemma redeemed_spent:
  assumes "db_ok db" and "cc_codeHash row = Some h" and "\<exists>c\<in>set (cn_codes db). same_code c row"
  shows "spent_code h db \<longleftrightarrow> redeemed db row"
proof
  obtain r where r: "r \<in> set (cn_codes db)" "same_code r row" using assms(3) by blast
  have h: "cc_codeHash r = Some h" using same_code_parts(6) [OF r(2)] assms(2) by simp
  assume "spent_code h db"
  then obtain c where c: "c \<in> set (cn_codes db)" "cc_codeHash c = Some h" "cc_redeemedAt c \<noteq> None" by (auto simp: spent_code_def)
  have "cc_codeHash c \<noteq> None" "cc_codeHash c = cc_codeHash r" using c(2) h by simp_all
  then have "cc_id c = cc_id r" using ok_hashes [OF assms(1)] c(1) r(1) unfolding hashes_differ_def by blast
  then have "c = r" by (rule code_by_id [OF assms(1) c(1) r(1)])
  then show "redeemed db row" using r c(3) by (auto simp: redeemed_def)
next
  assume "redeemed db row"
  then obtain c where "c \<in> set (cn_codes db)" "same_code c row" "cc_redeemedAt c \<noteq> None" by (auto simp: redeemed_def)
  then show "spent_code h db" using same_code_parts(6) assms(2) by (force simp: spent_code_def)
qed

interpretation exchanges: claim_once
  "\<lambda>(now, i, random) r db. run_step env now i random r db" "\<lambda>(now, i, random) db. unused env i random db"
  "\<lambda>r db. db_ok db \<and> run_ok env db r" spent_code "won_code env"
  for env
proof unfold_locales
  fix r r' db db' h and i :: "int \<times> string \<times> string"
  obtain now j random where i: "i = (now, j, random)" by (cases i)
  assume v: "db_ok db \<and> run_ok env db r" and f: "(case i of (now, i, random) \<Rightarrow> \<lambda>db. unused env i random db) db"
    and a: "(case i of (now, i, random) \<Rightarrow> \<lambda>r db. run_step env now i random r db) r db = (r', db')"
  then have step: "run_step env now j random r db = (r', db')" and fresh: "unused env j random db" by (simp_all add: i)
  show "spent_code h db'" if "spent_code h db"
    using spent_code_evolves [OF that] run_step_ok [OF _ _ fresh step] v by blast
  show "won_code env h r \<or> \<not> spent_code h db \<and> spent_code h db'" if w: "won_code env h r'"
  proof (cases r)
    case (ExchangeCommit dto row name)
    obtain db1 where db1: "exchange_commit env now j random row db = Inr db1"
      using w step by (auto simp: ExchangeCommit split: sum.splits)
    have g: "granted env dto row" "\<exists>c\<in>set (cn_codes db). same_code c row" using v by (simp_all add: ExchangeCommit)
    have h: "cc_codeHash row = Some h" using w step g(1) by (auto simp: ExchangeCommit db1 granted_def)
    have "\<not> spent_code h db" using redeemed_spent [OF _ h g(2)] exchange_redeems(2) [OF _ db1 g(2)] v by blast
    moreover have "redeemed db' row" using exchange_redeems(1) [OF _ db1 g(2)] v step by (auto simp: ExchangeCommit db1)
    then have "spent_code h db'" using same_code_parts(6) h by (force simp: redeemed_def spent_code_def)
    ultimately show ?thesis by blast
  qed (use w step in \<open>auto split: option.splits sum.splits bool.splits prod.splits if_splits simp: Let_def\<close>)
qed

section \<open>The invariant of all requests\<close>

text \<open>The approval behind a code: a merchant of its tenant presented the state of that very request.\<close>

definition approved_by :: "connect_env \<Rightarrow> connect_run list \<Rightarrow> connection_code \<Rightarrow> bool" where
  "approved_by env runs c \<longleftrightarrow> (\<exists>dto t to. AuthorizeDone dto t (Inr to) \<in> set runs \<and> au_request dto = cc_id c
     \<and> hashToken env (au_state dto) = cc_stateHash c \<and> cc_tenantId c = Some t)"

lemma approved_same: "same_code c d \<Longrightarrow> approved_by env runs c = approved_by env runs d"
  using same_code_parts(1,4,7) [of c d] by (simp add: approved_by_def)

lemma approved_mono: "approved_by env runs c \<Longrightarrow> {r \<in> set runs. \<exists>dto t to. r = AuthorizeDone dto t (Inr to)} \<subseteq> set runs' \<Longrightarrow> approved_by env runs' c"
  unfolding approved_by_def by blast

lemma redeem_same: "c \<in> set (update_rows P (\<lambda>c. c\<lparr>cc_redeemedAt := t\<rparr>) rows) \<Longrightarrow> \<exists>d\<in>set rows. same_code d c"
  by (auto simp: in_update_rows same_code_def)

lemma exchange_codes: "exchange_commit env now i random row db = Inr db' \<Longrightarrow> c \<in> set (cn_codes db') \<Longrightarrow> \<exists>d\<in>set (cn_codes db). same_code d c"
  by (elim exchange_commit_Inr) (auto simp: Let_def add_credential_def generateStoreToken_def intro: redeem_same)

lemma disconnect_codes: "disconnect_commit now st db = Inr (n, db') \<Longrightarrow> c \<in> set (cn_codes db') \<Longrightarrow> \<exists>d\<in>set (cn_codes db). same_code d c"
  by (drule disconnect_commit_Inr) (auto simp: recordStorage_def intro: redeem_same)

lemma codes_elsewhere [simp]: "cn_codes (disconnected_event t st n db) = cn_codes db" "cn_codes (rotated_event t st p r db) = cn_codes db"
    "cn_codes (rotate_commit env now i random w db) = cn_codes db"
  by (simp_all add: disconnected_event_def rotated_event_def rotate_commit_def record_event_def add_credential_def
      generateStoreToken_def revoke_credentials_def Let_def)

lemma run_step_approves:
  assumes "db_ok db" and "run_ok env db r" and "unused env i random db" and "run_step env now i random r db = (r', db')"
    and "c \<in> set (cn_codes db')" and "cc_codeHash c \<noteq> None"
  shows "(\<exists>d\<in>set (cn_codes db). same_code d c) \<or> approved_by env [r'] c"
proof (cases "\<exists>dto t p. r = AuthorizeCommit dto t p")
  case True
  then obtain dto t p where r: "r = AuthorizeCommit dto t p" by blast
  show ?thesis
  proof (cases "authorize_commit env now i random t p db")
    case (Inr res)
    obtain w re db1 where res: "res = (w, re, db1)" by (cases res)
    obtain x where x: "x \<in> set (cn_codes db)" "cc_id x = pr_id p" "cc_siteUrl x = pr_siteUrl p" "cc_stateHash x = pr_stateHash p"
      and p: "pr_id p = au_request dto" "hashToken env (au_state dto) = pr_stateHash p"
      using assms(2) by (auto simp: r)
    have "cn_codes db1 = update_rows (\<lambda>y. cc_id y = cc_id x) (approve now (hashToken env random) t w) (cn_codes db)"
      by (rule authorize_commit_Inr [OF Inr [unfolded res] assms(1,3) x(1-3)]) simp
    moreover have "cn_codes db' = cn_codes db1" using assms(4) by (auto simp: r Inr res)
    ultimately obtain y where y: "y \<in> set (cn_codes db)" "c = (if cc_id y = cc_id x then approve now (hashToken env random) t w y else y)"
      using assms(5) by (auto simp: in_update_rows)
    show ?thesis
    proof (cases "cc_id y = cc_id x")
      case True
      then have "y = x" by (rule code_by_id [OF assms(1) y(1) x(1)])
      then have "cc_id c = au_request dto" "hashToken env (au_state dto) = cc_stateHash c" "cc_tenantId c = Some t"
        using y(2) x p by (simp_all add: approve_def)
      moreover have "\<exists>to. r' = AuthorizeDone dto t (Inr to)" using assms(4) by (auto simp: r Inr res)
      ultimately show ?thesis by (auto simp: approved_by_def)
    qed (use y in \<open>auto simp: same_code_def\<close>)
  qed (use assms(4,5) in \<open>auto simp: r same_code_def\<close>)
next
  case False
  then have "\<exists>d\<in>set (cn_codes db). same_code d c"
    using assms(4,5) exchange_codes disconnect_codes
    by (cases r) (auto simp: same_code_def Let_def split: option.splits sum.splits bool.splits prod.splits if_splits)
  then show ?thesis by blast
qed

definition connect_inv :: "connect_env \<Rightarrow> connect_state \<Rightarrow> bool" where
  "connect_inv env s \<longleftrightarrow> db_ok (ct_db s) \<and> (\<forall>r\<in>set (ct_runs s). run_ok env (ct_db s) r)
     \<and> (\<forall>c\<in>set (cn_codes (ct_db s)). cc_codeHash c \<noteq> None \<longrightarrow> approved_by env (ct_runs s) c)
     \<and> exchanges.single_claim env (ct_db s) (ct_runs s)"

lemma connect_state_updates:
  "s\<lparr>ct_runs := rs\<rparr> = \<lparr>ct_db = ct_db s, ct_runs = rs\<rparr>" "s\<lparr>ct_db := db\<rparr> = \<lparr>ct_db = db, ct_runs = ct_runs s\<rparr>"
  by (cases s; simp)+

fun begins :: "connect_run \<Rightarrow> bool" where
  "begins (AuthorizeFind dto t) = True"
| "begins (ExchangeFind dto) = True"
| "begins (DisconnectFind t w) = True"
| "begins (RotateFind t w reason) = True"
| "begins r = False"

lemma begins_ok: "begins r \<Longrightarrow> run_ok env db r" "begins r \<Longrightarrow> \<not> won_code env h r"
  by (cases r; simp)+

text \<open>A request that only reads or writes other columns, or begins.\<close>

lemma connect_inv_rows:
  assumes "connect_inv env s" and "db_ok db" and "evolves (ct_db s) db"
    and "\<And>c. c \<in> set (cn_codes db) \<Longrightarrow> cc_codeHash c \<noteq> None \<Longrightarrow> c \<in> set (cn_codes (ct_db s))"
    and "\<And>r. r \<in> set rs \<Longrightarrow> begins r" and "length rs \<le> 1"
  shows "connect_inv env \<lparr>ct_db = db, ct_runs = ct_runs s @ rs\<rparr>"
proof -
  have runs: "run_ok env db r" if "r \<in> set (ct_runs s @ rs)" for r
    using that assms(1) begins_ok(1) [OF assms(5)] run_ok_evolves [OF _ assms(3)] by (auto simp: connect_inv_def)
  have "exchanges.single_claim env (ct_db s) (ct_runs s @ rs)"
  proof (cases rs)
    case Nil
    then show ?thesis using assms(1) by (simp add: connect_inv_def)
  next
    case (Cons r rs')
    then have "rs = [r]" "\<not> won_code env h r" for h using begins_ok(2) [OF assms(5)] assms(6) by auto
    then show ?thesis using exchanges.single_claim_start [of env "ct_db s" "ct_runs s" r] assms(1) by (simp add: connect_inv_def)
  qed
  then have "exchanges.single_claim env db (ct_runs s @ rs)"
    by (rule exchanges.single_claim_keep) (rule spent_code_evolves [OF _ assms(3)])
  moreover have "approved_by env (ct_runs s @ rs) c" if "c \<in> set (cn_codes db)" "cc_codeHash c \<noteq> None" for c
  proof -
    have "approved_by env (ct_runs s) c" using assms(1) assms(4) [OF that] that(2) by (simp add: connect_inv_def)
    then show ?thesis by (rule approved_mono) auto
  qed
  ultimately show ?thesis using runs assms(2) by (simp add: connect_inv_def)
qed

lemma connect_inv_step:
  assumes "connect_inv env s" and "connect_perform env a s = Some s'"
  shows "connect_inv env s'"
proof -
  have ok: "db_ok (ct_db s)" using assms(1) by (simp add: connect_inv_def)
  have begin_run: "connect_inv env (s\<lparr>ct_runs := ct_runs s @ [r]\<rparr>)"
    if "begins r" for r
    using connect_inv_rows [OF assms(1) ok evolves_refl, of "[r]"] that unfolding connect_state_updates by auto
  have view: "connect_inv env \<lparr>ct_db = db, ct_runs = ct_runs s @ rs\<rparr>" if "db_view db = db_view (ct_db s)"
      "\<And>r. r \<in> set rs \<Longrightarrow> begins r" "length rs \<le> 1" for db rs
    using connect_inv_rows [OF assms(1), of db rs] view_ok [OF that(1)] view_parts(1) [OF that(1)] ok that(2,3) by auto
  have here: "connect_inv env (s\<lparr>ct_db := db\<rparr>)" if "db_view db = db_view (ct_db s)" for db
    using view [OF that, of "[]"] unfolding connect_state_updates by simp
  show ?thesis
  proof (cases a)
    case (Initiate now i dto)
    show ?thesis
    proof (cases "initiate env now i dto (ct_db s)")
      case (Inl e)
      then show ?thesis using assms by (auto simp: Initiate split: if_splits)
    next
      case (Inr res)
      obtain to db where res: "res = (to, db)" by (cases res)
      have i: "i \<notin> cc_id ` set (cn_codes (ct_db s))" and s': "s' = s\<lparr>ct_db := db\<rparr>"
        using assms(2) by (auto simp: Initiate Inr res split: if_splits)
      have "c \<in> set (cn_codes (ct_db s))" if "c \<in> set (cn_codes db)" "cc_codeHash c \<noteq> None" for c
        using that Inr by (auto simp: res initiate_def Let_def split: option.splits if_splits)
      then show ?thesis using connect_inv_rows [OF assms(1) initiate_ok [OF ok i Inr [unfolded res]], of "[]"] unfolding s' connect_state_updates by auto
    qed
  next
    case (Heartbeat now authorization header dto)
    obtain res db where adm: "admit env now authorization header (ct_db s) = (res, db)"
      by (cases "admit env now authorization header (ct_db s)")
    show ?thesis using assms(2) adm here admit_view [OF adm] heartbeat_view
      by (auto simp: Heartbeat split: sum.splits)
  next
    case (PluginDisconnect now authorization header)
    obtain res db where adm: "admit env now authorization header (ct_db s) = (res, db)"
      by (cases "admit env now authorization header (ct_db s)")
    show ?thesis
    proof (cases res)
      case (Inl e)
      then show ?thesis using assms(2) here [OF admit_view [OF adm]] by (auto simp: PluginDisconnect adm)
    next
      case (Inr st)
      then show ?thesis using assms(2) view [of db "[DisconnectFind (store_tenantId st) (store_id st)]"] admit_view [OF adm]
        by (auto simp: PluginDisconnect adm)
    qed
  next
    case (Next n now i random)
    obtain r db where step: "run_step env now i random (ct_runs s ! n) (ct_db s) = (r, db)"
      by (cases "run_step env now i random (ct_runs s ! n) (ct_db s)")
    then have n: "n < length (ct_runs s)" and fresh: "unused env i random (ct_db s)"
      and s': "s' = \<lparr>ct_db = db, ct_runs = (ct_runs s)[n := r]\<rparr>"
      using assms(2) by (auto simp: Next Let_def split: if_splits prod.splits)
    have rn: "run_ok env (ct_db s) (ct_runs s ! n)" using assms(1) n by (simp add: connect_inv_def)
    note ok' = run_step_ok [OF ok rn fresh step]
    have "exchanges.single_claim env db ((ct_runs s)[n := r])"
      using exchanges.single_claim_advance [of env "ct_db s" "ct_runs s" n "(now, i, random)" r db] assms(1) n ok rn fresh step
      by (simp add: connect_inv_def)
    moreover have "run_ok env db x" if "x \<in> set ((ct_runs s)[n := r])" for x
      using that assms(1) ok' run_ok_evolves [of env "ct_db s" x db] set_update_subset_insert [of "ct_runs s" n r]
      by (auto simp: connect_inv_def)
    moreover have "approved_by env ((ct_runs s)[n := r]) c" if c: "c \<in> set (cn_codes db)" "cc_codeHash c \<noteq> None" for c
    proof -
      have keep: "x \<in> set ((ct_runs s)[n := r])" if "x \<in> set (ct_runs s)" "\<exists>dto t to. x = AuthorizeDone dto t (Inr to)" for x
      proof (cases "x = ct_runs s ! n")
        case True
        then show ?thesis using that(2) step n by (auto intro: set_update_memI)
      next
        case False
        then show ?thesis using that(1) by (metis in_set_conv_nth length_list_update nth_list_update_neq)
      qed
      consider d where "d \<in> set (cn_codes (ct_db s))" "same_code d c" | "approved_by env [r] c"
        using run_step_approves [OF ok rn fresh step c] by blast
      then show ?thesis
      proof cases
        case (1 d)
        then have "approved_by env (ct_runs s) d" using assms(1) c(2) same_code_parts(6) [OF 1(2)] by (simp add: connect_inv_def)
        then have "approved_by env (ct_runs s) c" using approved_same [OF 1(2)] by simp
        then show ?thesis by (rule approved_mono) (use keep in auto)
      next
        case 2
        then show ?thesis by (rule approved_mono) (use set_update_memI [OF n, of r] in auto)
      qed
    qed
    ultimately show ?thesis using ok' by (simp add: connect_inv_def s')
  qed (use assms(2) begin_run in auto)
qed

lemma connect_reachable_inv: "connect_reachable env tenants pf s \<Longrightarrow> connect_inv env s"
proof (induction rule: connect_reachable.induct)
  case Start
  then show ?case by (simp add: connect_inv_def connect_start_def db_ok_def hashes_differ_def exchanges.single_claim_def)
next
  case (Step s a s')
  then show ?case using connect_inv_step by blast
qed

end
