(* ===== verification/Store_Access_Correct.thy ===== *)
theory Store_Access_Correct
  imports Store_Access_Invariant
begin

text \<open>
  What the connection of a shop guarantees, in any interleaving of its requests: a code is redeemed once
  and only by the plugin that began the handshake, after a merchant of the tenant approved it; a request
  made for one tenant leaves the shops of the others alone; a disconnected shop has no access.
\<close>

section \<open>Redeeming\<close>

text \<open>One shop from its request to its credential.\<close>

definition plain_env :: connect_env where
  "plain_env = \<lparr>hashToken = (\<lambda>x. x), pkceChallenge = (\<lambda>x. x),
     new_URL = (\<lambda>x. Some \<lparr>url_protocol = ''https:'', url_host = drop 8 x, url_pathname = []\<rparr>), json_parser = (\<lambda>_. JNull)\<rparr>"

definition first_shop :: connect_state where
  "first_shop = connect_start [(''t1'', ''Ada'')] (small_shop\<lparr>pf_stores := []\<rparr>)"

definition first_request :: initiate_dto where
  "first_request = \<lparr>in_site_url = ''https://a.shop'', in_callback = ''https://a.shop'', in_push_url = Some ''https://a.shop'',
     in_state = ''st'', in_challenge = ''ver'', in_plugin_version = None\<rparr>"

definition first_approval :: authorize_dto where "first_approval = \<lparr>au_request = ''r1'', au_state = ''st''\<rparr>"

definition first_exchange :: exchange_dto where
  "first_exchange = \<lparr>ex_code = ''code1'', ex_verifier = ''ver'', ex_site_url = ''https://a.shop''\<rparr>"

definition handshake :: "connect_action list" where
  "handshake = [Initiate 0 ''r1'' first_request, StartAuthorize first_approval ''t1'', Next 0 1 ''x1'' ''y1'', Next 0 2 ''w1'' ''code1'',
     StartExchange first_exchange, StartExchange first_exchange, Next 1 3 ''x2'' ''y2'', Next 2 4 ''x3'' ''y3'',
     Next 1 5 ''k1'' ''tok1'', Next 2 6 ''k2'' ''tok2'', Next 1 7 ''x4'' ''y4'']"

lemma run_connect_reachable:
  assumes "connect_reachable env tenants pf s" and "run_connect env as s = Some s'"
  shows "connect_reachable env tenants pf s'"
  using assms
proof (induction as arbitrary: s)
  case (Cons a as)
  obtain s1 where s1: "connect_perform env a s = Some s1" "run_connect env as s1 = Some s'"
    using Cons.prems(2) by (auto split: option.splits)
  show ?case using Cons.IH [OF connect_reachable.Step [OF Cons.prems(1) s1(1)] s1(2)] .
qed simp

lemma handshake_run:
  "map_option ct_runs (run_connect plain_env handshake first_shop) =
     Some [AuthorizeDone first_approval ''t1'' (Inr \<lparr>rd_url = ''https://a.shop'', rd_params = [(''code'', ''code1''), (''state'', ''st'')]\<rparr>),
       ExchangeDone first_exchange (Inr \<lparr>er_token = ''osk_live_tok1'', er_store_id = ''w1'', er_tenant_name = ''Ada'', er_config_version = 0\<rparr>),
       ExchangeDone first_exchange (Inl InvalidRequest)]"
  by code_simp

lemma handshake_state:
  obtains s where "run_connect plain_env handshake first_shop = Some s" "connect_reachable plain_env [(''t1'', ''Ada'')] (small_shop\<lparr>pf_stores := []\<rparr>) s"
    "ct_runs s = [AuthorizeDone first_approval ''t1'' (Inr \<lparr>rd_url = ''https://a.shop'', rd_params = [(''code'', ''code1''), (''state'', ''st'')]\<rparr>),
       ExchangeDone first_exchange (Inr \<lparr>er_token = ''osk_live_tok1'', er_store_id = ''w1'', er_tenant_name = ''Ada'', er_config_version = 0\<rparr>),
       ExchangeDone first_exchange (Inl InvalidRequest)]"
proof -
  obtain s where s: "run_connect plain_env handshake first_shop = Some s" using handshake_run by auto
  have "connect_reachable plain_env [(''t1'', ''Ada'')] (small_shop\<lparr>pf_stores := []\<rparr>) s"
    using run_connect_reachable [OF connect_reachable.Start s [unfolded first_shop_def]] .
  then show ?thesis using that s handshake_run by simp
qed

text \<open>
  C11. A code is redeemed once: of any two exchanges that present the same code, in any interleaving with
  all other requests, at most one is answered with a credential.
\<close>

theorem code_redeemed_once:
  assumes "connect_reachable env tenants pf s" and "i < j" and "j < length (ct_runs s)"
    and "ct_runs s ! i = ExchangeDone dto a" and "ct_runs s ! j = ExchangeDone dto' b" and "ex_code dto = ex_code dto'"
  shows "\<not> (is_Inr a \<and> is_Inr b)"
proof
  assume w: "is_Inr a \<and> is_Inr b"
  have won: "won_code env (hashToken env (ex_code dto)) (ct_runs s ! i)" "won_code env (hashToken env (ex_code dto)) (ct_runs s ! j)"
    using w assms(4-6) by (cases a; cases b; simp)+
  have "exchanges.single_claim env (ct_db s) (ct_runs s)" using connect_reachable_inv [OF assms(1)] by (simp add: connect_inv_def)
  then show False using assms(2,3) won by (rule exchanges.at_most_one_wins)
qed

theorem code_redeemed_once_witness:
  "\<exists>s res. run_connect plain_env handshake first_shop = Some s
    \<and> ct_runs s ! 1 = ExchangeDone first_exchange (Inr res) \<and> ct_runs s ! 2 = ExchangeDone first_exchange (Inl InvalidRequest)"
proof (rule handshake_state)
  fix s assume s: "run_connect plain_env handshake first_shop = Some s" "connect_reachable plain_env [(''t1'', ''Ada'')] (small_shop\<lparr>pf_stores := []\<rparr>) s"
    and r: "ct_runs s = [AuthorizeDone first_approval ''t1'' (Inr \<lparr>rd_url = ''https://a.shop'', rd_params = [(''code'', ''code1''), (''state'', ''st'')]\<rparr>),
       ExchangeDone first_exchange (Inr \<lparr>er_token = ''osk_live_tok1'', er_store_id = ''w1'', er_tenant_name = ''Ada'', er_config_version = 0\<rparr>),
       ExchangeDone first_exchange (Inl InvalidRequest)]"
  have "\<not> (is_Inr (Inr \<lparr>er_token = ''osk_live_tok1'', er_store_id = ''w1'', er_tenant_name = ''Ada'', er_config_version = 0\<rparr> :: connect_error + exchange_result)
      \<and> is_Inr (Inl InvalidRequest :: connect_error + exchange_result))"
    by (rule code_redeemed_once [OF s(2), of 1 2 first_exchange _ first_exchange]) (simp_all add: r)
  then show ?thesis using s(1) r by auto
qed



text \<open>
  C37. The tables stay well formed in every interleaving: no two stores share an id, no tenant has two stores
  for one site, every credential belongs to a store, a code that can be redeemed names a tenant and the
  store of that tenant for the site of the code, and no two codes have the same hash.
\<close>

theorem tables_well_formed:
  assumes "connect_reachable env tenants pf s"
  shows "distinct (map store_id (cn_stores (ct_db s))) \<and> distinct (map (\<lambda>st. (store_tenantId st, storeUrl st)) (cn_stores (ct_db s)))
    \<and> (\<forall>r\<in>set (cn_credentials (ct_db s)). \<exists>st\<in>set (cn_stores (ct_db s)). store_id st = cr_storeId r)
    \<and> (\<forall>c\<in>set (cn_codes (ct_db s)). cc_codeHash c \<noteq> None \<longrightarrow> (\<exists>st\<in>set (cn_stores (ct_db s)).
          cc_storeId c = Some (store_id st) \<and> cc_tenantId c = Some (store_tenantId st) \<and> storeUrl st = cc_siteUrl c))
    \<and> (\<forall>c\<in>set (cn_codes (ct_db s)). \<forall>d\<in>set (cn_codes (ct_db s)). cc_codeHash c \<noteq> None \<longrightarrow> cc_codeHash c = cc_codeHash d \<longrightarrow> c = d)"
proof (intro conjI ballI impI)
  have ok: "db_ok (ct_db s)" using connect_reachable_inv [OF assms] by (simp add: connect_inv_def)
  then show "distinct (map store_id (cn_stores (ct_db s)))" "distinct (map (\<lambda>st. (store_tenantId st, storeUrl st)) (cn_stores (ct_db s)))"
    by (simp_all add: db_ok_def)
  show "\<exists>st\<in>set (cn_stores (ct_db s)). store_id st = cr_storeId r" if "r \<in> set (cn_credentials (ct_db s))" for r
  proof -
    have "cr_storeId r \<in> store_id ` set (cn_stores (ct_db s))" using ok that by (simp add: db_ok_def image_subset_iff)
    then show ?thesis by (rule imageE) auto
  qed
  show "\<exists>st\<in>set (cn_stores (ct_db s)). cc_storeId c = Some (store_id st) \<and> cc_tenantId c = Some (store_tenantId st) \<and> storeUrl st = cc_siteUrl c"
    if "c \<in> set (cn_codes (ct_db s))" "cc_codeHash c \<noteq> None" for c
    using ok_code [OF ok that(1)] that(2) by (force simp: code_ok_def store_keys_def store_key_def)
  show "c = d" if "c \<in> set (cn_codes (ct_db s))" "d \<in> set (cn_codes (ct_db s))" "cc_codeHash c \<noteq> None" "cc_codeHash c = cc_codeHash d" for c d
    using ok_hashes [OF ok] code_by_id [OF ok] that unfolding hashes_differ_def by blast
qed

theorem tables_well_formed_witness:
  "\<exists>s. run_connect plain_env handshake first_shop = Some s \<and> distinct (map store_id (cn_stores (ct_db s)))"
proof (rule handshake_state)
  fix s assume "run_connect plain_env handshake first_shop = Some s" "connect_reachable plain_env [(''t1'', ''Ada'')] (small_shop\<lparr>pf_stores := []\<rparr>) s"
  then show ?thesis using tables_well_formed [of plain_env _ _ s] by blast
qed

section \<open>Tenants\<close>

lemma filter_update_rows: "(\<And>x. x \<in> set rows \<Longrightarrow> H x \<Longrightarrow> \<not> P x \<and> \<not> P (g x)) \<Longrightarrow> filter P (update_rows H g rows) = filter P rows"
  by (induction rows) (auto simp: update_rows_def)

fun run_tenant :: "connect_run \<Rightarrow> string option" where
  "run_tenant (AuthorizeFind dto t) = Some t"
| "run_tenant (AuthorizeCommit dto t p) = Some t"
| "run_tenant (ExchangeCommit dto row name) = cc_tenantId row"
| "run_tenant (DisconnectFind t w) = Some t"
| "run_tenant (DisconnectCommit st) = Some (store_tenantId st)"
| "run_tenant (RotateFind t w reason) = Some t"
| "run_tenant (RotateCommit st reason) = Some (store_tenantId st)"
| "run_tenant r = None"

definition foreign :: "string \<Rightarrow> connect_db \<Rightarrow> store_credential \<Rightarrow> bool" where
  "foreign t db r \<longleftrightarrow> (\<exists>st\<in>set (cn_stores db). store_id st = cr_storeId r \<and> store_tenantId st \<noteq> t)"

definition others_same :: "string \<Rightarrow> connect_db \<Rightarrow> connect_db \<Rightarrow> bool" where
  "others_same t db db' \<longleftrightarrow> filter (\<lambda>st. store_tenantId st \<noteq> t) (cn_stores db') = filter (\<lambda>st. store_tenantId st \<noteq> t) (cn_stores db)
     \<and> filter (foreign t db) (cn_credentials db') = filter (foreign t db) (cn_credentials db)"

lemma own_store:
  assumes "db_ok db" and "(w, t, u) \<in> store_keys db" and "st \<in> set (cn_stores db)" and "store_id st = w"
  shows "store_tenantId st = t"
proof -
  obtain x where x: "x \<in> set (cn_stores db)" "store_id x = w" "store_tenantId x = t" using assms(2) by (auto simp: store_keys_def store_key_def)
  have "store_id st = store_id x" using assms(4) x(2) by simp
  then have "st = x" using assms(1,3) x(1) unfolding db_ok_def distinct_map by (meson inj_onD)
  then show ?thesis using x(3) by simp
qed

lemma revoke_same: "cn_stores (snd (revoke_credentials now w db)) = cn_stores db" "cn_codes (snd (revoke_credentials now w db)) = cn_codes db"
  by (simp_all add: revoke_credentials_def Let_def)

lemma one_store_changes:
  assumes "db_ok db" and "(w, t, u) \<in> store_keys db"
  shows "filter (\<lambda>st. store_tenantId st \<noteq> t) (snd (transition now w to (cn_stores db))) = filter (\<lambda>st. store_tenantId st \<noteq> t) (cn_stores db)"
    and "filter (foreign t db) (cn_credentials (snd (revoke_credentials now w db))) = filter (foreign t db) (cn_credentials db)"
    and "cr_storeId r = w \<Longrightarrow> \<not> foreign t db r"
proof -
  note own = own_store [OF assms]
  show "filter (\<lambda>st. store_tenantId st \<noteq> t) (snd (transition now w to (cn_stores db))) = filter (\<lambda>st. store_tenantId st \<noteq> t) (cn_stores db)"
    unfolding transition_def Let_def snd_conv by (rule filter_update_rows) (auto dest: own)
  show "\<not> foreign t db r" if "cr_storeId r = w" for r using that own by (auto simp: foreign_def)
  then show "filter (foreign t db) (cn_credentials (snd (revoke_credentials now w db))) = filter (foreign t db) (cn_credentials db)"
    by (auto simp: revoke_credentials_def Let_def intro!: filter_update_rows)
qed

lemma run_step_others:
  assumes "db_ok db" and "run_ok env db r" and "unused env i random db" and "run_step env now i random r db = (r', db')"
    and "run_tenant r = Some t"
  shows "others_same t db db'"
proof (cases r)
  case (AuthorizeCommit dto t' p)
  show ?thesis
  proof (cases "authorize_commit env now i random t' p db")
    case (Inr res)
    obtain w re db1 where res: "res = (w, re, db1)" by (cases res)
    obtain c where c: "c \<in> set (cn_codes db)" "cc_id c = pr_id p" "cc_siteUrl c = pr_siteUrl p" using assms(2) by (auto simp: AuthorizeCommit)
    have "others_same t' db db1"
      by (rule authorize_commit_Inr [OF Inr [unfolded res] assms(1,3) c]) (simp add: others_same_def)
    then show ?thesis using assms(4,5) by (auto simp: AuthorizeCommit Inr res others_same_def)
  qed (use assms(4) in \<open>auto simp: AuthorizeCommit others_same_def\<close>)
next
  case (ExchangeCommit dto row name)
  show ?thesis
  proof (cases "exchange_commit env now i random row db")
    case (Inr db1)
    obtain w where w: "cc_storeId row = Some w"
      and db1: "db1 = (let db1 = add_credential env i random w (db\<lparr>cn_codes := update_rows (\<lambda>c. cc_id c = cc_id row \<and> cc_redeemedAt c = None)
        (\<lambda>c. c\<lparr>cc_redeemedAt := Some now\<rparr>) (cn_codes db)\<rparr>) in db1\<lparr>cn_stores := snd (transition now w CONNECTED (cn_stores db1))\<rparr>)"
      by (rule exchange_commit_Inr [OF Inr]) blast
    obtain c where c: "c \<in> set (cn_codes db)" "same_code c row" "granted env dto row" using assms(2) by (auto simp: ExchangeCommit)
    have "(w, t, cc_siteUrl c) \<in> store_keys db"
      using ok_code [OF assms(1) c(1)] same_code_parts(6,7,8) [OF c(2)] granted_hash [OF c(3)] w assms(5)
      by (auto simp: ExchangeCommit code_ok_def)
    note one = one_store_changes [OF assms(1) this]
    have "others_same t db db1"
      using one(1) one(3) by (simp add: others_same_def db1 Let_def add_credential_def generateStoreToken_def)
    then show ?thesis using assms(4) by (auto simp: ExchangeCommit Inr others_same_def)
  qed (use assms(4) in \<open>auto simp: ExchangeCommit others_same_def\<close>)
next
  case (DisconnectCommit st)
  show ?thesis
  proof (cases "disconnect_commit now st db")
    case (Inr res)
    obtain n db1 where res: "res = (n, db1)" by (cases res)
    have "(store_id st, t, storeUrl st) \<in> store_keys db" using assms(2,5) by (auto simp: DisconnectCommit store_key_def)
    note one = one_store_changes [OF assms(1) this]
    have "others_same t db db1"
      unfolding disconnect_commit_Inr [OF Inr [unfolded res]] using one by (simp add: others_same_def recordStorage_def)
    then show ?thesis using assms(4) by (auto simp: DisconnectCommit Inr res others_same_def disconnected_event_def)
  qed (use assms(4) in \<open>auto simp: DisconnectCommit others_same_def\<close>)
next
  case (RotateCommit st reason)
  have "(store_id st, t, storeUrl st) \<in> store_keys db" using assms(2,5) by (auto simp: RotateCommit store_key_def)
  note one = one_store_changes [OF assms(1) this]
  have "others_same t db (rotate_commit env now i random (store_id st) db)"
    using one by (simp add: others_same_def rotate_commit_def add_credential_def generateStoreToken_def revoke_same)
  then show ?thesis using assms(4) by (auto simp: RotateCommit others_same_def generateStoreToken_def rotated_event_def)
qed (use assms(4,5) in \<open>auto simp: others_same_def split: option.splits if_splits\<close>)


text \<open>Two tenants with a shop each; the second is about to be approved.\<close>

definition two_shops :: "connect_action list" where
  "two_shops = handshake @ [Initiate 8 ''r2'' (first_request\<lparr>in_site_url := ''https://b.shop'', in_callback := ''https://b.shop'',
     in_push_url := None\<rparr>), StartAuthorize \<lparr>au_request = ''r2'', au_state = ''st''\<rparr> ''t2'', Next 3 9 ''x5'' ''y5'']"

lemma two_shops_run:
  "case run_connect plain_env two_shops first_shop of None \<Rightarrow> False
   | Some s \<Rightarrow> run_tenant (ct_runs s ! 3) = Some ''t2''
       \<and> (case connect_perform plain_env (Next 3 10 ''w2'' ''code2'') s of None \<Rightarrow> False
          | Some s' \<Rightarrow> map store_tenantId (cn_stores (ct_db s')) = [''t1'', ''t2''])"
  by code_simp


section \<open>Disconnected\<close>

definition db_closed :: "string \<Rightarrow> connect_db \<Rightarrow> bool" where
  "db_closed w db \<longleftrightarrow> w \<in> store_id ` set (cn_stores db)
     \<and> (\<forall>st\<in>set (cn_stores db). store_id st = w \<longrightarrow> store_status st = DISCONNECTED)
     \<and> (\<forall>r\<in>set (cn_credentials db). cr_storeId r = w \<longrightarrow> cr_revokedAt r \<noteq> None)
     \<and> (\<forall>c\<in>set (cn_codes db). cc_storeId c = Some w \<longrightarrow> cc_redeemedAt c \<noteq> None)"

fun rotating :: "string \<Rightarrow> connect_run \<Rightarrow> bool" where
  "rotating w (RotateCommit st reason) \<longleftrightarrow> store_id st = w"
| "rotating w r \<longleftrightarrow> False"

definition reconnecting :: "string \<Rightarrow> connect_db \<Rightarrow> bool" where
  "reconnecting w db \<longleftrightarrow> (\<exists>st\<in>set (cn_stores db). store_id st = w \<and> store_status st = CONNECTING)"

definition closed_view :: "connect_db \<Rightarrow> (string \<times> store_status) list \<times> (string \<times> int option) list \<times> (string option \<times> int option) list" where
  "closed_view db = (map (\<lambda>s. (store_id s, store_status s)) (cn_stores db), map (\<lambda>r. (cr_storeId r, cr_revokedAt r)) (cn_credentials db),
     map (\<lambda>c. (cc_storeId c, cc_redeemedAt c)) (cn_codes db))"

lemma db_closed_view:
  "db_closed w db \<longleftrightarrow> w \<in> fst ` set (fst (closed_view db)) \<and> (\<forall>(v, st)\<in>set (fst (closed_view db)). v = w \<longrightarrow> st = DISCONNECTED)
     \<and> (\<forall>(v, t)\<in>set (fst (snd (closed_view db))). v = w \<longrightarrow> t \<noteq> None)
     \<and> (\<forall>(v, t)\<in>set (snd (snd (closed_view db))). v = Some w \<longrightarrow> t \<noteq> None)"
  by (simp add: db_closed_def closed_view_def image_image)

lemma closed_view_eq: "closed_view db' = closed_view db \<Longrightarrow> db_closed w db' = db_closed w db"
  by (simp add: db_closed_view)

lemma closed_view_rows [simp]:
  "closed_view (record_event x db) = closed_view db" "closed_view (recordStorage now t db) = closed_view db"
  "closed_view (recordChange e keys db) = closed_view db" "closed_view (disconnected_event tn st n db) = closed_view db"
  "closed_view (rotated_event tn st p r db) = closed_view db" "closed_view (touchLastUsed now c db) = closed_view db"
  "closed_view (record_telemetry now v dto db) = closed_view db" "closed_view (report_storage now st b db) = closed_view db"
  "closed_view (report_state st cl db) = closed_view db" "closed_view (report_schema st dto db) = closed_view db"
  by (simp_all add: closed_view_def record_event_def recordStorage_def recordChange_def disconnected_event_def rotated_event_def
      touchLastUsed_def record_telemetry_def report_storage_def report_state_def report_schema_def update_rows_def split: option.split)

lemma heartbeat_closed: "heartbeat env now v dto db = Inr (res, db') \<Longrightarrow> closed_view db' = closed_view db"
  by (auto simp: heartbeat_def Let_def split: option.splits prod.splits)

lemma admit_closed: "admit env now authorization header db = (res, db') \<Longrightarrow> closed_view db' = closed_view db"
  by (auto simp: admit_def store_token_guard_def site_mismatch_def Let_def split: sum.splits option.splits prod.splits if_splits)

definition admitted :: "connect_env \<Rightarrow> int \<Rightarrow> string option \<Rightarrow> string \<Rightarrow> connect_db \<Rightarrow> bool" where
  "admitted env now authorization w db \<longleftrightarrow> (case store_token_guard env now authorization db of Inl e \<Rightarrow> False | Inr (st, db') \<Rightarrow> store_id st = w)"

lemma closed_refuses:
  assumes "db_closed w db" and "store_token_guard env now authorization db = Inr (st, db')"
  shows "store_id st \<noteq> w"
proof -
  obtain r where r: "select_credential env (bearerToken authorization) db = Some (r, st)" "cr_revokedAt r = None"
    using assms(2) by (auto simp: store_token_guard_def Let_def split: if_splits option.splits)
  then have "r \<in> set (cn_credentials db)" "store_id st = cr_storeId r"
    unfolding select_credential_def find_row_def by (auto dest!: find_Some_in)
  then show ?thesis using assms(1) r(2) by (auto simp: db_closed_def)
qed

lemma closed_run_step:
  assumes "db_ok db" and "run_ok env db r" and "unused env i random db" and "run_step env now i random r db = (r', db')"
    and "db_closed w db" and "\<not> rotating w r"
  shows "(db_closed w db' \<and> \<not> rotating w r') \<or> reconnecting w db'"
proof (cases r)
  case (AuthorizeCommit dto t p)
  show ?thesis
  proof (cases "authorize_commit env now i random t p db")
    case (Inr res)
    obtain v re db1 where res: "res = (v, re, db1)" by (cases res)
    obtain c where c: "c \<in> set (cn_codes db)" "cc_id c = pr_id p" "cc_siteUrl c = pr_siteUrl p" using assms(2) by (auto simp: AuthorizeCommit)
    obtain stores where db1: "db1 = db\<lparr>cn_stores := stores, cn_codes := update_rows (\<lambda>x. cc_id x = cc_id c) (approve now (hashToken env random) t v) (cn_codes db)\<rparr>"
      and st: "\<And>s. s \<in> set stores \<Longrightarrow> store_id s = v \<Longrightarrow> store_status s = CONNECTING" "v \<in> store_id ` set stores"
        "\<And>s. s \<in> set stores \<Longrightarrow> store_id s \<noteq> v \<Longrightarrow> s \<in> set (cn_stores db)" and ev: "evolves db db1"
      by (rule authorize_commit_Inr [OF Inr [unfolded res] assms(1,3) c]) blast
    show ?thesis
    proof (cases "v = w")
      case True
      then have "reconnecting w db1" using st(1,2) by (auto simp: reconnecting_def db1)
      then show ?thesis using assms(4) by (auto simp: AuthorizeCommit Inr res reconnecting_def)
    next
      case False
      have "w \<in> store_id ` set stores"
        using assms(5) ev by (force simp: db_closed_def evolves_def store_keys_def store_key_def db1)
      then have "db_closed w db1" using assms(5) st(3) False by (auto simp: db_closed_def db1 ball_update_rows approve_def)
      then have "db_closed w db'" using assms(4) by (auto simp: AuthorizeCommit Inr res closed_view_eq [OF closed_view_rows(1)])
      then show ?thesis using assms(4) by (auto simp: AuthorizeCommit Inr res)
    qed
  qed (use assms(4,5) in \<open>auto simp: AuthorizeCommit\<close>)
next
  case (ExchangeCommit dto row name)
  show ?thesis
  proof (cases "exchange_commit env now i random row db")
    case (Inr db1)
    obtain c v where c: "c \<in> set (cn_codes db)" "cc_id c = cc_id row" "cc_redeemedAt c = None" "cc_storeId row = Some v"
      and db1: "db1 = (let db1 = add_credential env i random v (db\<lparr>cn_codes := update_rows (\<lambda>c. cc_id c = cc_id row \<and> cc_redeemedAt c = None)
        (\<lambda>c. c\<lparr>cc_redeemedAt := Some now\<rparr>) (cn_codes db)\<rparr>) in db1\<lparr>cn_stores := snd (transition now v CONNECTED (cn_stores db1))\<rparr>)"
      by (rule exchange_commit_Inr [OF Inr]) blast
    obtain d where d: "d \<in> set (cn_codes db)" "same_code d row" using assms(2) by (auto simp: ExchangeCommit)
    have "d = c" using code_by_id [OF assms(1) d(1) c(1)] same_code_parts(1) [OF d(2)] c(2) by simp
    then have "cc_storeId c = Some v" using same_code_parts(8) [OF d(2)] c(4) by simp
    then have "v \<noteq> w" using assms(5) c(1,3) by (auto simp: db_closed_def)
    moreover have "map store_id (snd (transition now v CONNECTED (cn_stores db))) = map store_id (cn_stores db)"
      by (simp add: transition_def Let_def update_rows_def)
    then have "store_id ` set (snd (transition now v CONNECTED (cn_stores db))) = store_id ` set (cn_stores db)" by (metis list.set_map)
    ultimately have "db_closed w db1"
      using assms(5) by (auto simp: db1 Let_def db_closed_def add_credential_def generateStoreToken_def transition_def ball_update_rows in_update_rows)
    then have "db_closed w db'" using assms(4) by (auto simp: ExchangeCommit Inr closed_view_eq [OF closed_view_rows(1)])
    then show ?thesis using assms(4) by (auto simp: ExchangeCommit Inr)
  qed (use assms(4,5) in \<open>auto simp: ExchangeCommit\<close>)
next
  case (DisconnectCommit st)
  show ?thesis
  proof (cases "disconnect_commit now st db")
    case (Inr res)
    obtain n db1 where res: "res = (n, db1)" by (cases res)
    have "map store_id (snd (transition now (store_id st) DISCONNECTED (cn_stores db))) = map store_id (cn_stores db)"
      by (simp add: transition_def Let_def update_rows_def)
    then have "store_id ` set (snd (transition now (store_id st) DISCONNECTED (cn_stores db))) = store_id ` set (cn_stores db)"
      by (metis list.set_map)
    then have "db_closed w db1"
      using assms(5) unfolding disconnect_commit_Inr [OF Inr [unfolded res]]
      by (auto simp: db_closed_def recordStorage_def revoke_credentials_def transition_def Let_def ball_update_rows in_update_rows)
    then have "db_closed w db'" using assms(4) by (auto simp: DisconnectCommit Inr res closed_view_eq [OF closed_view_rows(4)])
    then show ?thesis using assms(4) by (auto simp: DisconnectCommit Inr res)
  qed (use assms(4,5) in \<open>auto simp: DisconnectCommit\<close>)
next
  case (RotateFind t v reason)
  then show ?thesis using assms(4,5) find_store_Some(1,2) [of t v db]
    by (auto simp: db_closed_def may_rotate_def split: option.splits if_splits)
next
  case (RotateCommit st reason)
  have "db_closed w (rotate_commit env now i random (store_id st) db)"
    using assms(5,6) by (auto simp: RotateCommit db_closed_def rotate_commit_def add_credential_def generateStoreToken_def revoke_credentials_def
        Let_def ball_update_rows)
  then have "db_closed w db'" using assms(4)
    by (auto simp: RotateCommit generateStoreToken_def closed_view_eq [OF closed_view_rows(5)])
  then show ?thesis using assms(4) by (auto simp: RotateCommit generateStoreToken_def)
qed (use assms(4,5) in \<open>auto split: option.splits sum.splits bool.splits if_splits\<close>)

definition closed :: "string \<Rightarrow> connect_state \<Rightarrow> bool" where
  "closed w s \<longleftrightarrow> db_closed w (ct_db s) \<and> (\<forall>r\<in>set (ct_runs s). \<not> rotating w r)"

lemma closed_step:
  assumes "connect_inv env s" and "closed w s" and "connect_perform env a s = Some s'" and "\<not> reconnecting w (ct_db s')"
  shows "closed w s'"
proof (cases a)
  case (Initiate now i dto)
  show ?thesis
  proof (cases "initiate env now i dto (ct_db s)")
    case (Inr res)
    obtain to db where res: "res = (to, db)" by (cases res)
    have "db_closed w db" using Inr assms(2)
      by (auto simp: res initiate_def Let_def closed_def db_closed_def split: option.splits if_splits)
    then show ?thesis using assms(2,3) by (auto simp: Initiate Inr res closed_def split: if_splits)
  qed (use assms(2,3) in \<open>auto simp: Initiate split: if_splits\<close>)
next
  case (Heartbeat now authorization header dto)
  obtain res db where adm: "admit env now authorization header (ct_db s) = (res, db)"
    by (cases "admit env now authorization header (ct_db s)")
  note v = closed_view_eq [OF admit_closed [OF adm]]
  show ?thesis using assms(2,3) v closed_view_eq [OF heartbeat_closed]
    by (auto simp: Heartbeat adm closed_def split: sum.splits)
next
  case (PluginDisconnect now authorization header)
  obtain res db where adm: "admit env now authorization header (ct_db s) = (res, db)"
    by (cases "admit env now authorization header (ct_db s)")
  show ?thesis using assms(2,3) closed_view_eq [OF admit_closed [OF adm]]
    by (auto simp: PluginDisconnect adm closed_def split: sum.splits)
next
  case (Next n now i random)
  obtain r db where step: "run_step env now i random (ct_runs s ! n) (ct_db s) = (r, db)"
    by (cases "run_step env now i random (ct_runs s ! n) (ct_db s)")
  then have n: "n < length (ct_runs s)" and fresh: "unused env i random (ct_db s)"
    and s': "s' = \<lparr>ct_db = db, ct_runs = (ct_runs s)[n := r]\<rparr>"
    using assms(3) by (auto simp: Next Let_def split: if_splits prod.splits)
  have ok: "db_ok (ct_db s)" "run_ok env (ct_db s) (ct_runs s ! n)" using assms(1) n by (simp_all add: connect_inv_def)
  have "db_closed w (ct_db s)" "\<not> rotating w (ct_runs s ! n)" using assms(2) n by (simp_all add: closed_def)
  from closed_run_step [OF ok fresh step this] assms(4) have "db_closed w db" "\<not> rotating w r" by (auto simp: s')
  then show ?thesis using assms(2) set_update_subset_insert [of "ct_runs s" n r] by (auto simp: closed_def s')
qed (use assms(2,3) in \<open>auto simp: closed_def\<close>)

text \<open>Requests in the course of which no handshake for the store is approved.\<close>

inductive undisturbed :: "connect_env \<Rightarrow> string \<Rightarrow> connect_state \<Rightarrow> connect_state \<Rightarrow> bool" for env w where
  Stay: "undisturbed env w s s"
| Go: "undisturbed env w s s' \<Longrightarrow> connect_perform env a s' = Some s'' \<Longrightarrow> \<not> reconnecting w (ct_db s'') \<Longrightarrow> undisturbed env w s s''"

lemma closed_undisturbed:
  "undisturbed env w s s' \<Longrightarrow> connect_inv env s \<Longrightarrow> closed w s \<Longrightarrow> closed w s' \<and> connect_inv env s'"
proof (induction rule: undisturbed.induct)
  case (Go s s' a s'')
  then show ?case using closed_step connect_inv_step by blast
qed blast

lemma disconnect_closes:
  assumes "db_ok db" and "store_key st \<in> store_keys db" and "disconnect_commit now st db = Inr (n, db')"
  shows "db_closed (store_id st) db'"
proof -
  let ?w = "store_id st"
  have "?w \<in> store_id ` set (cn_stores db)" using assms(2) by (force simp: store_keys_def store_key_def)
  moreover have "map store_id (snd (transition now ?w DISCONNECTED (cn_stores db))) = map store_id (cn_stores db)"
    by (simp add: transition_def Let_def update_rows_def)
  then have "store_id ` set (snd (transition now ?w DISCONNECTED (cn_stores db))) = store_id ` set (cn_stores db)"
    by (metis list.set_map)
  moreover have "canTransition x DISCONNECTED" for x by (cases x) (simp_all add: canTransition_def)
  ultimately show ?thesis
    unfolding disconnect_commit_Inr [OF assms(3)]
    by (auto simp: db_closed_def recordStorage_def revoke_credentials_def transition_def Let_def ball_update_rows in_update_rows)
qed

text \<open>
  C6. A disconnect ends access: once the transaction that disconnects a store has committed, no token is
  admitted for the store any more, whatever requests run, in progress or new, until a merchant approves the
  store again; unless a rotation of its credential had already passed its check when the disconnect
  committed.
\<close>

theorem disconnect_ends_access:
  assumes "connect_reachable env tenants pf s" and "ct_runs s ! n = DisconnectCommit store"
    and "connect_perform env (Next n now i random) s = Some s1" and "ct_runs s1 ! n = DisconnectDone w (Inr revoked)"
    and "\<forall>r\<in>set (ct_runs s). \<not> rotating w r" and "undisturbed env w s1 s2"
  shows "\<not> admitted env later authorization w (ct_db s2)"
proof -
  obtain r db1 where step: "run_step env now i random (ct_runs s ! n) (ct_db s) = (r, db1)"
    by (cases "run_step env now i random (ct_runs s ! n) (ct_db s)")
  then have n: "n < length (ct_runs s)" and s1: "s1 = \<lparr>ct_db = db1, ct_runs = (ct_runs s)[n := r]\<rparr>"
    using assms(3) by (auto simp: Let_def split: if_splits prod.splits)
  have r: "r = DisconnectDone w (Inr revoked)" using assms(4) n by (simp add: s1)
  obtain db2 where commit: "disconnect_commit now store (ct_db s) = Inr (revoked, db2)" and w: "store_id store = w"
    and db1: "db1 = disconnected_event (Some (store_tenantId store)) store revoked db2"
    using step by (auto simp: assms(2) r split: sum.splits prod.splits)
  have inv: "connect_inv env s" by (rule connect_reachable_inv [OF assms(1)])
  have "DisconnectCommit store \<in> set (ct_runs s)" using nth_mem [OF n] assms(2) by simp
  then have "db_ok (ct_db s)" "store_key store \<in> store_keys (ct_db s)" using inv by (auto simp: connect_inv_def)
  from disconnect_closes [OF this commit] have "db_closed w db1" by (simp add: db1 w closed_view_eq [OF closed_view_rows(4)])
  then have "closed w s1" using assms(5) set_update_subset_insert [of "ct_runs s" n r] by (auto simp: closed_def s1 r)
  then have "closed w s2" using closed_undisturbed [OF assms(6) connect_inv_step [OF inv assms(3)]] by blast
  then have "db_closed w (ct_db s2)" by (simp add: closed_def)
  then show ?thesis using closed_refuses by (auto simp: admitted_def split: sum.splits)
qed

text \<open>The shop is disconnected while the plugin presents its token and a second exchange waits.\<close>

definition token1 :: "string option" where "token1 = Some ''Bearer osk_live_tok1''"

definition before_disconnect :: "connect_action list" where
  "before_disconnect = handshake @ [StartDisconnect ''t1'' ''w1'', Next 3 8 ''x5'' ''y5'']"

lemma disconnect_run:
  "case run_connect plain_env before_disconnect first_shop of None \<Rightarrow> False
   | Some s \<Rightarrow> (\<exists>store. ct_runs s ! 3 = DisconnectCommit store) \<and> list_all (\<lambda>r. \<not> rotating ''w1'' r) (ct_runs s)
       \<and> admitted plain_env 9 token1 ''w1'' (ct_db s)
       \<and> (case connect_perform plain_env (Next 3 9 ''x6'' ''y6'') s of None \<Rightarrow> False
          | Some s1 \<Rightarrow> ct_runs s1 ! 3 = DisconnectDone ''w1'' (Inr 1)
              \<and> (case connect_perform plain_env (StartExchange first_exchange) s1 of None \<Rightarrow> False
                 | Some s2 \<Rightarrow> \<not> list_ex (\<lambda>st. store_id st = ''w1'' \<and> store_status st = CONNECTING) (cn_stores (ct_db s2))))"
proof -
  have "case run_connect plain_env before_disconnect first_shop of None \<Rightarrow> False
   | Some s \<Rightarrow> (case ct_runs s ! 3 of DisconnectCommit store \<Rightarrow> True | _ \<Rightarrow> False) \<and> list_all (\<lambda>r. \<not> rotating ''w1'' r) (ct_runs s)
       \<and> admitted plain_env 9 token1 ''w1'' (ct_db s)
       \<and> (case connect_perform plain_env (Next 3 9 ''x6'' ''y6'') s of None \<Rightarrow> False
          | Some s1 \<Rightarrow> ct_runs s1 ! 3 = DisconnectDone ''w1'' (Inr 1)
              \<and> (case connect_perform plain_env (StartExchange first_exchange) s1 of None \<Rightarrow> False
                 | Some s2 \<Rightarrow> \<not> list_ex (\<lambda>st. store_id st = ''w1'' \<and> store_status st = CONNECTING) (cn_stores (ct_db s2))))"
    by code_simp
  then show ?thesis by (auto split: option.splits connect_run.splits simp del: connect_perform.simps)
qed

theorem disconnect_ends_access_witness:
  "\<exists>s s2. run_connect plain_env before_disconnect first_shop = Some s \<and> admitted plain_env 9 token1 ''w1'' (ct_db s)
    \<and> run_connect plain_env [Next 3 9 ''x6'' ''y6'', StartExchange first_exchange] s = Some s2
    \<and> \<not> admitted plain_env 10 token1 ''w1'' (ct_db s2)"
proof -
  obtain s store s1 s2 where s: "run_connect plain_env before_disconnect first_shop = Some s" "ct_runs s ! 3 = DisconnectCommit store"
    "list_all (\<lambda>r. \<not> rotating ''w1'' r) (ct_runs s)" "admitted plain_env 9 token1 ''w1'' (ct_db s)"
    and s1: "connect_perform plain_env (Next 3 9 ''x6'' ''y6'') s = Some s1" "ct_runs s1 ! 3 = DisconnectDone ''w1'' (Inr 1)"
    and s2: "connect_perform plain_env (StartExchange first_exchange) s1 = Some s2"
      "\<not> list_ex (\<lambda>st. store_id st = ''w1'' \<and> store_status st = CONNECTING) (cn_stores (ct_db s2))"
    using disconnect_run by (auto split: option.splits simp del: connect_perform.simps)
  have reach: "connect_reachable plain_env [(''t1'', ''Ada'')] (small_shop\<lparr>pf_stores := []\<rparr>) s"
    using run_connect_reachable [OF connect_reachable.Start s(1) [unfolded first_shop_def]] .
  have "undisturbed plain_env ''w1'' s1 s2"
    by (rule undisturbed.Go [OF undisturbed.Stay s2(1)]) (use s2(2) in \<open>auto simp: reconnecting_def list_ex_iff\<close>)
  then have "\<not> admitted plain_env 10 token1 ''w1'' (ct_db s2)"
    using disconnect_ends_access [OF reach s(2) s1] s(3) unfolding list_all_iff by blast
  moreover have "run_connect plain_env [Next 3 9 ''x6'' ''y6'', StartExchange first_exchange] s = Some s2"
    using s1(1) s2(1) by (simp del: connect_perform.simps)
  ultimately show ?thesis using s(1,4) by (intro exI [of _ s] exI [of _ s2] conjI)
qed

section \<open>What a disconnect does not stop\<close>

text \<open>
  A rotation reads the store, finds it connected, and writes later without looking again. When the
  disconnect commits in between, the rotation still mints a credential: the store is disconnected and its
  new token is admitted.
\<close>

definition late_rotation :: "connect_action list" where
  "late_rotation = handshake @ [StartRotate ''t1'' ''w1'' None, Next 3 8 ''x5'' ''y5'', StartDisconnect ''t1'' ''w1'',
     Next 4 9 ''x6'' ''y6'', Next 4 10 ''x7'' ''y7'', Next 3 11 ''k3'' ''tok3'']"

lemma rotation_outlives_disconnect:
  "case run_connect plain_env late_rotation first_shop of None \<Rightarrow> False
   | Some s \<Rightarrow> map store_status (cn_stores (ct_db s)) = [DISCONNECTED] \<and> ct_runs s ! 4 = DisconnectDone ''w1'' (Inr 1)
       \<and> admitted plain_env 12 (Some ''Bearer osk_live_tok3'') ''w1'' (ct_db s)"
  by code_simp

text \<open>
  No store ever has a push address: the request that carries one is read without it. So no push is queued
  when the content of a store changes.
\<close>

lemma no_push_url:
  assumes "connect_reachable env tenants pf s" and "st \<in> set (cn_stores (ct_db s))"
  shows "pushUrl st = None" and "pf_pushes (enqueuePush (Some (store_row.truncate st)) v db) = pf_pushes db"
proof -
  show "pushUrl st = None" using connect_reachable_inv [OF assms(1)] assms(2) by (auto simp: connect_inv_def db_ok_def)
  then show "pf_pushes (enqueuePush (Some (store_row.truncate st)) v db) = pf_pushes db"
    by (simp add: enqueuePush_def store_row.defs)
qed

text \<open>
  A site that is no address makes the exchange fail with another error than every other refusal, and only
  for a caller whose code and verifier are right.
\<close>

lemma malformed_site_tells:
  assumes "run_step env now i random (ExchangeFind dto) db = (ExchangeDone dto (Inl (Failure e)), db')"
  shows "\<exists>c\<in>set (cn_codes db). cc_codeHash c = Some (hashToken env (ex_code dto)) \<and> cc_redeemedAt c = None
    \<and> pkceChallenge env (ex_verifier dto) = cc_challenge c"
proof -
  obtain row name where row: "select_code env (ex_code dto) db = Some (row, name)" "code_open env now dto row = Inl (Failure e)"
    using assms by (auto split: option.splits sum.splits bool.splits)
  then have "cc_redeemedAt row = None" "pkceChallenge env (ex_verifier dto) = cc_challenge row"
    by (auto simp: code_open_def tokensMatch_def split: if_splits)
  then show ?thesis using select_code_Some [OF row(1)] by blast
qed

end
