(* ===== verification/Duplication.thy ===== *)
theory Duplication
  imports Store_Writes
begin

text \<open>
  Copying an option set with everything under it: \<open>duplicate\<close> of \<open>src/option-sets/option-sets.service.ts\<close>,
  \<open>copyOptionsInto\<close> and \<open>copyRulesInto\<close> of \<open>src/option-sets/option-groups.service.ts\<close> and the field lists of
  \<open>src/option-sets/duplication.ts\<close>. The keys the database hands out are \<open>new_id 0\<close>, \<open>new_id 1\<close> and so on;
  the state of the traversal carries the next one, the tables and the map from a source row to its copy.
\<close>

section \<open>What a copy inherits\<close>

text \<open>
  A field list is spread over a row that has the fields its caller decides. The option of a copied
  group is written out field by field in \<open>copyOptionsInto\<close>; the column it leaves out keeps its default.
\<close>

definition copyableOptionFields :: "option_entity \<Rightarrow> option_entity \<Rightarrow> option_entity" where
  "copyableOptionFields source row = row\<lparr>oe_valueKind := oe_valueKind source, oe_cardinality := oe_cardinality source,
     presentation := presentation source, oe_description := oe_description source, placeholder := placeholder source,
     helpText := helpText source, isRequired := isRequired source, defaultValue := defaultValue source,
     oe_validation := oe_validation source, oe_pricing := oe_pricing source, oe_display := oe_display source,
     textDesign := textDesign source, oe_isEnabled := oe_isEnabled source\<rparr>"

definition copyableValueFields :: "value_entity \<Rightarrow> value_entity \<Rightarrow> value_entity" where
  "copyableValueFields source row = row\<lparr>ve_priceType := ve_priceType source, ve_priceAmountMinor := ve_priceAmountMinor source,
     ve_priceConfig := ve_priceConfig source, imageUrl := imageUrl source, colorHex := colorHex source,
     ve_design := ve_design source, groupLabel := groupLabel source, skuSuffix := skuSuffix source,
     weightDeltaGrams := weightDeltaGrams source, ve_isEnabled := ve_isEnabled source\<rparr>"

definition copyableItemFields :: "item_entity \<Rightarrow> item_entity \<Rightarrow> item_entity" where
  "copyableItemFields source row = row\<lparr>ie_kind := ie_kind source, ie_content := ie_content source,
     ie_sortOrder := ie_sortOrder source, ie_display := ie_display source\<rparr>"

definition copyableRuleFields :: "rule_entity \<Rightarrow> rule_entity \<Rightarrow> rule_entity" where
  "copyableRuleFields source row = row\<lparr>re_rule := (re_rule row)\<lparr>sr_targetType := sr_targetType (re_rule source),
     sr_action := sr_action (re_rule source), sr_actionValue := sr_actionValue (re_rule source),
     sr_matchType := sr_matchType (re_rule source), sr_sortOrder := sr_sortOrder (re_rule source)\<rparr>,
     re_isEnabled := re_isEnabled source, re_disabledReason := re_disabledReason source\<rparr>"

text \<open>Rows before a field list is spread over them: the columns the database fills in.\<close>

definition new_option :: "string \<Rightarrow> string \<Rightarrow> string \<Rightarrow> jsnum \<Rightarrow> option_entity" where
  "new_option i key label sortOrder = \<lparr>oe_id = i, oe_key = key, oe_valueKind = '''', oe_cardinality = '''', presentation = '''',
     oe_label = label, oe_description = None, placeholder = None, helpText = None, isRequired = False, oe_isEnabled = True,
     oe_sortOrder = sortOrder, defaultValue = None, oe_validation = JNull, oe_pricing = JNull, oe_display = JNull,
     textDesign = JNull, oe_values = []\<rparr>"

definition new_value :: "string \<Rightarrow> string \<Rightarrow> string \<Rightarrow> jsnum \<Rightarrow> bool \<Rightarrow> value_entity" where
  "new_value i key label sortOrder standard = \<lparr>ve_id = i, valueKey = key, ve_label = label, ve_sortOrder = sortOrder,
     ve_priceType = ''fixed'', ve_priceAmountMinor = Fin 0, ve_priceConfig = JNull, imageUrl = None, colorHex = None,
     ve_design = JNull, groupLabel = None, skuSuffix = None, weightDeltaGrams = None, isDefault = standard,
     ve_isEnabled = True\<rparr>"

definition live_row :: "string \<Rightarrow> 'e \<Rightarrow> 'e child_row" where
  "live_row parent e = \<lparr>row_parent = parent, row_deletedAt = LIVE_SENTINEL, row_entity = e\<rparr>"

section \<open>The traversal\<close>

record copying =
  cp_db :: authoring_db
  cp_next :: nat
  idMap :: "(string, string) js_map"

text \<open>The queries order by \<open>sortOrder\<close> alone; rows that tie come as the tables hold them.\<close>

definition find_in_order :: "('e \<Rightarrow> sort_position) \<Rightarrow> string list \<Rightarrow> 'e child_row list \<Rightarrow> 'e child_row list" where
  "find_in_order pos parents rows = sort_key (\<lambda>r. sort_order (pos (row_entity r)))
     (filter (\<lambda>r. row_parent r \<in> set parents \<and> row_deletedAt r = LIVE_SENTINEL) rows)"

definition copy_value :: "string \<Rightarrow> value_entity \<Rightarrow> value_entity" where
  "copy_value i v = copyableValueFields v (new_value i (valueKey v) (ve_label v) (ve_sortOrder v) (isDefault v))"

definition copy_option :: "string \<Rightarrow> option_entity \<Rightarrow> option_entity" where
  "copy_option i opt = (new_option i (oe_key opt) (oe_label opt) (oe_sortOrder opt))\<lparr>oe_valueKind := oe_valueKind opt,
     oe_cardinality := oe_cardinality opt, presentation := presentation opt, oe_description := oe_description opt,
     placeholder := placeholder opt, helpText := helpText opt, isRequired := isRequired opt,
     defaultValue := defaultValue opt, oe_validation := oe_validation opt, oe_pricing := oe_pricing opt,
     oe_display := oe_display opt, oe_isEnabled := oe_isEnabled opt\<rparr>"

definition copy_item :: "string \<Rightarrow> item_entity \<Rightarrow> item_entity" where
  "copy_item i item = copyableItemFields item \<lparr>ie_id = i, ie_kind = '''', ie_content = '''', ie_sortOrder = Fin 0, ie_display = JNull\<rparr>"

definition copy_group :: "string \<Rightarrow> group_entity \<Rightarrow> group_entity" where
  "copy_group i g = \<lparr>ge_id = i, ge_label = ge_label g, ge_description = ge_description g, displayType = displayType g,
     ge_sortOrder = ge_sortOrder g, isCollapsible = isCollapsible g, ge_isEnabled = ge_isEnabled g, ge_items = [], ge_options = []\<rparr>"

definition save_value :: "(nat \<Rightarrow> string) \<Rightarrow> string \<Rightarrow> value_entity \<Rightarrow> copying \<Rightarrow> copying" where
  "save_value new_id optionId v st =
     (let i = new_id (cp_next st) in
      st\<lparr>cp_db := (cp_db st)\<lparr>db_values := db_values (cp_db st) @ [live_row optionId (copy_value i v)]\<rparr>,
        cp_next := Suc (cp_next st), idMap := map_set (ve_id v) i (idMap st)\<rparr>)"

definition save_option :: "(nat \<Rightarrow> string) \<Rightarrow> string \<Rightarrow> (string, value_entity list) js_map \<Rightarrow> option_entity \<Rightarrow> copying \<Rightarrow> copying" where
  "save_option new_id toGroupId valuesByOption opt st =
     (let i = new_id (cp_next st);
          st1 = st\<lparr>cp_db := (cp_db st)\<lparr>db_options := db_options (cp_db st) @ [live_row toGroupId (copy_option i opt)]\<rparr>,
            cp_next := Suc (cp_next st), idMap := map_set (oe_id opt) i (idMap st)\<rparr>
      in fold (save_value new_id i) (bucket_of valuesByOption (oe_id opt)) st1)"

definition save_item :: "(nat \<Rightarrow> string) \<Rightarrow> string \<Rightarrow> item_entity \<Rightarrow> copying \<Rightarrow> copying" where
  "save_item new_id toGroupId item st =
     st\<lparr>cp_db := (cp_db st)\<lparr>db_items := db_items (cp_db st) @ [live_row toGroupId (copy_item (new_id (cp_next st)) item)]\<rparr>,
       cp_next := Suc (cp_next st)\<rparr>"

definition copyOptionsInto :: "(nat \<Rightarrow> string) \<Rightarrow> string \<Rightarrow> string \<Rightarrow> copying \<Rightarrow> copying" where
  "copyOptionsInto new_id fromGroupId toGroupId st =
     (let options = find_in_order option_position [fromGroupId] (db_options (cp_db st)) in
      if options = [] then st
      else let vals = find_in_order value_position (map (\<lambda>r. oe_id (row_entity r)) options) (db_values (cp_db st));
               st1 = fold (save_option new_id toGroupId (groupBy vals)) (map row_entity options) st;
               items = find_in_order item_position [fromGroupId] (db_items (cp_db st1))
           in fold (save_item new_id toGroupId) (map row_entity items) st1)"

definition save_group :: "(nat \<Rightarrow> string) \<Rightarrow> string \<Rightarrow> group_entity \<Rightarrow> copying \<Rightarrow> copying" where
  "save_group new_id toSetId g st =
     (let i = new_id (cp_next st);
          st1 = st\<lparr>cp_db := (cp_db st)\<lparr>db_groups := db_groups (cp_db st) @ [live_row toSetId (copy_group i g)]\<rparr>,
            cp_next := Suc (cp_next st), idMap := map_set (ge_id g) i (idMap st)\<rparr>
      in copyOptionsInto new_id (ge_id g) i st1)"

section \<open>Rules\<close>

fun with_key :: "jsval \<Rightarrow> string \<Rightarrow> jsval \<Rightarrow> jsval" where
  "with_key (JObj kvs) k v = JObj (map_set k v kvs)"
| "with_key c k v = c"

fun remap_each :: "(string, string) js_map \<Rightarrow> jsval list \<Rightarrow> jsval list option" where
  "remap_each m [] = Some []"
| "remap_each m (c # cs) =
     (if js_typeof c \<noteq> ''object'' \<or> c = JNull then None
      else case js_get c ''optionId'' of
        JStr optionId \<Rightarrow> (case map_get m optionId of
            None \<Rightarrow> None
          | Some mapped \<Rightarrow> map_option ((#) (with_key c ''optionId'' (JStr mapped))) (remap_each m cs))
      | _ \<Rightarrow> None)"

fun remapConditions :: "jsval \<Rightarrow> (string, string) js_map \<Rightarrow> jsval list option" where
  "remapConditions (JArr cs) m = remap_each m cs"
| "remapConditions _ m = None"

definition copy_rule :: "(string, string) js_map \<Rightarrow> string \<Rightarrow> rule_entity \<Rightarrow> rule_entity" where
  "copy_rule m i r =
     (let remapped = remapConditions (sr_conditions (re_rule r)) m;
          target = map_get m (sr_targetId (re_rule r));
          intact = (target \<noteq> None \<and> remapped \<noteq> None);
          row = \<lparr>re_rule = \<lparr>sr_id = i, sr_targetType = '''', sr_targetId = (case target of None \<Rightarrow> sr_targetId (re_rule r) | Some j \<Rightarrow> j),
              sr_action = '''', sr_matchType = '''',
              sr_conditions = (case remapped of None \<Rightarrow> sr_conditions (re_rule r) | Some cs \<Rightarrow> JArr cs), sr_actionValue = JNull,
              sr_sortOrder = Fin 0\<rparr>, re_isEnabled = True, re_disabledReason = None\<rparr>
      in (copyableRuleFields r row)\<lparr>re_isEnabled := (if intact then re_isEnabled r else False),
           re_disabledReason := (if intact then re_disabledReason r else Some ''target_deleted'')\<rparr>)"

definition save_rule :: "(nat \<Rightarrow> string) \<Rightarrow> string \<Rightarrow> (string, string) js_map \<Rightarrow> rule_entity \<Rightarrow> copying \<Rightarrow> copying" where
  "save_rule new_id toSetId m r st =
     st\<lparr>cp_db := (cp_db st)\<lparr>db_rules := db_rules (cp_db st) @ [live_row toSetId (copy_rule m (new_id (cp_next st)) r)]\<rparr>,
       cp_next := Suc (cp_next st)\<rparr>"

definition copyRulesInto :: "(nat \<Rightarrow> string) \<Rightarrow> string \<Rightarrow> string \<Rightarrow> copying \<Rightarrow> copying" where
  "copyRulesInto new_id fromSetId toSetId st =
     fold (save_rule new_id toSetId (idMap st))
       (map row_entity (find_in_order rule_position [fromSetId] (db_rules (cp_db st)))) st"

section \<open>Copying a set\<close>

definition copied_set :: "int \<Rightarrow> string \<Rightarrow> string option \<Rightarrow> string \<Rightarrow> set_row \<Rightarrow> set_row" where
  "copied_set now i name storeId source = \<lparr>st_id = i, st_tenantId = st_tenantId source, st_storeId = storeId,
     st_name = (case name of Some n \<Rightarrow> if js_trim n = '''' then st_name source @ '' (copy)'' else js_trim n
       | None \<Rightarrow> st_name source @ '' (copy)''),
     st_status = DRAFT, st_version = 0, rowVersion = 1, publishedAt = None, publishedBy = None, publishedConfigVersion = 0,
     st_createdAt = now, st_deletedAt = LIVE_SENTINEL\<rparr>"

definition copy_tree_rows :: "(nat \<Rightarrow> string) \<Rightarrow> nat \<Rightarrow> string \<Rightarrow> set_row \<Rightarrow> authoring_db \<Rightarrow> authoring_db" where
  "copy_tree_rows new_id n fromSetId created adb =
     (let st0 = \<lparr>cp_db = adb\<lparr>db_sets := db_sets adb @ [created]\<rparr>, cp_next = n, idMap = []\<rparr>;
          groups = map row_entity (find_in_order group_position [fromSetId] (db_groups adb));
          st1 = fold (save_group new_id (st_id created)) groups st0
      in cp_db (copyRulesInto new_id fromSetId (st_id created) st1))"

definition duplicate :: "(string \<Rightarrow> jsval) \<Rightarrow> int \<Rightarrow> string \<Rightarrow> (nat \<Rightarrow> string) \<Rightarrow> string \<Rightarrow> string option \<Rightarrow> string option \<Rightarrow> platform
    \<Rightarrow> api_error + (set_row \<times> platform)" where
  "duplicate json_parse now tenantId new_id optionSetId name storeId db =
     (case findById tenantId (pf_sets db) optionSetId of
        None \<Rightarrow> Inl (NotFound ''Option set'')
      | Some source \<Rightarrow>
          bind_result (case storeId of
              Some w \<Rightarrow> if w \<noteq> st_storeId source then assertStoreBelongsToTenant db tenantId w else Inr ()
            | None \<Rightarrow> Inr ()) (\<lambda>_.
          bind_result (assertWithinPlan json_parse now db tenantId OptionSets) (\<lambda>_.
            let created = copied_set now (new_id 0) name (case storeId of Some w \<Rightarrow> w | None \<Rightarrow> st_storeId source) source;
                db1 = db\<lparr>pf_authoring := copy_tree_rows new_id 1 (st_id source) created (pf_authoring db)\<rparr>
            in Inr (created, record_audit \<lparr>au_action = ''option_set.duplicated'', au_resourceId = st_id created,
                 au_fromVersion = None, au_toVersion = None, au_restoredFrom = None, au_configVersion = None,
                 au_warnings = []\<rparr> db1))))"

end
