(* ===== verification/Duplication_Correct.thy ===== *)
theory Duplication_Correct
  imports Duplication
begin

text \<open>
  A copied option set is the source up to a renaming of its rows, holds no enabled rule that points
  outside itself, and leaves every other set as it was. The traversal is first shown to be a list of
  insertions that is fixed before it starts, because what it inserts is never what it reads.
\<close>

section \<open>The insertions of a traversal\<close>

datatype copy_job =
    CopyGroup group_entity
  | CopyOption string option_entity
  | CopyValue string value_entity
  | CopyItem string item_entity

fun job_key :: "copy_job \<Rightarrow> string" where
  "job_key (CopyGroup g) = ge_id g"
| "job_key (CopyOption _ n) = oe_id n"
| "job_key (CopyValue _ v) = ve_id v"
| "job_key (CopyItem _ i) = ie_id i"

fun job_parent :: "copy_job \<Rightarrow> string option" where
  "job_parent (CopyGroup g) = None"
| "job_parent (CopyOption p _) = Some p"
| "job_parent (CopyValue p _) = Some p"
| "job_parent (CopyItem p _) = Some p"

fun mapped_key :: "copy_job \<Rightarrow> string set" where
  "mapped_key (CopyItem _ _) = {}"
| "mapped_key j = {job_key j}"

text \<open>An insertion finds its new parent in the map.\<close>

definition new_parent :: "string \<Rightarrow> copying \<Rightarrow> string" where
  "new_parent p st = the (map_get (idMap st) p)"

fun run_job :: "(nat \<Rightarrow> string) \<Rightarrow> string \<Rightarrow> copy_job \<Rightarrow> copying \<Rightarrow> copying" where
  "run_job new_id s (CopyGroup g) st = st\<lparr>cp_db := (cp_db st)\<lparr>db_groups := db_groups (cp_db st)
       @ [live_row s (copy_group (new_id (cp_next st)) g)]\<rparr>,
     cp_next := Suc (cp_next st), idMap := map_set (ge_id g) (new_id (cp_next st)) (idMap st)\<rparr>"
| "run_job new_id s (CopyOption p n) st = st\<lparr>cp_db := (cp_db st)\<lparr>db_options := db_options (cp_db st)
       @ [live_row (new_parent p st) (copy_option (new_id (cp_next st)) n)]\<rparr>,
     cp_next := Suc (cp_next st), idMap := map_set (oe_id n) (new_id (cp_next st)) (idMap st)\<rparr>"
| "run_job new_id s (CopyValue p v) st = save_value new_id (new_parent p st) v st"
| "run_job new_id s (CopyItem p i) st = save_item new_id (new_parent p st) i st"

definition values_of :: "authoring_db \<Rightarrow> string \<Rightarrow> value_entity list" where
  "values_of adb p = map row_entity (find_in_order value_position [p] (db_values adb))"

definition options_of :: "authoring_db \<Rightarrow> string \<Rightarrow> option_entity list" where
  "options_of adb p = map row_entity (find_in_order option_position [p] (db_options adb))"

definition items_of :: "authoring_db \<Rightarrow> string \<Rightarrow> item_entity list" where
  "items_of adb p = map row_entity (find_in_order item_position [p] (db_items adb))"

text \<open>A group without options returns before its items are copied.\<close>

definition copied_items :: "authoring_db \<Rightarrow> group_entity \<Rightarrow> item_entity list" where
  "copied_items adb g = (if options_of adb (ge_id g) = [] then [] else items_of adb (ge_id g))"

definition option_jobs :: "authoring_db \<Rightarrow> string \<Rightarrow> option_entity \<Rightarrow> copy_job list" where
  "option_jobs adb p n = CopyOption p n # map (CopyValue (oe_id n)) (values_of adb (oe_id n))"

definition group_jobs :: "authoring_db \<Rightarrow> group_entity \<Rightarrow> copy_job list" where
  "group_jobs adb g = CopyGroup g # flat_map (option_jobs adb (ge_id g)) (options_of adb (ge_id g))
     @ map (CopyItem (ge_id g)) (copied_items adb g)"

lemma map_get_set [simp]: "map_get (map_set k v m) k' = (if k' = k then Some v else map_get m k')"
  by (simp add: jsm.get_put)

lemma run_job_map:
  "p \<notin> mapped_key j \<Longrightarrow> map_get (idMap (run_job new_id s j st)) p = map_get (idMap st) p"
  by (cases j) (auto simp: save_value_def save_item_def Let_def)

lemma run_jobs_map:
  "p \<notin> (\<Union>j\<in>set js. mapped_key j) \<Longrightarrow> map_get (idMap (fold (run_job new_id s) js st)) p = map_get (idMap st) p"
  by (induction js arbitrary: st) (simp_all add: run_job_map)

lemma mapped_is_key: "mapped_key j \<subseteq> {job_key j}"
  by (cases j) auto

section \<open>What the insertions leave in the tables\<close>

fun group_row :: "(string \<Rightarrow> string) \<Rightarrow> string \<Rightarrow> copy_job \<Rightarrow> group_entity child_row list" where
  "group_row \<rho> s (CopyGroup g) = [live_row s (copy_group (\<rho> (ge_id g)) g)]"
| "group_row \<rho> s _ = []"

fun option_row :: "(string \<Rightarrow> string) \<Rightarrow> copy_job \<Rightarrow> option_entity child_row list" where
  "option_row \<rho> (CopyOption p n) = [live_row (\<rho> p) (copy_option (\<rho> (oe_id n)) n)]"
| "option_row \<rho> _ = []"

fun value_row :: "(string \<Rightarrow> string) \<Rightarrow> copy_job \<Rightarrow> value_entity child_row list" where
  "value_row \<rho> (CopyValue p v) = [live_row (\<rho> p) (copy_value (\<rho> (ve_id v)) v)]"
| "value_row \<rho> _ = []"

fun item_row :: "(string \<Rightarrow> string) \<Rightarrow> copy_job \<Rightarrow> item_entity child_row list" where
  "item_row \<rho> (CopyItem p i) = [live_row (\<rho> p) (copy_item (\<rho> (ie_id i)) i)]"
| "item_row \<rho> _ = []"

text \<open>\<open>follows \<rho> new_id n ks\<close>: the renaming gives the keys \<open>ks\<close> the ids from \<open>new_id n\<close> on, in order.\<close>

fun follows :: "(string \<Rightarrow> string) \<Rightarrow> (nat \<Rightarrow> string) \<Rightarrow> nat \<Rightarrow> string list \<Rightarrow> bool" where
  "follows \<rho> new_id n [] = True"
| "follows \<rho> new_id n (k # ks) = (\<rho> k = new_id n \<and> follows \<rho> new_id (Suc n) ks)"

fun parents_known :: "string set \<Rightarrow> copy_job list \<Rightarrow> bool" where
  "parents_known M [] = True"
| "parents_known M (j # js) = ((case job_parent j of None \<Rightarrow> True | Some p \<Rightarrow> p \<in> M) \<and> parents_known (M \<union> mapped_key j) js)"

lemma follows_append: "follows \<rho> new_id n (ks @ ls) \<longleftrightarrow> follows \<rho> new_id n ks \<and> follows \<rho> new_id (n + length ks) ls"
  by (induction ks arbitrary: n) auto

lemma follows_cong: "(\<And>k. k \<in> set ks \<Longrightarrow> \<rho> k = \<rho>' k) \<Longrightarrow> follows \<rho> new_id n ks = follows \<rho>' new_id n ks"
  by (induction ks arbitrary: n) auto

lemma follows_range: "follows \<rho> new_id n ks \<Longrightarrow> \<rho> ` set ks \<subseteq> new_id ` {n..}"
proof (induction ks arbitrary: n)
  case (Cons k ks)
  then have "\<rho> ` set ks \<subseteq> new_id ` {Suc n..}" by simp
  moreover have "new_id ` {Suc n..} \<subseteq> new_id ` {n..}" by (intro image_mono) auto
  ultimately show ?case using Cons.prems by auto
qed simp

lemma follows_exists:
  assumes "distinct ks" and "inj new_id"
  shows "\<exists>\<rho>. follows \<rho> new_id n ks \<and> inj_on \<rho> (set ks)"
  using assms(1)
proof (induction ks arbitrary: n)
  case (Cons k ks)
  then obtain \<rho> where \<rho>: "follows \<rho> new_id (Suc n) ks" "inj_on \<rho> (set ks)" by fastforce
  let ?\<sigma> = "\<rho>(k := new_id n)"
  have "\<And>l. l \<in> set ks \<Longrightarrow> ?\<sigma> l = \<rho> l" using Cons.prems by auto
  then have f: "follows ?\<sigma> new_id n (k # ks)" and i: "inj_on ?\<sigma> (set ks)"
    using \<rho> follows_cong [of ks ?\<sigma> \<rho>] by (auto simp: inj_on_def)
  have "new_id n \<notin> new_id ` {Suc n..}" using assms(2) by (auto dest: injD)
  then have "?\<sigma> k \<notin> ?\<sigma> ` set ks" using follows_range [OF \<rho>(1)] Cons.prems by (auto split: if_splits)
  then have "inj_on ?\<sigma> (set (k # ks))" using i unfolding list.set inj_on_insert by blast
  then show ?case using f by blast
qed simp

definition consistent :: "(string \<Rightarrow> string) \<Rightarrow> copying \<Rightarrow> bool" where
  "consistent \<rho> st \<longleftrightarrow> (\<forall>k j. map_get (idMap st) k = Some j \<longrightarrow> \<rho> k = j)"

definition jobs_done :: "(string \<Rightarrow> string) \<Rightarrow> string \<Rightarrow> copy_job list \<Rightarrow> copying \<Rightarrow> copying \<Rightarrow> bool" where
  "jobs_done \<rho> s js st st' \<longleftrightarrow>
     cp_db st' = (cp_db st)\<lparr>db_groups := db_groups (cp_db st) @ flat_map (group_row \<rho> s) js,
       db_options := db_options (cp_db st) @ flat_map (option_row \<rho>) js,
       db_values := db_values (cp_db st) @ flat_map (value_row \<rho>) js,
       db_items := db_items (cp_db st) @ flat_map (item_row \<rho>) js\<rparr>
     \<and> cp_next st' = cp_next st + length js
     \<and> (\<forall>k. map_get (idMap st') k = (if k \<in> (\<Union>j\<in>set js. mapped_key j) then Some (\<rho> k) else map_get (idMap st) k))"

lemma new_parent_consistent: "consistent \<rho> st \<Longrightarrow> p \<in> dom (map_get (idMap st)) \<Longrightarrow> new_parent p st = \<rho> p"
  by (auto simp: consistent_def new_parent_def)

lemma run_job_done:
  assumes "\<rho> (job_key j) = new_id (cp_next st)" and "consistent \<rho> st"
    and "case job_parent j of None \<Rightarrow> True | Some p \<Rightarrow> p \<in> dom (map_get (idMap st))"
  shows "jobs_done \<rho> s [j] st (run_job new_id s j st)"
  using assms by (cases j) (auto simp: jobs_done_def save_value_def save_item_def new_parent_consistent Let_def)

lemma jobs_done_trans: "jobs_done \<rho> s [j] st st1 \<Longrightarrow> jobs_done \<rho> s js st1 st2 \<Longrightarrow> jobs_done \<rho> s (j # js) st st2"
  by (auto simp: jobs_done_def)

lemma jobs_done_consistent: "jobs_done \<rho> s js st st' \<Longrightarrow> consistent \<rho> st \<Longrightarrow> consistent \<rho> st'"
  by (auto simp: jobs_done_def consistent_def split: if_splits)

lemma run_jobs_done:
  assumes "follows \<rho> new_id (cp_next st) (map job_key js)" and "consistent \<rho> st"
    and "parents_known (dom (map_get (idMap st))) js"
  shows "jobs_done \<rho> s js st (fold (run_job new_id s) js st)"
  using assms
proof (induction js arbitrary: st)
  case Nil
  then show ?case by (simp add: jobs_done_def)
next
  case (Cons j js)
  let ?st = "run_job new_id s j st"
  have d: "jobs_done \<rho> s [j] st ?st" using Cons.prems by (intro run_job_done) auto
  have next_id: "cp_next ?st = Suc (cp_next st)"
    and keys: "dom (map_get (idMap ?st)) = dom (map_get (idMap st)) \<union> mapped_key j"
    using d by (auto simp: jobs_done_def split: if_splits)
  have "jobs_done \<rho> s js ?st (fold (run_job new_id s) js ?st)"
    using Cons.prems jobs_done_consistent [OF d] by (intro Cons.IH) (auto simp: next_id keys)
  then show ?case using jobs_done_trans [OF d] by simp
qed

section \<open>The traversal is its insertions\<close>

lemma flat_map_append [simp]: "flat_map f (xs @ ys) = flat_map f xs @ flat_map f ys"
  by (simp add: flat_map_def)

lemma groupBy_append: "bucket_of (fold (\<lambda>r buckets. map_set (row_parent r)
     ((case map_get buckets (row_parent r) of None \<Rightarrow> [] | Some bucket \<Rightarrow> bucket) @ [row_entity r]) buckets) rows m) p
   = bucket_of m p @ map row_entity (filter (\<lambda>r. row_parent r = p) rows)"
proof (induction rows arbitrary: m)
  case (Cons r rows)
  show ?case unfolding fold_simps o_apply Cons.IH by (auto simp: bucket_of_def)
qed simp

lemma bucket_of_groupBy: "bucket_of (groupBy rows) p = map row_entity (filter (\<lambda>r. row_parent r = p) rows)"
  unfolding groupBy_def groupBy_append by (simp add: bucket_of_def)

lemma filter_find_in_order:
  "p \<in> set ps \<Longrightarrow> filter (\<lambda>r. row_parent r = p) (find_in_order pos ps rows) = find_in_order pos [p] rows"
  unfolding find_in_order_def filter_sort filter_filter
  by (intro arg_cong [where f = "sort_key _"] filter_cong) auto

lemma find_in_order_set:
  "r \<in> set (find_in_order pos ps rows) \<longleftrightarrow> r \<in> set rows \<and> row_parent r \<in> set ps \<and> row_deletedAt r = LIVE_SENTINEL"
  by (auto simp: find_in_order_def)

lemma find_in_order_append:
  assumes "row_parent ` set xs \<inter> set ps = {}"
  shows "find_in_order pos ps (rows @ xs) = find_in_order pos ps rows"
proof -
  have "filter (\<lambda>r. row_parent r \<in> set ps \<and> row_deletedAt r = LIVE_SENTINEL) xs = []"
    using assms by (auto simp: filter_empty_conv)
  then show ?thesis by (simp add: find_in_order_def)
qed

text \<open>The tables so far: those of the start, and rows under new parents.\<close>

definition grown :: "string set \<Rightarrow> authoring_db \<Rightarrow> copying \<Rightarrow> bool" where
  "grown K adb st \<longleftrightarrow> (\<exists>os vs is. db_options (cp_db st) = db_options adb @ os \<and> row_parent ` set os \<subseteq> K
     \<and> db_values (cp_db st) = db_values adb @ vs \<and> row_parent ` set vs \<subseteq> K
     \<and> db_items (cp_db st) = db_items adb @ is \<and> row_parent ` set is \<subseteq> K)"

lemma grown_queries:
  assumes "grown K adb st" and "set ps \<inter> K = {}"
  shows "find_in_order option_position ps (db_options (cp_db st)) = find_in_order option_position ps (db_options adb)"
    and "find_in_order value_position ps (db_values (cp_db st)) = find_in_order value_position ps (db_values adb)"
    and "find_in_order item_position ps (db_items (cp_db st)) = find_in_order item_position ps (db_items adb)"
  using assms by (auto simp: grown_def intro!: find_in_order_append) blast+

lemma save_values_jobs:
  assumes "map_get (idMap st) p = Some i" and "p \<notin> ve_id ` set vs"
  shows "fold (save_value new_id i) vs st = fold (run_job new_id s) (map (CopyValue p) vs) st"
  using assms
proof (induction vs arbitrary: st)
  case (Cons v vs)
  then have "new_parent p st = i" by (simp add: new_parent_def)
  then show ?case using Cons by (simp add: save_value_def Let_def)
qed simp

lemma save_option_jobs:
  assumes "map_get (idMap st) p = Some i" and "oe_id n \<notin> ve_id ` set (values_of adb (oe_id n))"
    and "bucket_of buckets (oe_id n) = values_of adb (oe_id n)"
  shows "save_option new_id i buckets n st = fold (run_job new_id s) (option_jobs adb p n) st"
proof -
  have "new_parent p st = i" using assms(1) by (simp add: new_parent_def)
  then show ?thesis using assms(2,3)
    by (simp add: save_option_def option_jobs_def Let_def save_values_jobs [where p = "oe_id n" and s = s])
qed

lemma save_options_jobs:
  assumes "map_get (idMap st) p = Some i" and "p \<notin> job_key ` set (flat_map (option_jobs adb p) ns)"
    and "\<And>n. n \<in> set ns \<Longrightarrow> oe_id n \<notin> ve_id ` set (values_of adb (oe_id n))"
    and "\<And>n. n \<in> set ns \<Longrightarrow> bucket_of buckets (oe_id n) = values_of adb (oe_id n)"
  shows "fold (save_option new_id i buckets) ns st = fold (run_job new_id s) (flat_map (option_jobs adb p) ns) st"
  using assms
proof (induction ns arbitrary: st)
  case (Cons n ns)
  let ?st = "fold (run_job new_id s) (option_jobs adb p n) st"
  have "save_option new_id i buckets n st = ?st" using Cons.prems by (intro save_option_jobs) auto
  moreover have "map_get (idMap ?st) p = Some i"
    using Cons.prems(1,2) mapped_is_key by (subst run_jobs_map) fastforce+
  then have "fold (save_option new_id i buckets) ns ?st = fold (run_job new_id s) (flat_map (option_jobs adb p) ns) ?st"
    using Cons.prems by (intro Cons.IH) auto
  ultimately show ?case by simp
qed simp

lemma save_items_jobs:
  "map_get (idMap st) p = Some i \<Longrightarrow> fold (save_item new_id i) is st = fold (run_job new_id s) (map (CopyItem p) is) st"
  by (induction "is" arbitrary: st) (simp_all add: new_parent_def save_item_def)

lemma run_jobs_items:
  assumes "\<And>j p i. j \<in> set js \<Longrightarrow> j \<noteq> CopyItem p i"
  shows "db_items (cp_db (fold (run_job new_id s) js st)) = db_items (cp_db st)"
  using assms
proof (induction js arbitrary: st)
  case (Cons j js)
  then have "db_items (cp_db (run_job new_id s j st)) = db_items (cp_db st)"
    by (cases j) (auto simp: save_value_def Let_def)
  then show ?case using Cons by simp
qed simp

lemma copyOptionsInto_step:
  assumes "find_in_order option_position [p] (db_options (cp_db st)) = xs" and "xs \<noteq> []"
    and "find_in_order value_position (map (oe_id \<circ> row_entity) xs) (db_values (cp_db st)) = vs"
    and "fold (save_option new_id i (groupBy vs)) (map row_entity xs) st = st'"
    and "find_in_order item_position [p] (db_items (cp_db st')) = is"
  shows "copyOptionsInto new_id p i st = fold (save_item new_id i) (map row_entity is) st'"
  using assms(2) by (simp add: copyOptionsInto_def assms(1) assms(3) [unfolded o_def] assms(4,5) Let_def)

lemma save_group_jobs:
  assumes grown: "grown K adb st" and "ge_id g \<notin> K"
    and "oe_id ` set (options_of adb (ge_id g)) \<inter> K = {}" and keys: "distinct (map job_key (group_jobs adb g))"
  shows "save_group new_id s g st = fold (run_job new_id s) (group_jobs adb g) st"
proof -
  let ?p = "ge_id g" and ?i = "new_id (cp_next st)" and ?run = "\<lambda>js st. fold (run_job new_id s) js st"
  let ?ns = "options_of adb ?p" and ?st1 = "run_job new_id s (CopyGroup g) st"
  let ?st2 = "?run (flat_map (option_jobs adb ?p) ?ns) ?st1"
  have g1: "grown K adb ?st1" using grown by (simp add: grown_def)
  have p1: "map_get (idMap ?st1) ?p = Some ?i" by simp
  have opts: "find_in_order option_position [?p] (db_options (cp_db ?st1)) = find_in_order option_position [?p] (db_options adb)"
    using grown_queries(1) [OF g1, of "[?p]"] assms(2) by simp
  show ?thesis
  proof (cases "?ns = []")
    case True
    then show ?thesis using opts
      by (simp add: save_group_def copyOptionsInto_def Let_def group_jobs_def copied_items_def options_of_def)
  next
    case False
    let ?vals = "find_in_order value_position (map oe_id ?ns) (db_values adb)"
    have keys': "?p \<notin> job_key ` set (flat_map (option_jobs adb ?p) ?ns)" using keys by (auto simp: group_jobs_def)
    have own: "oe_id n \<notin> ve_id ` set (values_of adb (oe_id n))" if "n \<in> set ?ns" for n
    proof -
      have "distinct (map job_key (flat_map (option_jobs adb ?p) ?ns))" using keys by (simp add: group_jobs_def)
      then have "distinct (map job_key (option_jobs adb ?p n))" using split_list [OF that] by auto
      then show ?thesis by (auto simp: option_jobs_def)
    qed
    have "bucket_of (groupBy ?vals) (oe_id n) = values_of adb (oe_id n)" if "n \<in> set ?ns" for n
      using that by (simp add: bucket_of_groupBy filter_find_in_order values_of_def)
    then have opt_jobs: "fold (save_option new_id ?i (groupBy ?vals)) ?ns ?st1 = ?st2"
      using p1 keys' own by (intro save_options_jobs) auto
    have vals: "find_in_order value_position (map oe_id ?ns) (db_values (cp_db ?st1)) = ?vals"
      using grown_queries(2) [OF g1, of "map oe_id ?ns"] assms(3) by simp
    have "db_items (cp_db ?st2) = db_items (cp_db ?st1)"
      by (rule run_jobs_items) (auto simp: option_jobs_def)
    then have items: "find_in_order item_position [?p] (db_items (cp_db ?st2)) = find_in_order item_position [?p] (db_items adb)"
      using grown_queries(3) [OF g1, of "[?p]"] assms(2) by simp
    have p2: "map_get (idMap ?st2) ?p = Some ?i" using p1 keys' mapped_is_key by (subst run_jobs_map) fastforce+
    note vals' = vals [unfolded options_of_def map_map] and opt_jobs' = opt_jobs [unfolded options_of_def map_map]
      and items' = items [unfolded options_of_def]
    have "save_group new_id s g st = copyOptionsInto new_id ?p ?i ?st1" by (simp add: save_group_def Let_def)
    also have "\<dots> = fold (save_item new_id ?i) (items_of adb ?p) ?st2" unfolding items_of_def options_of_def
      using False by (intro copyOptionsInto_step [OF opts _ vals' opt_jobs' items']) (simp add: options_of_def)
    also have "\<dots> = ?run (map (CopyItem ?p) (items_of adb ?p)) ?st2" using p2 by (rule save_items_jobs)
    also have "\<dots> = ?run (group_jobs adb g) st" using False by (simp add: group_jobs_def copied_items_def)
    finally show ?thesis .
  qed
qed

lemma parents_known_append:
  "parents_known M (js @ ks) \<longleftrightarrow> parents_known M js \<and> parents_known (M \<union> (\<Union>j\<in>set js. mapped_key j)) ks"
  by (induction js arbitrary: M) (auto simp: Un_assoc)

lemma parents_known_same: "p \<in> M \<Longrightarrow> (\<And>j. j \<in> set js \<Longrightarrow> job_parent j = Some p) \<Longrightarrow> parents_known M js"
  by (induction js arbitrary: M) auto

lemma parents_known_options: "p \<in> M \<Longrightarrow> parents_known M (flat_map (option_jobs adb p) ns)"
proof (induction ns arbitrary: M)
  case (Cons n ns)
  have "parents_known (insert (oe_id n) M) (map (CopyValue (oe_id n)) (values_of adb (oe_id n)))"
    by (rule parents_known_same [where p = "oe_id n"]) auto
  then have "parents_known M (option_jobs adb p n)" using Cons.prems by (simp add: option_jobs_def)
  then show ?case using Cons by (simp add: parents_known_append)
qed simp

lemma parents_known_group: "parents_known M (group_jobs adb g)"
  by (auto simp: group_jobs_def parents_known_append intro!: parents_known_options parents_known_same)

lemma group_job_parent:
  assumes "j \<in> set (group_jobs adb g)" and "job_parent j = Some p"
  shows "p \<in> job_key ` set (group_jobs adb g)"
proof -
  have "CopyGroup g \<in> set (group_jobs adb g)" "\<And>n. n \<in> set (options_of adb (ge_id g)) \<Longrightarrow> CopyOption (ge_id g) n \<in> set (group_jobs adb g)"
    by (auto simp: group_jobs_def option_jobs_def)
  from this [THEN imageI [where f = job_key]]
  have "ge_id g \<in> job_key ` set (group_jobs adb g)"
    "\<And>n. n \<in> set (options_of adb (ge_id g)) \<Longrightarrow> oe_id n \<in> job_key ` set (group_jobs adb g)" by simp_all
  moreover have "p = ge_id g \<or> (\<exists>n\<in>set (options_of adb (ge_id g)). p = oe_id n)"
    using assms by (auto simp: group_jobs_def option_jobs_def)
  ultimately show ?thesis by blast
qed

lemma jobs_done_grown:
  assumes "jobs_done \<rho> s js st st'" and "grown K adb st"
    and "\<And>j p. j \<in> set js \<Longrightarrow> job_parent j = Some p \<Longrightarrow> \<rho> p \<in> K"
  shows "grown K adb st'"
proof -
  have rows: "(\<forall>r\<in>set (option_row \<rho> j). row_parent r \<in> K) \<and> (\<forall>r\<in>set (value_row \<rho> j). row_parent r \<in> K)
      \<and> (\<forall>r\<in>set (item_row \<rho> j). row_parent r \<in> K)" if "j \<in> set js" for j
    using assms(3) [OF that] by (cases j) (auto simp: live_row_def)
  have "row_parent ` set (flat_map (option_row \<rho>) js) \<subseteq> K" "row_parent ` set (flat_map (value_row \<rho>) js) \<subseteq> K"
    "row_parent ` set (flat_map (item_row \<rho>) js) \<subseteq> K"
    using rows by auto
  moreover obtain os vs "is" where "db_options (cp_db st) = db_options adb @ os" "row_parent ` set os \<subseteq> K"
    "db_values (cp_db st) = db_values adb @ vs" "row_parent ` set vs \<subseteq> K"
    "db_items (cp_db st) = db_items adb @ is" "row_parent ` set is \<subseteq> K" using assms(2) unfolding grown_def
    by (elim exE conjE) (rule that; assumption)
  moreover have "db_options (cp_db st') = db_options (cp_db st) @ flat_map (option_row \<rho>) js"
    "db_values (cp_db st') = db_values (cp_db st) @ flat_map (value_row \<rho>) js"
    "db_items (cp_db st') = db_items (cp_db st) @ flat_map (item_row \<rho>) js" using assms(1) by (simp_all add: jobs_done_def)
  ultimately show ?thesis unfolding grown_def
    by (intro exI [of _ "os @ flat_map (option_row \<rho>) js"] exI [of _ "vs @ flat_map (value_row \<rho>) js"]
      exI [of _ "is @ flat_map (item_row \<rho>) js"] conjI) (simp_all add: image_Un del: set_flat_map)
qed

lemma save_groups_jobs:
  assumes "follows \<rho> new_id (cp_next st) (map job_key (flat_map (group_jobs adb) gs))" and "consistent \<rho> st"
    and "grown (range new_id) adb st" and "ge_id ` set gs \<inter> range new_id = {}"
    and "\<And>g. g \<in> set gs \<Longrightarrow> oe_id ` set (options_of adb (ge_id g)) \<inter> range new_id = {}"
    and "\<And>g. g \<in> set gs \<Longrightarrow> distinct (map job_key (group_jobs adb g))"
  shows "fold (save_group new_id s) gs st = fold (run_job new_id s) (flat_map (group_jobs adb) gs) st"
    and "jobs_done \<rho> s (flat_map (group_jobs adb) gs) st (fold (save_group new_id s) gs st)"
proof -
  show eq: "fold (save_group new_id s) gs st = fold (run_job new_id s) (flat_map (group_jobs adb) gs) st"
    using assms
  proof (induction gs arbitrary: st)
    case (Cons g gs)
    let ?js = "group_jobs adb g" and ?st = "fold (run_job new_id s) (group_jobs adb g) st"
    have f: "follows \<rho> new_id (cp_next st) (map job_key ?js)" using Cons.prems(1) by (simp add: follows_append)
    have d: "jobs_done \<rho> s ?js st ?st" using f Cons.prems(2) parents_known_group by (rule run_jobs_done)
    have "grown (range new_id) adb ?st"
    proof (rule jobs_done_grown [OF d Cons.prems(3)])
      fix j p assume "j \<in> set ?js" and "job_parent j = Some p"
      then have "p \<in> job_key ` set ?js" by (rule group_job_parent)
      then show "\<rho> p \<in> range new_id" using follows_range [OF f] by auto
    qed
    moreover have "cp_next ?st = cp_next st + length ?js" using d by (simp add: jobs_done_def)
    moreover have "consistent \<rho> ?st" using d Cons.prems(2) by (rule jobs_done_consistent)
    ultimately have "fold (save_group new_id s) gs ?st = fold (run_job new_id s) (flat_map (group_jobs adb) gs) ?st"
      using Cons.prems by (intro Cons.IH) (auto simp: follows_append)
    moreover have "save_group new_id s g st = ?st"
      using Cons.prems by (intro save_group_jobs [where K = "range new_id"]) auto
    ultimately show ?case by simp
  qed simp
  have "parents_known M (flat_map (group_jobs adb) gs)" for M
    by (induction gs arbitrary: M) (simp_all add: parents_known_append parents_known_group)
  then show "jobs_done \<rho> s (flat_map (group_jobs adb) gs) st (fold (save_group new_id s) gs st)"
    unfolding eq using assms(1,2) by (intro run_jobs_done)
qed

section \<open>Rules\<close>

lemma save_rule_fields:
  "cp_db (save_rule new_id s m r st) = (cp_db st)\<lparr>db_rules := db_rules (cp_db st) @ [live_row s (copy_rule m (new_id (cp_next st)) r)]\<rparr>"
  "cp_next (save_rule new_id s m r st) = Suc (cp_next st)"
  by (simp_all add: save_rule_def)

lemma save_rules_rows:
  assumes "follows \<rho> new_id (cp_next st) (map (\<lambda>r. sr_id (re_rule r)) rs)"
  shows "cp_db (fold (save_rule new_id s m) rs st) = (cp_db st)\<lparr>db_rules := db_rules (cp_db st)
    @ map (\<lambda>r. live_row s (copy_rule m (\<rho> (sr_id (re_rule r))) r)) rs\<rparr>"
  using assms
proof (induction rs arbitrary: st)
  case (Cons r rs)
  have "cp_db (fold (save_rule new_id s m) rs (save_rule new_id s m r st)) = (cp_db (save_rule new_id s m r st))\<lparr>
      db_rules := db_rules (cp_db (save_rule new_id s m r st))
        @ map (\<lambda>r. live_row s (copy_rule m (\<rho> (sr_id (re_rule r))) r)) rs\<rparr>"
    using Cons.prems by (intro Cons.IH) (simp add: save_rule_fields)
  then show ?case using Cons.prems by (simp add: save_rule_fields)
qed simp

section \<open>The tree, one level at a time\<close>

abbreviation children :: "('e \<Rightarrow> sort_position) \<Rightarrow> string \<Rightarrow> 'e child_row list \<Rightarrow> 'e list" where
  "children pos p rows \<equiv> map row_entity (find_children pos [p] rows)"

definition tree_option :: "authoring_db \<Rightarrow> option_entity \<Rightarrow> option_entity" where
  "tree_option adb n = n\<lparr>oe_values := children value_position (oe_id n) (db_values adb)\<rparr>"

definition tree_group :: "authoring_db \<Rightarrow> group_entity \<Rightarrow> group_entity" where
  "tree_group adb g = g\<lparr>ge_items := children item_position (ge_id g) (db_items adb),
     ge_options := map (tree_option adb) (children option_position (ge_id g) (db_options adb))\<rparr>"

definition set_tree_of :: "authoring_db \<Rightarrow> set_row \<Rightarrow> option_set_tree" where
  "set_tree_of adb s = \<lparr>os_id = st_id s, os_name = st_name s, os_version = Fin (of_nat (st_version s)),
     os_groups = map (tree_group adb) (children group_position (st_id s) (db_groups adb)),
     os_rules = children rule_position (st_id s) (db_rules adb)\<rparr>"

lemma bucket_of_children:
  "p \<in> set ps \<Longrightarrow> bucket_of (groupBy (find_children pos ps rows)) p = children pos p rows"
proof -
  assume "p \<in> set ps"
  then have "filter (\<lambda>r. row_parent r = p) (find_children pos ps rows) = find_children pos [p] rows"
    unfolding find_children_def by (auto simp: filter_sort intro!: arg_cong [where f = "sort_key _"] filter_cong)
  then show ?thesis by (simp add: bucket_of_groupBy)
qed

lemma find_children_set:
  "r \<in> set (find_children pos ps rows) \<longleftrightarrow> r \<in> set rows \<and> row_parent r \<in> set ps \<and> row_deletedAt r = LIVE_SENTINEL"
  by (auto simp: find_children_def)

lemma load_levels: "load tenantId adb i = map_option (\<lambda>s. (s, set_tree_of adb s)) (findById tenantId (db_sets adb) i)"
proof (cases "findById tenantId (db_sets adb) i")
  case (Some s)
  let ?gs = "children group_position (st_id s) (db_groups adb)"
  let ?os = "find_children option_position (map ge_id ?gs) (db_options adb)"
  let ?is = "find_children item_position (map ge_id ?gs) (db_items adb)"
  let ?vs = "find_children value_position (map (\<lambda>r. oe_id (row_entity r)) ?os) (db_values adb)"
  let ?opt = "\<lambda>n. n\<lparr>oe_values := bucket_of (groupBy ?vs) (oe_id n)\<rparr>"
  have opt: "?opt n = tree_option adb n" if "g \<in> set ?gs" "n \<in> set (children option_position (ge_id g) (db_options adb))" for g n
  proof -
    have "oe_id n \<in> set (map (\<lambda>r. oe_id (row_entity r)) ?os)" using that by (auto simp: find_children_set)
    then show ?thesis by (simp add: tree_option_def bucket_of_children)
  qed
  have "g\<lparr>ge_items := bucket_of (groupBy ?is) (ge_id g), ge_options := map ?opt (bucket_of (groupBy ?os) (ge_id g))\<rparr> = tree_group adb g"
    if "g \<in> set ?gs" for g
  proof -
    have "map ?opt (children option_position (ge_id g) (db_options adb))
        = map (tree_option adb) (children option_position (ge_id g) (db_options adb))"
      using opt [OF that] by (rule map_cong [OF refl])
    moreover have "ge_id g \<in> set (map ge_id ?gs)" using imageI [OF that] by (simp only: list.set_map)
    ultimately show ?thesis unfolding tree_group_def by (simp only: bucket_of_children)
  qed
  then have "map (\<lambda>g. g\<lparr>ge_items := bucket_of (groupBy ?is) (ge_id g), ge_options := map ?opt (bucket_of (groupBy ?os) (ge_id g))\<rparr>) ?gs
      = map (tree_group adb) ?gs" by (rule map_cong [OF refl])
  then show ?thesis using Some unfolding load_def set_tree_of_def Let_def by (simp only: option.case option.map)
qed (simp add: load_def)

section \<open>Siblings in order\<close>

text \<open>Siblings have different positions; with equal ones the copy may show them in another order.\<close>

definition siblings_ordered :: "('e \<Rightarrow> sort_position) \<Rightarrow> 'e child_row list \<Rightarrow> bool" where
  "siblings_ordered pos rows \<longleftrightarrow> (\<forall>r\<in>set rows. distinct (map (\<lambda>q. sort_order (pos (row_entity q)))
     (filter (\<lambda>q. row_parent q = row_parent r \<and> row_deletedAt q = LIVE_SENTINEL) rows)))"

abbreviation strictly_ordered :: "('e \<Rightarrow> sort_position) \<Rightarrow> 'e list \<Rightarrow> bool" where
  "strictly_ordered pos es \<equiv> sorted_wrt (<) (map (\<lambda>e. sort_order (pos e)) es)"

lemma siblings_distinct:
  assumes "siblings_ordered pos rows"
  shows "distinct (map (\<lambda>q. sort_order (pos (row_entity q))) (filter (\<lambda>q. row_parent q = p \<and> row_deletedAt q = LIVE_SENTINEL) rows))"
proof (cases "\<exists>r\<in>set rows. row_parent r = p")
  case True
  then show ?thesis using assms by (auto simp: siblings_ordered_def)
next
  case False
  then have "filter (\<lambda>q. row_parent q = p \<and> row_deletedAt q = LIVE_SENTINEL) rows = []" by (auto simp: filter_empty_conv)
  then show ?thesis by simp
qed

lemma in_order_strict:
  assumes "siblings_ordered pos rows"
  shows "strictly_ordered pos (map row_entity (find_in_order pos [p] rows))"
proof -
  let ?f = "\<lambda>r. sort_order (pos (row_entity r))" and ?rs = "filter (\<lambda>q. row_parent q = p \<and> row_deletedAt q = LIVE_SENTINEL) rows"
  have "mset (map ?f (sort_key ?f ?rs)) = mset (map ?f ?rs)" by simp
  from mset_eq_imp_distinct_iff [OF this] siblings_distinct [OF assms] have "distinct (map ?f (sort_key ?f ?rs))" by (rule iffD2)
  then show ?thesis by (simp add: find_in_order_def strict_sorted_iff o_def)
qed

lemma strict_positions: "strictly_ordered pos es \<Longrightarrow> sorted (map pos es)"
proof (induction es)
  case (Cons e es)
  then have "sorted (map pos es)" by simp
  moreover have "pos e \<le> pos f" if "f \<in> set es" for f using Cons.prems that by (simp add: less_eq_sort_position_def)
  ultimately show ?case by simp
qed simp

lemma find_children_in_order:
  assumes "siblings_ordered pos rows"
  shows "find_children pos [p] rows = find_in_order pos [p] rows"
proof -
  let ?rs = "filter (\<lambda>q. row_parent q = p \<and> row_deletedAt q = LIVE_SENTINEL) rows"
  let ?ss = "find_in_order pos [p] rows"
  have "inj_on (\<lambda>r. sort_order (pos (row_entity r))) (set ?rs)" using siblings_distinct [OF assms] by (simp add: distinct_map)
  then have "inj_on (\<lambda>r. pos (row_entity r)) (set ?ss)" by (auto simp: find_in_order_def inj_on_def)
  then have "sort_key (\<lambda>r. pos (row_entity r)) ?ss = sort_key (\<lambda>r. pos (row_entity r)) ?rs"
    by (intro sort_key_eq_sort_key) (simp_all add: find_in_order_def)
  moreover have "sorted (map (\<lambda>r. pos (row_entity r)) ?ss)"
    using strict_positions [OF in_order_strict [OF assms]] by (simp add: o_def)
  ultimately show ?thesis by (simp add: find_children_def sort_key_id_if_sorted)
qed

lemma children_of_copy:
  assumes "p \<notin> row_parent ` set rows" and "filter (\<lambda>r. row_parent r = p) news = map (\<lambda>e. live_row p (f e)) es"
    and "strictly_ordered pos es" and "\<And>e. sort_order (pos (f e)) = sort_order (pos e)"
  shows "children pos p (rows @ news) = map f es"
proof -
  have "filter (\<lambda>r. row_parent r = p \<and> row_deletedAt r = LIVE_SENTINEL) rows = []"
    using assms(1) by (auto simp: filter_empty_conv)
  moreover have "filter (\<lambda>r. row_parent r = p \<and> row_deletedAt r = LIVE_SENTINEL) news
      = filter (\<lambda>r. row_deletedAt r = LIVE_SENTINEL) (filter (\<lambda>r. row_parent r = p) news)" by (simp add: conj_commute)
  ultimately have "find_children pos [p] (rows @ news) = sort_key (\<lambda>r. pos (row_entity r)) (map (\<lambda>e. live_row p (f e)) es)"
    unfolding find_children_def assms(2) by (simp add: filter_map o_def live_row_def)
  moreover have "strictly_ordered pos (map f es)" using assms(3,4) by (simp add: o_def)
  then have "sorted (map (\<lambda>r. pos (row_entity r)) (map (\<lambda>e. live_row p (f e)) es))"
    using strict_positions by (fastforce simp: o_def live_row_def)
  ultimately show ?thesis by (simp add: sort_key_id_if_sorted o_def live_row_def)
qed

section \<open>The rows of the copy\<close>

lemma flat_map_map [simp]: "flat_map f (map g xs) = flat_map (\<lambda>x. f (g x)) xs"
  by (induction xs) auto

lemma flat_map_single [simp]: "flat_map (\<lambda>x. [f x]) xs = map f xs"
  by (induction xs) auto

lemma flat_map_none [simp]: "flat_map (\<lambda>x. []) xs = []"
  by (induction xs) auto

lemma flat_map_nested: "flat_map f (flat_map g xs) = flat_map (\<lambda>x. flat_map f (g x)) xs"
  by (induction xs) auto

lemma option_jobs_rows [simp]:
  "flat_map (group_row \<rho> s) (option_jobs adb p n) = []"
  "flat_map (option_row \<rho>) (option_jobs adb p n) = [live_row (\<rho> p) (copy_option (\<rho> (oe_id n)) n)]"
  "flat_map (value_row \<rho>) (option_jobs adb p n) = map (\<lambda>v. live_row (\<rho> (oe_id n)) (copy_value (\<rho> (ve_id v)) v)) (values_of adb (oe_id n))"
  "flat_map (item_row \<rho>) (option_jobs adb p n) = []"
  by (simp_all add: option_jobs_def)

lemma group_jobs_rows:
  "flat_map (group_row \<rho> s) (flat_map (group_jobs adb) gs) = map (\<lambda>g. live_row s (copy_group (\<rho> (ge_id g)) g)) gs"
  "flat_map (option_row \<rho>) (flat_map (group_jobs adb) gs)
     = flat_map (\<lambda>g. map (\<lambda>n. live_row (\<rho> (ge_id g)) (copy_option (\<rho> (oe_id n)) n)) (options_of adb (ge_id g))) gs"
  "flat_map (value_row \<rho>) (flat_map (group_jobs adb) gs)
     = flat_map (\<lambda>n. map (\<lambda>v. live_row (\<rho> (oe_id n)) (copy_value (\<rho> (ve_id v)) v)) (values_of adb (oe_id n)))
         (flat_map (\<lambda>g. options_of adb (ge_id g)) gs)"
  "flat_map (item_row \<rho>) (flat_map (group_jobs adb) gs)
     = flat_map (\<lambda>g. map (\<lambda>i. live_row (\<rho> (ge_id g)) (copy_item (\<rho> (ie_id i)) i)) (copied_items adb g)) gs"
  by (simp_all add: flat_map_nested group_jobs_def)

lemma filter_flat_map_parent:
  assumes "distinct (map h xs)" and "x \<in> set xs"
  shows "filter (\<lambda>r. row_parent r = h x) (flat_map (\<lambda>y. map (\<lambda>e. live_row (h y) (F y e)) (es y)) xs)
    = map (\<lambda>e. live_row (h x) (F x e)) (es x)"
  using assms
proof (induction xs)
  case (Cons y ys)
  have other: "filter (\<lambda>r. row_parent r = h x) (map (\<lambda>e. live_row (h y) (F y e)) (es y)) = []" if "h y \<noteq> h x"
    using that by (auto simp: filter_empty_conv live_row_def)
  have same: "filter (\<lambda>r. row_parent r = h y) (map (\<lambda>e. live_row (h y) (F y e)) (es y)) = map (\<lambda>e. live_row (h y) (F y e)) (es y)"
    by (auto simp: filter_id_conv live_row_def)
  have rest: "filter (\<lambda>r. row_parent r = h x) (flat_map (\<lambda>y. map (\<lambda>e. live_row (h y) (F y e)) (es y)) zs) = []" if "\<forall>z\<in>set zs. h z \<noteq> h x" for zs
    using that by (auto simp: filter_empty_conv live_row_def)
  show ?case
  proof (cases "x = y")
    case True
    then have "\<forall>z\<in>set ys. h z \<noteq> h x" using Cons.prems(1) by (auto simp: image_iff)
    then show ?thesis using same rest [of ys] True by simp
  next
    case False
    then have "x \<in> set ys" and "h y \<noteq> h x" using Cons.prems by auto
    then show ?thesis using other Cons by simp
  qed
qed simp

section \<open>What a copy is\<close>

definition renamed_value :: "(string \<Rightarrow> string) \<Rightarrow> value_entity \<Rightarrow> value_entity" where
  "renamed_value \<rho> v = v\<lparr>ve_id := \<rho> (ve_id v)\<rparr>"

text \<open>The artwork of an option stays behind.\<close>

definition renamed_option :: "(string \<Rightarrow> string) \<Rightarrow> option_entity \<Rightarrow> option_entity" where
  "renamed_option \<rho> n = n\<lparr>oe_id := \<rho> (oe_id n), textDesign := JNull, oe_values := map (renamed_value \<rho>) (oe_values n)\<rparr>"

text \<open>So do the headings of a group that has no options.\<close>

definition renamed_group :: "(string \<Rightarrow> string) \<Rightarrow> group_entity \<Rightarrow> group_entity" where
  "renamed_group \<rho> g = g\<lparr>ge_id := \<rho> (ge_id g), ge_options := map (renamed_option \<rho>) (ge_options g),
     ge_items := (if ge_options g = [] then [] else map (\<lambda>i. i\<lparr>ie_id := \<rho> (ie_id i)\<rparr>) (ge_items g))\<rparr>"

fun condition_option :: "jsval \<Rightarrow> string option" where
  "condition_option (JObj kvs) = (case js_get (JObj kvs) ''optionId'' of JStr i \<Rightarrow> Some i | _ \<Rightarrow> None)"
| "condition_option _ = None"

fun conditions_inside :: "string set \<Rightarrow> jsval \<Rightarrow> bool" where
  "conditions_inside ids (JArr cs) = list_all (\<lambda>c. case condition_option c of None \<Rightarrow> False | Some i \<Rightarrow> i \<in> ids) cs"
| "conditions_inside ids _ = False"

fun renamed_conditions :: "(string \<Rightarrow> string) \<Rightarrow> jsval \<Rightarrow> jsval" where
  "renamed_conditions \<rho> (JArr cs) = JArr (map (\<lambda>c. with_key c ''optionId'' (JStr (\<rho> (the (condition_option c))))) cs)"
| "renamed_conditions \<rho> v = v"

definition rule_inside :: "string set \<Rightarrow> rule_entity \<Rightarrow> bool" where
  "rule_inside ids r \<longleftrightarrow> sr_targetId (re_rule r) \<in> ids \<and> conditions_inside ids (sr_conditions (re_rule r))"

text \<open>A rule that names a row the copy has not is kept, disabled, with the reason.\<close>

definition renamed_rule :: "(string \<Rightarrow> string) \<Rightarrow> string set \<Rightarrow> rule_entity \<Rightarrow> rule_entity" where
  "renamed_rule \<rho> ids r =
     (let target = sr_targetId (re_rule r); cs = sr_conditions (re_rule r);
          r1 = r\<lparr>re_rule := (re_rule r)\<lparr>sr_id := \<rho> (sr_id (re_rule r)), sr_targetId := (if target \<in> ids then \<rho> target else target),
            sr_conditions := (if conditions_inside ids cs then renamed_conditions \<rho> cs else cs)\<rparr>\<rparr>
      in if rule_inside ids r then r1 else r1\<lparr>re_isEnabled := False, re_disabledReason := Some ''target_deleted''\<rparr>)"

definition tree_ids :: "option_set_tree \<Rightarrow> string list" where
  "tree_ids tree = flat_map (\<lambda>g. ge_id g # flat_map (\<lambda>n. oe_id n # map ve_id (oe_values n)) (ge_options g)) (os_groups tree)"

definition renamed_tree :: "(string \<Rightarrow> string) \<Rightarrow> set_row \<Rightarrow> option_set_tree \<Rightarrow> option_set_tree" where
  "renamed_tree \<rho> s tree = \<lparr>os_id = st_id s, os_name = st_name s, os_version = Fin 0,
     os_groups = map (renamed_group \<rho>) (os_groups tree),
     os_rules = map (renamed_rule \<rho> (set (tree_ids tree))) (os_rules tree)\<rparr>"

text \<open>The copies of the source rows are these.\<close>

lemma copy_value_renamed: "copy_value (\<rho> (ve_id v)) v = renamed_value \<rho> v"
  by (simp add: copy_value_def copyableValueFields_def new_value_def renamed_value_def)

lemma copy_item_renamed: "copy_item (\<rho> (ie_id i)) i = i\<lparr>ie_id := \<rho> (ie_id i)\<rparr>"
  by (simp add: copy_item_def copyableItemFields_def)

lemma remap_each_inside:
  assumes "\<And>k. map_get m k = (if k \<in> ids then Some (\<rho> k) else None)"
  shows "remap_each m cs = (if list_all (\<lambda>c. case condition_option c of None \<Rightarrow> False | Some i \<Rightarrow> i \<in> ids) cs
    then Some (map (\<lambda>c. with_key c ''optionId'' (JStr (\<rho> (the (condition_option c))))) cs) else None)"
proof (induction cs)
  case (Cons c cs)
  show ?case
  proof (cases c)
    case (JObj kvs)
    then show ?thesis using Cons.IH assms by (cases "js_get (JObj kvs) ''optionId''") (simp_all del: js_get.simps)
  qed simp_all
qed simp

lemma copy_rule_renamed:
  assumes "\<And>k. map_get m k = (if k \<in> ids then Some (\<rho> k) else None)"
  shows "copy_rule m (\<rho> (sr_id (re_rule r))) r = renamed_rule \<rho> ids r"
proof -
  have "remapConditions cs m = (if conditions_inside ids cs then Some (elements (renamed_conditions \<rho> cs)) else None)"
    and "conditions_inside ids cs \<Longrightarrow> JArr (elements (renamed_conditions \<rho> cs)) = renamed_conditions \<rho> cs" for cs
    by (cases cs; simp add: remap_each_inside [OF assms])+
  then show ?thesis
    by (cases r; cases "re_rule r") (auto simp: copy_rule_def copyableRuleFields_def renamed_rule_def rule_inside_def Let_def assms)
qed

section \<open>Ids\<close>

abbreviation row_ids :: "('e \<Rightarrow> string) \<Rightarrow> 'e child_row list \<Rightarrow> string list" where
  "row_ids key rows \<equiv> map (\<lambda>r. key (row_entity r)) rows"

definition all_ids :: "authoring_db \<Rightarrow> string list" where
  "all_ids adb = row_ids ge_id (db_groups adb) @ row_ids oe_id (db_options adb) @ row_ids ve_id (db_values adb)
     @ row_ids ie_id (db_items adb) @ row_ids (\<lambda>r. sr_id (re_rule r)) (db_rules adb)"

definition all_parents :: "authoring_db \<Rightarrow> string list" where
  "all_parents adb = map row_parent (db_groups adb) @ map row_parent (db_options adb) @ map row_parent (db_values adb)
     @ map row_parent (db_items adb) @ map row_parent (db_rules adb)"

text \<open>Every row has an id of its own, siblings have positions of their own, and a new key is no key in use.\<close>

definition copy_ready :: "(nat \<Rightarrow> string) \<Rightarrow> authoring_db \<Rightarrow> bool" where
  "copy_ready new_id adb \<longleftrightarrow> distinct (all_ids adb) \<and> inj new_id
     \<and> range new_id \<inter> (set (all_ids adb) \<union> set (all_parents adb) \<union> st_id ` set (db_sets adb)) = {}
     \<and> siblings_ordered group_position (db_groups adb) \<and> siblings_ordered option_position (db_options adb)
     \<and> siblings_ordered value_position (db_values adb) \<and> siblings_ordered item_position (db_items adb)
     \<and> siblings_ordered rule_position (db_rules adb)"

lemma distinct_nested:
  assumes "distinct (row_ids key rows)" and "distinct ps"
  shows "distinct (row_ids key (flat_map (\<lambda>p. find_in_order pos [p] rows) ps))"
  using assms(2)
proof (induction ps)
  case (Cons p ps)
  have inj: "inj_on (\<lambda>r. key (row_entity r)) (set rows)" and rows: "distinct rows" using assms(1) by (simp_all add: distinct_map)
  have "distinct (find_in_order pos [p] rows)" using rows by (simp add: find_in_order_def)
  moreover have "inj_on (\<lambda>r. key (row_entity r)) (set (find_in_order pos [p] rows))"
    using inj by (rule inj_on_subset) (auto simp: find_in_order_set)
  ultimately have "distinct (row_ids key (find_in_order pos [p] rows))" by (simp add: distinct_map)
  moreover have "key (row_entity r) \<noteq> key (row_entity q)"
    if "r \<in> set (find_in_order pos [p] rows)" "q \<in> set (flat_map (\<lambda>p. find_in_order pos [p] rows) ps)" for r q
  proof
    assume "key (row_entity r) = key (row_entity q)"
    then have "r = q" using inj that by (auto simp: find_in_order_set dest: inj_onD)
    then show False using that Cons.prems by (auto simp: find_in_order_set)
  qed
  ultimately show ?case using Cons by (auto simp: find_in_order_set)
qed simp

lemma distinct_filter_map: "distinct (map f xs) \<Longrightarrow> distinct (map f (filter P xs))"
  by (simp add: distinct_map inj_on_def)

lemma option_ids_nested: "map oe_id (flat_map (\<lambda>g. options_of adb (ge_id g)) gs)
    = row_ids oe_id (flat_map (\<lambda>p. find_in_order option_position [p] (db_options adb)) (map ge_id gs))"
  by (induction gs) (simp_all add: options_of_def)

lemma value_ids_nested: "map ve_id (flat_map (\<lambda>n. values_of adb (oe_id n)) ns)
    = row_ids ve_id (flat_map (\<lambda>p. find_in_order value_position [p] (db_values adb)) (map oe_id ns))"
  by (induction ns) (simp_all add: values_of_def)

lemma item_ids_nested: "map ie_id (flat_map (copied_items adb) gs)
    = row_ids ie_id (flat_map (\<lambda>p. find_in_order item_position [p] (db_items adb))
        (map ge_id (filter (\<lambda>g. options_of adb (ge_id g) \<noteq> []) gs)))"
  by (induction gs) (simp_all add: items_of_def copied_items_def)

lemma option_job_keys: "map job_key (option_jobs adb p n) = oe_id n # map ve_id (values_of adb (oe_id n))"
  by (simp add: option_jobs_def)

lemma job_keys_parts: "mset (map job_key (flat_map (group_jobs adb) gs)) = mset (map ge_id gs
    @ map oe_id (flat_map (\<lambda>g. options_of adb (ge_id g)) gs)
    @ map ve_id (flat_map (\<lambda>n. values_of adb (oe_id n)) (flat_map (\<lambda>g. options_of adb (ge_id g)) gs))
    @ map ie_id (flat_map (copied_items adb) gs))"
proof (induction gs)
  case (Cons g gs)
  have "mset (map job_key (flat_map (option_jobs adb p) ns)) = mset (map oe_id ns)
      + mset (map ve_id (flat_map (\<lambda>n. values_of adb (oe_id n)) ns))" for p ns
    by (induction ns) (simp_all add: option_job_keys)
  then show ?case using Cons by (simp add: group_jobs_def o_def)
qed simp

lemma child_ids_subset: "set (row_ids key (flat_map (\<lambda>p. find_in_order pos [p] rows) ps)) \<subseteq> set (row_ids key rows)"
  by (auto simp: find_in_order_set)

lemma distinct_append_mono:
  "distinct (xs @ ys) \<Longrightarrow> distinct xs' \<Longrightarrow> distinct ys' \<Longrightarrow> set xs' \<subseteq> set xs \<Longrightarrow> set ys' \<subseteq> set ys \<Longrightarrow> distinct (xs' @ ys')"
  unfolding distinct_append by blast

lemma distinct_parts:
  assumes "distinct (as @ bs @ cs @ ds @ es)"
    and "distinct as'" and "distinct bs'" and "distinct cs'" and "distinct ds'" and "distinct es'"
    and "set as' \<subseteq> set as" and "set bs' \<subseteq> set bs" and "set cs' \<subseteq> set cs" and "set ds' \<subseteq> set ds" and "set es' \<subseteq> set es"
  shows "distinct (as' @ bs' @ cs' @ ds' @ es')"
proof -
  have tails: "distinct (bs @ cs @ ds @ es)" "distinct (cs @ ds @ es)" "distinct (ds @ es)" using assms(1) by simp_all
  have subs: "set (ds' @ es') \<subseteq> set (ds @ es)" "set (cs' @ ds' @ es') \<subseteq> set (cs @ ds @ es)"
    "set (bs' @ cs' @ ds' @ es') \<subseteq> set (bs @ cs @ ds @ es)" using assms(8-11) by auto
  have "distinct (ds' @ es')" by (rule distinct_append_mono [OF tails(3) assms(5,6,10,11)])
  then have "distinct (cs' @ ds' @ es')" by (rule distinct_append_mono [OF tails(2) assms(4) _ assms(9) subs(1)])
  then have "distinct (bs' @ cs' @ ds' @ es')" by (rule distinct_append_mono [OF tails(1) assms(3) _ assms(8) subs(2)])
  then show ?thesis by (rule distinct_append_mono [OF assms(1,2) _ assms(7) subs(3)])
qed

lemma copy_keys_distinct:
  fixes p :: string
  assumes "distinct (all_ids adb)"
  defines "gs \<equiv> map row_entity (find_in_order group_position [p] (db_groups adb))"
    and "rs \<equiv> map row_entity (find_in_order rule_position [p] (db_rules adb))"
  shows "distinct (map job_key (flat_map (group_jobs adb) gs) @ map (\<lambda>r. sr_id (re_rule r)) rs)"
proof -
  let ?os = "flat_map (\<lambda>g. options_of adb (ge_id g)) gs"
  let ?G = "map ge_id gs" and ?O = "map oe_id ?os" and ?V = "map ve_id (flat_map (\<lambda>n. values_of adb (oe_id n)) ?os)"
    and ?I = "map ie_id (flat_map (copied_items adb) gs)" and ?R = "map (\<lambda>r. sr_id (re_rule r)) rs"
  have parts: "distinct (row_ids ge_id (db_groups adb))" "distinct (row_ids oe_id (db_options adb))"
    "distinct (row_ids ve_id (db_values adb))" "distinct (row_ids ie_id (db_items adb))"
    "distinct (row_ids (\<lambda>r. sr_id (re_rule r)) (db_rules adb))" using assms(1) by (simp_all add: all_ids_def)
  have one: "distinct (row_ids key (find_in_order pos [p] rows))" if "distinct (row_ids key rows)" for key pos and rows :: "'e child_row list"
    using distinct_nested [OF that, of "[p]" pos] by simp
  have G: "distinct ?G" and R: "distinct ?R" using one [OF parts(1)] one [OF parts(5)] by (simp_all add: gs_def rs_def o_def)
  have O': "distinct ?O" unfolding option_ids_nested using parts(2) G by (rule distinct_nested)
  have V: "distinct ?V" unfolding value_ids_nested using parts(3) O' by (rule distinct_nested)
  have I: "distinct ?I" unfolding item_ids_nested using parts(4) distinct_filter_map [OF G] by (intro distinct_nested)
  have sub_G: "set ?G \<subseteq> set (row_ids ge_id (db_groups adb))" by (auto simp: gs_def find_in_order_set)
  have sub_O: "set ?O \<subseteq> set (row_ids oe_id (db_options adb))" unfolding option_ids_nested by (rule child_ids_subset)
  have sub_V: "set ?V \<subseteq> set (row_ids ve_id (db_values adb))" unfolding value_ids_nested by (rule child_ids_subset)
  have sub_I: "set ?I \<subseteq> set (row_ids ie_id (db_items adb))" unfolding item_ids_nested by (rule child_ids_subset)
  have sub_R: "set ?R \<subseteq> set (row_ids (\<lambda>r. sr_id (re_rule r)) (db_rules adb))" by (auto simp: rs_def find_in_order_set)
  have "distinct (?G @ ?O @ ?V @ ?I @ ?R)"
    by (rule distinct_parts [OF assms(1) [unfolded all_ids_def] G O' V I R sub_G sub_O sub_V sub_I sub_R])
  then have "distinct ((?G @ ?O @ ?V @ ?I) @ ?R)" by simp
  note all = this
  have "mset (map job_key (flat_map (group_jobs adb) gs) @ ?R) = mset ((?G @ ?O @ ?V @ ?I) @ ?R)"
    by (simp only: mset_append job_keys_parts)
  from mset_eq_imp_distinct_iff [OF this] show ?thesis using all by (rule iffD2)
qed

section \<open>The tables after a copy\<close>

abbreviation groups_of :: "authoring_db \<Rightarrow> string \<Rightarrow> group_entity list" where
  "groups_of adb p \<equiv> map row_entity (find_in_order group_position [p] (db_groups adb))"

abbreviation rules_of :: "authoring_db \<Rightarrow> string \<Rightarrow> rule_entity list" where
  "rules_of adb p \<equiv> map row_entity (find_in_order rule_position [p] (db_rules adb))"

abbreviation copy_jobs :: "authoring_db \<Rightarrow> string \<Rightarrow> copy_job list" where
  "copy_jobs adb p \<equiv> flat_map (group_jobs adb) (groups_of adb p)"

definition mapped_keys :: "copy_job list \<Rightarrow> string set" where
  "mapped_keys js = (\<Union>j\<in>set js. mapped_key j)"

definition copied_tables :: "(string \<Rightarrow> string) \<Rightarrow> set_row \<Rightarrow> string \<Rightarrow> authoring_db \<Rightarrow> authoring_db" where
  "copied_tables \<rho> created p adb = adb\<lparr>db_sets := db_sets adb @ [created],
     db_groups := db_groups adb @ flat_map (group_row \<rho> (st_id created)) (copy_jobs adb p),
     db_options := db_options adb @ flat_map (option_row \<rho>) (copy_jobs adb p),
     db_values := db_values adb @ flat_map (value_row \<rho>) (copy_jobs adb p),
     db_items := db_items adb @ flat_map (item_row \<rho>) (copy_jobs adb p),
     db_rules := db_rules adb @ map (\<lambda>r. live_row (st_id created) (renamed_rule \<rho> (mapped_keys (copy_jobs adb p)) r)) (rules_of adb p)\<rparr>"

lemma copy_readyD:
  assumes "copy_ready new_id adb"
  shows "distinct (all_ids adb)" and "inj new_id" and "range new_id \<inter> set (all_ids adb) = {}"
    and "range new_id \<inter> set (all_parents adb) = {}" and "range new_id \<inter> st_id ` set (db_sets adb) = {}"
  using assms unfolding copy_ready_def by blast+

lemma copy_tables:
  assumes ready: "copy_ready new_id adb"
  shows "\<exists>\<rho>. follows \<rho> new_id n (map job_key (copy_jobs adb p)) \<and> inj_on \<rho> (job_key ` set (copy_jobs adb p))
    \<and> copy_tree_rows new_id n p created adb = copied_tables \<rho> created p adb"
proof -
  let ?gs = "groups_of adb p" and ?J = "copy_jobs adb p" and ?R = "rules_of adb p"
  let ?rid = "\<lambda>r. sr_id (re_rule r)"
  let ?st0 = "\<lparr>cp_db = adb\<lparr>db_sets := db_sets adb @ [created]\<rparr>, cp_next = n, idMap = []\<rparr>"
  let ?st1 = "fold (save_group new_id (st_id created)) ?gs ?st0"
  have dist: "distinct (map job_key ?J @ map ?rid ?R)" by (rule copy_keys_distinct [OF copy_readyD(1) [OF ready]])
  then obtain \<rho> where \<rho>: "follows \<rho> new_id n (map job_key ?J @ map ?rid ?R)" "inj_on \<rho> (set (map job_key ?J @ map ?rid ?R))"
    using follows_exists [OF _ copy_readyD(2) [OF ready]] by blast
  have ids: "ge_id ` set ?gs \<subseteq> set (all_ids adb)" "\<And>q. oe_id ` set (options_of adb q) \<subseteq> set (all_ids adb)"
    by (auto simp: all_ids_def find_in_order_set options_of_def)
  have own: "distinct (map job_key (group_jobs adb g))" if g: "g \<in> set ?gs" for g
  proof -
    obtain ys zs where gs: "?gs = ys @ g # zs" using split_list [OF g] by blast
    show ?thesis using dist [unfolded gs] by simp
  qed
  have ran: "jobs_done \<rho> (st_id created) ?J ?st0 ?st1"
  proof (rule save_groups_jobs(2))
    show "follows \<rho> new_id (cp_next ?st0) (map job_key ?J)" using \<rho>(1) by (simp add: follows_append)
    show "consistent \<rho> ?st0" by (simp add: consistent_def)
    show "grown (range new_id) adb ?st0" by (simp add: grown_def)
    show "ge_id ` set ?gs \<inter> range new_id = {}" using ids(1) copy_readyD(3) [OF ready] by blast
    show "oe_id ` set (options_of adb (ge_id g)) \<inter> range new_id = {}" for g using ids(2) copy_readyD(3) [OF ready] by blast
  qed (rule own)
  have m: "map_get (idMap ?st1) k = (if k \<in> mapped_keys ?J then Some (\<rho> k) else None)" for k
    using ran by (simp add: jobs_done_def mapped_keys_def)
  have rules: "db_rules (cp_db ?st1) = db_rules adb" and next_id: "cp_next ?st1 = n + length ?J"
    using ran by (simp_all add: jobs_done_def)
  have "cp_db (copyRulesInto new_id p (st_id created) ?st1) = (cp_db ?st1)\<lparr>db_rules := db_rules (cp_db ?st1)
      @ map (\<lambda>r. live_row (st_id created) (copy_rule (idMap ?st1) (\<rho> (?rid r)) r)) ?R\<rparr>"
    unfolding copyRulesInto_def rules using \<rho>(1) next_id
    by (subst save_rules_rows [where \<rho> = \<rho>]) (simp_all add: follows_append rules)
  then have "copy_tree_rows new_id n p created adb = copied_tables \<rho> created p adb"
    using ran unfolding copy_tree_rows_def Let_def copied_tables_def
    by (simp add: copy_rule_renamed [OF m] jobs_done_def rules)
  then show ?thesis using \<rho> by (intro exI [of _ \<rho>]) (auto simp: follows_append inj_on_Un)
qed

section \<open>The tree of the copy\<close>

lemma source_tree:
  assumes "copy_ready new_id adb"
  shows "tree_option adb n = n\<lparr>oe_values := values_of adb (oe_id n)\<rparr>"
    and "tree_group adb g = g\<lparr>ge_items := items_of adb (ge_id g), ge_options := map (tree_option adb) (options_of adb (ge_id g))\<rparr>"
    and "set_tree_of adb s = \<lparr>os_id = st_id s, os_name = st_name s, os_version = Fin (of_nat (st_version s)),
      os_groups = map (tree_group adb) (groups_of adb (st_id s)), os_rules = rules_of adb (st_id s)\<rparr>"
  using assms unfolding copy_ready_def
  by (simp_all add: tree_option_def tree_group_def set_tree_of_def values_of_def items_of_def options_of_def find_children_in_order)

lemma jobs_distinct:
  assumes "copy_ready new_id adb"
  shows "distinct (map ge_id (groups_of adb p))"
    and "distinct (map oe_id (flat_map (\<lambda>g. options_of adb (ge_id g)) (groups_of adb p)))"
proof -
  have "distinct (map job_key (copy_jobs adb p))" using copy_keys_distinct [OF copy_readyD(1) [OF assms]] by (simp only: distinct_append)
  from iffD1 [OF mset_eq_imp_distinct_iff [OF job_keys_parts] this]
  show "distinct (map ge_id (groups_of adb p))"
    and "distinct (map oe_id (flat_map (\<lambda>g. options_of adb (ge_id g)) (groups_of adb p)))" by (simp_all only: distinct_append)
qed

lemma job_keys_set: "job_key ` set (copy_jobs adb p) = ge_id ` set (groups_of adb p)
    \<union> oe_id ` set (flat_map (\<lambda>g. options_of adb (ge_id g)) (groups_of adb p))
    \<union> ve_id ` set (flat_map (\<lambda>n. values_of adb (oe_id n)) (flat_map (\<lambda>g. options_of adb (ge_id g)) (groups_of adb p)))
    \<union> ie_id ` set (flat_map (copied_items adb) (groups_of adb p))"
  using arg_cong [OF job_keys_parts, of set_mset] by (simp only: set_mset_mset list.set_map set_append Un_assoc)

lemma mapped_keys_ids:
  assumes "copy_ready new_id adb"
  shows "mapped_keys (copy_jobs adb (st_id s)) = set (tree_ids (set_tree_of adb s))"
proof -
  have g: "(\<Union>j\<in>set (group_jobs adb g). mapped_key j)
      = set (ge_id g # flat_map (\<lambda>n. oe_id n # map ve_id (values_of adb (oe_id n))) (options_of adb (ge_id g)))" for g
    by (auto simp: group_jobs_def option_jobs_def)
  have "mapped_keys (copy_jobs adb (st_id s)) = (\<Union>g\<in>set (groups_of adb (st_id s)). \<Union>j\<in>set (group_jobs adb g). mapped_key j)"
    by (auto simp: mapped_keys_def)
  also have "\<dots> = set (tree_ids (set_tree_of adb s))"
    unfolding g tree_ids_def source_tree(3) [OF assms] by (simp add: source_tree(1,2) [OF assms] o_def)
  finally show ?thesis .
qed

lemma copied_tables_fields:
  "db_sets (copied_tables \<rho> created p adb) = db_sets adb @ [created]"
  "db_groups (copied_tables \<rho> created p adb) = db_groups adb
     @ map (\<lambda>g. live_row (st_id created) (copy_group (\<rho> (ge_id g)) g)) (groups_of adb p)"
  "db_options (copied_tables \<rho> created p adb) = db_options adb
     @ flat_map (\<lambda>g. map (\<lambda>n. live_row (\<rho> (ge_id g)) (copy_option (\<rho> (oe_id n)) n)) (options_of adb (ge_id g))) (groups_of adb p)"
  "db_values (copied_tables \<rho> created p adb) = db_values adb
     @ flat_map (\<lambda>n. map (\<lambda>v. live_row (\<rho> (oe_id n)) (copy_value (\<rho> (ve_id v)) v)) (values_of adb (oe_id n)))
         (flat_map (\<lambda>g. options_of adb (ge_id g)) (groups_of adb p))"
  "db_items (copied_tables \<rho> created p adb) = db_items adb
     @ flat_map (\<lambda>g. map (\<lambda>i. live_row (\<rho> (ge_id g)) (copy_item (\<rho> (ie_id i)) i)) (copied_items adb g)) (groups_of adb p)"
  "db_rules (copied_tables \<rho> created p adb) = db_rules adb
     @ map (\<lambda>r. live_row (st_id created) (renamed_rule \<rho> (mapped_keys (copy_jobs adb p)) r)) (rules_of adb p)"
  unfolding copied_tables_def group_jobs_rows by simp_all

lemma copied_children:
  fixes k0 :: nat and created :: set_row
  assumes ready: "copy_ready new_id adb" and \<rho>: "follows \<rho> new_id k0 (map job_key (copy_jobs adb p))"
    "inj_on \<rho> (job_key ` set (copy_jobs adb p))" and g: "g \<in> set (groups_of adb p)"
  defines "adb' \<equiv> copied_tables \<rho> created p adb"
  shows "children option_position (\<rho> (ge_id g)) (db_options adb') = map (\<lambda>n. copy_option (\<rho> (oe_id n)) n) (options_of adb (ge_id g))"
    and "children item_position (\<rho> (ge_id g)) (db_items adb') = map (\<lambda>i. copy_item (\<rho> (ie_id i)) i) (copied_items adb g)"
    and "n \<in> set (options_of adb (ge_id g)) \<Longrightarrow> children value_position (\<rho> (oe_id n)) (db_values adb')
      = map (\<lambda>v. copy_value (\<rho> (ve_id v)) v) (values_of adb (oe_id n))"
proof -
  let ?gs = "groups_of adb p" and ?os = "flat_map (\<lambda>g. options_of adb (ge_id g)) (groups_of adb p)"
  have keys: "ge_id ` set ?gs \<subseteq> job_key ` set (copy_jobs adb p)" "oe_id ` set ?os \<subseteq> job_key ` set (copy_jobs adb p)"
    unfolding job_keys_set by auto
  have inj: "inj_on \<rho> (ge_id ` set ?gs)" "inj_on \<rho> (oe_id ` set ?os)" using keys \<rho>(2) by (meson inj_on_subset)+
  have dist: "distinct (map (\<lambda>g. \<rho> (ge_id g)) ?gs)" "distinct (map (\<lambda>n. \<rho> (oe_id n)) ?os)"
    using jobs_distinct [OF ready, of p] inj by (simp_all only: distinct_map comp_inj_on_iff [symmetric] o_def list.set_map)
      (auto simp: inj_on_def)
  have "\<rho> k \<in> range new_id" if "k \<in> set (map job_key (copy_jobs adb p))" for k
    using follows_range [OF \<rho>(1)] imageI [OF that, of \<rho>] by blast
  then have parents: "\<rho> k \<notin> set (all_parents adb)" if "k \<in> job_key ` set (copy_jobs adb p)" for k
    using copy_readyD(4) [OF ready] that unfolding list.set_map by blast
  have gp: "\<rho> (ge_id g) \<notin> set (all_parents adb)" by (rule parents [OF subsetD [OF keys(1) imageI [OF g]]])
  have ord: "siblings_ordered option_position (db_options adb)" "siblings_ordered value_position (db_values adb)"
    "siblings_ordered item_position (db_items adb)" using ready by (simp_all add: copy_ready_def)
  show "children option_position (\<rho> (ge_id g)) (db_options adb') = map (\<lambda>n. copy_option (\<rho> (oe_id n)) n) (options_of adb (ge_id g))"
    unfolding adb'_def copied_tables_fields
  proof (rule children_of_copy)
    show "\<rho> (ge_id g) \<notin> row_parent ` set (db_options adb)" using gp by (auto simp: all_parents_def)
    show "strictly_ordered option_position (options_of adb (ge_id g))" unfolding options_of_def using ord(1) by (rule in_order_strict)
  qed (use filter_flat_map_parent [OF dist(1) g] in \<open>simp_all add: copy_option_def new_option_def\<close>)
  show "children item_position (\<rho> (ge_id g)) (db_items adb') = map (\<lambda>i. copy_item (\<rho> (ie_id i)) i) (copied_items adb g)"
    unfolding adb'_def copied_tables_fields
  proof (rule children_of_copy)
    show "\<rho> (ge_id g) \<notin> row_parent ` set (db_items adb)" using gp by (auto simp: all_parents_def)
    show "strictly_ordered item_position (copied_items adb g)" using in_order_strict [OF ord(3)] by (simp add: copied_items_def items_of_def)
  qed (use filter_flat_map_parent [OF dist(1) g] in \<open>simp_all add: copy_item_renamed\<close>)
  show "children value_position (\<rho> (oe_id n)) (db_values adb') = map (\<lambda>v. copy_value (\<rho> (ve_id v)) v) (values_of adb (oe_id n))"
    if n: "n \<in> set (options_of adb (ge_id g))"
    unfolding adb'_def copied_tables_fields
  proof (rule children_of_copy)
    have os: "n \<in> set ?os" using n g by auto
    show "\<rho> (oe_id n) \<notin> row_parent ` set (db_values adb)" using parents [OF subsetD [OF keys(2) imageI [OF os]]] by (auto simp: all_parents_def)
    show "strictly_ordered value_position (values_of adb (oe_id n))" unfolding values_of_def using ord(2) by (rule in_order_strict)
    show "filter (\<lambda>r. row_parent r = \<rho> (oe_id n)) (flat_map (\<lambda>n. map (\<lambda>v. live_row (\<rho> (oe_id n)) (copy_value (\<rho> (ve_id v)) v))
        (values_of adb (oe_id n))) ?os) = map (\<lambda>v. live_row (\<rho> (oe_id n)) (copy_value (\<rho> (ve_id v)) v)) (values_of adb (oe_id n))"
      by (rule filter_flat_map_parent [OF dist(2) os])
  qed (simp add: copy_value_renamed renamed_value_def)
qed

lemma copied_tree:
  fixes k0 :: nat and created source :: set_row
  assumes ready: "copy_ready new_id adb" and \<rho>: "follows \<rho> new_id k0 (map job_key (copy_jobs adb (st_id source)))"
    "inj_on \<rho> (job_key ` set (copy_jobs adb (st_id source)))"
    and fresh: "st_id created \<notin> set (all_parents adb)" and "st_version created = 0"
  shows "set_tree_of (copied_tables \<rho> created (st_id source) adb) created = renamed_tree \<rho> created (set_tree_of adb source)"
proof -
  let ?c = "st_id created" and ?p = "st_id source" and ?adb = "copied_tables \<rho> created (st_id source) adb"
  let ?gs = "groups_of adb ?p" and ?copy = "\<lambda>g. copy_group (\<rho> (ge_id g)) g"
  have ord: "siblings_ordered group_position (db_groups adb)" "siblings_ordered rule_position (db_rules adb)"
    using ready by (simp_all add: copy_ready_def)
  have id_filter: "filter (\<lambda>r. row_parent r = q) (map (\<lambda>e. live_row q (f e)) es) = map (\<lambda>e. live_row q (f e)) es" for q es and f :: "'x \<Rightarrow> 'y"
    by (auto simp: filter_id_conv live_row_def)
  have "children group_position ?c (db_groups ?adb) = map ?copy ?gs"
    unfolding copied_tables_fields
  proof (rule children_of_copy)
    show "?c \<notin> row_parent ` set (db_groups adb)" using fresh by (auto simp: all_parents_def)
    show "strictly_ordered group_position ?gs" using ord(1) by (rule in_order_strict)
  qed (use id_filter [of ?c ?copy ?gs] in \<open>simp_all add: copy_group_def\<close>)
  moreover have "tree_group ?adb (?copy g) = renamed_group \<rho> (tree_group adb g)" if g: "g \<in> set ?gs" for g
  proof -
    note kids = copied_children [OF ready \<rho> g, where created = created]
    have "tree_option ?adb (copy_option (\<rho> (oe_id n)) n) = renamed_option \<rho> (tree_option adb n)"
      if "n \<in> set (options_of adb (ge_id g))" for n
      using kids(3) [OF that] by (simp add: tree_option_def [of ?adb] source_tree(1) [OF ready] renamed_option_def copy_option_def
          new_option_def copy_value_renamed cong: map_cong)
    then show ?thesis using kids(1,2)
      by (simp add: tree_group_def [of ?adb] source_tree(2) [OF ready] renamed_group_def copy_group_def copied_items_def copy_item_renamed)
  qed
  moreover have "children rule_position ?c (db_rules ?adb) = map (renamed_rule \<rho> (set (tree_ids (set_tree_of adb source)))) (rules_of adb ?p)"
    unfolding copied_tables_fields mapped_keys_ids [OF ready]
  proof (rule children_of_copy)
    show "?c \<notin> row_parent ` set (db_rules adb)" using fresh by (auto simp: all_parents_def)
    show "strictly_ordered rule_position (rules_of adb ?p)" using ord(2) by (rule in_order_strict)
  qed (use id_filter [of ?c "renamed_rule \<rho> (set (tree_ids (set_tree_of adb source)))" "rules_of adb ?p"] in
      \<open>simp_all add: renamed_rule_def Let_def\<close>)
  ultimately show ?thesis using assms(5)
    by (simp add: set_tree_of_def [of ?adb] renamed_tree_def source_tree(3) [OF ready])
qed

section \<open>What a copy guarantees\<close>

lemma duplicate_Inr:
  assumes "duplicate json_parse now tenantId new_id i name storeId db = Inr (s, db')"
  shows "\<exists>source w. findById tenantId (pf_sets db) i = Some source \<and> s = copied_set now (new_id 0) name w source
    \<and> pf_authoring db' = copy_tree_rows new_id 1 (st_id source) s (pf_authoring db)"
  using assms by (auto simp: duplicate_def bind_result_Inr_iff Let_def record_audit_def split: option.splits)

lemma findById_Some:
  "findById tenantId sets i = Some s \<Longrightarrow> s \<in> set sets \<and> st_id s = i \<and> st_tenantId s = tenantId \<and> st_deletedAt s = LIVE_SENTINEL"
  unfolding findById_def find_row_def by (drule find_Some_in) simp

lemma duplicate_tables:
  assumes ready: "copy_ready new_id (pf_authoring db)"
    and dup: "duplicate json_parse now tenantId new_id i name storeId db = Inr (s, db')"
  shows "\<exists>\<rho> source. findById tenantId (pf_sets db) i = Some source \<and> follows \<rho> new_id 1 (map job_key (copy_jobs (pf_authoring db) i))
    \<and> inj_on \<rho> (job_key ` set (copy_jobs (pf_authoring db) i)) \<and> st_id s = new_id 0 \<and> st_version s = 0 \<and> st_tenantId s = tenantId
    \<and> st_deletedAt s = LIVE_SENTINEL \<and> pf_authoring db' = copied_tables \<rho> s i (pf_authoring db)"
proof -
  obtain source w where s: "findById tenantId (pf_sets db) i = Some source" "s = copied_set now (new_id 0) name w source"
    "pf_authoring db' = copy_tree_rows new_id 1 (st_id source) s (pf_authoring db)" using duplicate_Inr [OF dup] by blast
  note source = findById_Some [OF s(1)]
  obtain \<rho> where \<rho>: "follows \<rho> new_id 1 (map job_key (copy_jobs (pf_authoring db) i))" "inj_on \<rho> (job_key ` set (copy_jobs (pf_authoring db) i))"
    "copy_tree_rows new_id 1 i s (pf_authoring db) = copied_tables \<rho> s i (pf_authoring db)" using copy_tables [OF ready] by blast
  have "pf_authoring db' = copied_tables \<rho> s i (pf_authoring db)" using s(3) \<rho>(3) source by simp
  moreover have "st_id s = new_id 0" "st_version s = 0" "st_tenantId s = tenantId" "st_deletedAt s = LIVE_SENTINEL"
    using source unfolding s(2) copied_set_def by simp_all
  ultimately show ?thesis using s(1) \<rho>(1,2) by blast
qed

lemma copy_load:
  assumes ready: "copy_ready new_id (pf_authoring db)"
    and dup: "duplicate json_parse now tenantId new_id i name storeId db = Inr (s, db')"
    and load: "load tenantId (pf_authoring db) i = Some (source, tree)"
  shows "\<exists>\<rho>. inj_on \<rho> (set (tree_ids tree)) \<and> \<rho> ` set (tree_ids tree) \<subseteq> range new_id
    \<and> load tenantId (pf_authoring db') (st_id s) = Some (s, renamed_tree \<rho> s tree)"
proof -
  let ?adb = "pf_authoring db" and ?J = "copy_jobs (pf_authoring db) i"
  obtain \<rho> where \<rho>: "follows \<rho> new_id 1 (map job_key ?J)" "inj_on \<rho> (job_key ` set ?J)"
    and s: "st_id s = new_id 0" "st_version s = 0" "st_tenantId s = tenantId" "st_deletedAt s = LIVE_SENTINEL"
    and db': "pf_authoring db' = copied_tables \<rho> s i ?adb" using duplicate_tables [OF ready dup] by blast
  have source: "findById tenantId (db_sets ?adb) i = Some source" "tree = set_tree_of ?adb source" using load by (auto simp: load_levels)
  then have id: "st_id source = i" using findById_Some by blast
  have fresh: "st_id s \<notin> set (all_parents ?adb)" "st_id s \<notin> st_id ` set (db_sets ?adb)"
    using copy_readyD(4,5) [OF ready] s(1) by auto
  have "set_tree_of (copied_tables \<rho> s (st_id source) ?adb) s = renamed_tree \<rho> s (set_tree_of ?adb source)"
    using ready \<rho> fresh(1) s(2) unfolding id [symmetric] by (rule copied_tree)
  moreover have "List.find (\<lambda>r. st_id r = st_id s \<and> st_deletedAt r = LIVE_SENTINEL \<and> st_tenantId r = tenantId) (db_sets ?adb) = None"
    using fresh(2) unfolding find_None_all by (metis imageI)
  then have "findById tenantId (db_sets (pf_authoring db')) (st_id s) = Some s"
    unfolding db' copied_tables_fields findById_def find_row_def using s by (simp add: find_append)
  ultimately have "load tenantId (pf_authoring db') (st_id s) = Some (s, renamed_tree \<rho> s tree)"
    using db' id source(2) by (simp add: load_levels)
  moreover have "set (tree_ids tree) \<subseteq> job_key ` set ?J"
    using mapped_keys_ids [OF ready, of source] mapped_is_key unfolding id source(2) mapped_keys_def by fastforce
  ultimately show ?thesis using \<rho>(2) follows_range [OF \<rho>(1)] unfolding list.set_map
    by (intro exI [of _ \<rho>]) (blast intro: inj_on_subset)
qed


lemma renamed_ids: "set (tree_ids (renamed_tree \<rho> s tree)) = \<rho> ` set (tree_ids tree)"
  by (auto simp: tree_ids_def renamed_tree_def renamed_group_def renamed_option_def renamed_value_def image_UN image_image)

lemma renamed_condition:
  assumes "condition_option c = Some k"
  shows "condition_option (with_key c ''optionId'' (JStr j)) = Some j"
  using assms by (cases c) (simp_all add: map_set_def update_conv')

lemma renamed_rule_inside:
  assumes "re_isEnabled (renamed_rule \<rho> ids r)"
  shows "rule_inside (\<rho> ` ids) (renamed_rule \<rho> ids r)"
proof -
  have inside: "rule_inside ids r" using assms by (auto simp: renamed_rule_def Let_def split: if_splits)
  then obtain cs where cs: "sr_conditions (re_rule r) = JArr cs" and each: "\<forall>c\<in>set cs. \<exists>k\<in>ids. condition_option c = Some k"
    by (cases "sr_conditions (re_rule r)") (auto simp: rule_inside_def list_all_iff split: option.splits)
  have "conditions_inside (\<rho> ` ids) (renamed_conditions \<rho> (JArr cs))"
    using each by (auto simp: list_all_iff) (metis (no_types, lifting) imageI option.sel option.simps(5) renamed_condition)
  then show ?thesis using inside cs by (simp add: rule_inside_def renamed_rule_def Let_def)
qed


section \<open>The other sets\<close>

lemma children_append:
  "p \<notin> row_parent ` set news \<Longrightarrow> find_children pos [p] (rows @ news) = find_children pos [p] rows"
proof -
  assume "p \<notin> row_parent ` set news"
  then have "filter (\<lambda>r. row_parent r \<in> set [p] \<and> row_deletedAt r = LIVE_SENTINEL) news = []" by (auto simp: filter_empty_conv)
  then show ?thesis by (simp add: find_children_def)
qed

lemma copied_rows:
  "db_options (copied_tables \<rho> created p adb) = db_options adb @ flat_map (option_row \<rho>) (copy_jobs adb p)"
  "db_values (copied_tables \<rho> created p adb) = db_values adb @ flat_map (value_row \<rho>) (copy_jobs adb p)"
  "db_items (copied_tables \<rho> created p adb) = db_items adb @ flat_map (item_row \<rho>) (copy_jobs adb p)"
  by (simp_all add: copied_tables_def)

lemma other_trees:
  assumes ready: "copy_ready new_id adb" and \<rho>: "follows \<rho> new_id k0 (map job_key (copy_jobs adb p))"
    and other: "st_id s \<noteq> st_id created"
  shows "set_tree_of (copied_tables \<rho> created p adb) s = set_tree_of adb s"
proof -
  let ?adb = "copied_tables \<rho> created p adb"
  have new: "\<rho> k \<in> range new_id" if "k \<in> job_key ` set (copy_jobs adb p)" for k
    using follows_range [OF \<rho>] that unfolding list.set_map by blast
  have old: "k \<notin> range new_id" if "k \<in> set (all_ids adb)" for k using copy_readyD(3) [OF ready] that by blast
  have parents: "row_parent ` set (flat_map (option_row \<rho>) (copy_jobs adb p)) \<subseteq> range new_id"
    "row_parent ` set (flat_map (value_row \<rho>) (copy_jobs adb p)) \<subseteq> range new_id"
    "row_parent ` set (flat_map (item_row \<rho>) (copy_jobs adb p)) \<subseteq> range new_id"
  proof -
    have "\<rho> q \<in> range new_id" if j: "j \<in> set (copy_jobs adb p)" "job_parent j = Some q" for j q
    proof -
      obtain g where g: "g \<in> set (groups_of adb p)" "j \<in> set (group_jobs adb g)" using j(1) unfolding set_flat_map by blast
      have "q \<in> job_key ` set (group_jobs adb g)" using g(2) j(2) by (rule group_job_parent)
      then show ?thesis using g(1) by (intro new) auto
    qed
    then have "(\<forall>r\<in>set (option_row \<rho> j). row_parent r \<in> range new_id) \<and> (\<forall>r\<in>set (value_row \<rho> j). row_parent r \<in> range new_id)
        \<and> (\<forall>r\<in>set (item_row \<rho> j). row_parent r \<in> range new_id)" if "j \<in> set (copy_jobs adb p)" for j
      using that by (cases j) (fastforce simp: live_row_def)+
    then show "row_parent ` set (flat_map (option_row \<rho>) (copy_jobs adb p)) \<subseteq> range new_id"
      "row_parent ` set (flat_map (value_row \<rho>) (copy_jobs adb p)) \<subseteq> range new_id"
      "row_parent ` set (flat_map (item_row \<rho>) (copy_jobs adb p)) \<subseteq> range new_id" unfolding set_flat_map by blast+
  qed
  have groups: "children group_position (st_id s) (db_groups ?adb) = children group_position (st_id s) (db_groups adb)"
    and rules: "children rule_position (st_id s) (db_rules ?adb) = children rule_position (st_id s) (db_rules adb)"
    unfolding copied_tables_fields using other by (auto simp: live_row_def intro!: arg_cong [where f = "map row_entity"] children_append)
  have opt: "tree_option ?adb n = tree_option adb n" if "oe_id n \<in> set (all_ids adb)" for n
    unfolding tree_option_def copied_rows using old [OF that] parents(2) by (subst children_append) blast+
  have "tree_group ?adb g = tree_group adb g" if "ge_id g \<in> set (all_ids adb)" for g
  proof -
    have "children option_position (ge_id g) (db_options ?adb) = children option_position (ge_id g) (db_options adb)"
      "children item_position (ge_id g) (db_items ?adb) = children item_position (ge_id g) (db_items adb)"
      unfolding copied_rows using old [OF that] parents(1,3) by (subst children_append; blast)+
    moreover have "map (tree_option ?adb) (children option_position (ge_id g) (db_options adb))
        = map (tree_option adb) (children option_position (ge_id g) (db_options adb))"
      by (rule map_cong [OF refl], rule opt) (auto simp: find_children_set all_ids_def)
    ultimately show ?thesis unfolding tree_group_def by simp
  qed
  then have "map (tree_group ?adb) (children group_position (st_id s) (db_groups adb))
      = map (tree_group adb) (children group_position (st_id s) (db_groups adb))"
    by (intro map_cong [OF refl]) (auto simp: find_children_set all_ids_def)
  then show ?thesis unfolding set_tree_of_def groups rules by simp
qed

text \<open>
  Duplicating touches nothing else: every other set of every tenant, the source included, loads exactly
  as it did before.
\<close>

theorem duplicate_leaves_others:
  assumes "copy_ready new_id (pf_authoring db)"
    and "duplicate json_parse now tenantId new_id i name storeId db = Inr (s, db')" and "j \<noteq> st_id s"
  shows "load t (pf_authoring db') j = load t (pf_authoring db) j"
proof -
  let ?adb = "pf_authoring db"
  obtain \<rho> where \<rho>: "follows \<rho> new_id 1 (map job_key (copy_jobs ?adb i))" and db': "pf_authoring db' = copied_tables \<rho> s i ?adb"
    using duplicate_tables [OF assms(1,2)] by blast
  have "findById t (db_sets (pf_authoring db')) j = findById t (db_sets ?adb) j"
    using assms(3) by (auto simp: db' copied_tables_fields findById_def find_row_def find_append split: option.splits)
  moreover have "set_tree_of (pf_authoring db') r = set_tree_of ?adb r" if "findById t (db_sets ?adb) j = Some r" for r
    unfolding db' using assms(1) \<rho> by (rule other_trees) (use findById_Some [OF that] assms(3) in simp)
  ultimately show ?thesis by (cases "findById t (db_sets ?adb) j") (simp_all add: load_levels)
qed

section \<open>A set with a heading, artwork and a rule without a target\<close>

definition engraving_option :: "string \<Rightarrow> int \<Rightarrow> jsval \<Rightarrow> option_entity" where
  "engraving_option i position artwork = \<lparr>oe_id = i, oe_key = i, oe_valueKind = ''text'', oe_cardinality = ''none'', presentation = ''text'',
     oe_label = i, oe_description = None, placeholder = None, helpText = None, isRequired = False, oe_isEnabled = True,
     oe_sortOrder = Fin (of_int position), defaultValue = None, oe_validation = JNull, oe_pricing = JNull, oe_display = JNull,
     textDesign = artwork, oe_values = []\<rparr>"

definition engraving_rule :: "string \<Rightarrow> string \<Rightarrow> int \<Rightarrow> rule_entity" where
  "engraving_rule i target position = \<lparr>re_rule = \<lparr>sr_id = i, sr_targetType = ''option'', sr_targetId = target, sr_action = ''hide'',
     sr_matchType = ''all'', sr_conditions = JArr [JObj [(''optionId'', JStr ''o1''), (''operator'', JStr ''is_empty'')]],
     sr_actionValue = JNull, sr_sortOrder = Fin (of_int position)\<rparr>, re_isEnabled = True, re_disabledReason = None\<rparr>"

definition engraving_shop :: platform where
  "engraving_shop = small_shop\<lparr>pf_tenantPlans := [], pf_authoring := (stored [bare_group ''g1'', (bare_group ''g2'')\<lparr>ge_sortOrder := Fin 1\<rparr>])\<lparr>
     db_options := [live_row ''g1'' (engraving_option ''o1'' 0 (JObj [(''layers'', JArr [])])), live_row ''g1'' (engraving_option ''o2'' 1 JNull)],
     db_items := [live_row ''g2'' \<lparr>ie_id = ''i1'', ie_kind = ''heading'', ie_content = ''Care'', ie_sortOrder = Fin 0, ie_display = JNull\<rparr>],
     db_rules := [live_row ''s1'' (engraving_rule ''r1'' ''o2'' 0), live_row ''s1'' (engraving_rule ''r2'' ''gone'' 1)]\<rparr>\<rparr>"

definition next_key :: "nat \<Rightarrow> string" where
  "next_key n = ''n'' @ replicate n CHR ''x''"

abbreviation copy_engraving :: "api_error + (set_row \<times> platform)" where
  "copy_engraving \<equiv> duplicate (\<lambda>_. JNull) 9 ''t1'' next_key ''s1'' None None engraving_shop"

lemma engraving_ready: "copy_ready next_key (pf_authoring engraving_shop)"
proof -
  let ?ks = "all_ids (pf_authoring engraving_shop) @ all_parents (pf_authoring engraving_shop) @ map st_id (db_sets (pf_authoring engraving_shop))"
  have "inj next_key" by (auto simp: inj_def next_key_def dest: arg_cong [where f = length])
  moreover have "range next_key \<inter> set ks = {}" if "list_all (\<lambda>k. k \<noteq> [] \<and> hd k \<noteq> CHR ''n'') ks" for ks
    using that by (auto simp: next_key_def list_all_iff)
  moreover have "list_all (\<lambda>k. k \<noteq> [] \<and> hd k \<noteq> CHR ''n'') ?ks" by code_simp
  ultimately have "inj next_key" "range next_key \<inter> set ?ks = {}" by blast+
  then have "inj next_key" "range next_key \<inter> (set (all_ids (pf_authoring engraving_shop)) \<union> set (all_parents (pf_authoring engraving_shop))
      \<union> st_id ` set (db_sets (pf_authoring engraving_shop))) = {}" by (simp_all only: set_append list.set_map Un_assoc)
  moreover have "distinct (all_ids (pf_authoring engraving_shop))" by code_simp
  moreover have "siblings_ordered group_position (db_groups (pf_authoring engraving_shop))" by code_simp
  moreover have "siblings_ordered option_position (db_options (pf_authoring engraving_shop))" by code_simp
  moreover have "siblings_ordered value_position (db_values (pf_authoring engraving_shop))" by code_simp
  moreover have "siblings_ordered item_position (db_items (pf_authoring engraving_shop))" by code_simp
  moreover have "siblings_ordered rule_position (db_rules (pf_authoring engraving_shop))" by code_simp
  ultimately show ?thesis unfolding copy_ready_def by blast
qed

text \<open>What the copy looks like: the artwork and the heading are gone, the second rule is off.\<close>

definition copied_view :: "set_row \<times> platform \<Rightarrow> (string \<times> jsval list \<times> item_entity list \<times> (bool \<times> string option) list) option" where
  "copied_view c = (case load ''t1'' (pf_authoring (snd c)) (st_id (fst c)) of
     None \<Rightarrow> None
   | Some (_, tree) \<Rightarrow> Some (os_name tree, map textDesign (flat_map ge_options (os_groups tree)), flat_map ge_items (os_groups tree),
       map (\<lambda>r. (re_isEnabled r, re_disabledReason r)) (os_rules tree)))"

lemma copy_drops_artwork: "case copy_engraving of Inl _ \<Rightarrow> False
   | Inr c \<Rightarrow> copied_view c = Some (''Engraving (copy)'', [JNull, JNull], [], [(True, None), (False, Some ''target_deleted'')])"
  by code_simp

lemma source_has_artwork: "copied_view (\<lparr>st_id = ''s1'', st_tenantId = ''t1'', st_storeId = ''w1'', st_name = ''Engraving'', st_status = DRAFT,
     st_version = 0, rowVersion = 0, publishedAt = None, publishedBy = None, publishedConfigVersion = 0, st_createdAt = 0, st_deletedAt = 0\<rparr>,
     engraving_shop)
   = Some (''Engraving'', [JObj [(''layers'', JArr [])], JNull],
      [\<lparr>ie_id = ''i1'', ie_kind = ''heading'', ie_content = ''Care'', ie_sortOrder = Fin 0, ie_display = JNull\<rparr>], [(True, None), (True, None)])"
  by code_simp

lemma engraving_copied: "\<exists>s db'. copy_engraving = Inr (s, db') \<and> st_id s = ''n''"
proof -
  have "case copy_engraving of Inl _ \<Rightarrow> False | Inr (s, _) \<Rightarrow> st_id s = ''n''" by code_simp
  then show ?thesis by (auto split: sum.splits)
qed

lemma engraving_source: "\<exists>source tree. load ''t1'' (pf_authoring engraving_shop) ''s1'' = Some (source, tree) \<and> tree_ids tree = [''g1'', ''o1'', ''o2'', ''g2'']"
proof -
  have "case load ''t1'' (pf_authoring engraving_shop) ''s1'' of None \<Rightarrow> False | Some (_, tree) \<Rightarrow> tree_ids tree = [''g1'', ''o1'', ''o2'', ''g2'']"
    by code_simp
  then show ?thesis by (auto split: option.splits)
qed



theorem duplicate_leaves_others_witness:
  "\<exists>s db'. copy_engraving = Inr (s, db') \<and> load ''t1'' (pf_authoring db') ''s1'' = load ''t1'' (pf_authoring engraving_shop) ''s1''"
proof -
  obtain s db' where dup: "copy_engraving = Inr (s, db')" "st_id s = ''n''" using engraving_copied by blast
  with duplicate_leaves_others [OF engraving_ready dup(1), of "''s1''" "''t1''"] show ?thesis by simp
qed

end
