(* ===== verification/Authoring.thy ===== *)
theory Authoring
  imports Duplication
begin

text \<open>
  Editing a draft row by row: groups, options, values, headings and rules
  (\<open>option-groups.service.ts\<close>, \<open>options.service.ts\<close>, \<open>option-values.service.ts\<close>, \<open>presentational-items.service.ts\<close>
  and \<open>option-rules.service.ts\<close> of \<open>src/option-sets\<close>), over the repositories that see one tenant's live rows
  (\<open>src/common/tenancy/parent-scoped.repository.ts\<close>), with the checks of the option types
  (\<open>types/option-type.validator.ts\<close>) and what a deletion takes along (\<open>cascade.service.ts\<close>). A request
  returns what it answers and the tables it leaves. Errors carry the fields and codes, not the messages.
\<close>

section \<open>Answers\<close>

type_synonym issue = "string \<times> string"

datatype authoring_error =
    Missing string
  | Invalid "issue list"
  | Conflict

type_synonym 'a answer = "(authoring_error + 'a) \<times> platform"

abbreviation refuse :: "authoring_error \<Rightarrow> platform \<Rightarrow> 'a answer" where
  "refuse e db \<equiv> (Inl e, db)"

definition audited :: "string \<Rightarrow> string \<Rightarrow> platform \<Rightarrow> platform" where
  "audited action resourceId db = record_audit \<lparr>au_action = action, au_resourceId = resourceId, au_fromVersion = None,
     au_toVersion = None, au_restoredFrom = None, au_configVersion = None, au_warnings = []\<rparr> db"

section \<open>What a tenant sees\<close>

text \<open>A row is in scope when it and every row above it are live and the set at the top is the tenant's.\<close>

definition owns_set :: "string \<Rightarrow> authoring_db \<Rightarrow> string \<Rightarrow> bool" where
  "owns_set t adb i \<longleftrightarrow> list_ex (\<lambda>s. st_id s = i \<and> st_deletedAt s = LIVE_SENTINEL \<and> st_tenantId s = t) (db_sets adb)"

definition scoped :: "(string \<Rightarrow> bool) \<Rightarrow> 'e child_row \<Rightarrow> bool" where
  "scoped owned r \<longleftrightarrow> row_deletedAt r = LIVE_SENTINEL \<and> owned (row_parent r)"

definition owns_row :: "('e \<Rightarrow> string) \<Rightarrow> (string \<Rightarrow> bool) \<Rightarrow> 'e child_row list \<Rightarrow> string \<Rightarrow> bool" where
  "owns_row key owned rows i \<longleftrightarrow> list_ex (\<lambda>r. key (row_entity r) = i \<and> scoped owned r) rows"

definition owns_group :: "string \<Rightarrow> authoring_db \<Rightarrow> string \<Rightarrow> bool" where
  "owns_group t adb = owns_row ge_id (owns_set t adb) (db_groups adb)"

definition owns_option :: "string \<Rightarrow> authoring_db \<Rightarrow> string \<Rightarrow> bool" where
  "owns_option t adb = owns_row oe_id (owns_group t adb) (db_options adb)"

definition find_scoped :: "('e \<Rightarrow> string) \<Rightarrow> (string \<Rightarrow> bool) \<Rightarrow> 'e child_row list \<Rightarrow> string \<Rightarrow> 'e child_row option" where
  "find_scoped key owned rows i = find_row (\<lambda>r. key (row_entity r) = i \<and> scoped owned r) rows"

definition list_scoped :: "('e \<Rightarrow> sort_position) \<Rightarrow> (string \<Rightarrow> bool) \<Rightarrow> 'e child_row list \<Rightarrow> string \<Rightarrow> 'e list" where
  "list_scoped pos owned rows p = map row_entity (sort_key (\<lambda>r. sort_order (pos (row_entity r)))
     (filter (\<lambda>r. row_parent r = p \<and> scoped owned r) rows))"

definition count_scoped :: "(string \<Rightarrow> bool) \<Rightarrow> 'e child_row list \<Rightarrow> string \<Rightarrow> nat" where
  "count_scoped owned rows p = count_rows (\<lambda>r. row_parent r = p \<and> scoped owned r) rows"

definition update_scoped :: "('e \<Rightarrow> string) \<Rightarrow> (string \<Rightarrow> bool) \<Rightarrow> string \<Rightarrow> ('e \<Rightarrow> 'e) \<Rightarrow> 'e child_row list \<Rightarrow> 'e child_row list" where
  "update_scoped key owned i f rows =
     update_rows (\<lambda>r. key (row_entity r) = i \<and> scoped owned r) (\<lambda>r. r\<lparr>row_entity := f (row_entity r)\<rparr>) rows"

definition delete_scoped :: "('e \<Rightarrow> string) \<Rightarrow> (string \<Rightarrow> bool) \<Rightarrow> string \<Rightarrow> int \<Rightarrow> 'e child_row list \<Rightarrow> 'e child_row list" where
  "delete_scoped key owned i now rows =
     update_rows (\<lambda>r. key (row_entity r) = i \<and> scoped owned r) (\<lambda>r. r\<lparr>row_deletedAt := now\<rparr>) rows"

text \<open>
  An insertion asks that the parent is live and that the set at the top is the tenant's, but not that
  what lies between, or the set, is live.
\<close>

definition set_of_tenant :: "string \<Rightarrow> authoring_db \<Rightarrow> string \<Rightarrow> bool" where
  "set_of_tenant t adb i \<longleftrightarrow> list_ex (\<lambda>s. st_id s = i \<and> st_tenantId s = t) (db_sets adb)"

definition group_of_tenant :: "string \<Rightarrow> authoring_db \<Rightarrow> string \<Rightarrow> bool" where
  "group_of_tenant t adb i \<longleftrightarrow> list_ex (\<lambda>g. ge_id (row_entity g) = i \<and> set_of_tenant t adb (row_parent g)) (db_groups adb)"

definition parent_group_owned :: "string \<Rightarrow> authoring_db \<Rightarrow> string \<Rightarrow> bool" where
  "parent_group_owned t adb i \<longleftrightarrow> list_ex (\<lambda>g. ge_id (row_entity g) = i \<and> row_deletedAt g = LIVE_SENTINEL
     \<and> set_of_tenant t adb (row_parent g)) (db_groups adb)"

definition parent_option_owned :: "string \<Rightarrow> authoring_db \<Rightarrow> string \<Rightarrow> bool" where
  "parent_option_owned t adb i \<longleftrightarrow> list_ex (\<lambda>n. oe_id (row_entity n) = i \<and> row_deletedAt n = LIVE_SENTINEL
     \<and> group_of_tenant t adb (row_parent n)) (db_options adb)"

definition nextSortOrder :: "jsnum list \<Rightarrow> jsnum" where
  "nextSortOrder siblings = js_add (fold (\<lambda>s highest. if js_lt highest s then s else highest) siblings (Fin 0)) (Fin 10)"

section \<open>Limits and keys\<close>

definition groupsPerSet :: nat where "groupsPerSet = 100"
definition optionsPerGroup :: nat where "optionsPerGroup = 200"
definition itemsPerGroup :: nat where "itemsPerGroup = 50"
definition valuesPerOption :: nat where "valuesPerOption = 500"
definition rulesPerSet :: nat where "rulesPerSet = 200"

definition assertWithinLimit :: "nat \<Rightarrow> nat \<Rightarrow> string \<Rightarrow> authoring_error option" where
  "assertWithinLimit current limit resource = (if limit \<le> current then Some (Invalid [(resource, ''LIMIT_REACHED'')]) else None)"

definition COPY_KEY_ATTEMPTS :: nat where "COPY_KEY_ATTEMPTS = 50"
definition KEY_MAX_LENGTH :: nat where "KEY_MAX_LENGTH = 64"

definition copy_candidate :: "string \<Rightarrow> nat \<Rightarrow> string" where
  "copy_candidate key attempt = (if attempt = 1 then key @ ''-copy'' else key @ ''-copy-'' @ show_nat (int attempt))"

text \<open>The loop over the attempts \<open>n\<close> to \<open>COPY_KEY_ATTEMPTS\<close>.\<close>

function copy_key_from :: "(string \<Rightarrow> bool) \<Rightarrow> string \<Rightarrow> nat \<Rightarrow> string option" where
  "copy_key_from taken key n =
     (if COPY_KEY_ATTEMPTS < n then None
      else let candidate = copy_candidate key n in
        if length candidate \<le> KEY_MAX_LENGTH \<and> \<not> taken candidate then Some candidate
        else copy_key_from taken key (Suc n))"
  by pat_completeness auto

termination by (relation "measure (\<lambda>(_, _, n). Suc COPY_KEY_ATTEMPTS - n)") auto

declare copy_key_from.simps [simp del]

definition availableCopyKey :: "(string \<Rightarrow> bool) \<Rightarrow> string \<Rightarrow> string option" where
  "availableCopyKey taken key = copy_key_from taken key 1"

section \<open>The set above\<close>

definition touchSet :: "string \<Rightarrow> string \<Rightarrow> platform \<Rightarrow> platform" where
  "touchSet t i db = update_sets (update_rows (\<lambda>s. st_id s = i \<and> st_tenantId s = t \<and> st_deletedAt s = LIVE_SENTINEL)
     (\<lambda>s. s\<lparr>rowVersion := rowVersion s + 1\<rparr>)) db"

definition touchForOption :: "string \<Rightarrow> string \<Rightarrow> platform \<Rightarrow> platform" where
  "touchForOption t optionGroupId db =
     (case find_row (\<lambda>g. ge_id (row_entity g) = optionGroupId) (db_groups (pf_authoring db)) of
        None \<Rightarrow> db | Some g \<Rightarrow> touchSet t (row_parent g) db)"

definition touchForValue :: "string \<Rightarrow> string \<Rightarrow> platform \<Rightarrow> platform" where
  "touchForValue t optionId db =
     (case find_row (\<lambda>n. oe_id (row_entity n) = optionId) (db_options (pf_authoring db)) of
        None \<Rightarrow> db | Some n \<Rightarrow> touchForOption t (row_parent n) db)"

definition edit :: "(authoring_db \<Rightarrow> authoring_db) \<Rightarrow> platform \<Rightarrow> platform" where
  "edit f db = db\<lparr>pf_authoring := f (pf_authoring db)\<rparr>"

section \<open>The checks of an option type\<close>

text \<open>
  The schemas of a type are the work of a validation library: \<open>sc_issues column presentation v\<close> are the issues
  the schema of a column finds in \<open>v\<close>, \<open>sc_unknown\<close> the keys it names as unrecognized and \<open>sc_uuid\<close>
  its test of a UUID. For the schemas that \<open>Authoring_Rules\<close> writes out only the issues are the library's.
\<close>

record schemas =
  sc_issues :: "string \<Rightarrow> string \<Rightarrow> jsval \<Rightarrow> issue list"
  sc_unknown :: "string \<Rightarrow> string \<Rightarrow> jsval \<Rightarrow> string list"
  sc_value_pricing :: "jsval \<Rightarrow> issue list"
  sc_item_display :: "string \<Rightarrow> jsval \<Rightarrow> issue list"
  sc_uuid :: "string \<Rightarrow> bool"
  sc_conditions :: "jsval \<Rightarrow> issue list"
  sc_action_value :: "string \<Rightarrow> jsval \<Rightarrow> issue list"

fun kind_name :: "value_kind \<Rightarrow> string" where
  "kind_name TEXT = ''text''" | "kind_name NUMBER = ''number''" | "kind_name DATE = ''date''"
| "kind_name FILE = ''file''" | "kind_name CHOICE = ''choice''"

fun cardinality_name :: "cardinality \<Rightarrow> string" where
  "cardinality_name NONE = ''none''" | "cardinality_name ONE = ''one''" | "cardinality_name MANY = ''many''"

definition check_column :: "schemas \<Rightarrow> string \<Rightarrow> string \<Rightarrow> jsval \<Rightarrow> issue list" where
  "check_column sc column p v = (if v = JUndef \<or> v = JNull then [] else sc_issues sc column p v)"

definition assertValidOption :: "schemas \<Rightarrow> string \<Rightarrow> string option \<Rightarrow> string option \<Rightarrow> jsval \<Rightarrow> jsval \<Rightarrow> jsval \<Rightarrow> authoring_error option" where
  "assertValidOption sc p kind axis validation pricing display =
     (case findType p of
        None \<Rightarrow> Some (Invalid [(''presentation'', ''UNSUPPORTED_OPTION_TYPE'')])
      | Some d \<Rightarrow>
         (let details = (case kind of None \<Rightarrow> [] | Some k \<Rightarrow> if k \<noteq> kind_name (Type_Registry.valueKind d) then [(''valueKind'', ''INCOMPATIBLE_AXIS'')] else [])
            @ (case axis of None \<Rightarrow> [] | Some c \<Rightarrow> if c \<notin> set (map cardinality_name (cardinalities d)) then [(''cardinality'', ''INCOMPATIBLE_AXIS'')] else [])
            @ check_column sc ''validation'' p validation @ check_column sc ''pricing'' p pricing @ check_column sc ''display'' p display
          in if details = [] then None else Some (Invalid details)))"

definition stripWithdrawn :: "schemas \<Rightarrow> string \<Rightarrow> string \<Rightarrow> jsval \<Rightarrow> jsval" where
  "stripWithdrawn sc column p saved =
     (case saved of
        JObj kvs \<Rightarrow>
          (if sc_issues sc column p saved = [] then saved
           else let withdrawn = sc_unknown sc column p saved in
             if withdrawn = [] then saved else JObj (filter (\<lambda>(k, _). k \<notin> set withdrawn) kvs))
      | _ \<Rightarrow> saved)"

definition assertValueMayCarryDesign :: "string \<Rightarrow> jsval \<Rightarrow> authoring_error option" where
  "assertValueMayCarryDesign p design =
     (if design = JNull \<or> design = JUndef \<or> valueCarriesDesign p then None else Some (Invalid [(''design'', ''TYPE_CARRIES_NO_DESIGN'')]))"

definition assertOptionMayCarryTextDesign :: "string \<Rightarrow> jsval \<Rightarrow> authoring_error option" where
  "assertOptionMayCarryTextDesign p design =
     (if design = JNull \<or> design = JUndef \<or> optionCarriesTextDesign p then None else Some (Invalid [(''textDesign'', ''TYPE_CARRIES_NO_TEXT_DESIGN'')]))"

definition assertValidValuePricing :: "schemas \<Rightarrow> jsval \<Rightarrow> authoring_error option" where
  "assertValidValuePricing sc priceConfig =
     (let details = (if priceConfig = JUndef \<or> priceConfig = JNull then [] else sc_value_pricing sc priceConfig)
      in if details = [] then None else Some (Invalid details))"

text \<open>The first of several checks that refuses.\<close>

fun first_refusal :: "authoring_error option list \<Rightarrow> authoring_error option" where
  "first_refusal [] = None"
| "first_refusal (Some e # _) = Some e"
| "first_refusal (None # cs) = first_refusal cs"

section \<open>Patches\<close>

text \<open>
  \<open>buildPatch\<close> keeps the fields a request gives that differ from the stored ones, with strings trimmed. An
  object from a request is never the stored object.
\<close>

definition differs :: "jsval \<Rightarrow> jsval \<Rightarrow> bool" where
  "differs new old = (case new of JObj _ \<Rightarrow> True | JArr _ \<Rightarrow> True | _ \<Rightarrow> new \<noteq> old)"

definition null_or :: "jsval \<Rightarrow> jsval" where
  "null_or v = (if v = JUndef then JNull else v)"

section \<open>Reordering\<close>

definition unknown_entries :: "string list \<Rightarrow> (string \<times> jsnum) list \<Rightarrow> (string \<times> jsnum) list" where
  "unknown_entries known entries = filter (\<lambda>(i, _). i \<notin> set known) entries"

definition not_siblings :: "string \<Rightarrow> string \<Rightarrow> (string \<times> jsnum) list \<Rightarrow> authoring_error" where
  "not_siblings resource code unknown = Invalid (map (\<lambda>(index, _). (resource @ ''.'' @ show_nat (int index) @ ''.id'', code)) (enumerate 0 unknown))"

definition reorder_rows :: "('e \<Rightarrow> string) \<Rightarrow> (jsnum \<Rightarrow> 'e \<Rightarrow> 'e) \<Rightarrow> (string \<times> jsnum) list \<Rightarrow> 'e child_row list \<Rightarrow> 'e child_row list" where
  "reorder_rows key place entries rows =
     fold (\<lambda>(i, n). update_rows (\<lambda>r. key (row_entity r) = i) (\<lambda>r. r\<lparr>row_entity := place n (row_entity r)\<rparr>)) entries rows"

section \<open>What a deletion takes along\<close>

definition disable_rule :: "rule_entity \<Rightarrow> rule_entity" where
  "disable_rule r = r\<lparr>re_isEnabled := False, re_disabledReason := Some ''target_deleted''\<rparr>"

definition targets :: "string \<Rightarrow> string list \<Rightarrow> rule_entity child_row \<Rightarrow> bool" where
  "targets kind ids r \<longleftrightarrow> sr_targetType (re_rule (row_entity r)) = kind \<and> sr_targetId (re_rule (row_entity r)) \<in> set ids
     \<and> re_isEnabled (row_entity r) \<and> row_deletedAt r = LIVE_SENTINEL"

definition disableRulesTargeting :: "(string \<times> string list) list \<Rightarrow> rule_entity child_row list \<Rightarrow> rule_entity child_row list" where
  "disableRulesTargeting kinds rows =
     fold (\<lambda>(kind, ids). update_rows (targets kind ids) (\<lambda>r. r\<lparr>row_entity := disable_rule (row_entity r)\<rparr>)) kinds rows"

text \<open>\<open>None\<close> is the \<open>AlreadyDeletedError\<close>.\<close>

definition onGroupDeleted :: "string \<Rightarrow> int \<Rightarrow> authoring_db \<Rightarrow> authoring_db option" where
  "onGroupDeleted i now adb =
     (let claimed = (\<lambda>g. ge_id (row_entity g) = i \<and> row_deletedAt g = LIVE_SENTINEL) in
      if \<not> list_ex claimed (db_groups adb) then None
      else let optionIds = live_ids oe_id [i] (db_options adb);
               valueIds = live_ids ve_id optionIds (db_values adb)
        in Some (adb\<lparr>db_groups := update_rows claimed (\<lambda>g. g\<lparr>row_deletedAt := now\<rparr>) (db_groups adb),
             db_values := soft_delete ve_id valueIds now (db_values adb),
             db_options := soft_delete oe_id optionIds now (db_options adb),
             db_items := soft_delete ie_id (live_ids ie_id [i] (db_items adb)) now (db_items adb),
             db_rules := disableRulesTargeting [(''group'', [i]), (''option'', optionIds), (''value'', valueIds)] (db_rules adb)\<rparr>))"

definition onOptionDeleted :: "string \<Rightarrow> int \<Rightarrow> authoring_db \<Rightarrow> authoring_db option" where
  "onOptionDeleted i now adb =
     (let claimed = (\<lambda>n. oe_id (row_entity n) = i \<and> row_deletedAt n = LIVE_SENTINEL) in
      if \<not> list_ex claimed (db_options adb) then None
      else let valueIds = live_ids ve_id [i] (db_values adb)
        in Some (adb\<lparr>db_options := update_rows claimed (\<lambda>n. n\<lparr>row_deletedAt := now\<rparr>) (db_options adb),
             db_values := soft_delete ve_id valueIds now (db_values adb),
             db_rules := disableRulesTargeting [(''option'', [i]), (''value'', valueIds)] (db_rules adb)\<rparr>))"

definition value_is_rule_target :: "string \<Rightarrow> authoring_db \<Rightarrow> bool" where
  "value_is_rule_target i adb \<longleftrightarrow> list_ex (targets ''value'' [i]) (db_rules adb)"

section \<open>Groups\<close>

datatype group_field = GLabel string | GDescription "string option" | GDisplayType string | GCollapsible bool | GEnabled bool

record group_input =
  gi_label :: string
  gi_description :: "string option"
  gi_displayType :: "string option"
  gi_isCollapsible :: "bool option"
  gi_isEnabled :: "bool option"

definition given :: "'a option \<Rightarrow> 'a \<Rightarrow> 'a" where
  "given v standard = (case v of None \<Rightarrow> standard | Some x \<Rightarrow> x)"

fun trim_group_field :: "group_field \<Rightarrow> group_field" where
  "trim_group_field (GLabel s) = GLabel (js_trim s)"
| "trim_group_field (GDescription s) = GDescription (map_option js_trim s)"
| "trim_group_field (GDisplayType s) = GDisplayType (js_trim s)"
| "trim_group_field f = f"

fun set_group_field :: "group_field \<Rightarrow> group_entity \<Rightarrow> group_entity" where
  "set_group_field (GLabel s) g = g\<lparr>ge_label := s\<rparr>"
| "set_group_field (GDescription s) g = g\<lparr>ge_description := s\<rparr>"
| "set_group_field (GDisplayType s) g = g\<lparr>displayType := s\<rparr>"
| "set_group_field (GCollapsible b) g = g\<lparr>isCollapsible := b\<rparr>"
| "set_group_field (GEnabled b) g = g\<lparr>ge_isEnabled := b\<rparr>"

fun group_field_differs :: "group_entity \<Rightarrow> group_field \<Rightarrow> bool" where
  "group_field_differs g (GLabel s) = (s \<noteq> ge_label g)"
| "group_field_differs g (GDescription s) = (s \<noteq> ge_description g)"
| "group_field_differs g (GDisplayType s) = (s \<noteq> displayType g)"
| "group_field_differs g (GCollapsible b) = (b \<noteq> isCollapsible g)"
| "group_field_differs g (GEnabled b) = (b \<noteq> ge_isEnabled g)"

definition group_patch :: "group_entity \<Rightarrow> group_field list \<Rightarrow> group_field list" where
  "group_patch before changes = filter (group_field_differs before) (map trim_group_field changes)"

definition findGroup :: "string \<Rightarrow> authoring_db \<Rightarrow> string \<Rightarrow> group_entity child_row option" where
  "findGroup t adb i = find_scoped ge_id (owns_set t adb) (db_groups adb) i"

definition listGroups :: "string \<Rightarrow> authoring_db \<Rightarrow> string \<Rightarrow> group_entity list" where
  "listGroups t adb i = list_scoped group_position (owns_set t adb) (db_groups adb) i"

definition assertRoomForGroup :: "string \<Rightarrow> authoring_db \<Rightarrow> string \<Rightarrow> authoring_error option" where
  "assertRoomForGroup t adb optionSetId =
     assertWithinLimit (count_scoped (owns_set t adb) (db_groups adb) optionSetId) groupsPerSet ''groups''"

definition create_group :: "string \<Rightarrow> string \<Rightarrow> string \<Rightarrow> group_input \<Rightarrow> platform \<Rightarrow> group_entity answer" where
  "create_group t new_id optionSetId input db =
     (let adb = pf_authoring db in
      case assertRoomForGroup t adb optionSetId of
        Some e \<Rightarrow> refuse e db
      | None \<Rightarrow> if \<not> owns_set t adb optionSetId then refuse (Missing ''Parent'') db
          else let g = \<lparr>ge_id = new_id, ge_label = js_trim (gi_label input), ge_description = gi_description input,
                 displayType = given (gi_displayType input) ''inline'',
                 ge_sortOrder = nextSortOrder (map ge_sortOrder (listGroups t adb optionSetId)),
                 isCollapsible = given (gi_isCollapsible input) False, ge_isEnabled = given (gi_isEnabled input) True,
                 ge_items = [], ge_options = []\<rparr>
            in (Inr g, audited ''option_group.created'' new_id (touchSet t optionSetId
                 (edit (\<lambda>a. a\<lparr>db_groups := db_groups a @ [live_row optionSetId g]\<rparr>) db))))"

definition update_group :: "string \<Rightarrow> string \<Rightarrow> group_field list \<Rightarrow> platform \<Rightarrow> group_entity answer" where
  "update_group t i changes db =
     (let adb = pf_authoring db in
      case findGroup t adb i of
        None \<Rightarrow> refuse (Missing ''Option group'') db
      | Some before \<Rightarrow>
          (let patch = group_patch (row_entity before) changes; change = fold set_group_field patch in
           if patch = [] then (Inr (row_entity before), db)
           else (Inr (change (row_entity before)), audited ''option_group.updated'' i (touchSet t (row_parent before)
             (edit (\<lambda>a. a\<lparr>db_groups := update_scoped ge_id (owns_set t a) i change (db_groups a)\<rparr>) db)))))"

definition remove_group :: "string \<Rightarrow> int \<Rightarrow> string \<Rightarrow> platform \<Rightarrow> unit answer" where
  "remove_group t now i db =
     (case findGroup t (pf_authoring db) i of
        None \<Rightarrow> refuse (Missing ''Option group'') db
      | Some before \<Rightarrow>
          (case onGroupDeleted i now (pf_authoring db) of
             None \<Rightarrow> (Inr (), db)
           | Some adb \<Rightarrow> (Inr (), audited ''option_group.deleted'' i (touchSet t (row_parent before) (edit (\<lambda>_. adb) db)))))"

definition copy_label :: "string option \<Rightarrow> string \<Rightarrow> string" where
  "copy_label label source = (case label of Some l \<Rightarrow> if js_trim l = '''' then source @ '' (copy)'' else js_trim l | None \<Rightarrow> source @ '' (copy)'')"

definition duplicate_group :: "string \<Rightarrow> (nat \<Rightarrow> string) \<Rightarrow> string \<Rightarrow> string option \<Rightarrow> platform \<Rightarrow> group_entity answer" where
  "duplicate_group t new_id i label db =
     (let adb = pf_authoring db in
      case findGroup t adb i of
        None \<Rightarrow> refuse (Missing ''Option group'') db
      | Some source \<Rightarrow>
          (case assertRoomForGroup t adb (row_parent source) of
             Some e \<Rightarrow> refuse e db
           | None \<Rightarrow>
               (let s = row_entity source;
                    g = \<lparr>ge_id = new_id 0, ge_label = copy_label label (ge_label s), ge_description = ge_description s,
                      displayType = displayType s, ge_sortOrder = nextSortOrder (map ge_sortOrder (listGroups t adb (row_parent source))),
                      isCollapsible = isCollapsible s, ge_isEnabled = ge_isEnabled s, ge_items = [], ge_options = []\<rparr>;
                    st = copyOptionsInto new_id i (new_id 0)
                      \<lparr>cp_db = adb\<lparr>db_groups := db_groups adb @ [live_row (row_parent source) g]\<rparr>, cp_next = 1, idMap = []\<rparr>
                in (Inr g, audited ''option_group.duplicated'' (new_id 0) (touchSet t (row_parent source) (edit (\<lambda>_. cp_db st) db))))))"

definition reorder_groups :: "string \<Rightarrow> string \<Rightarrow> (string \<times> jsnum) list \<Rightarrow> platform \<Rightarrow> group_entity list answer" where
  "reorder_groups t optionSetId entries db =
     (let adb = pf_authoring db in
      if \<not> owns_set t adb optionSetId then refuse (Missing ''Option set'') db
      else let unknown = unknown_entries (map ge_id (listGroups t adb optionSetId)) entries in
        if unknown \<noteq> [] then refuse (not_siblings ''groups'' ''NOT_IN_SET'' unknown) db
        else let db1 = edit (\<lambda>a. a\<lparr>db_groups := reorder_rows ge_id (\<lambda>n g. g\<lparr>ge_sortOrder := n\<rparr>) entries (db_groups a)\<rparr>) db
          in (Inr (listGroups t (pf_authoring db1) optionSetId), audited ''option_set.reordered'' optionSetId (touchSet t optionSetId db1)))"

section \<open>Options\<close>

datatype option_field =
    OLabel string
  | ODescription "string option"
  | OPlaceholder "string option"
  | OHelpText "string option"
  | ORequired bool
  | OEnabled bool
  | ODefault "string option"
  | OValidation jsval
  | OPricing jsval
  | ODisplay jsval
  | OTextDesign jsval

record option_input =
  oi_key :: string
  oi_label :: string
  oi_presentation :: string
  oi_valueKind :: "string option"
  oi_cardinality :: "string option"
  oi_description :: "string option"
  oi_placeholder :: "string option"
  oi_helpText :: "string option"
  oi_isRequired :: "bool option"
  oi_isEnabled :: "bool option"
  oi_defaultValue :: "string option"
  oi_validation :: jsval
  oi_pricing :: jsval
  oi_display :: jsval
  oi_textDesign :: jsval

fun trim_option_field :: "option_field \<Rightarrow> option_field" where
  "trim_option_field (OLabel s) = OLabel (js_trim s)"
| "trim_option_field (ODescription s) = ODescription (map_option js_trim s)"
| "trim_option_field (OPlaceholder s) = OPlaceholder (map_option js_trim s)"
| "trim_option_field (OHelpText s) = OHelpText (map_option js_trim s)"
| "trim_option_field (ODefault s) = ODefault (map_option js_trim s)"
| "trim_option_field f = f"

fun set_option_field :: "option_field \<Rightarrow> option_entity \<Rightarrow> option_entity" where
  "set_option_field (OLabel s) n = n\<lparr>oe_label := s\<rparr>"
| "set_option_field (ODescription s) n = n\<lparr>oe_description := s\<rparr>"
| "set_option_field (OPlaceholder s) n = n\<lparr>placeholder := s\<rparr>"
| "set_option_field (OHelpText s) n = n\<lparr>helpText := s\<rparr>"
| "set_option_field (ORequired b) n = n\<lparr>isRequired := b\<rparr>"
| "set_option_field (OEnabled b) n = n\<lparr>oe_isEnabled := b\<rparr>"
| "set_option_field (ODefault s) n = n\<lparr>defaultValue := s\<rparr>"
| "set_option_field (OValidation v) n = n\<lparr>oe_validation := v\<rparr>"
| "set_option_field (OPricing v) n = n\<lparr>oe_pricing := v\<rparr>"
| "set_option_field (ODisplay v) n = n\<lparr>oe_display := v\<rparr>"
| "set_option_field (OTextDesign v) n = n\<lparr>textDesign := v\<rparr>"

fun option_field_differs :: "option_entity \<Rightarrow> option_field \<Rightarrow> bool" where
  "option_field_differs n (OLabel s) = (s \<noteq> oe_label n)"
| "option_field_differs n (ODescription s) = (s \<noteq> oe_description n)"
| "option_field_differs n (OPlaceholder s) = (s \<noteq> placeholder n)"
| "option_field_differs n (OHelpText s) = (s \<noteq> helpText n)"
| "option_field_differs n (ORequired b) = (b \<noteq> isRequired n)"
| "option_field_differs n (OEnabled b) = (b \<noteq> oe_isEnabled n)"
| "option_field_differs n (ODefault s) = (s \<noteq> defaultValue n)"
| "option_field_differs n (OValidation v) = differs v (oe_validation n)"
| "option_field_differs n (OPricing v) = differs v (oe_pricing n)"
| "option_field_differs n (ODisplay v) = differs v (oe_display n)"
| "option_field_differs n (OTextDesign v) = differs v (textDesign n)"

definition option_patch :: "option_entity \<Rightarrow> option_field list \<Rightarrow> option_field list" where
  "option_patch before changes = filter (option_field_differs before) (map trim_option_field changes)"

text \<open>The value a patch gives a column, if it names the column.\<close>

fun patch_validation :: "option_field \<Rightarrow> jsval option" where
  "patch_validation (OValidation v) = Some v" | "patch_validation _ = None"

fun patch_pricing :: "option_field \<Rightarrow> jsval option" where
  "patch_pricing (OPricing v) = Some v" | "patch_pricing _ = None"

fun patch_display :: "option_field \<Rightarrow> jsval option" where
  "patch_display (ODisplay v) = Some v" | "patch_display _ = None"

fun patch_textDesign :: "option_field \<Rightarrow> jsval option" where
  "patch_textDesign (OTextDesign v) = Some v" | "patch_textDesign _ = None"

definition patched :: "('f \<Rightarrow> 'v option) \<Rightarrow> 'f list \<Rightarrow> 'v option" where
  "patched read patch = fold (\<lambda>f v. case read f of None \<Rightarrow> v | Some w \<Rightarrow> Some w) patch None"

definition findOption :: "string \<Rightarrow> authoring_db \<Rightarrow> string \<Rightarrow> option_entity child_row option" where
  "findOption t adb i = find_scoped oe_id (owns_group t adb) (db_options adb) i"

definition listOptions :: "string \<Rightarrow> authoring_db \<Rightarrow> string \<Rightarrow> option_entity list" where
  "listOptions t adb i = list_scoped option_position (owns_group t adb) (db_options adb) i"

definition keyExists :: "string \<Rightarrow> authoring_db \<Rightarrow> string \<Rightarrow> string \<Rightarrow> bool" where
  "keyExists t adb optionGroupId key \<longleftrightarrow>
     list_ex (\<lambda>r. row_parent r = optionGroupId \<and> oe_key (row_entity r) = key \<and> scoped (owns_group t adb) r) (db_options adb)"

definition assertRoomForOption :: "string \<Rightarrow> authoring_db \<Rightarrow> string \<Rightarrow> authoring_error option" where
  "assertRoomForOption t adb optionGroupId =
     assertWithinLimit (count_scoped (owns_group t adb) (db_options adb) optionGroupId) optionsPerGroup ''options''"

definition assertKeyAvailable :: "string \<Rightarrow> authoring_db \<Rightarrow> string \<Rightarrow> string \<Rightarrow> authoring_error option" where
  "assertKeyAvailable t adb optionGroupId key = (if keyExists t adb optionGroupId key then Some (Invalid [(''key'', ''DUPLICATE_KEY'')]) else None)"

definition created_option :: "string \<Rightarrow> jsnum \<Rightarrow> option_input \<Rightarrow> option_entity" where
  "created_option i sortOrder input = \<lparr>oe_id = i, oe_key = js_trim (oi_key input),
     oe_valueKind = given (oi_valueKind input) (case findType (oi_presentation input) of None \<Rightarrow> '''' | Some d \<Rightarrow> kind_name (Type_Registry.valueKind d)),
     oe_cardinality = given (oi_cardinality input) (case findType (oi_presentation input) of None \<Rightarrow> '''' | Some d \<Rightarrow> cardinality_name (hd (cardinalities d))),
     presentation = oi_presentation input, oe_label = js_trim (oi_label input), oe_description = oi_description input,
     placeholder = oi_placeholder input, helpText = oi_helpText input, isRequired = given (oi_isRequired input) False,
     oe_isEnabled = given (oi_isEnabled input) True, oe_sortOrder = sortOrder, defaultValue = oi_defaultValue input,
     oe_validation = null_or (oi_validation input), oe_pricing = null_or (oi_pricing input), oe_display = null_or (oi_display input),
     textDesign = null_or (oi_textDesign input), oe_values = []\<rparr>"

definition create_option :: "schemas \<Rightarrow> string \<Rightarrow> string \<Rightarrow> string \<Rightarrow> option_input \<Rightarrow> platform \<Rightarrow> option_entity answer" where
  "create_option sc t new_id optionGroupId input db =
     (let adb = pf_authoring db in
      case findGroup t adb optionGroupId of
        None \<Rightarrow> refuse (Missing ''Option group'') db
      | Some parent \<Rightarrow>
          (case first_refusal [assertRoomForOption t adb optionGroupId,
               assertValidOption sc (oi_presentation input) (oi_valueKind input) (oi_cardinality input) (oi_validation input) (oi_pricing input) (oi_display input),
               assertOptionMayCarryTextDesign (oi_presentation input) (oi_textDesign input),
               assertKeyAvailable t adb optionGroupId (js_trim (oi_key input))] of
             Some e \<Rightarrow> refuse e db
           | None \<Rightarrow> if \<not> parent_group_owned t adb optionGroupId then refuse (Missing ''Parent'') db
               else let n = created_option new_id (nextSortOrder (map oe_sortOrder (listOptions t adb optionGroupId))) input
                 in (Inr n, audited ''option.created'' new_id (touchSet t (row_parent parent)
                      (edit (\<lambda>a. a\<lparr>db_options := db_options a @ [live_row optionGroupId n]\<rparr>) db)))))"

definition update_option :: "schemas \<Rightarrow> string \<Rightarrow> string \<Rightarrow> option_field list \<Rightarrow> platform \<Rightarrow> option_entity answer" where
  "update_option sc t i changes db =
     (case findOption t (pf_authoring db) i of
        None \<Rightarrow> refuse (Missing ''Option'') db
      | Some row \<Rightarrow>
          (let before = row_entity row; patch = option_patch before changes; change = fold set_option_field patch; p = presentation before in
           if patch = [] then (Inr before, db)
           else case first_refusal [
               (case patched patch_textDesign patch of None \<Rightarrow> None | Some v \<Rightarrow> assertOptionMayCarryTextDesign p v),
               (if findType p = None then Some (Invalid [(''presentation'', ''UNSUPPORTED_OPTION_TYPE'')]) else None),
               assertValidOption sc p (Some (oe_valueKind before)) (Some (oe_cardinality before))
                 (given (patched patch_validation patch) (stripWithdrawn sc ''validation'' p (oe_validation before)))
                 (given (patched patch_pricing patch) (oe_pricing before))
                 (given (patched patch_display patch) (stripWithdrawn sc ''display'' p (oe_display before)))] of
             Some e \<Rightarrow> refuse e db
           | None \<Rightarrow> (Inr (change before), audited ''option.updated'' i (touchForOption t (row_parent row)
               (edit (\<lambda>a. a\<lparr>db_options := update_scoped oe_id (owns_group t a) i change (db_options a)\<rparr>) db)))))"

definition remove_option :: "string \<Rightarrow> int \<Rightarrow> string \<Rightarrow> platform \<Rightarrow> unit answer" where
  "remove_option t now i db =
     (case findOption t (pf_authoring db) i of
        None \<Rightarrow> refuse (Missing ''Option'') db
      | Some before \<Rightarrow>
          (case onOptionDeleted i now (pf_authoring db) of
             None \<Rightarrow> (Inr (), db)
           | Some adb \<Rightarrow> (Inr (), audited ''option.deleted'' i (touchForOption t (row_parent before) (edit (\<lambda>_. adb) db)))))"

definition copied_values :: "(nat \<Rightarrow> string) \<Rightarrow> string \<Rightarrow> value_entity list \<Rightarrow> value_entity child_row list" where
  "copied_values new_id optionId vals = map (\<lambda>(n, v). live_row optionId (copy_value (new_id (Suc n)) v)) (enumerate 0 vals)"

definition copy_key :: "(string \<Rightarrow> bool) \<Rightarrow> string option \<Rightarrow> string \<Rightarrow> string option" where
  "copy_key taken key source = (case key of
       Some k \<Rightarrow> if js_trim k = '''' then availableCopyKey taken source else Some (js_trim k)
     | None \<Rightarrow> availableCopyKey taken source)"

definition duplicate_option :: "string \<Rightarrow> (nat \<Rightarrow> string) \<Rightarrow> string \<Rightarrow> string option \<Rightarrow> platform \<Rightarrow> option_entity answer" where
  "duplicate_option t new_id i key db =
     (let adb = pf_authoring db in
      case findOption t adb i of
        None \<Rightarrow> refuse (Missing ''Option'') db
      | Some row \<Rightarrow>
          (let source = row_entity row; groupId = row_parent row in
           case assertRoomForOption t adb groupId of
             Some e \<Rightarrow> refuse e db
           | None \<Rightarrow>
               (case copy_key (keyExists t adb groupId) key (oe_key source) of
                  None \<Rightarrow> refuse Conflict db
                | Some newKey \<Rightarrow>
                    (case assertKeyAvailable t adb groupId newKey of
                       Some e \<Rightarrow> refuse e db
                     | None \<Rightarrow>
                         (let n = copyableOptionFields source (new_option (new_id 0) newKey (oe_label source @ '' (copy)'')
                                (nextSortOrder (map oe_sortOrder (listOptions t adb groupId))));
                              vals = map row_entity (find_in_order value_position [i] (db_values adb))
                          in (Inr n, audited ''option.duplicated'' (new_id 0) (touchForOption t groupId (edit (\<lambda>a. a\<lparr>
                               db_options := db_options a @ [live_row groupId n],
                               db_values := db_values a @ copied_values new_id (new_id 0) vals\<rparr>) db))))))))"

definition reorder_options :: "string \<Rightarrow> string \<Rightarrow> (string \<times> jsnum) list \<Rightarrow> platform \<Rightarrow> option_entity list answer" where
  "reorder_options t optionGroupId entries db =
     (let adb = pf_authoring db in
      if findGroup t adb optionGroupId = None then refuse (Missing ''Option group'') db
      else let unknown = unknown_entries (map oe_id (listOptions t adb optionGroupId)) entries in
        if unknown \<noteq> [] then refuse (not_siblings ''options'' ''NOT_IN_GROUP'' unknown) db
        else let db1 = edit (\<lambda>a. a\<lparr>db_options := reorder_rows oe_id (\<lambda>n e. e\<lparr>oe_sortOrder := n\<rparr>) entries (db_options a)\<rparr>) db
          in (Inr (listOptions t (pf_authoring db1) optionGroupId), audited ''option_group.reordered'' optionGroupId (touchForOption t optionGroupId db1)))"

section \<open>Values\<close>

datatype value_field =
    VLabel string
  | VPriceType string
  | VPriceAmount jsnum
  | VPriceConfig jsval
  | VImage "string option"
  | VColor "string option"
  | VDesign jsval
  | VGroupLabel "string option"
  | VSku "string option"
  | VWeight "jsnum option"
  | VDefault bool
  | VEnabled bool

record value_input =
  vi_valueKey :: string
  vi_label :: string
  vi_priceType :: "string option"
  vi_priceAmountMinor :: "jsnum option"
  vi_priceConfig :: jsval
  vi_imageUrl :: "string option"
  vi_colorHex :: "string option"
  vi_design :: jsval
  vi_groupLabel :: "string option"
  vi_skuSuffix :: "string option"
  vi_weightDeltaGrams :: "jsnum option"
  vi_isDefault :: "bool option"
  vi_isEnabled :: "bool option"

fun trim_value_field :: "value_field \<Rightarrow> value_field" where
  "trim_value_field (VLabel s) = VLabel (js_trim s)"
| "trim_value_field (VPriceType s) = VPriceType (js_trim s)"
| "trim_value_field (VImage s) = VImage (map_option js_trim s)"
| "trim_value_field (VColor s) = VColor (map_option js_trim s)"
| "trim_value_field (VGroupLabel s) = VGroupLabel (map_option js_trim s)"
| "trim_value_field (VSku s) = VSku (map_option js_trim s)"
| "trim_value_field f = f"

fun set_value_field :: "value_field \<Rightarrow> value_entity \<Rightarrow> value_entity" where
  "set_value_field (VLabel s) v = v\<lparr>ve_label := s\<rparr>"
| "set_value_field (VPriceType s) v = v\<lparr>ve_priceType := s\<rparr>"
| "set_value_field (VPriceAmount n) v = v\<lparr>ve_priceAmountMinor := n\<rparr>"
| "set_value_field (VPriceConfig c) v = v\<lparr>ve_priceConfig := c\<rparr>"
| "set_value_field (VImage s) v = v\<lparr>imageUrl := s\<rparr>"
| "set_value_field (VColor s) v = v\<lparr>colorHex := s\<rparr>"
| "set_value_field (VDesign d) v = v\<lparr>ve_design := d\<rparr>"
| "set_value_field (VGroupLabel s) v = v\<lparr>groupLabel := s\<rparr>"
| "set_value_field (VSku s) v = v\<lparr>skuSuffix := s\<rparr>"
| "set_value_field (VWeight n) v = v\<lparr>weightDeltaGrams := n\<rparr>"
| "set_value_field (VDefault b) v = v\<lparr>isDefault := b\<rparr>"
| "set_value_field (VEnabled b) v = v\<lparr>ve_isEnabled := b\<rparr>"

fun value_field_differs :: "value_entity \<Rightarrow> value_field \<Rightarrow> bool" where
  "value_field_differs v (VLabel s) = (s \<noteq> ve_label v)"
| "value_field_differs v (VPriceType s) = (s \<noteq> ve_priceType v)"
| "value_field_differs v (VPriceAmount n) = (n \<noteq> ve_priceAmountMinor v)"
| "value_field_differs v (VPriceConfig c) = differs c (ve_priceConfig v)"
| "value_field_differs v (VImage s) = (s \<noteq> imageUrl v)"
| "value_field_differs v (VColor s) = (s \<noteq> colorHex v)"
| "value_field_differs v (VDesign d) = differs d (ve_design v)"
| "value_field_differs v (VGroupLabel s) = (s \<noteq> groupLabel v)"
| "value_field_differs v (VSku s) = (s \<noteq> skuSuffix v)"
| "value_field_differs v (VWeight n) = (n \<noteq> weightDeltaGrams v)"
| "value_field_differs v (VDefault b) = (b \<noteq> isDefault v)"
| "value_field_differs v (VEnabled b) = (b \<noteq> ve_isEnabled v)"

definition value_patch :: "value_entity \<Rightarrow> value_field list \<Rightarrow> value_field list" where
  "value_patch before changes = filter (value_field_differs before) (map trim_value_field changes)"

fun patch_priceConfig :: "value_field \<Rightarrow> jsval option" where
  "patch_priceConfig (VPriceConfig c) = Some c" | "patch_priceConfig _ = None"

fun patch_design :: "value_field \<Rightarrow> jsval option" where
  "patch_design (VDesign d) = Some d" | "patch_design _ = None"

fun patch_isDefault :: "value_field \<Rightarrow> bool option" where
  "patch_isDefault (VDefault b) = Some b" | "patch_isDefault _ = None"

definition findValue :: "string \<Rightarrow> authoring_db \<Rightarrow> string \<Rightarrow> value_entity child_row option" where
  "findValue t adb i = find_scoped ve_id (owns_option t adb) (db_values adb) i"

definition listValues :: "string \<Rightarrow> authoring_db \<Rightarrow> string \<Rightarrow> value_entity list" where
  "listValues t adb i = list_scoped value_position (owns_option t adb) (db_values adb) i"

definition valueKeyExists :: "string \<Rightarrow> authoring_db \<Rightarrow> string \<Rightarrow> string \<Rightarrow> bool" where
  "valueKeyExists t adb optionId key \<longleftrightarrow>
     list_ex (\<lambda>r. row_parent r = optionId \<and> valueKey (row_entity r) = key \<and> scoped (owns_option t adb) r) (db_values adb)"

definition assertRoomForValue :: "string \<Rightarrow> authoring_db \<Rightarrow> string \<Rightarrow> authoring_error option" where
  "assertRoomForValue t adb optionId =
     assertWithinLimit (count_scoped (owns_option t adb) (db_values adb) optionId) valuesPerOption ''values''"

definition assertValueKeyAvailable :: "string \<Rightarrow> authoring_db \<Rightarrow> string \<Rightarrow> string \<Rightarrow> authoring_error option" where
  "assertValueKeyAvailable t adb optionId key =
     (if valueKeyExists t adb optionId key then Some (Invalid [(''valueKey'', ''DUPLICATE_KEY'')]) else None)"

definition makeSoleDefault :: "string \<Rightarrow> string \<Rightarrow> value_entity child_row list \<Rightarrow> value_entity child_row list" where
  "makeSoleDefault optionId keepId rows = update_rows (\<lambda>r. row_parent r = optionId \<and> row_deletedAt r = LIVE_SENTINEL)
     (\<lambda>r. r\<lparr>row_entity := (row_entity r)\<lparr>isDefault := (ve_id (row_entity r) = keepId)\<rparr>\<rparr>) rows"

definition created_value :: "string \<Rightarrow> jsnum \<Rightarrow> value_input \<Rightarrow> value_entity" where
  "created_value i sortOrder input = \<lparr>ve_id = i, valueKey = js_trim (vi_valueKey input), ve_label = js_trim (vi_label input),
     ve_sortOrder = sortOrder, ve_priceType = given (vi_priceType input) ''fixed'',
     ve_priceAmountMinor = given (vi_priceAmountMinor input) (Fin 0), ve_priceConfig = null_or (vi_priceConfig input),
     imageUrl = vi_imageUrl input, colorHex = vi_colorHex input, ve_design = null_or (vi_design input), groupLabel = vi_groupLabel input,
     skuSuffix = vi_skuSuffix input, weightDeltaGrams = vi_weightDeltaGrams input, isDefault = given (vi_isDefault input) False,
     ve_isEnabled = given (vi_isEnabled input) True\<rparr>"

text \<open>\<open>describe\<close> throws for a type that is not registered.\<close>

definition assertTakesValues :: "string \<Rightarrow> authoring_error option" where
  "assertTakesValues p = (case findType p of
       None \<Rightarrow> Some (Invalid [(''presentation'', ''UNSUPPORTED_OPTION_TYPE'')])
     | Some d \<Rightarrow> if takesValuesFlag d then None else Some (Invalid [(''optionId'', ''TYPE_TAKES_NO_VALUES'')]))"

definition create_value :: "schemas \<Rightarrow> string \<Rightarrow> string \<Rightarrow> string \<Rightarrow> value_input \<Rightarrow> platform \<Rightarrow> value_entity answer" where
  "create_value sc t new_id optionId input db =
     (let adb = pf_authoring db in
      case findOption t adb optionId of
        None \<Rightarrow> refuse (Missing ''Option'') db
      | Some row \<Rightarrow>
          (case first_refusal [assertValueMayCarryDesign (presentation (row_entity row)) (vi_design input),
               assertTakesValues (presentation (row_entity row)), assertRoomForValue t adb optionId,
               assertValidValuePricing sc (vi_priceConfig input),
               assertValueKeyAvailable t adb optionId (js_trim (vi_valueKey input))] of
             Some e \<Rightarrow> refuse e db
           | None \<Rightarrow> if \<not> parent_option_owned t adb optionId then refuse (Missing ''Parent'') db
               else let v = created_value new_id (nextSortOrder (map ve_sortOrder (listValues t adb optionId))) input;
                        clear = (if isDefault v then makeSoleDefault optionId new_id else (\<lambda>rows. rows))
                 in (Inr v, audited ''option_value.created'' new_id (touchForValue t optionId
                      (edit (\<lambda>a. a\<lparr>db_values := clear (db_values a @ [live_row optionId v])\<rparr>) db)))))"

definition update_value :: "schemas \<Rightarrow> string \<Rightarrow> string \<Rightarrow> value_field list \<Rightarrow> platform \<Rightarrow> value_entity answer" where
  "update_value sc t i changes db =
     (let adb = pf_authoring db in
      case findValue t adb i of
        None \<Rightarrow> refuse (Missing ''Option value'') db
      | Some row \<Rightarrow>
          (let before = row_entity row; patch = value_patch before changes; change = fold set_value_field patch in
           if patch = [] then (Inr before, db)
           else case first_refusal [
               (case patched patch_priceConfig patch of None \<Rightarrow> None | Some c \<Rightarrow> assertValidValuePricing sc c),
               (case patched patch_design patch of
                  None \<Rightarrow> None
                | Some d \<Rightarrow> if d = JNull then None
                    else case findOption t adb (row_parent row) of
                      None \<Rightarrow> Some (Missing ''Option'')
                    | Some n \<Rightarrow> assertValueMayCarryDesign (presentation (row_entity n)) d)] of
             Some e \<Rightarrow> refuse e db
           | None \<Rightarrow>
               (let clear = (if patched patch_isDefault patch = Some True then makeSoleDefault (row_parent row) i else (\<lambda>rows. rows))
                in (Inr (change before), audited ''option_value.updated'' i (touchForValue t (row_parent row)
                     (edit (\<lambda>a. a\<lparr>db_values := clear (update_scoped ve_id (owns_option t a) i change (db_values a))\<rparr>) db))))))"

definition remove_value :: "string \<Rightarrow> int \<Rightarrow> string \<Rightarrow> platform \<Rightarrow> unit answer" where
  "remove_value t now i db =
     (case findValue t (pf_authoring db) i of
        None \<Rightarrow> refuse (Missing ''Option value'') db
      | Some before \<Rightarrow>
          if value_is_rule_target i (pf_authoring db) then refuse Conflict (audited ''option_value.delete_refused'' i db)
          else (Inr (), audited ''option_value.deleted'' i (touchForValue t (row_parent before)
            (edit (\<lambda>a. a\<lparr>db_values := delete_scoped ve_id (owns_option t a) i now (db_values a)\<rparr>) db))))"

definition duplicate_value :: "string \<Rightarrow> string \<Rightarrow> string \<Rightarrow> string option \<Rightarrow> platform \<Rightarrow> value_entity answer" where
  "duplicate_value t new_id i key db =
     (let adb = pf_authoring db in
      case findValue t adb i of
        None \<Rightarrow> refuse (Missing ''Option value'') db
      | Some row \<Rightarrow>
          (let source = row_entity row; optionId = row_parent row in
           case assertRoomForValue t adb optionId of
             Some e \<Rightarrow> refuse e db
           | None \<Rightarrow>
               (case copy_key (valueKeyExists t adb optionId) key (valueKey source) of
                  None \<Rightarrow> refuse Conflict db
                | Some newKey \<Rightarrow>
                    (case assertValueKeyAvailable t adb optionId newKey of
                       Some e \<Rightarrow> refuse e db
                     | None \<Rightarrow> if \<not> parent_option_owned t adb optionId then refuse (Missing ''Parent'') db
                         else let v = copyableValueFields source (new_value new_id newKey (ve_label source @ '' (copy)'')
                                (nextSortOrder (map ve_sortOrder (listValues t adb optionId))) False)
                           in (Inr v, audited ''option_value.duplicated'' new_id (touchForValue t optionId
                                (edit (\<lambda>a. a\<lparr>db_values := db_values a @ [live_row optionId v]\<rparr>) db)))))))"

definition reorder_values :: "string \<Rightarrow> string \<Rightarrow> (string \<times> jsnum) list \<Rightarrow> platform \<Rightarrow> value_entity list answer" where
  "reorder_values t optionId entries db =
     (let adb = pf_authoring db in
      if findOption t adb optionId = None then refuse (Missing ''Option'') db
      else let unknown = unknown_entries (map ve_id (listValues t adb optionId)) entries in
        if unknown \<noteq> [] then refuse (not_siblings ''values'' ''NOT_IN_OPTION'' unknown) db
        else let db1 = fold (\<lambda>(i, n). edit (\<lambda>a. a\<lparr>db_values :=
                 update_scoped ve_id (owns_option t a) i (\<lambda>v. v\<lparr>ve_sortOrder := n\<rparr>) (db_values a)\<rparr>)) entries db
          in (Inr (listValues t (pf_authoring db1) optionId), audited ''option.reordered'' optionId (touchForValue t optionId db1)))"

end
