(* ===== verification/Authoring_Rules.thy ===== *)
theory Authoring_Rules
  imports Authoring Pricing_Schema
begin

text \<open>
  Headings and rules of a draft (\<open>presentational-items.service.ts\<close> and \<open>option-rules.service.ts\<close> of
  \<open>src/option-sets\<close>) with the schemas of a heading's display (\<open>types/presentational-display.ts\<close>) and of a rule's
  conditions and payload (\<open>types/rule-condition.schema.ts\<close>), and the requests of the whole editor as one type
  with the function that serves them.
\<close>

section \<open>Headings\<close>

definition DIVIDER_STYLES :: "string list" where
  "DIVIDER_STYLES = [''solid'', ''dashed'', ''dotted'']"

text \<open>What the schema of a kind returns for a display block, \<open>None\<close> when it refuses.\<close>

fun displaySchemaFor :: "string \<Rightarrow> jsval \<Rightarrow> jsval option" where
  "displaySchemaFor kind (JObj kvs) =
     (if kind = ''divider'' then
        (if list_all (\<lambda>(k, _). k = ''style'') kvs \<and> (case map_of kvs ''style'' of
              None \<Rightarrow> True | Some (JStr s) \<Rightarrow> s \<in> set DIVIDER_STYLES | Some v \<Rightarrow> v = JUndef)
         then Some (JObj kvs) else None)
      else if kvs = [] then Some (JObj []) else None)"
| "displaySchemaFor kind _ = None"

definition displayFor :: "schemas \<Rightarrow> string \<Rightarrow> jsval \<Rightarrow> authoring_error + jsval" where
  "displayFor sc kind display =
     (if display = JNull \<or> display = JUndef then Inr JNull
      else case displaySchemaFor kind display of
        None \<Rightarrow> Inl (Invalid (sc_item_display sc kind display))
      | Some d \<Rightarrow> Inr d)"

definition contentFor :: "string \<Rightarrow> string \<Rightarrow> authoring_error + string" where
  "contentFor kind raw =
     (let content = js_trim raw in
      if content = '''' \<and> kind \<noteq> ''divider'' then Inl (Invalid [(''content'', ''REQUIRED'')]) else Inr content)"

definition findItem :: "string \<Rightarrow> authoring_db \<Rightarrow> string \<Rightarrow> item_entity child_row option" where
  "findItem t adb i = find_scoped ie_id (owns_group t adb) (db_items adb) i"

definition listItems :: "string \<Rightarrow> authoring_db \<Rightarrow> string \<Rightarrow> item_entity list" where
  "listItems t adb i = list_scoped item_position (owns_group t adb) (db_items adb) i"

record item_input =
  ii_kind :: string
  ii_content :: string
  ii_sortOrder :: "jsnum option"
  ii_display :: jsval

record item_changes =
  ic_content :: "string option"
  ic_sortOrder :: "jsnum option"
  ic_display :: jsval

definition create_item :: "schemas \<Rightarrow> string \<Rightarrow> string \<Rightarrow> string \<Rightarrow> item_input \<Rightarrow> platform \<Rightarrow> item_entity answer" where
  "create_item sc t new_id optionGroupId input db =
     (let adb = pf_authoring db; siblings = listItems t adb optionGroupId in
      if findGroup t adb optionGroupId = None then refuse (Missing ''Option group'') db
      else case assertWithinLimit (length siblings) itemsPerGroup ''presentational items'' of
        Some e \<Rightarrow> refuse e db
      | None \<Rightarrow>
          (case contentFor (ii_kind input) (ii_content input) of
             Inl e \<Rightarrow> refuse e db
           | Inr content \<Rightarrow>
               (case displayFor sc (ii_kind input) (ii_display input) of
                  Inl e \<Rightarrow> refuse e db
                | Inr display \<Rightarrow> if \<not> parent_group_owned t adb optionGroupId then refuse (Missing ''Parent'') db
                    else let e = \<lparr>ie_id = new_id, ie_kind = ii_kind input, ie_content = content,
                           ie_sortOrder = given (ii_sortOrder input) (nextSortOrder (map ie_sortOrder siblings)), ie_display = display\<rparr>
                      in (Inr e, audited ''presentational_item.created'' new_id (touchForOption t optionGroupId
                           (edit (\<lambda>a. a\<lparr>db_items := db_items a @ [live_row optionGroupId e]\<rparr>) db))))))"

definition update_item :: "schemas \<Rightarrow> string \<Rightarrow> string \<Rightarrow> item_changes \<Rightarrow> platform \<Rightarrow> item_entity answer" where
  "update_item sc t i changes db =
     (case findItem t (pf_authoring db) i of
        None \<Rightarrow> refuse (Missing ''Presentational item'') db
      | Some row \<Rightarrow>
          (let before = row_entity row in
           case (case ic_content changes of None \<Rightarrow> Inr (ie_content before) | Some c \<Rightarrow> contentFor (ie_kind before) c) of
             Inl e \<Rightarrow> refuse e db
           | Inr content \<Rightarrow>
               (case (if ic_display changes = JUndef then Inr (ie_display before) else displayFor sc (ie_kind before) (ic_display changes)) of
                  Inl e \<Rightarrow> refuse e db
                | Inr display \<Rightarrow>
                    if ic_content changes = None \<and> ic_sortOrder changes = None \<and> ic_display changes = JUndef then (Inr before, db)
                    else let change = (\<lambda>e. e\<lparr>ie_content := (if ic_content changes = None then ie_content e else content),
                               ie_sortOrder := given (ic_sortOrder changes) (ie_sortOrder e),
                               ie_display := (if ic_display changes = JUndef then ie_display e else display)\<rparr>)
                      in (Inr (change before), audited ''presentational_item.updated'' i (touchForOption t (row_parent row)
                           (edit (\<lambda>a. a\<lparr>db_items := update_scoped ie_id (owns_group t a) i change (db_items a)\<rparr>) db))))))"

definition remove_item :: "string \<Rightarrow> int \<Rightarrow> string \<Rightarrow> platform \<Rightarrow> unit answer" where
  "remove_item t now i db =
     (case findItem t (pf_authoring db) i of
        None \<Rightarrow> refuse (Missing ''Presentational item'') db
      | Some before \<Rightarrow> (Inr (), audited ''presentational_item.deleted'' i (touchForOption t (row_parent before)
          (edit (\<lambda>a. a\<lparr>db_items := delete_scoped ie_id (owns_group t a) i now (db_items a)\<rparr>) db))))"

definition reorder_items :: "string \<Rightarrow> string \<Rightarrow> (string \<times> jsnum) list \<Rightarrow> platform \<Rightarrow> item_entity list answer" where
  "reorder_items t optionGroupId entries db =
     (let adb = pf_authoring db in
      if findGroup t adb optionGroupId = None then refuse (Missing ''Option group'') db
      else let unknown = unknown_entries (map ie_id (listItems t adb optionGroupId)) entries in
        if unknown \<noteq> [] then refuse (not_siblings ''items'' ''NOT_IN_GROUP'' unknown) db
        else let db1 = edit (\<lambda>a. a\<lparr>db_items := reorder_rows ie_id (\<lambda>n e. e\<lparr>ie_sortOrder := n\<rparr>) entries (db_items a)\<rparr>) db
          in (Inr (listItems t (pf_authoring db1) optionGroupId),
              audited ''presentational_item.reordered'' optionGroupId (touchForOption t optionGroupId db1)))"

section \<open>Conditions\<close>

definition MAX_CONDITIONS_PER_RULE :: nat where "MAX_CONDITIONS_PER_RULE = 20"
definition MAX_OPERAND_LIST_LENGTH :: nat where "MAX_OPERAND_LIST_LENGTH = 50"
definition MAX_OPERAND_LENGTH :: nat where "MAX_OPERAND_LENGTH = 5000"
definition MAX_CONDITIONS_BYTES :: nat where "MAX_CONDITIONS_BYTES = 16384"

definition EQUALITY_RULE_OPERATORS :: "string list" where "EQUALITY_RULE_OPERATORS = [''equals'', ''not_equals'']"
definition SUBSTRING_RULE_OPERATORS :: "string list" where "SUBSTRING_RULE_OPERATORS = [''contains'']"
definition ORDERING_RULE_OPERATORS :: "string list" where "ORDERING_RULE_OPERATORS = [''greater_than'', ''less_than'']"
definition LIST_RULE_OPERATORS :: "string list" where "LIST_RULE_OPERATORS = [''in'', ''not_in'']"
definition UNARY_RULE_OPERATORS :: "string list" where "UNARY_RULE_OPERATORS = [''is_empty'', ''is_not_empty'']"

fun scalarOperand :: "jsval \<Rightarrow> bool" where
  "scalarOperand (JStr s) \<longleftrightarrow> length s \<le> MAX_OPERAND_LENGTH"
| "scalarOperand (JNum n) \<longleftrightarrow> is_finite_num n"
| "scalarOperand (JBool b) \<longleftrightarrow> True"
| "scalarOperand _ \<longleftrightarrow> False"

fun substringOperand :: "jsval \<Rightarrow> bool" where
  "substringOperand (JStr s) \<longleftrightarrow> length s \<le> MAX_OPERAND_LENGTH"
| "substringOperand _ \<longleftrightarrow> False"

fun orderingOperand :: "jsval \<Rightarrow> bool" where
  "orderingOperand (JNum n) \<longleftrightarrow> is_finite_num n"
| "orderingOperand _ \<longleftrightarrow> False"

fun listOperand :: "jsval \<Rightarrow> bool" where
  "listOperand (JArr vs) \<longleftrightarrow> vs \<noteq> [] \<and> length vs \<le> MAX_OPERAND_LIST_LENGTH \<and> list_all scalarOperand vs"
| "listOperand _ \<longleftrightarrow> False"

definition operand_fits :: "string \<Rightarrow> jsval \<Rightarrow> bool" where
  "operand_fits operator v =
     (if operator \<in> set EQUALITY_RULE_OPERATORS then scalarOperand v
      else if operator \<in> set SUBSTRING_RULE_OPERATORS then substringOperand v
      else if operator \<in> set ORDERING_RULE_OPERATORS then orderingOperand v
      else if operator \<in> set LIST_RULE_OPERATORS then listOperand v
      else False)"

text \<open>One condition as the schema returns it: the keys in the order of the schema, the id trimmed.\<close>

fun ruleCondition :: "(string \<Rightarrow> bool) \<Rightarrow> jsval \<Rightarrow> jsval option" where
  "ruleCondition uuid (JObj kvs) =
     (case (map_of kvs ''optionId'', map_of kvs ''operator'') of
        (Some (JStr raw), Some (JStr operator)) \<Rightarrow>
          (let i = js_trim raw in
           if i = '''' \<or> \<not> uuid i then None
           else if operator \<in> set UNARY_RULE_OPERATORS then
             (if list_all (\<lambda>(k, _). k \<in> {''optionId'', ''operator''}) kvs
              then Some (JObj [(''optionId'', JStr i), (''operator'', JStr operator)]) else None)
           else if list_all (\<lambda>(k, _). k \<in> {''optionId'', ''operator'', ''value''}) kvs then
             (case map_of kvs ''value'' of
                None \<Rightarrow> None
              | Some v \<Rightarrow> if operand_fits operator v
                  then Some (JObj [(''optionId'', JStr i), (''operator'', JStr operator), (''value'', v)]) else None)
           else None)
      | _ \<Rightarrow> None)"
| "ruleCondition uuid _ = None"

text \<open>\<open>Buffer.byteLength(s, 'utf8')\<close> of a string of code units below 256.\<close>

definition byteLength :: "string \<Rightarrow> nat" where
  "byteLength s = sum_list (map (\<lambda>c. if code_of c < 128 then 1 else 2) s)"

fun ruleConditions :: "(string \<Rightarrow> bool) \<Rightarrow> jsval \<Rightarrow> jsval list option" where
  "ruleConditions uuid (JArr raw) =
     (case those (map (ruleCondition uuid) raw) of
        None \<Rightarrow> None
      | Some cs \<Rightarrow> if cs \<noteq> [] \<and> length cs \<le> MAX_CONDITIONS_PER_RULE \<and> byteLength (stringify (JArr cs)) \<le> MAX_CONDITIONS_BYTES
          then Some cs else None)"
| "ruleConditions uuid _ = None"

definition conditionsFor :: "schemas \<Rightarrow> jsval \<Rightarrow> authoring_error + jsval" where
  "conditionsFor sc raw = (case ruleConditions (sc_uuid sc) raw of
       None \<Rightarrow> Inl (Invalid (sc_conditions sc raw))
     | Some cs \<Rightarrow> Inr (JArr cs))"

section \<open>Payloads\<close>

definition ACTIONS_REQUIRING_A_VALUE :: "string list" where "ACTIONS_REQUIRING_A_VALUE = [''set_price'']"

fun setPriceValue :: "jsval \<Rightarrow> bool" where
  "setPriceValue (JObj [(k, JNum n)]) \<longleftrightarrow> k = ''amountMinor'' \<and> is_integer_num n
     \<and> js_le (Fin (of_int (- MAX_AMOUNT_MINOR))) n \<and> js_le n (Fin (of_int MAX_AMOUNT_MINOR))"
| "setPriceValue _ \<longleftrightarrow> False"

definition ruleActionValueSchema :: "string \<Rightarrow> jsval \<Rightarrow> bool" where
  "ruleActionValueSchema action v = (if action = ''set_price'' then setPriceValue v else v = JNull \<or> v = JUndef)"

definition actionValueFor :: "schemas \<Rightarrow> string \<Rightarrow> jsval \<Rightarrow> authoring_error + jsval" where
  "actionValueFor sc action raw =
     (if action \<in> set ACTIONS_REQUIRING_A_VALUE \<and> raw = JUndef then Inl (Invalid [(''actionValue'', ''REQUIRED'')])
      else if ruleActionValueSchema action raw then Inr (null_or raw)
      else Inl (Invalid (sc_action_value sc action raw)))"

section \<open>Rules\<close>

definition rule_key :: "rule_entity \<Rightarrow> string" where
  "rule_key r = sr_id (re_rule r)"

definition findRule :: "string \<Rightarrow> authoring_db \<Rightarrow> string \<Rightarrow> rule_entity child_row option" where
  "findRule t adb i = find_scoped rule_key (owns_set t adb) (db_rules adb) i"

definition listRules :: "string \<Rightarrow> authoring_db \<Rightarrow> string \<Rightarrow> rule_entity list" where
  "listRules t adb i = list_scoped rule_position (owns_set t adb) (db_rules adb) i"

record rule_input =
  ri_targetType :: string
  ri_targetId :: string
  ri_action :: string
  ri_matchType :: string
  ri_conditions :: jsval
  ri_actionValue :: jsval
  ri_sortOrder :: "jsnum option"

record rule_changes =
  rc_targetType :: "string option"
  rc_targetId :: "string option"
  rc_action :: "string option"
  rc_matchType :: "string option"
  rc_conditions :: jsval
  rc_actionValue :: jsval
  rc_sortOrder :: "jsnum option"

definition targetExists :: "string \<Rightarrow> authoring_db \<Rightarrow> string \<Rightarrow> string \<Rightarrow> bool" where
  "targetExists t adb kind i =
     (if kind = ''group'' then findGroup t adb i \<noteq> None
      else if kind = ''option'' then findOption t adb i \<noteq> None
      else if kind = ''value'' then findValue t adb i \<noteq> None
      else False)"

definition assertTargetIsWhatItClaims :: "string \<Rightarrow> authoring_db \<Rightarrow> string \<Rightarrow> string \<Rightarrow> authoring_error option" where
  "assertTargetIsWhatItClaims t adb kind i =
     (if targetExists t adb kind i then None else Some (Invalid [(''targetId'', ''TARGET_NOT_FOUND'')]))"

definition create_rule :: "schemas \<Rightarrow> string \<Rightarrow> string \<Rightarrow> string \<Rightarrow> rule_input \<Rightarrow> platform \<Rightarrow> rule_entity answer" where
  "create_rule sc t new_id optionSetId input db =
     (let adb = pf_authoring db in
      if \<not> owns_set t adb optionSetId then refuse (Missing ''Option set'') db
      else case assertWithinLimit (count_scoped (owns_set t adb) (db_rules adb) optionSetId) rulesPerSet ''rules'' of
        Some e \<Rightarrow> refuse e db
      | None \<Rightarrow>
          (case conditionsFor sc (ri_conditions input) of
             Inl e \<Rightarrow> refuse e db
           | Inr conditions \<Rightarrow>
               (case actionValueFor sc (ri_action input) (ri_actionValue input) of
                  Inl e \<Rightarrow> refuse e db
                | Inr actionValue \<Rightarrow>
                    (case assertTargetIsWhatItClaims t adb (ri_targetType input) (ri_targetId input) of
                       Some e \<Rightarrow> refuse e db
                     | None \<Rightarrow>
                         (let r = \<lparr>re_rule = \<lparr>sr_id = new_id, sr_targetType = ri_targetType input, sr_targetId = ri_targetId input,
                                sr_action = ri_action input, sr_matchType = ri_matchType input, sr_conditions = conditions,
                                sr_actionValue = actionValue,
                                sr_sortOrder = given (ri_sortOrder input) (nextSortOrder (map (sr_sortOrder \<circ> re_rule) (listRules t adb optionSetId)))\<rparr>,
                              re_isEnabled = True, re_disabledReason = None\<rparr>
                          in (Inr r, audited ''option_rule.created'' new_id (touchSet t optionSetId
                               (edit (\<lambda>a. a\<lparr>db_rules := db_rules a @ [live_row optionSetId r]\<rparr>) db))))))))"

text \<open>\<open>changes.actionValue ?? before.actionValue ?? undefined\<close>\<close>

definition payload_of :: "rule_entity \<Rightarrow> rule_changes \<Rightarrow> jsval" where
  "payload_of before changes =
     (if rc_actionValue changes \<noteq> JUndef \<and> rc_actionValue changes \<noteq> JNull then rc_actionValue changes
      else if sr_actionValue (re_rule before) = JNull then JUndef else sr_actionValue (re_rule before))"

definition revalued :: "rule_changes \<Rightarrow> bool" where
  "revalued changes \<longleftrightarrow> rc_action changes \<noteq> None \<or> rc_actionValue changes \<noteq> JUndef"

definition retargeted :: "rule_changes \<Rightarrow> bool" where
  "retargeted changes \<longleftrightarrow> rc_targetType changes \<noteq> None \<or> rc_targetId changes \<noteq> None"

definition no_rule_changes :: "rule_changes \<Rightarrow> bool" where
  "no_rule_changes changes \<longleftrightarrow> \<not> retargeted changes \<and> \<not> revalued changes \<and> rc_matchType changes = None
     \<and> rc_conditions changes = JUndef \<and> rc_sortOrder changes = None"

definition change_rule :: "rule_changes \<Rightarrow> jsval \<Rightarrow> jsval \<Rightarrow> rule_entity \<Rightarrow> rule_entity" where
  "change_rule changes conditions actionValue r = r\<lparr>re_rule := (re_rule r)\<lparr>
     sr_targetType := given (rc_targetType changes) (sr_targetType (re_rule r)),
     sr_targetId := given (rc_targetId changes) (sr_targetId (re_rule r)),
     sr_action := given (rc_action changes) (sr_action (re_rule r)),
     sr_matchType := given (rc_matchType changes) (sr_matchType (re_rule r)),
     sr_conditions := (if rc_conditions changes = JUndef then sr_conditions (re_rule r) else conditions),
     sr_actionValue := (if revalued changes then actionValue else sr_actionValue (re_rule r)),
     sr_sortOrder := given (rc_sortOrder changes) (sr_sortOrder (re_rule r))\<rparr>\<rparr>"

definition update_rule :: "schemas \<Rightarrow> string \<Rightarrow> string \<Rightarrow> rule_changes \<Rightarrow> platform \<Rightarrow> rule_entity answer" where
  "update_rule sc t i changes db =
     (let adb = pf_authoring db in
      case findRule t adb i of
        None \<Rightarrow> refuse (Missing ''Option rule'') db
      | Some row \<Rightarrow>
          (let before = row_entity row; r = re_rule before in
           case (if rc_conditions changes = JUndef then Inr (sr_conditions r) else conditionsFor sc (rc_conditions changes)) of
             Inl e \<Rightarrow> refuse e db
           | Inr conditions \<Rightarrow>
               (case (if revalued changes then actionValueFor sc (given (rc_action changes) (sr_action r)) (payload_of before changes)
                      else Inr (sr_actionValue r)) of
                  Inl e \<Rightarrow> refuse e db
                | Inr actionValue \<Rightarrow>
                    if no_rule_changes changes then (Inr before, db)
                    else case (if retargeted changes
                               then assertTargetIsWhatItClaims t adb (given (rc_targetType changes) (sr_targetType r)) (given (rc_targetId changes) (sr_targetId r))
                               else None) of
                      Some e \<Rightarrow> refuse e db
                    | None \<Rightarrow>
                        (let change = change_rule changes conditions actionValue
                         in (Inr (change before), audited ''option_rule.updated'' i (touchSet t (row_parent row)
                              (edit (\<lambda>a. a\<lparr>db_rules := update_scoped rule_key (owns_set t a) i change (db_rules a)\<rparr>) db)))))))"

definition remove_rule :: "string \<Rightarrow> int \<Rightarrow> string \<Rightarrow> platform \<Rightarrow> unit answer" where
  "remove_rule t now i db =
     (case findRule t (pf_authoring db) i of
        None \<Rightarrow> refuse (Missing ''Option rule'') db
      | Some before \<Rightarrow> (Inr (), audited ''option_rule.deleted'' i (touchSet t (row_parent before)
          (edit (\<lambda>a. a\<lparr>db_rules := delete_scoped rule_key (owns_set t a) i now (db_rules a)\<rparr>) db))))"

definition reorder_rules :: "string \<Rightarrow> string \<Rightarrow> (string \<times> jsnum) list \<Rightarrow> platform \<Rightarrow> rule_entity list answer" where
  "reorder_rules t optionSetId entries db =
     (let adb = pf_authoring db in
      if \<not> owns_set t adb optionSetId then refuse (Missing ''Option set'') db
      else let unknown = unknown_entries (map rule_key (listRules t adb optionSetId)) entries in
        if unknown \<noteq> [] then refuse (not_siblings ''rules'' ''NOT_IN_SET'' unknown) db
        else let db1 = edit (\<lambda>a. a\<lparr>db_rules := reorder_rows rule_key
                 (\<lambda>n r. r\<lparr>re_rule := (re_rule r)\<lparr>sr_sortOrder := n\<rparr>\<rparr>) entries (db_rules a)\<rparr>) db
          in (Inr (listRules t (pf_authoring db1) optionSetId), audited ''option_rule.reordered'' optionSetId (touchSet t optionSetId db1)))"

section \<open>Requests\<close>

datatype request =
    CreateGroup string string group_input
  | UpdateGroup string "group_field list"
  | RemoveGroup int string
  | DuplicateGroup "nat \<Rightarrow> string" string "string option"
  | ReorderGroups string "(string \<times> jsnum) list"
  | CreateOption string string option_input
  | UpdateOption string "option_field list"
  | RemoveOption int string
  | DuplicateOption "nat \<Rightarrow> string" string "string option"
  | ReorderOptions string "(string \<times> jsnum) list"
  | CreateValue string string value_input
  | UpdateValue string "value_field list"
  | RemoveValue int string
  | DuplicateValue string string "string option"
  | ReorderValues string "(string \<times> jsnum) list"
  | CreateItem string string item_input
  | UpdateItem string item_changes
  | RemoveItem int string
  | ReorderItems string "(string \<times> jsnum) list"
  | CreateRule string string rule_input
  | UpdateRule string rule_changes
  | RemoveRule int string
  | ReorderRules string "(string \<times> jsnum) list"

text \<open>The tables a request of tenant \<open>t\<close> leaves.\<close>

fun serve :: "schemas \<Rightarrow> string \<Rightarrow> request \<Rightarrow> platform \<Rightarrow> platform" where
  "serve sc t (CreateGroup new_id i input) db = snd (create_group t new_id i input db)"
| "serve sc t (UpdateGroup i changes) db = snd (update_group t i changes db)"
| "serve sc t (RemoveGroup now i) db = snd (remove_group t now i db)"
| "serve sc t (DuplicateGroup new_id i label) db = snd (duplicate_group t new_id i label db)"
| "serve sc t (ReorderGroups i entries) db = snd (reorder_groups t i entries db)"
| "serve sc t (CreateOption new_id i input) db = snd (create_option sc t new_id i input db)"
| "serve sc t (UpdateOption i changes) db = snd (update_option sc t i changes db)"
| "serve sc t (RemoveOption now i) db = snd (remove_option t now i db)"
| "serve sc t (DuplicateOption new_id i key) db = snd (duplicate_option t new_id i key db)"
| "serve sc t (ReorderOptions i entries) db = snd (reorder_options t i entries db)"
| "serve sc t (CreateValue new_id i input) db = snd (create_value sc t new_id i input db)"
| "serve sc t (UpdateValue i changes) db = snd (update_value sc t i changes db)"
| "serve sc t (RemoveValue now i) db = snd (remove_value t now i db)"
| "serve sc t (DuplicateValue new_id i key) db = snd (duplicate_value t new_id i key db)"
| "serve sc t (ReorderValues i entries) db = snd (reorder_values t i entries db)"
| "serve sc t (CreateItem new_id i input) db = snd (create_item sc t new_id i input db)"
| "serve sc t (UpdateItem i changes) db = snd (update_item sc t i changes db)"
| "serve sc t (RemoveItem now i) db = snd (remove_item t now i db)"
| "serve sc t (ReorderItems i entries) db = snd (reorder_items t i entries db)"
| "serve sc t (CreateRule new_id i input) db = snd (create_rule sc t new_id i input db)"
| "serve sc t (UpdateRule i changes) db = snd (update_rule sc t i changes db)"
| "serve sc t (RemoveRule now i) db = snd (remove_rule t now i db)"
| "serve sc t (ReorderRules i entries) db = snd (reorder_rules t i entries db)"

end
