(* ===== verification/Authoring_Steps.thy ===== *)
theory Authoring_Steps
  imports Authoring_Rules Duplication_Correct
begin

text \<open>
  What the requests of the editor do to the tables, as guarded edits of single rows (\<open>edit_step\<close>), and what
  the edits keep (\<open>draft_sound\<close>). \<open>Authoring_Correct\<close> shows that every request is a sequence of such edits.
\<close>

section \<open>What a draft keeps\<close>

abbreviation alive :: "'e child_row \<Rightarrow> bool" where
  "alive r \<equiv> row_deletedAt r = LIVE_SENTINEL"

abbreviation children_in :: "'e child_row list \<Rightarrow> string \<Rightarrow> 'e child_row list" where
  "children_in rows p \<equiv> filter (\<lambda>r. row_parent r = p \<and> alive r) rows"

definition unique_ids :: "authoring_db \<Rightarrow> bool" where
  "unique_ids adb \<longleftrightarrow> distinct (all_ids adb) \<and> distinct (map st_id (db_sets adb))"

definition unused :: "authoring_db \<Rightarrow> string \<Rightarrow> bool" where
  "unused adb i \<longleftrightarrow> i \<notin> set (all_ids adb) \<union> set (all_parents adb) \<union> st_id ` set (db_sets adb)"

text \<open>A key names one option of a group, and one value of an option.\<close>

definition keys_of :: "('e \<Rightarrow> string) \<Rightarrow> 'e child_row list \<Rightarrow> (string \<times> string) list" where
  "keys_of key rows = map (\<lambda>r. (row_parent r, key (row_entity r))) (filter alive rows)"

definition keys_unique :: "authoring_db \<Rightarrow> bool" where
  "keys_unique adb \<longleftrightarrow> distinct (keys_of oe_key (db_options adb)) \<and> distinct (keys_of valueKey (db_values adb))"

definition one_default :: "authoring_db \<Rightarrow> bool" where
  "one_default adb \<longleftrightarrow> distinct (map row_parent (filter (\<lambda>r. alive r \<and> isDefault (row_entity r)) (db_values adb)))"

text \<open>A value hangs under a type that takes values, and artwork on a type that shows it.\<close>

definition absent :: "jsval \<Rightarrow> bool" where
  "absent v \<longleftrightarrow> v = JNull \<or> v = JUndef"

definition value_fits :: "string \<Rightarrow> value_entity \<Rightarrow> bool" where
  "value_fits p v \<longleftrightarrow> takesValues p \<and> (absent (ve_design v) \<or> valueCarriesDesign p)"

definition text_fits :: "option_entity \<Rightarrow> bool" where
  "text_fits n \<longleftrightarrow> absent (textDesign n) \<or> optionCarriesTextDesign (presentation n)"

definition types_respected :: "authoring_db \<Rightarrow> bool" where
  "types_respected adb \<longleftrightarrow> (\<forall>n\<in>set (db_options adb). alive n \<longrightarrow> text_fits (row_entity n))
     \<and> (\<forall>v\<in>set (db_values adb). \<forall>n\<in>set (db_options adb). alive v \<longrightarrow> oe_id (row_entity n) = row_parent v
          \<longrightarrow> value_fits (presentation (row_entity n)) (row_entity v))"

text \<open>A rule has conditions, each of a form its operator reads, and a payload exactly when its action uses one.\<close>

definition condition_fits :: "(string \<Rightarrow> bool) \<Rightarrow> jsval \<Rightarrow> bool" where
  "condition_fits uuid c = (case c of
       JObj [(k, JStr i), (l, JStr operator)] \<Rightarrow>
         k = ''optionId'' \<and> l = ''operator'' \<and> uuid i \<and> operator \<in> set UNARY_RULE_OPERATORS
     | JObj [(k, JStr i), (l, JStr operator), (m, v)] \<Rightarrow>
         k = ''optionId'' \<and> l = ''operator'' \<and> m = ''value'' \<and> uuid i \<and> operand_fits operator v
     | _ \<Rightarrow> False)"

definition conditions_fit :: "(string \<Rightarrow> bool) \<Rightarrow> jsval \<Rightarrow> bool" where
  "conditions_fit uuid v = (case v of
       JArr cs \<Rightarrow> cs \<noteq> [] \<and> length cs \<le> MAX_CONDITIONS_PER_RULE \<and> list_all (condition_fits uuid) cs
     | _ \<Rightarrow> False)"

definition payload_fits :: "string \<Rightarrow> jsval \<Rightarrow> bool" where
  "payload_fits action v \<longleftrightarrow> (if action = ''set_price'' then setPriceValue v else v = JNull)"

definition rule_fits :: "(string \<Rightarrow> bool) \<Rightarrow> rule_entity \<Rightarrow> bool" where
  "rule_fits uuid r \<longleftrightarrow> conditions_fit uuid (sr_conditions (re_rule r)) \<and> payload_fits (sr_action (re_rule r)) (sr_actionValue (re_rule r))"

definition rules_wellformed :: "(string \<Rightarrow> bool) \<Rightarrow> authoring_db \<Rightarrow> bool" where
  "rules_wellformed uuid adb \<longleftrightarrow> (\<forall>r\<in>set (db_rules adb). alive r \<longrightarrow> rule_fits uuid (row_entity r))"

text \<open>What an enabled rule points at is in the scope of the tenant that owns the rule.\<close>

definition rules_attached :: "authoring_db \<Rightarrow> bool" where
  "rules_attached adb \<longleftrightarrow> (\<forall>u. \<forall>r\<in>set (db_rules adb). scoped (owns_set u adb) r \<longrightarrow> re_isEnabled (row_entity r)
     \<longrightarrow> targetExists u adb (sr_targetType (re_rule (row_entity r))) (sr_targetId (re_rule (row_entity r))))"

definition within_limits :: "authoring_db \<Rightarrow> bool" where
  "within_limits adb \<longleftrightarrow> (\<forall>p. length (children_in (db_groups adb) p) \<le> groupsPerSet
     \<and> length (children_in (db_options adb) p) \<le> optionsPerGroup \<and> length (children_in (db_values adb) p) \<le> valuesPerOption
     \<and> length (children_in (db_items adb) p) \<le> itemsPerGroup \<and> length (children_in (db_rules adb) p) \<le> rulesPerSet)"

definition draft_sound :: "(string \<Rightarrow> bool) \<Rightarrow> authoring_db \<Rightarrow> bool" where
  "draft_sound uuid adb \<longleftrightarrow> unique_ids adb \<and> keys_unique adb \<and> one_default adb \<and> types_respected adb
     \<and> rules_wellformed uuid adb \<and> rules_attached adb \<and> within_limits adb"

section \<open>The edits\<close>

definition owns_value :: "string \<Rightarrow> authoring_db \<Rightarrow> string \<Rightarrow> bool" where
  "owns_value t adb = owns_row ve_id (owns_option t adb) (db_values adb)"

definition owns_item :: "string \<Rightarrow> authoring_db \<Rightarrow> string \<Rightarrow> bool" where
  "owns_item t adb = owns_row ie_id (owns_group t adb) (db_items adb)"

definition owns_rule :: "string \<Rightarrow> authoring_db \<Rightarrow> string \<Rightarrow> bool" where
  "owns_rule t adb = owns_row rule_key (owns_set t adb) (db_rules adb)"

definition alter :: "('e child_row \<Rightarrow> bool) \<Rightarrow> ('e \<Rightarrow> 'e) \<Rightarrow> 'e child_row list \<Rightarrow> 'e child_row list" where
  "alter P f rows = update_rows P (\<lambda>r. r\<lparr>row_entity := f (row_entity r)\<rparr>) rows"

definition retire :: "('e child_row \<Rightarrow> bool) \<Rightarrow> int \<Rightarrow> 'e child_row list \<Rightarrow> 'e child_row list" where
  "retire P now rows = update_rows P (\<lambda>r. r\<lparr>row_deletedAt := now\<rparr>) rows"

definition grafted_values :: "(string \<Rightarrow> string) \<Rightarrow> (option_entity \<Rightarrow> option_entity) \<Rightarrow> authoring_db \<Rightarrow> option_entity list
    \<Rightarrow> value_entity child_row list" where
  "grafted_values \<rho> c adb ns =
     flat_map (\<lambda>n. map (\<lambda>v. live_row (oe_id (c n)) (copy_value (\<rho> (ve_id v)) v)) (values_of adb (oe_id n))) ns"

text \<open>What a rule points at, and whether it does so in force.\<close>

definition aim :: "rule_entity child_row \<Rightarrow> string" where
  "aim q = sr_targetId (re_rule (row_entity q))"

definition aims :: "string \<Rightarrow> rule_entity child_row \<Rightarrow> bool" where
  "aims kind q \<longleftrightarrow> alive q \<and> re_isEnabled (row_entity q) \<and> sr_targetType (re_rule (row_entity q)) = kind"

definition withdraw :: "(group_entity child_row \<Rightarrow> bool) \<Rightarrow> (option_entity child_row \<Rightarrow> bool) \<Rightarrow> (value_entity child_row \<Rightarrow> bool)
    \<Rightarrow> (item_entity child_row \<Rightarrow> bool) \<Rightarrow> (rule_entity child_row \<Rightarrow> bool) \<Rightarrow> int \<Rightarrow> authoring_db \<Rightarrow> authoring_db" where
  "withdraw G N V I D now a = a\<lparr>db_groups := retire G now (db_groups a), db_options := retire N now (db_options a),
     db_values := retire V now (db_values a), db_items := retire I now (db_items a),
     db_rules := alter D disable_rule (db_rules a)\<rparr>"

text \<open>A row that is altered keeps its id, an option its key and type, a value its key.\<close>

inductive edit_step :: "(string \<Rightarrow> bool) \<Rightarrow> string \<Rightarrow> authoring_db \<Rightarrow> authoring_db \<Rightarrow> bool" for uuid t where
  touched: "edit_step uuid t a (a\<lparr>db_sets := update_rows (\<lambda>s. st_id s = i \<and> st_tenantId s = t \<and> st_deletedAt s = LIVE_SENTINEL)
     (\<lambda>s. s\<lparr>rowVersion := rowVersion s + 1\<rparr>) (db_sets a)\<rparr>)"
| group_added: "edit_step uuid t a (a\<lparr>db_groups := db_groups a @ [live_row s g]\<rparr>)"
    if "owns_set t a s" "length (children_in (db_groups a) s) < groupsPerSet" "unused a (ge_id g)"
| groups_altered: "edit_step uuid t a (a\<lparr>db_groups := alter P f (db_groups a)\<rparr>)"
    if "\<And>g. ge_id (f g) = ge_id g" "\<And>r. r \<in> set (db_groups a) \<Longrightarrow> P r \<Longrightarrow> owns_group t a (ge_id (row_entity r))"
| option_added: "edit_step uuid t a (a\<lparr>db_options := db_options a @ [live_row p n]\<rparr>)"
    if "owns_group t a p" "length (children_in (db_options a) p) < optionsPerGroup" "unused a (oe_id n)"
      "(p, oe_key n) \<notin> set (keys_of oe_key (db_options a))" "text_fits n"
| options_altered: "edit_step uuid t a (a\<lparr>db_options := alter P f (db_options a)\<rparr>)"
    if "\<And>n. oe_id (f n) = oe_id n" "\<And>n. oe_key (f n) = oe_key n" "\<And>n. presentation (f n) = presentation n"
      "\<And>r. r \<in> set (db_options a) \<Longrightarrow> P r \<Longrightarrow> owns_option t a (oe_id (row_entity r))"
      "\<And>r. r \<in> set (db_options a) \<Longrightarrow> P r \<Longrightarrow> text_fits (row_entity r) \<Longrightarrow> text_fits (f (row_entity r))"
| options_grafted: "edit_step uuid t a (a\<lparr>db_options := db_options a @ map (\<lambda>n. live_row p (c n)) ns,
      db_values := db_values a @ grafted_values \<rho> c a ns\<rparr>)"
    if "owns_group t a p" "length (children_in (db_options a) p) + length ns \<le> optionsPerGroup"
      "\<And>n. n \<in> set ns \<Longrightarrow> \<exists>r\<in>set (db_options a). alive r \<and> row_entity r = n"
      "\<And>n. presentation (c n) = presentation n" "\<And>n. n \<in> set ns \<Longrightarrow> text_fits n \<Longrightarrow> text_fits (c n)"
      "distinct (map (oe_id \<circ> c) ns @ row_ids ve_id (grafted_values \<rho> c a ns))"
      "\<And>i. i \<in> set (map (oe_id \<circ> c) ns @ row_ids ve_id (grafted_values \<rho> c a ns)) \<Longrightarrow> unused a i"
      "distinct (map (oe_key \<circ> c) ns)" "\<And>n. n \<in> set ns \<Longrightarrow> (p, oe_key (c n)) \<notin> set (keys_of oe_key (db_options a))"
| value_added: "edit_step uuid t a (a\<lparr>db_values := db_values a @ [live_row p v]\<rparr>)"
    if "owns_option t a p" "length (children_in (db_values a) p) < valuesPerOption" "unused a (ve_id v)"
      "(p, valueKey v) \<notin> set (keys_of valueKey (db_values a))"
      "isDefault v \<Longrightarrow> \<forall>r\<in>set (db_values a). alive r \<and> row_parent r = p \<longrightarrow> \<not> isDefault (row_entity r)"
      "\<And>n. n \<in> set (db_options a) \<Longrightarrow> oe_id (row_entity n) = p \<Longrightarrow> value_fits (presentation (row_entity n)) v"
| values_altered: "edit_step uuid t a (a\<lparr>db_values := alter P f (db_values a)\<rparr>)"
    if "\<And>v. ve_id (f v) = ve_id v" "\<And>v. valueKey (f v) = valueKey v"
      "\<And>r. r \<in> set (db_values a) \<Longrightarrow> P r \<Longrightarrow> owns_value t a (ve_id (row_entity r))"
      "\<And>r q. r \<in> set (db_values a) \<Longrightarrow> P r \<Longrightarrow> isDefault (f (row_entity r)) \<Longrightarrow> \<not> isDefault (row_entity r)
         \<Longrightarrow> q \<in> set (db_values a) \<Longrightarrow> alive q \<Longrightarrow> row_parent q = row_parent r
         \<Longrightarrow> \<not> isDefault (row_entity q) \<and> (q = r \<or> \<not> P q)"
      "\<And>r n. r \<in> set (db_values a) \<Longrightarrow> P r \<Longrightarrow> n \<in> set (db_options a) \<Longrightarrow> oe_id (row_entity n) = row_parent r
         \<Longrightarrow> value_fits (presentation (row_entity n)) (row_entity r) \<Longrightarrow> value_fits (presentation (row_entity n)) (f (row_entity r))"
| items_added: "edit_step uuid t a (a\<lparr>db_items := db_items a @ map (live_row p) es\<rparr>)"
    if "owns_group t a p" "length (children_in (db_items a) p) + length es \<le> itemsPerGroup"
      "distinct (map ie_id es)" "\<And>e. e \<in> set es \<Longrightarrow> unused a (ie_id e)"
| items_altered: "edit_step uuid t a (a\<lparr>db_items := alter P f (db_items a)\<rparr>)"
    if "\<And>e. ie_id (f e) = ie_id e" "\<And>r. r \<in> set (db_items a) \<Longrightarrow> P r \<Longrightarrow> owns_item t a (ie_id (row_entity r))"
| rule_added: "edit_step uuid t a (a\<lparr>db_rules := db_rules a @ [live_row s r]\<rparr>)"
    if "owns_set t a s" "length (children_in (db_rules a) s) < rulesPerSet" "unused a (rule_key r)" "rule_fits uuid r"
      "targetExists t a (sr_targetType (re_rule r)) (sr_targetId (re_rule r))"
| rules_altered: "edit_step uuid t a (a\<lparr>db_rules := alter P f (db_rules a)\<rparr>)"
    if "\<And>r. rule_key (f r) = rule_key r" "\<And>r. re_isEnabled (f r) = re_isEnabled r"
      "\<And>r. r \<in> set (db_rules a) \<Longrightarrow> P r \<Longrightarrow> owns_rule t a (rule_key (row_entity r))"
      "\<And>r. r \<in> set (db_rules a) \<Longrightarrow> P r \<Longrightarrow> rule_fits uuid (row_entity r) \<Longrightarrow> rule_fits uuid (f (row_entity r))"
      "\<And>r. r \<in> set (db_rules a) \<Longrightarrow> P r \<Longrightarrow>
         (sr_targetType (re_rule (f (row_entity r))) = sr_targetType (re_rule (row_entity r))
           \<and> sr_targetId (re_rule (f (row_entity r))) = sr_targetId (re_rule (row_entity r)))
         \<or> targetExists t a (sr_targetType (re_rule (f (row_entity r)))) (sr_targetId (re_rule (f (row_entity r))))"
| rule_dropped: "edit_step uuid t a (a\<lparr>db_rules := retire P now (db_rules a)\<rparr>)"
    if "now \<noteq> LIVE_SENTINEL" "\<And>r. r \<in> set (db_rules a) \<Longrightarrow> P r \<Longrightarrow> owns_rule t a (rule_key (row_entity r))"
| rows_withdrawn: "edit_step uuid t a (withdraw G N V I D now a)"
    if "now \<noteq> LIVE_SENTINEL"
      "\<And>r. r \<in> set (db_groups a) \<Longrightarrow> G r \<Longrightarrow> owns_group t a (ge_id (row_entity r))"
      "\<And>r. r \<in> set (db_options a) \<Longrightarrow> N r \<Longrightarrow> owns_option t a (oe_id (row_entity r))"
      "\<And>r. r \<in> set (db_values a) \<Longrightarrow> V r \<Longrightarrow> owns_value t a (ve_id (row_entity r))"
      "\<And>r. r \<in> set (db_items a) \<Longrightarrow> I r \<Longrightarrow> owns_item t a (ie_id (row_entity r))"
      "\<And>g n. g \<in> set (db_groups a) \<Longrightarrow> G g \<Longrightarrow> n \<in> set (db_options a) \<Longrightarrow> alive n \<Longrightarrow> row_parent n = ge_id (row_entity g) \<Longrightarrow> N n"
      "\<And>n v. n \<in> set (db_options a) \<Longrightarrow> N n \<Longrightarrow> v \<in> set (db_values a) \<Longrightarrow> alive v \<Longrightarrow> row_parent v = oe_id (row_entity n) \<Longrightarrow> V v"
      "\<And>q g. q \<in> set (db_rules a) \<Longrightarrow> aims ''group'' q \<Longrightarrow> g \<in> set (db_groups a) \<Longrightarrow> G g \<Longrightarrow> ge_id (row_entity g) = aim q \<Longrightarrow> D q"
      "\<And>q n. q \<in> set (db_rules a) \<Longrightarrow> aims ''option'' q \<Longrightarrow> n \<in> set (db_options a) \<Longrightarrow> N n \<Longrightarrow> oe_id (row_entity n) = aim q \<Longrightarrow> D q"
      "\<And>q v. q \<in> set (db_rules a) \<Longrightarrow> aims ''value'' q \<Longrightarrow> v \<in> set (db_values a) \<Longrightarrow> V v \<Longrightarrow> ve_id (row_entity v) = aim q \<Longrightarrow> D q"
      "\<And>q. q \<in> set (db_rules a) \<Longrightarrow> D q \<Longrightarrow> alive q \<and> re_isEnabled (row_entity q)
         \<and> targetExists t a (sr_targetType (re_rule (row_entity q))) (aim q)"

end
