(* ===== verification/Authoring_Invariants.thy ===== *)
theory Authoring_Invariants
  imports Authoring_Steps
begin

text \<open>Every edit keeps what a draft keeps.\<close>

section \<open>Rows and scope\<close>

lemma owns_row_iff: "owns_row key owned rows i \<longleftrightarrow> (\<exists>r\<in>set rows. key (row_entity r) = i \<and> alive r \<and> owned (row_parent r))"
  by (auto simp: owns_row_def scoped_def list_ex_iff)

lemma owns_set_fields [simp]:
  "owns_set t (db_groups_update g a) = owns_set t a" "owns_set t (db_options_update h a) = owns_set t a"
  "owns_set t (db_values_update k a) = owns_set t a" "owns_set t (db_items_update l a) = owns_set t a"
  "owns_set t (db_rules_update m a) = owns_set t a"
  by (auto simp: owns_set_def)

lemma owns_group_fields [simp]:
  "owns_group t (db_options_update h a) = owns_group t a" "owns_group t (db_values_update k a) = owns_group t a"
  "owns_group t (db_items_update l a) = owns_group t a" "owns_group t (db_rules_update m a) = owns_group t a"
  by (simp_all add: owns_group_def)

lemma owns_option_fields [simp]:
  "owns_option t (db_values_update k a) = owns_option t a" "owns_option t (db_items_update l a) = owns_option t a"
  "owns_option t (db_rules_update m a) = owns_option t a"
  by (simp_all add: owns_option_def)

lemma owns_value_fields [simp]:
  "owns_value t (db_items_update l a) = owns_value t a" "owns_value t (db_rules_update m a) = owns_value t a"
  by (simp_all add: owns_value_def)

lemma find_scoped_iff: "find_scoped key owned rows i \<noteq> None \<longleftrightarrow> owns_row key owned rows i"
  by (auto simp: find_scoped_def find_row_def owns_row_def list_ex_iff find_None_all)

lemma found_owned: "findGroup t a i \<noteq> None \<longleftrightarrow> owns_group t a i" "findOption t a i \<noteq> None \<longleftrightarrow> owns_option t a i"
  "findValue t a i \<noteq> None \<longleftrightarrow> owns_value t a i"
  unfolding findGroup_def findOption_def findValue_def owns_group_def owns_option_def owns_value_def find_scoped_iff by (rule refl)+

lemma targetExists_iff: "targetExists t a kind i \<longleftrightarrow> kind = ''group'' \<and> owns_group t a i
    \<or> kind = ''option'' \<and> owns_option t a i \<or> kind = ''value'' \<and> owns_value t a i"
  unfolding targetExists_def found_owned by auto

lemma in_alter: "r \<in> set (alter P f rows) \<longleftrightarrow> (\<exists>q\<in>set rows. r = (if P q then q\<lparr>row_entity := f (row_entity q)\<rparr> else q))"
  by (auto simp: alter_def update_rows_def)

lemma in_retire: "r \<in> set (retire P now rows) \<longleftrightarrow> (\<exists>q\<in>set rows. r = (if P q then q\<lparr>row_deletedAt := now\<rparr> else q))"
  by (auto simp: retire_def update_rows_def)

lemma alter_ids [simp]: "(\<And>e. key (f e) = key e) \<Longrightarrow> row_ids key (alter P f rows) = row_ids key rows"
  by (induction rows) (auto simp: alter_def update_rows_def)

lemma retire_ids [simp]: "row_ids key (retire P now rows) = row_ids key rows"
  by (induction rows) (auto simp: retire_def update_rows_def)

lemma alter_parents [simp]: "map row_parent (alter P f rows) = map row_parent rows"
  by (induction rows) (auto simp: alter_def update_rows_def)

lemma retire_parents [simp]: "map row_parent (retire P now rows) = map row_parent rows"
  by (induction rows) (auto simp: retire_def update_rows_def)

lemma owns_row_alter: "(\<And>e. key (f e) = key e) \<Longrightarrow> owns_row key owned (alter P f rows) i = owns_row key owned rows i"
  by (induction rows) (auto simp: owns_row_def scoped_def alter_def update_rows_def)

lemma owns_row_append: "owns_row key owned (rows @ qs) i \<longleftrightarrow> owns_row key owned rows i \<or> owns_row key owned qs i"
  by (auto simp: owns_row_iff)

lemma owns_row_mono: "owns_row key owned rows i \<Longrightarrow> (\<And>p. owned p \<Longrightarrow> owned' p) \<Longrightarrow> set rows \<subseteq> set rows' \<Longrightarrow> owns_row key owned' rows' i"
  by (auto simp: owns_row_iff)

lemma alive_alter: "filter alive (alter P f rows) = alter P f (filter alive rows)"
  by (induction rows) (auto simp: alter_def update_rows_def)

lemma children_alter: "children_in (alter P f rows) p = alter P f (children_in rows p)"
  by (induction rows) (auto simp: alter_def update_rows_def)

lemma length_alter [simp]: "length (alter P f rows) = length rows"
  by (simp add: alter_def update_rows_def)

lemma alive_retire: "now \<noteq> LIVE_SENTINEL \<Longrightarrow> filter alive (retire P now rows) = filter (\<lambda>r. alive r \<and> \<not> P r) rows"
  by (induction rows) (auto simp: retire_def update_rows_def)

lemma children_retire: "now \<noteq> LIVE_SENTINEL \<Longrightarrow> children_in (retire P now rows) p = filter (\<lambda>r. \<not> P r) (children_in rows p)"
  by (induction rows) (auto simp: retire_def update_rows_def)

lemma live_row_fields [simp]:
  "row_parent (live_row p e) = p" "row_deletedAt (live_row p e) = LIVE_SENTINEL" "row_entity (live_row p e) = e"
  by (simp_all add: live_row_def)

section \<open>Ids\<close>

lemma unique_ids_grown:
  assumes "unique_ids a" and "db_sets b = db_sets a" and "mset (all_ids b) = mset (all_ids a) + mset ks"
    and "distinct ks" and "\<And>k. k \<in> set ks \<Longrightarrow> unused a k"
  shows "unique_ids b"
proof -
  have "mset (all_ids b) = mset (all_ids a @ ks)" using assms(3) by simp
  from mset_eq_imp_distinct_iff [OF this] have "distinct (all_ids b)"
    by (rule iffD2) (use assms in \<open>auto simp: unique_ids_def unused_def\<close>)
  then show ?thesis using assms by (simp add: unique_ids_def)
qed

lemma unique_ids_same: "unique_ids a \<Longrightarrow> map st_id (db_sets b) = map st_id (db_sets a) \<Longrightarrow> all_ids b = all_ids a \<Longrightarrow> unique_ids b"
  by (simp add: unique_ids_def)

lemma all_ids_rule_key: "all_ids adb = row_ids ge_id (db_groups adb) @ row_ids oe_id (db_options adb) @ row_ids ve_id (db_values adb)
     @ row_ids ie_id (db_items adb) @ row_ids rule_key (db_rules adb)"
  by (simp add: all_ids_def rule_key_def)

lemma map_touched: "(\<And>s. st_id (f s) = st_id s) \<Longrightarrow> map st_id (update_rows P f sets) = map st_id sets"
  by (induction sets) (auto simp: update_rows_def)

lemma disable_rule_fields [simp]: "rule_key (disable_rule r) = rule_key r" "re_rule (disable_rule r) = re_rule r"
  "re_isEnabled (disable_rule r) = False"
  by (simp_all add: disable_rule_def rule_key_def)

lemma withdraw_fields [simp]: "db_sets (withdraw G N V I D now a) = db_sets a" "db_groups (withdraw G N V I D now a) = retire G now (db_groups a)"
  "db_options (withdraw G N V I D now a) = retire N now (db_options a)" "db_values (withdraw G N V I D now a) = retire V now (db_values a)"
  "db_items (withdraw G N V I D now a) = retire I now (db_items a)" "db_rules (withdraw G N V I D now a) = alter D disable_rule (db_rules a)"
  by (simp_all add: withdraw_def)

lemma step_unique_ids:
  assumes "edit_step uuid t a b" and ids: "unique_ids a"
  shows "unique_ids b"
  using assms(1)
proof cases
  case (options_grafted p ns c \<rho>)
  show ?thesis
  proof (rule unique_ids_grown [OF ids _ _ options_grafted(7)])
    show "unused a k" if "k \<in> set (map (oe_id \<circ> c) ns @ row_ids ve_id (grafted_values \<rho> c a ns))" for k
      using that by (rule options_grafted(8))
  qed (simp_all add: options_grafted(1) all_ids_def o_def)
next
  case (items_added p es)
  show ?thesis
  proof (rule unique_ids_grown [OF ids])
    show "distinct (map ie_id es)" by (rule items_added(4))
    show "unused a k" if "k \<in> set (map ie_id es)" for k using that items_added(5) by auto
  qed (simp_all add: items_added(1) all_ids_def o_def)
next
  case (touched i)
  then show ?thesis by (intro unique_ids_same [OF ids]) (simp_all add: map_touched all_ids_rule_key)
next
  case (group_added s g)
  then show ?thesis by (intro unique_ids_grown [OF ids, where ks = "[ge_id g]"]) (simp_all add: all_ids_rule_key)
next
  case (option_added p n)
  then show ?thesis by (intro unique_ids_grown [OF ids, where ks = "[oe_id n]"]) (simp_all add: all_ids_rule_key)
next
  case (value_added p v)
  then show ?thesis by (intro unique_ids_grown [OF ids, where ks = "[ve_id v]"]) (simp_all add: all_ids_rule_key)
next
  case (rule_added s r)
  then show ?thesis by (intro unique_ids_grown [OF ids, where ks = "[rule_key r]"]) (simp_all add: all_ids_rule_key)
next
  case (groups_altered f P)
  show ?thesis unfolding groups_altered(1) using groups_altered(2) by (intro unique_ids_same [OF ids]) (simp_all add: all_ids_rule_key)
next
  case (options_altered f P)
  show ?thesis unfolding options_altered(1) using options_altered(2) by (intro unique_ids_same [OF ids]) (simp_all add: all_ids_rule_key)
next
  case (values_altered f P)
  show ?thesis unfolding values_altered(1) using values_altered(2) by (intro unique_ids_same [OF ids]) (simp_all add: all_ids_rule_key)
next
  case (items_altered f P)
  show ?thesis unfolding items_altered(1) using items_altered(2) by (intro unique_ids_same [OF ids]) (simp_all add: all_ids_rule_key)
next
  case (rules_altered f P)
  show ?thesis unfolding rules_altered(1) using rules_altered(2) by (intro unique_ids_same [OF ids]) (simp_all add: all_ids_rule_key)
next
  case (rule_dropped now P)
  show ?thesis unfolding rule_dropped(1) using rule_dropped(2) by (intro unique_ids_same [OF ids]) (simp_all add: all_ids_rule_key)
next
  case (rows_withdrawn now G N V I D)
  show ?thesis unfolding rows_withdrawn(1) using rows_withdrawn(2) by (intro unique_ids_same [OF ids]) (simp_all add: all_ids_rule_key)
qed

section \<open>Keys\<close>

lemma keys_of_Nil [simp]: "keys_of key [] = []"
  by (simp add: keys_of_def)

lemma keys_of_append [simp]: "keys_of key (xs @ ys) = keys_of key xs @ keys_of key ys"
  by (simp add: keys_of_def)

lemma keys_of_alter: "(\<And>e. key (f e) = key e) \<Longrightarrow> keys_of key (alter P f rows) = keys_of key rows"
  by (induction rows) (auto simp: keys_of_def alter_def update_rows_def)

lemma keys_of_retire: "now \<noteq> LIVE_SENTINEL \<Longrightarrow> distinct (keys_of key rows) \<Longrightarrow> distinct (keys_of key (retire P now rows))"
  unfolding keys_of_def alive_retire filter_filter [symmetric] by (rule distinct_filter_map)

lemma keys_of_live [simp]: "keys_of key (map (\<lambda>n. live_row p (c n)) ns) = map (\<lambda>n. (p, key (c n))) ns"
  by (induction ns) (simp_all add: keys_of_def)

lemma keys_of_single [simp]: "keys_of key [live_row p e] = [(p, key e)]"
  by (simp add: keys_of_def)

lemma keys_of_children: "distinct (keys_of key rows) \<Longrightarrow> distinct (map (\<lambda>r. key (row_entity r)) (children_in rows p))"
proof (induction rows)
  case (Cons r rows)
  have "(p, key (row_entity q)) \<in> set (keys_of key rows)" if "q \<in> set (children_in rows p)" for q
    using that by (auto simp: keys_of_def)
  then show ?case using Cons by (auto simp: keys_of_def split: if_splits)
qed simp

lemma find_in_order_perm: "mset (find_in_order pos [p] rows) = mset (children_in rows p)"
  by (simp add: find_in_order_def)

lemma find_in_order_keys: "distinct (keys_of key rows) \<Longrightarrow> distinct (map key (map row_entity (find_in_order pos [p] rows)))"
proof -
  assume "distinct (keys_of key rows)"
  then have d: "distinct (map (\<lambda>r. key (row_entity r)) (children_in rows p))" by (rule keys_of_children)
  have "mset (map (\<lambda>r. key (row_entity r)) (find_in_order pos [p] rows)) = mset (map (\<lambda>r. key (row_entity r)) (children_in rows p))"
    unfolding mset_map find_in_order_perm ..
  from mset_eq_imp_distinct_iff [OF this] show ?thesis using d by (simp add: o_def)
qed

lemma distinct_under:
  assumes "distinct (map h xs)" and "\<And>x. x \<in> set xs \<Longrightarrow> distinct (K x)"
  shows "distinct (flat_map (\<lambda>x. map (\<lambda>k. (h x, k)) (K x)) xs)"
  using assms by (induction xs) (auto simp: distinct_map inj_on_def)

lemma parent_used: "i \<in> set (map row_parent (db_values a)) \<Longrightarrow> \<not> unused a i" "i \<in> set (map row_parent (db_options a)) \<Longrightarrow> \<not> unused a i"
  "i \<in> set (map row_parent (db_items a)) \<Longrightarrow> \<not> unused a i" "i \<in> set (map row_parent (db_rules a)) \<Longrightarrow> \<not> unused a i"
  by (auto simp: unused_def all_parents_def)

lemma graft_values_keys: "keys_of key (grafted_values \<rho> c a ns)
    = flat_map (\<lambda>n. map (\<lambda>v. (oe_id (c n), key (copy_value (\<rho> (ve_id v)) v))) (values_of a (oe_id n))) ns"
  by (induction ns) (simp_all add: grafted_values_def o_def)

lemma copied_value_fields [simp]: "valueKey (copy_value i v) = valueKey v" "isDefault (copy_value i v) = isDefault v"
  "ve_design (copy_value i v) = ve_design v" "ve_id (copy_value i v) = i"
  by (simp_all add: copy_value_def copyableValueFields_def new_value_def)

lemma step_keys_unique:
  assumes "edit_step uuid t a b" and keys: "keys_unique a"
  shows "keys_unique b"
  using assms(1)
proof cases
  case (option_added p n)
  then show ?thesis using keys by (simp add: keys_unique_def)
next
  case (value_added p v)
  then show ?thesis using keys by (simp add: keys_unique_def)
next
  case (options_grafted p ns c \<rho>)
  have ids: "distinct (map (\<lambda>n. oe_id (c n)) ns)" using options_grafted(7) by (simp add: o_def)
  have new: "unused a (oe_id (c n))" if "n \<in> set ns" for n using that by (intro options_grafted(8)) auto
  have "distinct (map (\<lambda>n. (p, oe_key (c n))) ns)" using options_grafted(9) by (auto simp: distinct_map inj_on_def)
  then have opts: "distinct (keys_of oe_key (db_options b))"
    using keys options_grafted(10) by (auto simp: options_grafted(1) keys_unique_def)
  have "distinct (flat_map (\<lambda>n. map (\<lambda>k. (oe_id (c n), k)) (map valueKey (values_of a (oe_id n)))) ns)"
    using ids keys find_in_order_keys unfolding values_of_def by (intro distinct_under) (auto simp: keys_unique_def)
  then have "distinct (keys_of valueKey (grafted_values \<rho> c a ns))" by (simp add: graft_values_keys o_def)
  moreover have "fst k \<noteq> fst l" if "k \<in> set (keys_of valueKey (db_values a))"
      "l \<in> set (keys_of valueKey (grafted_values \<rho> c a ns))" for k l
  proof -
    have "\<not> unused a (fst k)" using that(1) by (intro parent_used(1)) (auto simp: keys_of_def)
    moreover have "unused a (fst l)" using that(2) new by (auto simp: graft_values_keys)
    ultimately show ?thesis by auto
  qed
  then have "set (keys_of valueKey (db_values a)) \<inter> set (keys_of valueKey (grafted_values \<rho> c a ns)) = {}" by blast
  ultimately have "distinct (keys_of valueKey (db_values b))" using keys by (simp add: options_grafted(1) keys_unique_def)
  then show ?thesis using opts by (simp add: keys_unique_def)
next
  case (options_altered f P)
  show ?thesis using keys keys_of_alter [where f = f and key = oe_key, OF options_altered(3)]
    by (simp add: options_altered(1) keys_unique_def)
next
  case (values_altered f P)
  show ?thesis using keys keys_of_alter [where f = f and key = valueKey, OF values_altered(3)]
    by (simp add: values_altered(1) keys_unique_def)
next
  case (rows_withdrawn now G N V I D)
  show ?thesis using keys by (simp add: rows_withdrawn(1) keys_unique_def keys_of_retire [OF rows_withdrawn(2)])
qed (use keys in \<open>simp_all add: keys_unique_def\<close>)

section \<open>Defaults\<close>

lemma unique_rows:
  assumes "unique_ids a"
  shows "inj_on (\<lambda>r. ge_id (row_entity r)) (set (db_groups a))" "inj_on (\<lambda>r. oe_id (row_entity r)) (set (db_options a))"
    "inj_on (\<lambda>r. ve_id (row_entity r)) (set (db_values a))" "inj_on (\<lambda>r. ie_id (row_entity r)) (set (db_items a))"
    "inj_on (\<lambda>r. rule_key (row_entity r)) (set (db_rules a))" "inj_on st_id (set (db_sets a))" "distinct (db_values a)"
  using assms by (simp_all add: unique_ids_def all_ids_rule_key distinct_map)

abbreviation defaults :: "value_entity child_row list \<Rightarrow> value_entity child_row list" where
  "defaults rows \<equiv> filter (\<lambda>r. alive r \<and> isDefault (row_entity r)) rows"

lemma one_default_children:
  assumes "distinct (map row_parent (defaults rows))"
  shows "length (filter isDefault (map row_entity (find_in_order pos [p] rows))) \<le> 1"
proof -
  let ?xs = "map row_parent (filter (\<lambda>r. isDefault (row_entity r)) (children_in rows p))"
  have "filter (\<lambda>r. row_parent r = p) (defaults rows) = filter (\<lambda>r. isDefault (row_entity r)) (children_in rows p)"
    by (induction rows) auto
  from this [symmetric] have "distinct ?xs" using distinct_filter_map [OF assms] by simp
  then have "length ?xs = card (set ?xs)" by (rule distinct_card [symmetric])
  also have "\<dots> \<le> card {p}" by (rule card_mono) auto
  finally have "length (filter (\<lambda>r. isDefault (row_entity r)) (children_in rows p)) \<le> 1" by simp
  moreover have "mset (filter (\<lambda>r. isDefault (row_entity r)) (find_in_order pos [p] rows))
      = mset (filter (\<lambda>r. isDefault (row_entity r)) (children_in rows p))"
    unfolding mset_filter find_in_order_perm ..
  then have "length (filter (\<lambda>r. isDefault (row_entity r)) (find_in_order pos [p] rows))
      = length (filter (\<lambda>r. isDefault (row_entity r)) (children_in rows p))" by (rule mset_eq_length)
  ultimately show ?thesis by (simp add: filter_map o_def)
qed

lemma distinct_singletons:
  assumes "distinct (map h xs)" and "\<And>x. x \<in> set xs \<Longrightarrow> length (K x) \<le> (1 :: nat)"
  shows "distinct (flat_map (\<lambda>x. map (\<lambda>_. h x) (K x)) xs)"
  using assms
proof (induction xs)
  case (Cons x xs)
  then have "length (K x) \<le> 1" by simp
  then have "K x = [] \<or> (\<exists>k. K x = [k])" by (cases "K x") auto
  then show ?case using Cons by auto
qed simp

lemma grafted_defaults: "map row_parent (defaults (grafted_values \<rho> c a ns))
    = flat_map (\<lambda>n. map (\<lambda>_. oe_id (c n)) (filter isDefault (values_of a (oe_id n)))) ns"
  by (induction ns) (simp_all add: grafted_values_def filter_map o_def)

lemma defaults_altered:
  assumes d: "distinct (map row_parent (defaults rows))" and rows: "inj_on (\<lambda>r. ve_id (row_entity r)) (set rows)" "distinct rows"
    and f: "\<And>v. ve_id (f v) = ve_id v"
    and sole: "\<And>r q. r \<in> set rows \<Longrightarrow> P r \<Longrightarrow> isDefault (f (row_entity r)) \<Longrightarrow> \<not> isDefault (row_entity r)
         \<Longrightarrow> q \<in> set rows \<Longrightarrow> alive q \<Longrightarrow> row_parent q = row_parent r \<Longrightarrow> \<not> isDefault (row_entity q) \<and> (q = r \<or> \<not> P q)"
  shows "distinct (map row_parent (defaults (alter P f rows)))"
proof -
  let ?g = "\<lambda>q. if P q then q\<lparr>row_entity := f (row_entity q)\<rparr> else q"
  have old: "inj_on row_parent (set (defaults rows))" using d by (simp add: distinct_map)
  have only: "q = r" if "r \<in> set rows" "q \<in> set rows" "alive r" "alive q" "row_parent q = row_parent r"
      "isDefault (row_entity (?g r))" "isDefault (row_entity (?g q))" "\<not> isDefault (row_entity r)" for r q
  proof (rule ccontr)
    assume "q \<noteq> r"
    have "P r" and "isDefault (f (row_entity r))" using that(6,8) by (auto split: if_splits)
    from sole [OF that(1) this that(8,2,4,5)] have "\<not> isDefault (row_entity q)" "\<not> P q" using \<open>q \<noteq> r\<close> by auto
    then show False using that(7) by simp
  qed
  have only_one: "q = r" if "r \<in> set rows" "q \<in> set rows" "alive r" "alive q" "row_parent q = row_parent r"
      "isDefault (row_entity (?g r))" "isDefault (row_entity (?g q))" for r q
  proof (cases "isDefault (row_entity r) \<and> isDefault (row_entity q)")
    case True
    then show ?thesis using old that by (auto dest: inj_onD)
  next
    case False
    then show ?thesis using only [OF that] only [OF that(2,1,4,3) that(5) [symmetric] that(7,6)] by blast
  qed
  have "inj_on row_parent (set (defaults (alter P f rows)))"
  proof (intro inj_onI)
    fix x y assume xy: "x \<in> set (defaults (alter P f rows))" "y \<in> set (defaults (alter P f rows))" "row_parent x = row_parent y"
    then obtain q r where "q \<in> set rows" "x = ?g q" "r \<in> set rows" "y = ?g r" by (auto simp only: in_alter set_filter mem_Collect_eq)
    moreover have "alive (?g z) = alive z" "row_parent (?g z) = row_parent z" for z by auto
    ultimately have "q = r" using only_one [of r q] xy by (simp only: set_filter mem_Collect_eq)
    then show "x = y" using \<open>x = ?g q\<close> \<open>y = ?g r\<close> by simp
  qed
  moreover have "distinct (map (\<lambda>r. ve_id (row_entity r)) (alter P f rows))"
    using rows f by (simp add: distinct_map)
  then have "distinct (defaults (alter P f rows))" by (simp add: distinct_map)
  ultimately show ?thesis by (simp add: distinct_map)
qed

lemma defaults_retired: "now \<noteq> LIVE_SENTINEL \<Longrightarrow> defaults (retire P now rows) = filter (\<lambda>r. \<not> P r) (defaults rows)"
  by (induction rows) (auto simp: retire_def update_rows_def)

lemma step_one_default:
  assumes "edit_step uuid t a b" and ids: "unique_ids a" and one: "one_default a"
  shows "one_default b"
  using assms(1)
proof cases
  case (value_added p v)
  then show ?thesis using one by (auto simp: one_default_def)
next
  case (options_grafted p ns c \<rho>)
  have new: "distinct (map (\<lambda>n. oe_id (c n)) ns)" "\<And>n. n \<in> set ns \<Longrightarrow> unused a (oe_id (c n))"
    using options_grafted(7,8) by (simp_all add: o_def)
  have "distinct (map row_parent (defaults (grafted_values \<rho> c a ns)))" unfolding grafted_defaults
    using new(1) one one_default_children unfolding values_of_def one_default_def by (intro distinct_singletons)
  moreover have "\<not> unused a i" if "i \<in> set (map row_parent (defaults (db_values a)))" for i
    using that by (intro parent_used(1)) auto
  moreover have "unused a i" if "i \<in> set (map row_parent (defaults (grafted_values \<rho> c a ns)))" for i
    using that new(2) unfolding grafted_defaults by auto
  ultimately have "distinct (map row_parent (defaults (db_values a)) @ map row_parent (defaults (grafted_values \<rho> c a ns)))"
    using one unfolding one_default_def distinct_append by blast
  then show ?thesis by (simp add: options_grafted(1) one_default_def)
next
  case (values_altered f P)
  have "distinct (map row_parent (defaults (alter P f (db_values a))))"
    by (rule defaults_altered [OF one [unfolded one_default_def] unique_rows(3,7) [OF ids] values_altered(2,5)])
  then show ?thesis by (simp add: values_altered(1) one_default_def)
next
  case (rows_withdrawn now G N V I D)
  have "defaults (retire V now (db_values a)) = filter (\<lambda>r. \<not> V r) (defaults (db_values a))"
    using rows_withdrawn(2) by (rule defaults_retired)
  then show ?thesis unfolding one_default_def rows_withdrawn(1) withdraw_fields
    using distinct_filter_map [OF one [unfolded one_default_def], of "\<lambda>r. \<not> V r"] by (simp only:)
qed (use one in \<open>simp_all add: one_default_def\<close>)

section \<open>Types\<close>

lemma id_used: "r \<in> set (db_groups a) \<Longrightarrow> \<not> unused a (ge_id (row_entity r))" "n \<in> set (db_options a) \<Longrightarrow> \<not> unused a (oe_id (row_entity n))"
  "v \<in> set (db_values a) \<Longrightarrow> \<not> unused a (ve_id (row_entity v))" "v \<in> set (db_values a) \<Longrightarrow> \<not> unused a (row_parent v)"
  "n \<in> set (db_options a) \<Longrightarrow> \<not> unused a (row_parent n)" "e \<in> set (db_items a) \<Longrightarrow> \<not> unused a (row_parent e)"
  by (simp_all add: unused_def all_ids_def all_parents_def)

lemma in_grafted_values: "v \<in> set (grafted_values \<rho> c a ns) \<longleftrightarrow> (\<exists>n\<in>set ns. \<exists>w\<in>set (db_values a). alive w \<and> row_parent w = oe_id n
     \<and> v = live_row (oe_id (c n)) (copy_value (\<rho> (ve_id (row_entity w))) (row_entity w)))"
  unfolding grafted_values_def values_of_def set_flat_map set_map image_image UN_iff image_iff Bex_def find_in_order_set by auto

lemma types_text: "types_respected a \<Longrightarrow> n \<in> set (db_options a) \<Longrightarrow> alive n \<Longrightarrow> text_fits (row_entity n)"
  by (simp add: types_respected_def)

lemma types_value: "types_respected a \<Longrightarrow> v \<in> set (db_values a) \<Longrightarrow> alive v \<Longrightarrow> n \<in> set (db_options a)
    \<Longrightarrow> oe_id (row_entity n) = row_parent v \<Longrightarrow> value_fits (presentation (row_entity n)) (row_entity v)"
  by (simp add: types_respected_def)

lemma types_respectedI:
  assumes "\<And>n. n \<in> set (db_options a) \<Longrightarrow> alive n \<Longrightarrow> text_fits (row_entity n)"
    and "\<And>v n. v \<in> set (db_values a) \<Longrightarrow> alive v \<Longrightarrow> n \<in> set (db_options a) \<Longrightarrow> oe_id (row_entity n) = row_parent v
      \<Longrightarrow> value_fits (presentation (row_entity n)) (row_entity v)"
  shows "types_respected a"
  using assms unfolding types_respected_def by blast

lemma value_fits_copy [simp]: "value_fits p (copy_value i v) = value_fits p v"
  by (simp add: value_fits_def)

lemma grafted_types:
  assumes types: "types_respected a" and rows: "\<And>n. n \<in> set ns \<Longrightarrow> \<exists>r\<in>set (db_options a). alive r \<and> row_entity r = n"
    and c: "\<And>n. presentation (c n) = presentation n" and ids: "distinct (map (\<lambda>n. oe_id (c n)) ns)"
    and new: "\<And>n. n \<in> set ns \<Longrightarrow> unused a (oe_id (c n))"
    and v: "v \<in> set (db_values a @ grafted_values \<rho> c a ns)" "alive v"
    and n: "n \<in> set (db_options a @ map (\<lambda>n. live_row p (c n)) ns)" "oe_id (row_entity n) = row_parent v"
  shows "value_fits (presentation (row_entity n)) (row_entity v)"
proof (cases "v \<in> set (db_values a)")
  case True
  then have "\<not> unused a (oe_id (row_entity n))" unfolding n(2) by (rule id_used)
  then have "n \<in> set (db_options a)" using n(1) new by auto
  then show ?thesis using types True v(2) n(2) by (intro types_value)
next
  case False
  then obtain m w where m: "m \<in> set ns" "w \<in> set (db_values a)" "alive w" "row_parent w = oe_id m"
      and vw: "v = live_row (oe_id (c m)) (copy_value (\<rho> (ve_id (row_entity w))) (row_entity w))"
    using v(1) by (auto simp: in_grafted_values)
  have nm: "oe_id (row_entity n) = oe_id (c m)" using n(2) by (simp add: vw)
  then have "n \<notin> set (db_options a)" using id_used(2) [of n a] new [OF m(1)] by metis
  with nm obtain k where k: "k \<in> set ns" "row_entity n = c k" "oe_id (c k) = oe_id (c m)" using n(1) by auto
  then have "k = m" using ids m(1) by (auto simp: distinct_map dest: inj_onD)
  moreover obtain r where "r \<in> set (db_options a)" "alive r" "row_entity r = m" using rows [OF m(1)] by blast
  then have "value_fits (presentation m) (row_entity w)" using types_value [OF types m(2,3)] m(4) by auto
  ultimately show ?thesis using k(2) by (simp add: vw c)
qed

lemma step_types_respected:
  assumes "edit_step uuid t a b" and types: "types_respected a"
  shows "types_respected b"
  using assms(1)
proof cases
  case (option_added p n)
  show ?thesis
  proof (rule types_respectedI)
    fix v m assume "v \<in> set (db_values b)" "alive v" "m \<in> set (db_options b)" "oe_id (row_entity m) = row_parent v"
    moreover from this have "\<not> unused a (oe_id (row_entity m))" by (auto simp: option_added(1) dest: id_used(4))
    then have "m \<noteq> live_row p n" using option_added(4) by auto
    ultimately show "value_fits (presentation (row_entity m)) (row_entity v)"
      using types by (auto simp: option_added(1) intro: types_value)
  qed (use types option_added(6) in \<open>auto simp: option_added(1) intro: types_text\<close>)
next
  case (options_altered f P)
  show ?thesis
  proof (rule types_respectedI)
    show "text_fits (row_entity n)" if "n \<in> set (db_options b)" "alive n" for n
      using that types_text [OF types] options_altered(6) by (auto simp: options_altered(1) in_alter split: if_splits)
    show "value_fits (presentation (row_entity n)) (row_entity v)"
      if "v \<in> set (db_values b)" "alive v" "n \<in> set (db_options b)" "oe_id (row_entity n) = row_parent v" for v n
      using that types_value [OF types] by (auto simp: options_altered(1,2,4) in_alter split: if_splits)
  qed
next
  case (options_grafted p ns c \<rho>)
  have ids: "distinct (map (\<lambda>n. oe_id (c n)) ns)" "\<And>n. n \<in> set ns \<Longrightarrow> unused a (oe_id (c n))"
    using options_grafted(7,8) by (simp_all add: o_def)
  show ?thesis
  proof (rule types_respectedI)
    show "text_fits (row_entity n)" if n: "n \<in> set (db_options b)" "alive n" for n
    proof (cases "n \<in> set (db_options a)")
      case True
      then show ?thesis using types n(2) by (intro types_text)
    next
      case False
      then obtain m where "m \<in> set ns" "row_entity n = c m" using n(1) by (auto simp: options_grafted(1))
      moreover from options_grafted(4) [OF this(1)] have "text_fits m" using types_text [OF types] by blast
      ultimately show ?thesis using options_grafted(6) by simp
    qed
    show "value_fits (presentation (row_entity n)) (row_entity v)"
      if "v \<in> set (db_values b)" "alive v" "n \<in> set (db_options b)" "oe_id (row_entity n) = row_parent v" for v n
      by (rule grafted_types [OF types options_grafted(4,5) ids]) (use that in \<open>auto simp: options_grafted(1)\<close>)
  qed
next
  case (value_added p v)
  show ?thesis
  proof (rule types_respectedI)
    show "value_fits (presentation (row_entity n)) (row_entity w)"
      if "w \<in> set (db_values b)" "alive w" "n \<in> set (db_options b)" "oe_id (row_entity n) = row_parent w" for w n
      using that value_added(7) types_value [OF types] by (auto simp: value_added(1))
  qed (use types in \<open>auto simp: value_added(1) intro: types_text\<close>)
next
  case (values_altered f P)
  show ?thesis
  proof (rule types_respectedI)
    show "value_fits (presentation (row_entity n)) (row_entity w)"
      if "w \<in> set (db_values b)" "alive w" "n \<in> set (db_options b)" "oe_id (row_entity n) = row_parent w" for w n
      using that values_altered(6) types_value [OF types] by (auto simp: values_altered(1) in_alter split: if_splits)
  qed (use types in \<open>auto simp: values_altered(1) intro: types_text\<close>)
next
  case (rows_withdrawn now G N V I D)
  show ?thesis
  proof (rule types_respectedI)
    show "text_fits (row_entity n)" if "n \<in> set (db_options b)" "alive n" for n
      using that rows_withdrawn(2) types_text [OF types] by (auto simp: rows_withdrawn(1) in_retire split: if_splits)
    show "value_fits (presentation (row_entity n)) (row_entity w)"
      if "w \<in> set (db_values b)" "alive w" "n \<in> set (db_options b)" "oe_id (row_entity n) = row_parent w" for w n
      using that rows_withdrawn(2) types_value [OF types] by (auto simp: rows_withdrawn(1) in_retire split: if_splits)
  qed
qed (use types in \<open>simp_all add: types_respected_def\<close>)

section \<open>Rules\<close>

lemma step_rules_wellformed:
  assumes "edit_step uuid t a b" and rules: "rules_wellformed uuid a"
  shows "rules_wellformed uuid b"
  using assms(1)
proof cases
  case (rules_altered f P)
  show ?thesis using rules rules_altered(5) by (auto simp: rules_altered(1) rules_wellformed_def in_alter)
next
  case (rule_dropped now P)
  show ?thesis using rules rule_dropped(2) by (auto simp: rule_dropped(1) rules_wellformed_def in_retire split: if_splits)
next
  case (rows_withdrawn now G N V I D)
  show ?thesis using rules by (auto simp: rows_withdrawn(1) rules_wellformed_def in_alter rule_fits_def split: if_splits)
qed (use rules in \<open>auto simp: rules_wellformed_def\<close>)

section \<open>Limits\<close>

lemma within_limitsI:
  assumes "\<And>p. length (children_in (db_groups a) p) \<le> groupsPerSet" "\<And>p. length (children_in (db_options a) p) \<le> optionsPerGroup"
    "\<And>p. length (children_in (db_values a) p) \<le> valuesPerOption" "\<And>p. length (children_in (db_items a) p) \<le> itemsPerGroup"
    "\<And>p. length (children_in (db_rules a) p) \<le> rulesPerSet"
  shows "within_limits a"
  using assms by (simp add: within_limits_def)

lemma within_limitsD:
  assumes "within_limits a"
  shows "length (children_in (db_groups a) p) \<le> groupsPerSet" "length (children_in (db_options a) p) \<le> optionsPerGroup"
    "length (children_in (db_values a) p) \<le> valuesPerOption" "length (children_in (db_items a) p) \<le> itemsPerGroup"
    "length (children_in (db_rules a) p) \<le> rulesPerSet"
  using assms by (simp_all add: within_limits_def)

lemma children_appended: "length (children_in rows q) + length xs \<le> m \<Longrightarrow> (\<And>p. length (children_in rows p) \<le> m)
    \<Longrightarrow> (\<And>x. x \<in> set xs \<Longrightarrow> row_parent x = q) \<Longrightarrow> length (children_in (rows @ xs) p) \<le> m"
proof (cases "p = q")
  case True
  assume "length (children_in rows q) + length xs \<le> m"
  moreover have "length (children_in xs q) \<le> length xs" by (rule length_filter_le)
  ultimately show ?thesis unfolding True filter_append length_append by linarith
next
  case False
  assume le: "\<And>p. length (children_in rows p) \<le> m" and parents: "\<And>x. x \<in> set xs \<Longrightarrow> row_parent x = q"
  have "children_in xs p = []" using parents False by (auto simp: filter_empty_conv)
  then show ?thesis using le by simp
qed

lemma child_appended: "length (children_in rows q) < m \<Longrightarrow> (\<And>p. length (children_in rows p) \<le> m)
    \<Longrightarrow> length (children_in (rows @ [live_row q e]) p) \<le> m"
  by (rule children_appended [where q = q]) simp_all

lemma children_retired: "now \<noteq> LIVE_SENTINEL \<Longrightarrow> length (children_in rows p) \<le> m \<Longrightarrow> length (children_in (retire P now rows) p) \<le> m"
  unfolding children_retire by (rule order_trans [OF length_filter_le])

lemma children_bound: "length (children_in rows p) \<le> length (filter (\<lambda>r. row_parent r = p) rows)"
  by (induction rows) auto

lemma values_of_children: "length (values_of a p) = length (children_in (db_values a) p)"
  using mset_eq_length [OF find_in_order_perm] by (simp add: values_of_def)

lemma grafted_children:
  assumes limits: "\<And>p. length (children_in (db_values a) p) \<le> m" and ids: "distinct (map (\<lambda>n. oe_id (c n)) ns)"
    and new: "\<And>n. n \<in> set ns \<Longrightarrow> unused a (oe_id (c n))"
  shows "length (children_in (db_values a @ grafted_values \<rho> c a ns) p) \<le> m"
proof (cases "\<exists>n\<in>set ns. p = oe_id (c n)")
  case True
  then obtain n where n: "n \<in> set ns" "p = oe_id (c n)" by blast
  have "\<not> row_parent v = p" if "v \<in> set (db_values a)" for v using that id_used(4) new [OF n(1)] n(2) by metis
  then have "children_in (db_values a) p = []" by (simp add: filter_empty_conv)
  moreover have "filter (\<lambda>r. row_parent r = p) (grafted_values \<rho> c a ns)
      = map (\<lambda>v. live_row p (copy_value (\<rho> (ve_id v)) v)) (values_of a (oe_id n))"
    unfolding grafted_values_def n(2) by (rule filter_flat_map_parent [OF ids n(1)])
  then have "length (filter (\<lambda>r. row_parent r = p) (grafted_values \<rho> c a ns)) = length (values_of a (oe_id n))" by simp
  moreover have "length (children_in (grafted_values \<rho> c a ns) p) \<le> length (filter (\<lambda>r. row_parent r = p) (grafted_values \<rho> c a ns))"
    by (rule children_bound)
  ultimately show ?thesis using limits [of "oe_id n"] by (simp add: values_of_children)
next
  case False
  then have "row_parent v \<noteq> p" if "v \<in> set (grafted_values \<rho> c a ns)" for v
    using that unfolding in_grafted_values by (elim bexE conjE) (simp, blast)
  then have "children_in (grafted_values \<rho> c a ns) p = []" by (auto simp: filter_empty_conv)
  then show ?thesis using limits by simp
qed

lemma step_within_limits:
  assumes "edit_step uuid t a b" and limits: "within_limits a"
  shows "within_limits b"
  using assms(1)
proof cases
  case (group_added s g)
  show ?thesis using within_limitsD [OF limits] child_appended [OF group_added(3)]
    by (intro within_limitsI) (simp_all add: group_added(1) del: filter_append)
next
  case (option_added p n)
  show ?thesis using within_limitsD [OF limits] child_appended [OF option_added(3)]
    by (intro within_limitsI) (simp_all add: option_added(1) del: filter_append)
next
  case (options_grafted p ns c \<rho>)
  have ids: "distinct (map (\<lambda>n. oe_id (c n)) ns)" "\<And>n. n \<in> set ns \<Longrightarrow> unused a (oe_id (c n))"
    using options_grafted(7,8) by (simp_all add: o_def)
  have "length (children_in (db_options a @ map (\<lambda>n. live_row p (c n)) ns) q) \<le> optionsPerGroup" for q
    using within_limitsD(2) [OF limits] options_grafted(3) by (intro children_appended [where q = p]) auto
  moreover have "length (children_in (db_values a @ grafted_values \<rho> c a ns) q) \<le> valuesPerOption" for q
    using within_limitsD(3) [OF limits] ids by (rule grafted_children)
  ultimately show ?thesis using within_limitsD [OF limits]
    by (intro within_limitsI) (simp_all add: options_grafted(1) del: filter_append)
next
  case (value_added p v)
  show ?thesis using within_limitsD [OF limits] child_appended [OF value_added(3)]
    by (intro within_limitsI) (simp_all add: value_added(1) del: filter_append)
next
  case (items_added p es)
  have "length (children_in (db_items a @ map (live_row p) es) q) \<le> itemsPerGroup" for q
    using within_limitsD(4) [OF limits] items_added(3) by (intro children_appended [where q = p]) auto
  then show ?thesis using within_limitsD [OF limits]
    by (intro within_limitsI) (simp_all add: items_added(1) del: filter_append)
next
  case (rule_added s r)
  show ?thesis using within_limitsD [OF limits] child_appended [OF rule_added(3)]
    by (intro within_limitsI) (simp_all add: rule_added(1) del: filter_append)
next
  case (groups_altered f P)
  show ?thesis using within_limitsD [OF limits] by (intro within_limitsI) (simp_all add: groups_altered(1) children_alter)
next
  case (options_altered f P)
  show ?thesis using within_limitsD [OF limits] by (intro within_limitsI) (simp_all add: options_altered(1) children_alter)
next
  case (values_altered f P)
  show ?thesis using within_limitsD [OF limits] by (intro within_limitsI) (simp_all add: values_altered(1) children_alter)
next
  case (items_altered f P)
  show ?thesis using within_limitsD [OF limits] by (intro within_limitsI) (simp_all add: items_altered(1) children_alter)
next
  case (rules_altered f P)
  show ?thesis using within_limitsD [OF limits] by (intro within_limitsI) (simp_all add: rules_altered(1) children_alter)
next
  case (rule_dropped now P)
  show ?thesis using within_limitsD [OF limits]
    by (intro within_limitsI) (simp_all add: rule_dropped(1) children_retired [OF rule_dropped(2)])
next
  case (rows_withdrawn now G N V I D)
  show ?thesis using within_limitsD [OF limits]
    by (intro within_limitsI) (simp_all add: rows_withdrawn(1) children_retired [OF rows_withdrawn(2)] children_alter)
qed (use limits in \<open>simp add: within_limits_def\<close>)

section \<open>Scope\<close>

lemma owns_groupD: "owns_group t a i \<Longrightarrow> \<exists>g\<in>set (db_groups a). ge_id (row_entity g) = i \<and> alive g \<and> owns_set t a (row_parent g)"
  by (simp add: owns_group_def owns_row_iff)

lemma owns_optionD: "owns_option t a i \<Longrightarrow> \<exists>n\<in>set (db_options a). oe_id (row_entity n) = i \<and> alive n \<and> owns_group t a (row_parent n)"
  by (simp add: owns_option_def owns_row_iff)

lemma owns_valueD: "owns_value t a i \<Longrightarrow> \<exists>v\<in>set (db_values a). ve_id (row_entity v) = i \<and> alive v \<and> owns_option t a (row_parent v)"
  by (simp add: owns_value_def owns_row_iff)

lemma owns_itemD: "owns_item t a i \<Longrightarrow> \<exists>e\<in>set (db_items a). ie_id (row_entity e) = i \<and> alive e \<and> owns_group t a (row_parent e)"
  by (simp add: owns_item_def owns_row_iff)

lemma owns_ruleD: "owns_rule t a i \<Longrightarrow> \<exists>r\<in>set (db_rules a). rule_key (row_entity r) = i \<and> alive r \<and> owns_set t a (row_parent r)"
  by (simp add: owns_rule_def owns_row_iff)

text \<open>A row is in the scope of one tenant only.\<close>

lemma one_owner:
  assumes ids: "unique_ids a"
  shows "owns_set t a i \<Longrightarrow> owns_set u a i \<Longrightarrow> t = u" "owns_group t a i \<Longrightarrow> owns_group u a i \<Longrightarrow> t = u"
    "owns_option t a i \<Longrightarrow> owns_option u a i \<Longrightarrow> t = u" "owns_value t a i \<Longrightarrow> owns_value u a i \<Longrightarrow> t = u"
    "owns_item t a i \<Longrightarrow> owns_item u a i \<Longrightarrow> t = u" "owns_rule t a i \<Longrightarrow> owns_rule u a i \<Longrightarrow> t = u"
proof -
  show s: "owns_set t a i \<Longrightarrow> owns_set u a i \<Longrightarrow> t = u" for i
    using unique_rows(6) [OF ids] by (auto simp: owns_set_def list_ex_iff dest: inj_onD)
  show g: "owns_group t a i \<Longrightarrow> owns_group u a i \<Longrightarrow> t = u" for i
    using s unique_rows(1) [OF ids, THEN inj_onD] owns_groupD by metis
  show n: "owns_option t a i \<Longrightarrow> owns_option u a i \<Longrightarrow> t = u" for i
    using g unique_rows(2) [OF ids, THEN inj_onD] owns_optionD by metis
  show "owns_value t a i \<Longrightarrow> owns_value u a i \<Longrightarrow> t = u"
    using n unique_rows(3) [OF ids, THEN inj_onD] owns_valueD by metis
  show "owns_item t a i \<Longrightarrow> owns_item u a i \<Longrightarrow> t = u"
    using g unique_rows(4) [OF ids, THEN inj_onD] owns_itemD by metis
  show "owns_rule t a i \<Longrightarrow> owns_rule u a i \<Longrightarrow> t = u"
    using s unique_rows(5) [OF ids, THEN inj_onD] owns_ruleD by metis
qed

lemma scoped_owned: "r \<in> set (db_groups a) \<Longrightarrow> scoped (owns_set t a) r \<Longrightarrow> owns_group t a (ge_id (row_entity r))"
  "n \<in> set (db_options a) \<Longrightarrow> scoped (owns_group t a) n \<Longrightarrow> owns_option t a (oe_id (row_entity n))"
  "v \<in> set (db_values a) \<Longrightarrow> scoped (owns_option t a) v \<Longrightarrow> owns_value t a (ve_id (row_entity v))"
  "e \<in> set (db_items a) \<Longrightarrow> scoped (owns_group t a) e \<Longrightarrow> owns_item t a (ie_id (row_entity e))"
  "q \<in> set (db_rules a) \<Longrightarrow> scoped (owns_set t a) q \<Longrightarrow> owns_rule t a (rule_key (row_entity q))"
  by (auto simp: owns_group_def owns_option_def owns_value_def owns_item_def owns_rule_def owns_row_iff scoped_def)

lemma owns_set_touched: "owns_set u (a\<lparr>db_sets := update_rows P (\<lambda>s. s\<lparr>rowVersion := k s\<rparr>) (db_sets a)\<rparr>) = owns_set u a"
proof
  fix i
  have "list_ex (\<lambda>s. st_id s = i \<and> st_deletedAt s = LIVE_SENTINEL \<and> st_tenantId s = u) (update_rows P (\<lambda>s. s\<lparr>rowVersion := k s\<rparr>) sets)
      = list_ex (\<lambda>s. st_id s = i \<and> st_deletedAt s = LIVE_SENTINEL \<and> st_tenantId s = u) sets" for sets
    by (induction sets) (auto simp: update_rows_def)
  then show "owns_set u (a\<lparr>db_sets := update_rows P (\<lambda>s. s\<lparr>rowVersion := k s\<rparr>) (db_sets a)\<rparr>) i = owns_set u a i"
    by (simp add: owns_set_def)
qed

text \<open>The rows a tenant sees under what it owns stay in scope when rows are added or altered.\<close>

definition scope_kept :: "authoring_db \<Rightarrow> authoring_db \<Rightarrow> bool" where
  "scope_kept a b \<longleftrightarrow> (\<forall>u i. (owns_set u b i \<longleftrightarrow> owns_set u a i) \<and> (owns_group u a i \<longrightarrow> owns_group u b i)
     \<and> (owns_option u a i \<longrightarrow> owns_option u b i) \<and> (owns_value u a i \<longrightarrow> owns_value u b i))"

lemma scope_keptI:
  assumes "\<And>u. owns_set u b = owns_set u a"
    and "\<And>u i. owns_row ge_id (owns_set u a) (db_groups a) i \<Longrightarrow> owns_row ge_id (owns_set u a) (db_groups b) i"
    and "\<And>u i. owns_row oe_id (owns_group u a) (db_options a) i \<Longrightarrow> owns_row oe_id (owns_group u a) (db_options b) i"
    and "\<And>u i. owns_row ve_id (owns_option u a) (db_values a) i \<Longrightarrow> owns_row ve_id (owns_option u a) (db_values b) i"
  shows "scope_kept a b"
proof -
  have g: "owns_group u b i" if "owns_group u a i" for u i
    using that assms(2) by (simp add: owns_group_def assms(1))
  have n: "owns_option u b i" if "owns_option u a i" for u i
  proof -
    have "owns_row oe_id (owns_group u a) (db_options b) i" using that assms(3) by (simp add: owns_option_def)
    then show ?thesis unfolding owns_option_def by (rule owns_row_mono [OF _ g]) simp_all
  qed
  have "owns_value u b i" if "owns_value u a i" for u i
  proof -
    have "owns_row ve_id (owns_option u a) (db_values b) i" using that assms(4) by (simp add: owns_value_def)
    then show ?thesis unfolding owns_value_def by (rule owns_row_mono [OF _ n]) simp_all
  qed
  then show ?thesis using g n assms(1) by (simp add: scope_kept_def)
qed

section \<open>Rules and their targets\<close>

lemma rules_attachedI:
  assumes "\<And>u r. r \<in> set (db_rules b) \<Longrightarrow> scoped (owns_set u b) r \<Longrightarrow> re_isEnabled (row_entity r)
    \<Longrightarrow> targetExists u b (sr_targetType (re_rule (row_entity r))) (sr_targetId (re_rule (row_entity r)))"
  shows "rules_attached b"
  using assms unfolding rules_attached_def by blast

lemma rules_attachedD: "rules_attached a \<Longrightarrow> r \<in> set (db_rules a) \<Longrightarrow> scoped (owns_set u a) r \<Longrightarrow> re_isEnabled (row_entity r)
    \<Longrightarrow> targetExists u a (sr_targetType (re_rule (row_entity r))) (sr_targetId (re_rule (row_entity r)))"
  unfolding rules_attached_def by blast

lemma target_kept: "scope_kept a b \<Longrightarrow> targetExists u a kind i \<Longrightarrow> targetExists u b kind i"
  unfolding targetExists_iff scope_kept_def by blast

lemma attached_kept:
  assumes kept: "scope_kept a b"
    and rules: "\<And>u r. r \<in> set (db_rules b) \<Longrightarrow> scoped (owns_set u a) r \<Longrightarrow> re_isEnabled (row_entity r)
    \<Longrightarrow> targetExists u a (sr_targetType (re_rule (row_entity r))) (sr_targetId (re_rule (row_entity r)))"
  shows "rules_attached b"
proof (rule rules_attachedI)
  fix u r assume r: "r \<in> set (db_rules b)" "scoped (owns_set u b) r" "re_isEnabled (row_entity r)"
  moreover have "scoped (owns_set u a) r" using kept r(2) by (simp add: scoped_def scope_kept_def)
  ultimately show "targetExists u b (sr_targetType (re_rule (row_entity r))) (sr_targetId (re_rule (row_entity r)))"
    using rules by (intro target_kept [OF kept])
qed

lemma owns_row_retired:
  assumes "owns_row key owned rows i" and "\<And>r. r \<in> set rows \<Longrightarrow> alive r \<Longrightarrow> key (row_entity r) = i \<Longrightarrow> owned (row_parent r) \<Longrightarrow> \<not> P r \<and> owned' (row_parent r)"
  shows "owns_row key owned' (retire P now rows) i"
proof -
  obtain r where r: "r \<in> set rows" "key (row_entity r) = i" "alive r" "owned (row_parent r)"
    using assms(1) by (auto simp: owns_row_iff)
  then have "r \<in> set (retire P now rows)" and "owned' (row_parent r)" using assms(2) by (auto simp: in_retire intro!: bexI [of _ r])
  then show ?thesis using r by (auto simp: owns_row_iff)
qed

text \<open>What is withdrawn takes along what hangs under it, so what stays keeps all it hangs under.\<close>

lemma withdrawn_scope:
  assumes b_def: "b = withdraw G N V I D now a"
    and groups: "\<And>g n. g \<in> set (db_groups a) \<Longrightarrow> G g \<Longrightarrow> n \<in> set (db_options a) \<Longrightarrow> alive n \<Longrightarrow> row_parent n = ge_id (row_entity g) \<Longrightarrow> N n"
    and options: "\<And>n v. n \<in> set (db_options a) \<Longrightarrow> N n \<Longrightarrow> v \<in> set (db_values a) \<Longrightarrow> alive v \<Longrightarrow> row_parent v = oe_id (row_entity n) \<Longrightarrow> V v"
  shows "owns_group u a i \<Longrightarrow> (\<And>g. g \<in> set (db_groups a) \<Longrightarrow> ge_id (row_entity g) = i \<Longrightarrow> \<not> G g) \<Longrightarrow> owns_group u b i"
    and "owns_option u a i \<Longrightarrow> (\<And>n. n \<in> set (db_options a) \<Longrightarrow> oe_id (row_entity n) = i \<Longrightarrow> \<not> N n) \<Longrightarrow> owns_option u b i"
    and "owns_value u a i \<Longrightarrow> (\<And>v. v \<in> set (db_values a) \<Longrightarrow> ve_id (row_entity v) = i \<Longrightarrow> \<not> V v) \<Longrightarrow> owns_value u b i"
proof -
  have set_same: "owns_set u b = owns_set u a" by (simp add: b_def withdraw_def)
  show g: "owns_group u b i" if "owns_group u a i" "\<And>g. g \<in> set (db_groups a) \<Longrightarrow> ge_id (row_entity g) = i \<Longrightarrow> \<not> G g" for i
    using that(1) unfolding owns_group_def set_same unfolding b_def withdraw_fields
    by (rule owns_row_retired) (use that(2) in blast)
  show n: "owns_option u b i" if own: "owns_option u a i" and n_not: "\<And>n. n \<in> set (db_options a) \<Longrightarrow> oe_id (row_entity n) = i \<Longrightarrow> \<not> N n" for i
  proof -
    have "owns_row oe_id (owns_group u b) (retire N now (db_options a)) i"
      using own [unfolded owns_option_def]
    proof (rule owns_row_retired)
      fix r assume r: "r \<in> set (db_options a)" "alive r" "oe_id (row_entity r) = i" "owns_group u a (row_parent r)"
      have "owns_group u b (row_parent r)"
      proof (rule g [OF r(4)])
        show "\<not> G g" if g: "g \<in> set (db_groups a)" "ge_id (row_entity g) = row_parent r" for g
          using groups [OF g(1) _ r(1,2)] g(2) n_not [OF r(1,3)] by auto
      qed
      then show "\<not> N r \<and> owns_group u b (row_parent r)" using n_not r by blast
    qed
    then show ?thesis by (simp add: owns_option_def b_def)
  qed
  show "owns_value u b i" if own: "owns_value u a i" and v_not: "\<And>v. v \<in> set (db_values a) \<Longrightarrow> ve_id (row_entity v) = i \<Longrightarrow> \<not> V v"
  proof -
    have "owns_row ve_id (owns_option u b) (retire V now (db_values a)) i"
      using own [unfolded owns_value_def]
    proof (rule owns_row_retired)
      fix r assume r: "r \<in> set (db_values a)" "alive r" "ve_id (row_entity r) = i" "owns_option u a (row_parent r)"
      have "owns_option u b (row_parent r)"
      proof (rule n [OF r(4)])
        show "\<not> N m" if m: "m \<in> set (db_options a)" "oe_id (row_entity m) = row_parent r" for m
          using options [OF m(1) _ r(1,2)] m(2) v_not [OF r(1,3)] by auto
      qed
      then show "\<not> V r \<and> owns_option u b (row_parent r)" using v_not r by blast
    qed
    then show ?thesis by (simp add: owns_value_def b_def)
  qed
qed

lemma withdrawn_attached:
  assumes b_def: "b = withdraw G N V I D now a" and attached: "rules_attached a"
    and groups: "\<And>g n. g \<in> set (db_groups a) \<Longrightarrow> G g \<Longrightarrow> n \<in> set (db_options a) \<Longrightarrow> alive n \<Longrightarrow> row_parent n = ge_id (row_entity g) \<Longrightarrow> N n"
    and options: "\<And>n v. n \<in> set (db_options a) \<Longrightarrow> N n \<Longrightarrow> v \<in> set (db_values a) \<Longrightarrow> alive v \<Longrightarrow> row_parent v = oe_id (row_entity n) \<Longrightarrow> V v"
    and aimed: "\<And>q g. q \<in> set (db_rules a) \<Longrightarrow> aims ''group'' q \<Longrightarrow> g \<in> set (db_groups a) \<Longrightarrow> G g \<Longrightarrow> ge_id (row_entity g) = aim q \<Longrightarrow> D q"
      "\<And>q n. q \<in> set (db_rules a) \<Longrightarrow> aims ''option'' q \<Longrightarrow> n \<in> set (db_options a) \<Longrightarrow> N n \<Longrightarrow> oe_id (row_entity n) = aim q \<Longrightarrow> D q"
      "\<And>q v. q \<in> set (db_rules a) \<Longrightarrow> aims ''value'' q \<Longrightarrow> v \<in> set (db_values a) \<Longrightarrow> V v \<Longrightarrow> ve_id (row_entity v) = aim q \<Longrightarrow> D q"
  shows "rules_attached b"
proof (rule rules_attachedI)
  note scope = withdrawn_scope [OF b_def groups options]
  fix u r assume r: "r \<in> set (db_rules b)" "scoped (owns_set u b) r" "re_isEnabled (row_entity r)"
  have set_same: "owns_set u b = owns_set u a" by (simp add: b_def withdraw_def)
  obtain q where q: "q \<in> set (db_rules a)" "r = (if D q then q\<lparr>row_entity := disable_rule (row_entity q)\<rparr> else q)"
    using r(1) by (auto simp: b_def in_alter)
  then have rq: "r = q" "\<not> D q" using r(3) by (auto split: if_splits)
  let ?kind = "sr_targetType (re_rule (row_entity q))" and ?i = "aim q"
  have "targetExists u a ?kind ?i" unfolding aim_def using attached q(1) r(2,3) set_same rq by (intro rules_attachedD) simp_all
  then consider "?kind = ''group''" "owns_group u a ?i" | "?kind = ''option''" "owns_option u a ?i"
    | "?kind = ''value''" "owns_value u a ?i" unfolding targetExists_iff by blast
  then have "targetExists u b ?kind ?i"
  proof cases
    case 1
    then have "aims ''group'' q" using r(2,3) rq by (simp add: aims_def scoped_def)
    then have "owns_group u b ?i" using aimed(1) q(1) rq(2) by (intro scope(1) 1(2)) auto
    then show ?thesis using 1 by (simp add: targetExists_iff)
  next
    case 2
    then have "aims ''option'' q" using r(2,3) rq by (simp add: aims_def scoped_def)
    then have "owns_option u b ?i" using aimed(2) q(1) rq(2) by (intro scope(2) 2(2)) auto
    then show ?thesis using 2 by (simp add: targetExists_iff)
  next
    case 3
    then have "aims ''value'' q" using r(2,3) rq by (simp add: aims_def scoped_def)
    then have "owns_value u b ?i" using aimed(3) q(1) rq(2) by (intro scope(3) 3(2)) auto
    then show ?thesis using 3 by (simp add: targetExists_iff)
  qed
  then show "targetExists u b (sr_targetType (re_rule (row_entity r))) (sr_targetId (re_rule (row_entity r)))"
    by (simp add: aim_def rq(1))
qed

lemma step_scope_kept:
  assumes "edit_step uuid t a b" and attached: "rules_attached a"
  shows "scope_kept a b \<or> rules_attached b"
  using assms(1)
proof cases
  case (rows_withdrawn now G N V I D)
  show ?thesis by (rule disjI2) (rule withdrawn_attached [OF rows_withdrawn(1) attached rows_withdrawn(7-11)])
next
  case (touched i)
  show ?thesis unfolding touched by (intro disjI1 scope_keptI) (simp_all add: owns_set_touched)
next
  case (groups_altered f P)
  show ?thesis unfolding groups_altered(1) by (intro disjI1 scope_keptI) (simp_all add: owns_row_alter groups_altered(2))
next
  case (options_altered f P)
  show ?thesis unfolding options_altered(1) by (intro disjI1 scope_keptI) (simp_all add: owns_row_alter options_altered(2))
next
  case (values_altered f P)
  show ?thesis unfolding values_altered(1) by (intro disjI1 scope_keptI) (simp_all add: owns_row_alter values_altered(2))
next
  case (items_altered f P)
  show ?thesis unfolding items_altered(1) by (intro disjI1 scope_keptI) simp_all
next
  case (rules_altered f P)
  show ?thesis unfolding rules_altered(1) by (intro disjI1 scope_keptI) simp_all
qed (intro disjI1 scope_keptI; simp add: owns_row_append)+

lemma step_rules_attached:
  assumes step: "edit_step uuid t a b" and ids: "unique_ids a" and attached: "rules_attached a"
  shows "rules_attached b"
proof (rule ccontr)
  assume detached: "\<not> rules_attached b"
  with step_scope_kept [OF step attached] have kept: "scope_kept a b" by blast
  have same: "rules_attached b" if "db_rules b = db_rules a"
    using that attached by (intro attached_kept [OF kept]) (simp add: rules_attachedD)
  from step have "rules_attached b"
  proof cases
    case (rule_added s r)
    show ?thesis
    proof (rule attached_kept [OF kept])
      fix u q assume q: "q \<in> set (db_rules b)" "scoped (owns_set u a) q" "re_isEnabled (row_entity q)"
      show "targetExists u a (sr_targetType (re_rule (row_entity q))) (sr_targetId (re_rule (row_entity q)))"
      proof (cases "q \<in> set (db_rules a)")
        case False
        then have new: "q = live_row s r" using q(1) by (simp add: rule_added(1))
        then have "u = t" using q(2) rule_added(2) one_owner(1) [OF ids] by (simp add: scoped_def)
        then show ?thesis using rule_added(6) new by simp
      qed (use attached q in \<open>simp add: rules_attachedD\<close>)
    qed
  next
    case (rules_altered f P)
    show ?thesis
    proof (rule attached_kept [OF kept])
      fix u r assume r: "r \<in> set (db_rules b)" "scoped (owns_set u a) r" "re_isEnabled (row_entity r)"
      then obtain q where q: "q \<in> set (db_rules a)" "r = (if P q then q\<lparr>row_entity := f (row_entity q)\<rparr> else q)"
        by (auto simp: rules_altered(1) in_alter)
      have before: "targetExists u a (sr_targetType (re_rule (row_entity q))) (sr_targetId (re_rule (row_entity q)))"
        using attached q(1) r(2,3) rules_altered(3) by (intro rules_attachedD) (auto simp: q(2) scoped_def split: if_splits)
      show "targetExists u a (sr_targetType (re_rule (row_entity r))) (sr_targetId (re_rule (row_entity r)))"
      proof (cases "P q")
        case True
        have "scoped (owns_set u a) q" using r(2) by (simp add: q(2) scoped_def split: if_splits)
        then have "u = t" using q(1) True rules_altered(4) one_owner(6) [OF ids] by (blast dest: scoped_owned(5))
        then show ?thesis using rules_altered(6) [OF q(1) True] before True by (auto simp: q(2))
      qed (use before q(2) in simp)
    qed
  next
    case (rule_dropped now P)
    show ?thesis
    proof (rule attached_kept [OF kept])
      fix u r assume "r \<in> set (db_rules b)" "scoped (owns_set u a) r" "re_isEnabled (row_entity r)"
      then show "targetExists u a (sr_targetType (re_rule (row_entity r))) (sr_targetId (re_rule (row_entity r)))"
        using attached rule_dropped(2)
        by (intro rules_attachedD) (auto simp: rule_dropped(1) in_retire scoped_def split: if_splits)
    qed
  next
    case (rows_withdrawn now G N V I D)
    show ?thesis by (rule withdrawn_attached [OF rows_withdrawn(1) attached rows_withdrawn(7-11)])
  qed (rule same, simp)+
  then show False using detached by contradiction
qed

theorem step_sound:
  assumes "edit_step uuid t a b" and "draft_sound uuid a"
  shows "draft_sound uuid b"
  using assms(2) unfolding draft_sound_def
  by (auto intro: assms(1) step_unique_ids step_keys_unique step_one_default step_types_respected step_rules_wellformed
    step_rules_attached step_within_limits)

section \<open>Other tenants\<close>

text \<open>What tenant \<open>u\<close> sees: its sets and the rows in its scope.\<close>

definition tenant_view :: "string \<Rightarrow> authoring_db \<Rightarrow> authoring_db" where
  "tenant_view u a = \<lparr>db_sets = filter (\<lambda>s. st_tenantId s = u) (db_sets a), db_groups = filter (scoped (owns_set u a)) (db_groups a),
     db_options = filter (scoped (owns_group u a)) (db_options a), db_items = filter (scoped (owns_group u a)) (db_items a),
     db_values = filter (scoped (owns_option u a)) (db_values a), db_rules = filter (scoped (owns_set u a)) (db_rules a)\<rparr>"

lemma owns_row_filter: "filter (scoped owned) rows' = filter (scoped owned) rows \<Longrightarrow> owns_row key owned rows' = owns_row key owned rows"
proof
  fix i assume eq: "filter (scoped owned) rows' = filter (scoped owned) rows"
  have "owns_row key owned rs i = (\<exists>r\<in>set (filter (scoped owned) rs). key (row_entity r) = i)" for rs
    by (auto simp: owns_row_def list_ex_iff)
  then show "owns_row key owned rows' i = owns_row key owned rows i" by (simp add: eq del: set_filter)
qed

lemma tenant_viewI:
  assumes "filter (\<lambda>s. st_tenantId s = u) (db_sets b) = filter (\<lambda>s. st_tenantId s = u) (db_sets a)" "owns_set u b = owns_set u a"
    and groups: "filter (scoped (owns_set u a)) (db_groups b) = filter (scoped (owns_set u a)) (db_groups a)"
    and options: "filter (scoped (owns_group u a)) (db_options b) = filter (scoped (owns_group u a)) (db_options a)"
    and "filter (scoped (owns_group u a)) (db_items b) = filter (scoped (owns_group u a)) (db_items a)"
    and "filter (scoped (owns_option u a)) (db_values b) = filter (scoped (owns_option u a)) (db_values a)"
    and "filter (scoped (owns_set u a)) (db_rules b) = filter (scoped (owns_set u a)) (db_rules a)"
  shows "tenant_view u b = tenant_view u a"
proof -
  have g: "owns_group u b = owns_group u a" using owns_row_filter [OF groups] by (simp add: owns_group_def assms(2))
  have "owns_option u b = owns_option u a" using owns_row_filter [OF options] by (simp add: owns_option_def g)
  then show ?thesis using assms g by (simp add: tenant_view_def)
qed

lemma filter_altered: "(\<And>r. r \<in> set rows \<Longrightarrow> P r \<Longrightarrow> \<not> scoped owned r)
    \<Longrightarrow> filter (scoped owned) (alter P f rows) = filter (scoped owned) rows"
  by (induction rows) (auto simp: alter_def update_rows_def scoped_def)

lemma filter_retired: "now \<noteq> LIVE_SENTINEL \<Longrightarrow> (\<And>r. r \<in> set rows \<Longrightarrow> P r \<Longrightarrow> \<not> scoped owned r)
    \<Longrightarrow> filter (scoped owned) (retire P now rows) = filter (scoped owned) rows"
  by (induction rows) (auto simp: retire_def update_rows_def scoped_def)

lemma filter_appended: "(\<And>r. r \<in> set rs \<Longrightarrow> \<not> owned (row_parent r)) \<Longrightarrow> filter (scoped owned) (rows @ rs) = filter (scoped owned) rows"
  by (auto simp: filter_empty_conv scoped_def)

lemma filter_touched: "(\<And>s. P s \<Longrightarrow> st_tenantId s \<noteq> u) \<Longrightarrow> (\<And>s. st_tenantId (f s) = st_tenantId s)
    \<Longrightarrow> filter (\<lambda>s. st_tenantId s = u) (update_rows P f sets) = filter (\<lambda>s. st_tenantId s = u) sets"
  by (induction sets) (auto simp: update_rows_def)

lemma not_scoped:
  assumes ids: "unique_ids a" and other: "u \<noteq> t"
  shows "owns_set t a i \<Longrightarrow> \<not> owns_set u a i" "owns_group t a i \<Longrightarrow> \<not> owns_group u a i" "owns_option t a i \<Longrightarrow> \<not> owns_option u a i"
    "g \<in> set (db_groups a) \<Longrightarrow> owns_group t a (ge_id (row_entity g)) \<Longrightarrow> \<not> scoped (owns_set u a) g"
    "n \<in> set (db_options a) \<Longrightarrow> owns_option t a (oe_id (row_entity n)) \<Longrightarrow> \<not> scoped (owns_group u a) n"
    "v \<in> set (db_values a) \<Longrightarrow> owns_value t a (ve_id (row_entity v)) \<Longrightarrow> \<not> scoped (owns_option u a) v"
    "e \<in> set (db_items a) \<Longrightarrow> owns_item t a (ie_id (row_entity e)) \<Longrightarrow> \<not> scoped (owns_group u a) e"
    "q \<in> set (db_rules a) \<Longrightarrow> owns_rule t a (rule_key (row_entity q)) \<Longrightarrow> \<not> scoped (owns_set u a) q"
  using one_owner [OF ids] other by (blast dest: scoped_owned)+

lemma unused_not_owned: "unused a i \<Longrightarrow> \<not> owns_option u a i"
  by (auto dest!: owns_optionD dest: id_used(2))

lemma target_owner:
  assumes "unique_ids a" and "targetExists t a kind i" and "targetExists u a kind i"
  shows "t = u"
  using assms(2,3) one_owner [OF assms(1)] unfolding targetExists_iff by auto

lemma step_other_tenants:
  assumes "edit_step uuid t a b" and ids: "unique_ids a" and attached: "rules_attached a" and other: "u \<noteq> t"
  shows "tenant_view u b = tenant_view u a"
  using assms(1)
proof cases
  case (touched i)
  have "filter (\<lambda>s. st_tenantId s = u) (db_sets b) = filter (\<lambda>s. st_tenantId s = u) (db_sets a)"
    unfolding touched using other by (simp, intro filter_touched) auto
  then show ?thesis by (intro tenant_viewI) (simp_all add: touched owns_set_touched)
next
  case (group_added s g)
  show ?thesis using not_scoped(1) [OF ids other group_added(2)]
    by (intro tenant_viewI) (simp_all add: group_added(1) scoped_def)
next
  case (groups_altered f P)
  show ?thesis using not_scoped(4) [OF ids other] groups_altered(3)
    by (intro tenant_viewI) (simp_all add: groups_altered(1) filter_altered)
next
  case (option_added p n)
  show ?thesis using not_scoped(2) [OF ids other option_added(2)]
    by (intro tenant_viewI) (simp_all add: option_added(1) scoped_def)
next
  case (options_altered f P)
  show ?thesis using not_scoped(5) [OF ids other] options_altered(5)
    by (intro tenant_viewI) (simp_all add: options_altered(1) filter_altered)
next
  case (options_grafted p ns c \<rho>)
  have "filter (scoped (owns_group u a)) (db_options a @ map (\<lambda>n. live_row p (c n)) ns) = filter (scoped (owns_group u a)) (db_options a)"
    using not_scoped(2) [OF ids other options_grafted(2)] by (intro filter_appended) auto
  moreover have "filter (scoped (owns_option u a)) (db_values a @ grafted_values \<rho> c a ns) = filter (scoped (owns_option u a)) (db_values a)"
  proof (rule filter_appended)
    fix v assume "v \<in> set (grafted_values \<rho> c a ns)"
    then obtain n where "n \<in> set ns" "row_parent v = oe_id (c n)" by (auto simp: in_grafted_values)
    then show "\<not> owns_option u a (row_parent v)" using options_grafted(8) [of "oe_id (c n)"] by (intro unused_not_owned) simp
  qed
  ultimately show ?thesis by (intro tenant_viewI) (simp_all add: options_grafted(1) del: filter_append)
next
  case (value_added p v)
  show ?thesis using not_scoped(3) [OF ids other value_added(2)]
    by (intro tenant_viewI) (simp_all add: value_added(1) scoped_def)
next
  case (values_altered f P)
  show ?thesis using not_scoped(6) [OF ids other] values_altered(4)
    by (intro tenant_viewI) (simp_all add: values_altered(1) filter_altered)
next
  case (items_added p es)
  have "filter (scoped (owns_group u a)) (db_items a @ map (live_row p) es) = filter (scoped (owns_group u a)) (db_items a)"
    using not_scoped(2) [OF ids other items_added(2)] by (intro filter_appended) auto
  then show ?thesis by (intro tenant_viewI) (simp_all add: items_added(1) del: filter_append)
next
  case (items_altered f P)
  show ?thesis using not_scoped(7) [OF ids other] items_altered(3)
    by (intro tenant_viewI) (simp_all add: items_altered(1) filter_altered)
next
  case (rule_added s r)
  show ?thesis using not_scoped(1) [OF ids other rule_added(2)]
    by (intro tenant_viewI) (simp_all add: rule_added(1) scoped_def)
next
  case (rules_altered f P)
  show ?thesis using not_scoped(8) [OF ids other] rules_altered(4)
    by (intro tenant_viewI) (simp_all add: rules_altered(1) filter_altered)
next
  case (rule_dropped now P)
  have "filter (scoped (owns_set u a)) (db_rules b) = filter (scoped (owns_set u a)) (db_rules a)"
    unfolding rule_dropped(1) using not_scoped(8) [OF ids other] rule_dropped(2,3) by (simp, intro filter_retired) auto
  then show ?thesis by (intro tenant_viewI) (simp_all add: rule_dropped(1))
next
  case (rows_withdrawn now G N V I D)
  have "\<not> scoped (owns_set u a) q" if "q \<in> set (db_rules a)" "D q" for q
  proof
    assume "scoped (owns_set u a) q"
    then have "targetExists u a (sr_targetType (re_rule (row_entity q))) (aim q)"
      using rows_withdrawn(12) [OF that] attached that(1) unfolding aim_def by (intro rules_attachedD) simp_all
    then show False using rows_withdrawn(12) [OF that] target_owner [OF ids] other by blast
  qed
  moreover note not_scoped(4-7) [OF ids other]
  ultimately show ?thesis using rows_withdrawn(3-6)
    by (intro tenant_viewI) (simp_all add: rows_withdrawn(1) withdraw_def filter_altered filter_retired [OF rows_withdrawn(2)])
qed

end
