(* ===== verification/Authoring_Correct.thy ===== *)
theory Authoring_Correct
  imports Authoring_Invariants
begin

text \<open>
  Every request of the editor is a sequence of the edits of \<open>Authoring_Steps\<close>, hence what a draft keeps and
  what a tenant cannot reach; the loop that finds a key for a copy; and the rule whose action cannot change.
\<close>

section \<open>Sequences of edits\<close>

abbreviation edits :: "(string \<Rightarrow> bool) \<Rightarrow> string \<Rightarrow> authoring_db \<Rightarrow> authoring_db \<Rightarrow> bool" where
  "edits uuid t \<equiv> (edit_step uuid t)\<^sup>*\<^sup>*"

lemma edit_last: "edits uuid t a b \<Longrightarrow> edit_step uuid t b c \<Longrightarrow> edits uuid t a c"
  by (rule rtranclp.rtrancl_into_rtrancl)

lemma authoring_fields [simp]: "pf_authoring (audited x i db) = pf_authoring db" "pf_authoring (edit f db) = f (pf_authoring db)"
  by (simp_all add: audited_def record_audit_def edit_def)

lemma touchSet_edits: "edits uuid t a (pf_authoring db) \<Longrightarrow> edits uuid t a (pf_authoring (touchSet t i db))"
  using edit_step.touched [of uuid t "pf_authoring db" i] by (simp add: touchSet_def update_sets_def edit_last)

lemma touchForOption_edits: "edits uuid t a (pf_authoring db) \<Longrightarrow> edits uuid t a (pf_authoring (touchForOption t i db))"
  by (simp add: touchForOption_def touchSet_edits split: option.split)

lemma touchForValue_edits: "edits uuid t a (pf_authoring db) \<Longrightarrow> edits uuid t a (pf_authoring (touchForValue t i db))"
  by (simp add: touchForValue_def touchForOption_edits split: option.split)

lemmas touched_edits = touchSet_edits touchForOption_edits touchForValue_edits

lemma one_edit: "edit_step uuid t a b \<Longrightarrow> edits uuid t a b"
  by (rule r_into_rtranclp)

lemmas touched_edit = touchSet_edits [OF one_edit] touchForOption_edits [OF one_edit] touchForValue_edits [OF one_edit]

section \<open>The queries of the repositories\<close>

lemma find_scoped_some: "find_scoped key owned rows i = Some r \<Longrightarrow> r \<in> set rows \<and> key (row_entity r) = i \<and> scoped owned r"
  unfolding find_scoped_def find_row_def by (auto dest: find_Some_in)

lemma found: "findGroup t a i = Some g \<Longrightarrow> g \<in> set (db_groups a) \<and> ge_id (row_entity g) = i \<and> scoped (owns_set t a) g"
  "findOption t a i = Some n \<Longrightarrow> n \<in> set (db_options a) \<and> oe_id (row_entity n) = i \<and> scoped (owns_group t a) n"
  "findValue t a i = Some v \<Longrightarrow> v \<in> set (db_values a) \<and> ve_id (row_entity v) = i \<and> scoped (owns_option t a) v"
  "findItem t a i = Some e \<Longrightarrow> e \<in> set (db_items a) \<and> ie_id (row_entity e) = i \<and> scoped (owns_group t a) e"
  "findRule t a i = Some r \<Longrightarrow> r \<in> set (db_rules a) \<and> rule_key (row_entity r) = i \<and> scoped (owns_set t a) r"
  unfolding findGroup_def findOption_def findValue_def findItem_def findRule_def by (rule find_scoped_some, assumption)+

lemma found_owns: "findGroup t a i = Some g \<Longrightarrow> owns_group t a i" "findOption t a i = Some n \<Longrightarrow> owns_option t a i"
  "findValue t a i = Some v \<Longrightarrow> owns_value t a i" "findItem t a i = Some e \<Longrightarrow> owns_item t a i"
  "findRule t a i = Some r \<Longrightarrow> owns_rule t a i"
  using found scoped_owned by metis+

lemma count_owned: "owned p \<Longrightarrow> count_scoped owned rows p = length (children_in rows p)"
  unfolding count_scoped_def count_rows_def scoped_def by (intro arg_cong [where f = length] filter_cong) auto

lemma list_owned: "owned p \<Longrightarrow> mset (list_scoped pos owned rows p) = mset (map row_entity (children_in rows p))"
proof -
  assume "owned p"
  then have "filter (\<lambda>r. row_parent r = p \<and> scoped owned r) rows = children_in rows p" by (auto simp: scoped_def intro: filter_cong)
  then show ?thesis by (simp add: list_scoped_def)
qed

lemma listed_owned: "e \<in> set (list_scoped pos owned rows p) \<Longrightarrow> \<exists>r\<in>set rows. row_entity r = e \<and> scoped owned r"
  by (auto simp: list_scoped_def)

lemma update_scoped_alter: "update_scoped key owned i f rows = alter (\<lambda>r. key (row_entity r) = i \<and> scoped owned r) f rows"
  by (simp add: update_scoped_def alter_def)

lemma delete_scoped_retire: "delete_scoped key owned i now rows = retire (\<lambda>r. key (row_entity r) = i \<and> scoped owned r) now rows"
  by (simp add: delete_scoped_def retire_def)

lemma room: "assertWithinLimit n m x = None \<longleftrightarrow> n < m"
  by (simp add: assertWithinLimit_def)

lemma retire_none [simp]: "retire (\<lambda>_. False) now rows = rows"
  by (simp add: retire_def update_rows_def)

lemma alter_none [simp]: "alter (\<lambda>_. False) f rows = rows"
  by (simp add: alter_def update_rows_def)

lemma first_refusal_none: "first_refusal cs = None \<longleftrightarrow> (\<forall>c\<in>set cs. c = None)"
  by (induction cs rule: first_refusal.induct) auto

lemma fold_keeps: "(\<And>c e. h (g c e) = h e) \<Longrightarrow> h (fold g cs e) = h e"
  by (induction cs arbitrary: e) simp_all

lemma patched_Nil [simp]: "patched read [] = None"
  by (simp add: patched_def)

lemma patched_snoc: "patched read (fs @ [f]) = (case read f of None \<Rightarrow> patched read fs | Some v \<Rightarrow> Some v)"
  by (simp add: patched_def split: option.split)

section \<open>Groups\<close>

lemma set_group_field_id [simp]: "ge_id (set_group_field f g) = ge_id g"
  by (cases f) simp_all

lemma create_group_edits:
  assumes "unused (pf_authoring db) new_id"
  shows "edits uuid t (pf_authoring db) (pf_authoring (snd (create_group t new_id i input db)))"
proof -
  let ?a = "pf_authoring db"
  have "edit_step uuid t ?a (?a\<lparr>db_groups := db_groups ?a @ [live_row i g]\<rparr>)"
    if "owns_set t ?a i" "assertRoomForGroup t ?a i = None" "ge_id g = new_id" for g
    using that assms by (intro edit_step.group_added) (simp_all add: assertRoomForGroup_def room count_owned)
  then show ?thesis by (auto simp: create_group_def Let_def intro!: touched_edit split: option.split)
qed

lemma update_group_edits: "edits uuid t (pf_authoring db) (pf_authoring (snd (update_group t i changes db)))"
proof -
  let ?a = "pf_authoring db"
  have "edit_step uuid t ?a (?a\<lparr>db_groups := update_scoped ge_id (owns_set t ?a) i (fold set_group_field patch) (db_groups ?a)\<rparr>)" for patch
    unfolding update_scoped_alter
    by (intro edit_step.groups_altered) (auto intro: scoped_owned fold_keeps [where h = ge_id])
  then show ?thesis by (auto simp: update_group_def Let_def intro!: touched_edit split: option.split)
qed

lemma disable_rule_again: "targets kind ids (r\<lparr>row_entity := disable_rule (row_entity r)\<rparr>) = False"
  by (simp add: targets_def disable_rule_def)

lemma disableRulesTargeting_alter:
  "disableRulesTargeting kinds rows = alter (\<lambda>r. \<exists>(kind, ids)\<in>set kinds. targets kind ids r) disable_rule rows"
proof (induction kinds arbitrary: rows)
  case (Cons k kinds)
  obtain kind ids where k: "k = (kind, ids)" by (cases k)
  have "disableRulesTargeting (k # kinds) rows = disableRulesTargeting kinds
      (update_rows (targets kind ids) (\<lambda>r. r\<lparr>row_entity := disable_rule (row_entity r)\<rparr>) rows)"
    by (simp add: disableRulesTargeting_def k)
  also have "\<dots> = alter (\<lambda>r. \<exists>(kind, ids)\<in>set (k # kinds). targets kind ids r) disable_rule rows"
    unfolding Cons.IH by (auto simp: alter_def update_rows_def k disable_rule_again split: prod.splits)
  finally show ?case .
qed (simp add: disableRulesTargeting_def)

lemma soft_delete_retire: "soft_delete key ids now rows = retire (\<lambda>r. key (row_entity r) \<in> set ids) now rows"
  by (simp add: soft_delete_def retire_def)

lemma in_live_ids: "i \<in> set (live_ids key ps rows) \<longleftrightarrow> (\<exists>r\<in>set rows. key (row_entity r) = i \<and> alive r \<and> row_parent r \<in> set ps)"
  by (auto simp: live_ids_def)

lemma live_children_owned:
  shows "\<forall>p\<in>set ps. owns_group t a p \<Longrightarrow> i \<in> set (live_ids oe_id ps (db_options a)) \<Longrightarrow> owns_option t a i"
    and "\<forall>p\<in>set ps. owns_option t a p \<Longrightarrow> i \<in> set (live_ids ve_id ps (db_values a)) \<Longrightarrow> owns_value t a i"
    and "\<forall>p\<in>set ps. owns_group t a p \<Longrightarrow> i \<in> set (live_ids ie_id ps (db_items a)) \<Longrightarrow> owns_item t a i"
  by (auto simp: in_live_ids owns_option_def owns_value_def owns_item_def owns_row_iff)

lemma group_withdrawn:
  assumes b: "onGroupDeleted i now a = Some b" and own: "owns_group t a i" and ids: "unique_ids a" and now: "now \<noteq> LIVE_SENTINEL"
  shows "edit_step uuid t a b"
proof -
  let ?ns = "live_ids oe_id [i] (db_options a)"
  let ?vs = "live_ids ve_id ?ns (db_values a)" and ?is = "live_ids ie_id [i] (db_items a)"
  let ?G = "\<lambda>g. ge_id (row_entity g) = i \<and> alive g" and ?N = "\<lambda>n. oe_id (row_entity n) \<in> set ?ns"
    and ?V = "\<lambda>v. ve_id (row_entity v) \<in> set ?vs" and ?I = "\<lambda>e. ie_id (row_entity e) \<in> set ?is"
  let ?D = "\<lambda>q. \<exists>(kind, ids)\<in>set [(''group'', [i]), (''option'', ?ns), (''value'', ?vs)]. targets kind ids q"
  have "b = withdraw ?G ?N ?V ?I ?D now a" using b
    by (auto simp: onGroupDeleted_def withdraw_def Let_def soft_delete_retire disableRulesTargeting_alter retire_def split: if_splits)
  moreover have owned: "\<forall>k\<in>set ?ns. owns_option t a k" "\<forall>k\<in>set ?is. owns_item t a k"
    using live_children_owned(1,3) [of "[i]"] own by simp_all
  then have values_owned: "\<forall>k\<in>set ?vs. owns_value t a k" using live_children_owned(2) [of ?ns] by simp
  have "edit_step uuid t a (withdraw ?G ?N ?V ?I ?D now a)"
  proof (rule edit_step.rows_withdrawn [OF now])
    show "?N n" if "?G g" "n \<in> set (db_options a)" "alive n" "row_parent n = ge_id (row_entity g)" for g n
      using that by (auto simp: in_live_ids)
    show "?V v" if "?N n" "v \<in> set (db_values a)" "alive v" "row_parent v = oe_id (row_entity n)" for n v
      using that by (intro in_live_ids [THEN iffD2] bexI [of _ v]) simp_all
    show "alive q \<and> re_isEnabled (row_entity q) \<and> targetExists t a (sr_targetType (re_rule (row_entity q))) (aim q)" if "?D q" for q
      using that owned values_owned own by (auto simp: targets_def targetExists_iff aim_def)
  qed (use own owned values_owned in \<open>auto simp: aims_def aim_def targets_def\<close>)
  ultimately show ?thesis by simp
qed

lemma option_withdrawn:
  assumes b: "onOptionDeleted i now a = Some b" and own: "owns_option t a i" and ids: "unique_ids a" and now: "now \<noteq> LIVE_SENTINEL"
  shows "edit_step uuid t a b"
proof -
  let ?vs = "live_ids ve_id [i] (db_values a)"
  let ?N = "\<lambda>n. oe_id (row_entity n) = i \<and> alive n" and ?V = "\<lambda>v. ve_id (row_entity v) \<in> set ?vs"
  let ?D = "\<lambda>q. \<exists>(kind, ids)\<in>set [(''option'', [i]), (''value'', ?vs)]. targets kind ids q"
  have "b = withdraw (\<lambda>_. False) ?N ?V (\<lambda>_. False) ?D now a" using b
    by (auto simp: onOptionDeleted_def withdraw_def Let_def soft_delete_retire disableRulesTargeting_alter retire_def update_rows_def split: if_splits)
  moreover have owned: "\<forall>k\<in>set ?vs. owns_value t a k" using live_children_owned(2) [of "[i]"] own by simp
  have "edit_step uuid t a (withdraw (\<lambda>_. False) ?N ?V (\<lambda>_. False) ?D now a)"
  proof (rule edit_step.rows_withdrawn [OF now])
    show "?V v" if "?N n" "v \<in> set (db_values a)" "alive v" "row_parent v = oe_id (row_entity n)" for n v
      using that by (intro in_live_ids [THEN iffD2] bexI [of _ v]) simp_all
    show "alive q \<and> re_isEnabled (row_entity q) \<and> targetExists t a (sr_targetType (re_rule (row_entity q))) (aim q)" if "?D q" for q
      using that owned own by (auto simp: targets_def targetExists_iff aim_def)
  qed (use own owned in \<open>auto simp: aims_def aim_def targets_def\<close>)
  ultimately show ?thesis by simp
qed

lemma remove_group_edits:
  assumes "unique_ids (pf_authoring db)" and "now \<noteq> LIVE_SENTINEL"
  shows "edits uuid t (pf_authoring db) (pf_authoring (snd (remove_group t now i db)))"
  using group_withdrawn [OF _ _ assms] found_owns(1)
  by (auto simp: remove_group_def intro!: touched_edit split: option.split)

lemma remove_option_edits:
  assumes "unique_ids (pf_authoring db)" and "now \<noteq> LIVE_SENTINEL"
  shows "edits uuid t (pf_authoring db) (pf_authoring (snd (remove_option t now i db)))"
  using option_withdrawn [OF _ _ assms] found_owns(2)
  by (auto simp: remove_option_def intro!: touched_edit split: option.split)

lemma reorder_rows_alter: "reorder_rows key place entries rows = fold (\<lambda>(i, n). alter (\<lambda>r. key (row_entity r) = i) (place n)) entries rows"
  unfolding reorder_rows_def alter_def ..

lemma no_unknown: "unknown_entries known es = [] \<longleftrightarrow> fst ` set es \<subseteq> set known"
  by (auto simp: unknown_entries_def filter_empty_conv)

text \<open>Reordering is one edit after another; \<open>upd\<close> applies a function to one table.\<close>

lemma reordered:
  assumes step: "\<And>a i n. owned a i \<Longrightarrow> edit_step uuid t a (upd (alter (\<lambda>r. key (row_entity r) = i) (place n)) a)"
    and kept: "\<And>a i n k. owned a k \<Longrightarrow> owned (upd (alter (\<lambda>r. key (row_entity r) = i) (place n)) a) k"
    and upd: "\<And>f g a. upd f (upd g a) = upd (\<lambda>rows. f (g rows)) a" "\<And>a. upd (\<lambda>rows. rows) a = a"
    and own: "\<forall>i\<in>fst ` set es. owned a i"
  shows "edits uuid t a (upd (reorder_rows key place es) a)"
  using own
proof (induction es arbitrary: a)
  case Nil
  then show ?case using upd(2) [of a] by (simp add: reorder_rows_def)
next
  case (Cons e es)
  obtain i n where e: "e = (i, n)" by (cases e)
  let ?b = "upd (alter (\<lambda>r. key (row_entity r) = i) (place n)) a"
  have "edit_step uuid t a ?b" using Cons.prems by (intro step) (auto simp: e)
  moreover have "edits uuid t ?b (upd (reorder_rows key place es) ?b)" using Cons.prems kept by (intro Cons.IH) auto
  ultimately have "edits uuid t a (upd (reorder_rows key place es) ?b)" by (rule converse_rtranclp_into_rtranclp)
  moreover have "upd (reorder_rows key place es) ?b = upd (reorder_rows key place (e # es)) a"
    unfolding upd(1) by (intro arg_cong [where f = "\<lambda>h. upd h a"] ext) (simp add: reorder_rows_alter e)
  ultimately show ?case by simp
qed

lemma listed: "i \<in> set (map ge_id (listGroups t a p)) \<Longrightarrow> owns_group t a i" "i \<in> set (map oe_id (listOptions t a p)) \<Longrightarrow> owns_option t a i"
  "i \<in> set (map ve_id (listValues t a p)) \<Longrightarrow> owns_value t a i" "i \<in> set (map ie_id (listItems t a p)) \<Longrightarrow> owns_item t a i"
  "i \<in> set (map rule_key (listRules t a p)) \<Longrightarrow> owns_rule t a i"
  using scoped_owned [of _ a t]
  by (auto simp: listGroups_def listOptions_def listValues_def listItems_def listRules_def dest!: listed_owned)

lemma reorder_groups_edits: "edits uuid t (pf_authoring db) (pf_authoring (snd (reorder_groups t s entries db)))"
proof -
  have "edits uuid t a (a\<lparr>db_groups := reorder_rows ge_id (\<lambda>n g. g\<lparr>ge_sortOrder := n\<rparr>) entries (db_groups a)\<rparr>)"
    if "\<forall>i\<in>fst ` set entries. owns_group t a i" for a
    using that by (intro reordered [where owned = "owns_group t" and upd = "\<lambda>f a. a\<lparr>db_groups := f (db_groups a)\<rparr>"] edit_step.groups_altered)
      (auto simp: owns_group_def owns_row_alter)
  then have "edits uuid t a (a\<lparr>db_groups := reorder_rows ge_id (\<lambda>n g. g\<lparr>ge_sortOrder := n\<rparr>) entries (db_groups a)\<rparr>)"
    if "fst ` set entries \<subseteq> set (map ge_id (listGroups t a s))" for a using that listed(1) by blast
  then show ?thesis by (simp add: reorder_groups_def Let_def no_unknown touched_edits del: set_map)
qed

section \<open>Options\<close>

lemma reorder_options_edits: "edits uuid t (pf_authoring db) (pf_authoring (snd (reorder_options t s entries db)))"
proof -
  have "edits uuid t a (a\<lparr>db_options := reorder_rows oe_id (\<lambda>n e. e\<lparr>oe_sortOrder := n\<rparr>) entries (db_options a)\<rparr>)"
    if "\<forall>i\<in>fst ` set entries. owns_option t a i" for a
    using that by (intro reordered [where owned = "owns_option t" and upd = "\<lambda>f a. a\<lparr>db_options := f (db_options a)\<rparr>"] edit_step.options_altered)
      (auto simp: owns_option_def owns_row_alter text_fits_def)
  then have "edits uuid t a (a\<lparr>db_options := reorder_rows oe_id (\<lambda>n e. e\<lparr>oe_sortOrder := n\<rparr>) entries (db_options a)\<rparr>)"
    if "fst ` set entries \<subseteq> set (map oe_id (listOptions t a s))" for a using that listed(2) by blast
  then show ?thesis by (simp add: reorder_options_def Let_def no_unknown touched_edits del: set_map)
qed

lemma set_option_field_keeps [simp]: "oe_id (set_option_field f n) = oe_id n" "oe_key (set_option_field f n) = oe_key n"
  "presentation (set_option_field f n) = presentation n"
  by (cases f; simp)+

lemma children_key: "owned p \<Longrightarrow> list_ex (\<lambda>r. row_parent r = p \<and> key (row_entity r) = k \<and> scoped owned r) rows \<longleftrightarrow> (p, k) \<in> set (keys_of key rows)"
  by (auto simp: keys_of_def scoped_def list_ex_iff)

lemma create_option_edits:
  assumes "unused (pf_authoring db) new_id"
  shows "edits uuid t (pf_authoring db) (pf_authoring (snd (create_option sc t new_id p input db)))"
proof -
  let ?a = "pf_authoring db"
  have "edit_step uuid t ?a (?a\<lparr>db_options := db_options ?a @ [live_row p (created_option new_id k input)]\<rparr>)"
    if "owns_group t ?a p" "assertRoomForOption t ?a p = None" "assertKeyAvailable t ?a p (js_trim (oi_key input)) = None"
      "assertOptionMayCarryTextDesign (oi_presentation input) (oi_textDesign input) = None" for k
    using that assms
    by (intro edit_step.option_added)
      (auto simp: assertRoomForOption_def room count_owned created_option_def assertKeyAvailable_def keyExists_def children_key
        text_fits_def absent_def assertOptionMayCarryTextDesign_def null_or_def split: if_splits)
  then show ?thesis using found_owns(1)
    by (auto simp: create_option_def Let_def first_refusal_none intro!: touched_edit split: option.split)
qed

lemma patched_textDesign: "textDesign (fold set_option_field patch n)
    = (case patched patch_textDesign patch of None \<Rightarrow> textDesign n | Some v \<Rightarrow> v)"
proof (induction patch rule: rev_induct)
  case (snoc f patch)
  then show ?case by (cases f) (simp_all add: patched_snoc)
qed simp

lemma update_option_edits:
  assumes ids: "unique_ids (pf_authoring db)"
  shows "edits uuid t (pf_authoring db) (pf_authoring (snd (update_option sc t i changes db)))"
proof -
  let ?a = "pf_authoring db"
  have "edit_step uuid t ?a (?a\<lparr>db_options := update_scoped oe_id (owns_group t ?a) i (fold set_option_field patch) (db_options ?a)\<rparr>)"
    if row: "findOption t ?a i = Some row"
      and ok: "(case patched patch_textDesign patch of None \<Rightarrow> None | Some v \<Rightarrow> assertOptionMayCarryTextDesign (presentation (row_entity row)) v) = None" for patch row
    unfolding update_scoped_alter
  proof (rule edit_step.options_altered)
    fix r assume r: "r \<in> set (db_options ?a)" "oe_id (row_entity r) = i \<and> scoped (owns_group t ?a) r"
    then show "owns_option t ?a (oe_id (row_entity r))" by (intro scoped_owned(2)) simp_all
    have "r = row" using r found(2) [OF row] unique_rows(2) [OF ids] by (auto dest: inj_onD)
    then show "text_fits (fold set_option_field patch (row_entity r))" if "text_fits (row_entity r)"
      using that ok by (auto simp: text_fits_def patched_textDesign absent_def assertOptionMayCarryTextDesign_def
          fold_keeps [where h = presentation] split: option.splits if_splits)
  qed (simp_all add: fold_keeps [where h = oe_id] fold_keeps [where h = oe_key] fold_keeps [where h = presentation])
  then show ?thesis
    by (auto simp: update_option_def Let_def first_refusal_none intro!: touched_edit split: option.split)
qed

section \<open>Values\<close>

lemma set_value_field_keeps [simp]: "ve_id (set_value_field f v) = ve_id v" "valueKey (set_value_field f v) = valueKey v"
  by (cases f; simp)+

lemma patched_design: "ve_design (fold set_value_field patch v)
    = (case patched patch_design patch of None \<Rightarrow> ve_design v | Some d \<Rightarrow> d)"
proof (induction patch rule: rev_induct)
  case (snoc f patch)
  then show ?case by (cases f) (simp_all add: patched_snoc)
qed simp

lemma patched_isDefault: "isDefault (fold set_value_field patch v)
    = (case patched patch_isDefault patch of None \<Rightarrow> isDefault v | Some d \<Rightarrow> d)"
proof (induction patch rule: rev_induct)
  case (snoc f patch)
  then show ?case by (cases f) (simp_all add: patched_snoc)
qed simp

text \<open>The other values of an option give up the default first.\<close>

lemma defaults_cleared:
  assumes "owns_option t a p"
  shows "edit_step uuid t a (a\<lparr>db_values := alter (\<lambda>r. row_parent r = p \<and> alive r \<and> ve_id (row_entity r) \<noteq> i)
    (\<lambda>v. v\<lparr>isDefault := False\<rparr>) (db_values a)\<rparr>)"
  using assms by (intro edit_step.values_altered) (auto simp: value_fits_def scoped_def intro: scoped_owned)

lemma none_default:
  assumes r: "r \<in> set (alter (\<lambda>r. row_parent r = p \<and> alive r \<and> ve_id (row_entity r) \<noteq> i) (\<lambda>v. v\<lparr>isDefault := False\<rparr>) rows)"
    and "alive r" and "row_parent r = p" and "ve_id (row_entity r) \<noteq> i"
  shows "\<not> isDefault (row_entity r)"
proof -
  let ?P = "\<lambda>r. row_parent r = p \<and> alive r \<and> ve_id (row_entity r) \<noteq> i"
  obtain q where rq: "r = (if ?P q then q\<lparr>row_entity := (row_entity q)\<lparr>isDefault := False\<rparr>\<rparr> else q)"
    using r unfolding in_alter by blast
  have "row_parent q = row_parent r" "row_deletedAt q = row_deletedAt r" "ve_id (row_entity q) = ve_id (row_entity r)"
    by (simp_all add: rq)
  then have "?P q" using assms(2-4) by simp
  then show ?thesis by (simp add: rq)
qed

lemma makeSoleDefault_new:
  assumes "i \<notin> (\<lambda>r. ve_id (row_entity r)) ` set rows" and "ve_id v = i" and "isDefault v"
  shows "makeSoleDefault p i (rows @ [live_row p v])
    = alter (\<lambda>r. row_parent r = p \<and> alive r \<and> ve_id (row_entity r) \<noteq> i) (\<lambda>v. v\<lparr>isDefault := False\<rparr>) rows @ [live_row p v]"
proof -
  have "makeSoleDefault p i (rows @ [live_row p v]) = makeSoleDefault p i rows @ [live_row p (v\<lparr>isDefault := True\<rparr>)]"
    using assms(2) by (simp add: makeSoleDefault_def update_rows_def live_row_def)
  moreover have "v\<lparr>isDefault := True\<rparr> = v" using assms(3) by (cases v) simp
  moreover have "ve_id (row_entity r) \<noteq> i" if "r \<in> set rows" for r using assms(1) that by auto
  then have "makeSoleDefault p i rows = alter (\<lambda>r. row_parent r = p \<and> alive r \<and> ve_id (row_entity r) \<noteq> i) (\<lambda>v. v\<lparr>isDefault := False\<rparr>) rows"
    unfolding makeSoleDefault_def update_rows_def alter_def by (intro map_cong) simp_all
  ultimately show ?thesis by simp
qed

lemma value_fits_new:
  assumes ids: "unique_ids a" and row: "findOption t a p = Some row" and n: "n \<in> set (db_options a)" "oe_id (row_entity n) = p"
    and "assertTakesValues (presentation (row_entity row)) = None" and "assertValueMayCarryDesign (presentation (row_entity row)) (ve_design v) = None"
  shows "value_fits (presentation (row_entity n)) v"
proof -
  have "n = row" using n found(2) [OF row] unique_rows(2) [OF ids] by (auto dest: inj_onD)
  then show ?thesis using assms(5,6)
    by (auto simp: value_fits_def absent_def assertTakesValues_def assertValueMayCarryDesign_def takesValues_def split: option.splits if_splits)
qed

lemma created_value_fields [simp]: "ve_id (created_value i k input) = i" "valueKey (created_value i k input) = js_trim (vi_valueKey input)"
  "assertValueMayCarryDesign p (ve_design (created_value i k input)) = assertValueMayCarryDesign p (vi_design input)"
  by (simp_all add: created_value_def null_or_def assertValueMayCarryDesign_def)

lemma create_value_edits:
  assumes new: "unused (pf_authoring db) new_id" and ids: "unique_ids (pf_authoring db)"
  shows "edits uuid t (pf_authoring db) (pf_authoring (snd (create_value sc t new_id p input db)))"
proof -
  let ?a = "pf_authoring db"
  let ?clear = "\<lambda>v. if isDefault v then makeSoleDefault p new_id else (\<lambda>rows. rows)"
  have "edits uuid t ?a (?a\<lparr>db_values := ?clear v (db_values ?a @ [live_row p v])\<rparr>)"
    if row: "findOption t ?a p = Some row" and "assertTakesValues (presentation (row_entity row)) = None"
      and room: "assertRoomForValue t ?a p = None" and key: "assertValueKeyAvailable t ?a p (valueKey v) = None"
      and "assertValueMayCarryDesign (presentation (row_entity row)) (ve_design v) = None" and i: "ve_id v = new_id" for row v
  proof -
    have own: "owns_option t ?a p" using row by (rule found_owns)
    have fits: "value_fits (presentation (row_entity n)) v" if "n \<in> set (db_options ?a)" "oe_id (row_entity n) = p" for n
      by (rule value_fits_new [OF ids row that]) fact+
    let ?rows = "alter (\<lambda>r. row_parent r = p \<and> alive r \<and> ve_id (row_entity r) \<noteq> new_id) (\<lambda>v. v\<lparr>isDefault := False\<rparr>) (db_values ?a)"
    let ?b = "?a\<lparr>db_values := ?rows\<rparr>"
    have room': "length (children_in (db_values ?a) p) < valuesPerOption" and key': "(p, valueKey v) \<notin> set (keys_of valueKey (db_values ?a))"
      using room key own by (simp_all add: assertRoomForValue_def Authoring_Correct.room count_owned assertValueKeyAvailable_def
          valueKeyExists_def children_key split: if_splits)
    show ?thesis
    proof (cases "isDefault v")
      case False
      then show ?thesis using own room' key' new i fits by (auto intro!: one_edit edit_step.value_added)
    next
      case True
      have cleared: "edits uuid t ?a ?b" using own by (intro one_edit defaults_cleared)
      have same_ids: "row_ids ve_id ?rows = row_ids ve_id (db_values ?a)" by (rule alter_ids) simp
      then have "all_ids ?b = all_ids ?a" "all_parents ?b = all_parents ?a" by (simp_all add: all_ids_def all_parents_def)
      then have fresh: "unused ?b new_id" using new by (simp add: unused_def)
      have "edit_step uuid t ?b (?b\<lparr>db_values := db_values ?b @ [live_row p v]\<rparr>)"
      proof (rule edit_step.value_added)
        show "owns_option t ?b p" using own by simp
        show "length (children_in (db_values ?b) p) < valuesPerOption" using room' by (simp add: children_alter)
        show "(p, valueKey v) \<notin> set (keys_of valueKey (db_values ?b))" using key' by (simp add: keys_of_alter)
        show "value_fits (presentation (row_entity n)) v" if "n \<in> set (db_options ?b)" "oe_id (row_entity n) = p" for n
          using that by (intro fits) simp_all
        have "ve_id (row_entity r) \<noteq> new_id" if "r \<in> set (db_values ?b)" for r
          using id_used(3) [OF that] fresh by metis
        then show "\<forall>r\<in>set (db_values ?b). alive r \<and> row_parent r = p \<longrightarrow> \<not> isDefault (row_entity r)"
          using none_default [of _ p new_id "db_values ?a"] by auto
      qed (use fresh i in simp)
      moreover have "new_id \<notin> (\<lambda>r. ve_id (row_entity r)) ` set (db_values ?a)" using new by (auto dest: id_used(3))
      then have "makeSoleDefault p new_id (db_values ?a @ [live_row p v]) = ?rows @ [live_row p v]"
        using i True by (rule makeSoleDefault_new)
      ultimately show ?thesis using True edit_last [OF cleared] by simp
    qed
  qed
  note added = this
  show ?thesis
    by (cases "parent_option_owned t ?a p")
      (auto simp: create_value_def Let_def first_refusal_none intro!: touched_edits added split: option.split split del: if_split)
qed

lemma update_value_edits:
  assumes ids: "unique_ids (pf_authoring db)"
  shows "edits uuid t (pf_authoring db) (pf_authoring (snd (update_value sc t i changes db)))"
proof -
  let ?a = "pf_authoring db" and ?P = "\<lambda>r. ve_id (row_entity r) = i \<and> scoped (owns_option t (pf_authoring db)) r"
  let ?design = "\<lambda>row patch. case patched patch_design patch of
      None \<Rightarrow> None
    | Some d \<Rightarrow> if d = JNull then None
        else case findOption t ?a (row_parent row) of
          None \<Rightarrow> Some (Missing ''Option'')
        | Some n \<Rightarrow> assertValueMayCarryDesign (presentation (row_entity n)) d"
  have sole: "r = row" if "findValue t ?a i = Some row" "r \<in> set (db_values ?a)" "ve_id (row_entity r) = i" for r row
    using found(3) [OF that(1)] that(3) by (intro inj_onD [OF unique_rows(3) [OF ids] _ that(2)]) simp_all
  have fits: "value_fits (presentation (row_entity n)) (fold set_value_field patch (row_entity r))"
    if row: "findValue t ?a i = Some row" and ok: "?design row patch = None" and r: "r \<in> set (db_values ?a)" "?P r"
      and n: "n \<in> set (db_options ?a)" "oe_id (row_entity n) = row_parent r"
      and before: "value_fits (presentation (row_entity n)) (row_entity r)" for row patch r n
  proof (cases "patched patch_design patch")
    case None
    then show ?thesis using before by (simp add: value_fits_def patched_design)
  next
    case (Some d)
    have "r = row" using sole [OF row r(1)] r(2) by blast
    moreover have "n = m" if "findOption t ?a (row_parent r) = Some m" for m
      using found(2) [OF that] n(2) by (intro inj_onD [OF unique_rows(2) [OF ids] _ n(1)]) simp_all
    ultimately have "absent d \<or> valueCarriesDesign (presentation (row_entity n))" using ok Some
      by (auto simp: absent_def assertValueMayCarryDesign_def split: option.splits if_splits)
    then show ?thesis using before Some by (simp add: value_fits_def patched_design)
  qed
  have plain: "edits uuid t ?a (?a\<lparr>db_values := update_scoped ve_id (owns_option t ?a) i (fold set_value_field patch) (db_values ?a)\<rparr>)"
    if "findValue t ?a i = Some row" "?design row patch = None" and same: "patched patch_isDefault patch \<noteq> Some True" for row patch
    unfolding update_scoped_alter
  proof (rule one_edit, rule edit_step.values_altered)
    show "owns_value t ?a (ve_id (row_entity r))" if "r \<in> set (db_values ?a)" "?P r" for r using that by (intro scoped_owned(3)) simp_all
    show "\<not> isDefault (row_entity q) \<and> (q = r \<or> \<not> ?P q)"
      if "isDefault (fold set_value_field patch (row_entity r))" "\<not> isDefault (row_entity r)" for r q
      using that same by (auto simp: patched_isDefault split: option.splits)
  qed (use fits that in \<open>simp_all add: fold_keeps [where h = ve_id] fold_keeps [where h = valueKey]\<close>)
  have default: "edits uuid t ?a (?a\<lparr>db_values := makeSoleDefault (row_parent row) i
      (update_scoped ve_id (owns_option t ?a) i (fold set_value_field patch) (db_values ?a))\<rparr>)"
    if row: "findValue t ?a i = Some row" and ok: "?design row patch = None" for row patch
  proof -
    let ?p = "row_parent row" and ?f = "\<lambda>v. (fold set_value_field patch v)\<lparr>isDefault := True\<rparr>"
    let ?clear = "alter (\<lambda>r. row_parent r = ?p \<and> alive r \<and> ve_id (row_entity r) \<noteq> i) (\<lambda>v. v\<lparr>isDefault := False\<rparr>)"
    let ?b = "?a\<lparr>db_values := ?clear (db_values ?a)\<rparr>"
    have here: "row \<in> set (db_values ?a)" "ve_id (row_entity row) = i" "owns_option t ?a ?p" "alive row"
      using found(3) [OF row] by (simp_all add: scoped_def)
    have ids_f: "ve_id (?f v) = ve_id v" "valueKey (?f v) = valueKey v" for v
      by (simp_all add: fold_keeps [where h = ve_id] fold_keeps [where h = valueKey])
    have cleared: "edits uuid t ?a ?b" using here(3) by (intro one_edit defaults_cleared)
    have owned: "owns_value t ?b k = owns_value t ?a k" for k by (simp add: owns_value_def owns_row_alter)
    have in_b: "r \<in> set (db_values ?a)" if "r \<in> set (db_values ?b)" "ve_id (row_entity r) = i" for r
      using that by (auto simp: in_alter split: if_splits)
    have step: "edit_step uuid t ?b (?b\<lparr>db_values := alter ?P ?f (db_values ?b)\<rparr>)"
    proof (rule edit_step.values_altered)
      show "owns_value t ?b (ve_id (row_entity r))" if "r \<in> set (db_values ?b)" "?P r" for r
        unfolding owned using found_owns(3) [OF row] that(2) by simp
      show "\<not> isDefault (row_entity q) \<and> (q = r \<or> \<not> ?P q)"
        if r: "r \<in> set (db_values ?b)" "?P r" "\<not> isDefault (row_entity r)" and q: "q \<in> set (db_values ?b)" "alive q" "row_parent q = row_parent r" for r q
      proof (cases "ve_id (row_entity q) = i")
        case True
        then show ?thesis using sole [OF row in_b [OF r(1)]] sole [OF row in_b [OF q(1)]] r(2,3) by auto
      next
        case False
        have "row_parent q = ?p" using sole [OF row in_b [OF r(1)]] r(2) q(3) by auto
        then have "\<not> isDefault (row_entity q)" using False q(1,2) by (intro none_default [of q ?p i "db_values ?a"]) simp_all
        then show ?thesis using False by simp
      qed
      show "value_fits (presentation (row_entity n)) (?f (row_entity r))"
        if r: "r \<in> set (db_values ?b)" "?P r" and n: "n \<in> set (db_options ?b)" "oe_id (row_entity n) = row_parent r"
          and before: "value_fits (presentation (row_entity n)) (row_entity r)" for r n
      proof -
        have "r \<in> set (db_values ?a)" using r by (intro in_b) simp_all
        from fits [OF row ok this r(2) _ n(2) before] n(1) show ?thesis by (simp add: value_fits_def)
      qed
    qed (rule ids_f)+
    have "makeSoleDefault ?p i (update_scoped ve_id (owns_option t ?a) i (fold set_value_field patch) (db_values ?a)) = alter ?P ?f (?clear (db_values ?a))"
      unfolding makeSoleDefault_def update_scoped_alter alter_def update_rows_def map_map
    proof (rule map_cong [OF refl])
      fix r assume r: "r \<in> set (db_values ?a)"
      show "((\<lambda>x. if row_parent x = ?p \<and> alive x then x\<lparr>row_entity := (row_entity x)\<lparr>isDefault := ve_id (row_entity x) = i\<rparr>\<rparr> else x) \<circ>
          (\<lambda>x. if ?P x then x\<lparr>row_entity := fold set_value_field patch (row_entity x)\<rparr> else x)) r
        = ((\<lambda>x. if ?P x then x\<lparr>row_entity := ?f (row_entity x)\<rparr> else x) \<circ>
          (\<lambda>x. if row_parent x = ?p \<and> alive x \<and> ve_id (row_entity x) \<noteq> i then x\<lparr>row_entity := (row_entity x)\<lparr>isDefault := False\<rparr>\<rparr> else x)) r"
      proof (cases "ve_id (row_entity r) = i")
        case True
        then have "r = row" using sole [OF row r] by simp
        then show ?thesis using here by (simp add: scoped_def fold_keeps [where h = ve_id])
      qed simp
    qed
    then show ?thesis using edit_last [OF cleared step] by simp
  qed
  show ?thesis
    by (auto simp: update_value_def Let_def first_refusal_none intro!: touched_edits default plain split: option.split)
qed

lemma reorder_values_edits: "edits uuid t (pf_authoring db) (pf_authoring (snd (reorder_values t p entries db)))"
proof -
  let ?place = "\<lambda>(i, n). edit (\<lambda>a. a\<lparr>db_values := update_scoped ve_id (owns_option t a) i (\<lambda>v. v\<lparr>ve_sortOrder := n\<rparr>) (db_values a)\<rparr>)"
  have "edits uuid t (pf_authoring db) (pf_authoring (fold ?place es db))" for es db
  proof (induction es arbitrary: db)
    case (Cons e es)
    obtain i n where e: "e = (i, n)" by (cases e)
    have "edit_step uuid t (pf_authoring db) (pf_authoring (?place e db))"
      unfolding e update_scoped_alter by (auto intro!: edit_step.values_altered simp: value_fits_def intro: scoped_owned)
    then show ?case using Cons.IH by (simp add: converse_rtranclp_into_rtranclp)
  qed simp
  then show ?thesis by (simp add: reorder_values_def Let_def touched_edits)
qed

lemma remove_value_edits:
  assumes "now \<noteq> LIVE_SENTINEL"
  shows "edits uuid t (pf_authoring db) (pf_authoring (snd (remove_value t now i db)))"
proof -
  let ?a = "pf_authoring db"
  let ?V = "\<lambda>r. ve_id (row_entity r) = i \<and> scoped (owns_option t ?a) r"
  have "edit_step uuid t ?a (withdraw (\<lambda>_. False) (\<lambda>_. False) ?V (\<lambda>_. False) (\<lambda>_. False) now ?a)"
    if "\<not> value_is_rule_target i ?a"
  proof (rule edit_step.rows_withdrawn [OF assms])
    show "False" if "q \<in> set (db_rules ?a)" "aims ''value'' q" "?V v" "ve_id (row_entity v) = aim q" for q v
      using that \<open>\<not> value_is_rule_target i ?a\<close> by (auto simp: value_is_rule_target_def list_ex_iff targets_def aims_def aim_def)
    show "owns_value t ?a (ve_id (row_entity r))" if "r \<in> set (db_values ?a)" "?V r" for r using that by (intro scoped_owned(3)) simp_all
  qed simp_all
  then have "edit_step uuid t ?a (?a\<lparr>db_values := delete_scoped ve_id (owns_option t ?a) i now (db_values ?a)\<rparr>)"
    if "\<not> value_is_rule_target i ?a"
    using that by (simp add: withdraw_def delete_scoped_retire)
  then show ?thesis by (auto simp: remove_value_def intro!: touched_edit split: option.split)
qed

lemma copy_value_fields [simp]: "ve_id (copyableValueFields s v) = ve_id v" "valueKey (copyableValueFields s v) = valueKey v"
  "isDefault (copyableValueFields s v) = isDefault v" "ve_design (copyableValueFields s v) = ve_design s"
  by (simp_all add: copyableValueFields_def)

lemma new_value_fields [simp]: "ve_id (new_value i k l n d) = i" "valueKey (new_value i k l n d) = k" "isDefault (new_value i k l n d) = d"
  by (simp_all add: new_value_def)

lemma duplicate_value_edits:
  assumes new: "unused (pf_authoring db) new_id" and types: "types_respected (pf_authoring db)"
  shows "edits uuid t (pf_authoring db) (pf_authoring (snd (duplicate_value t new_id i key db)))"
proof -
  let ?a = "pf_authoring db"
  have "edit_step uuid t ?a (?a\<lparr>db_values := db_values ?a @ [live_row (row_parent row) (copyableValueFields (row_entity row) (new_value new_id k l n False))]\<rparr>)"
    if row: "findValue t ?a i = Some row" and "assertRoomForValue t ?a (row_parent row) = None"
      and "assertValueKeyAvailable t ?a (row_parent row) k = None" for row k l n
  proof -
    have here: "row \<in> set (db_values ?a)" "owns_option t ?a (row_parent row)" "alive row" using found(3) [OF row] by (simp_all add: scoped_def)
    have "value_fits (presentation (row_entity m)) (copyableValueFields (row_entity row) (new_value new_id k l n False))"
      if "m \<in> set (db_options ?a)" "oe_id (row_entity m) = row_parent row" for m
      using types_value [OF types here(1,3) that] by (simp add: value_fits_def)
    then show ?thesis using that(2,3) here(2) new
      by (intro edit_step.value_added) (simp_all add: assertRoomForValue_def room count_owned assertValueKeyAvailable_def
          valueKeyExists_def children_key split: if_splits)
  qed
  then show ?thesis by (auto simp: duplicate_value_def Let_def intro!: touched_edit split: option.split)
qed

section \<open>Headings\<close>

lemma create_item_edits:
  assumes "unused (pf_authoring db) new_id"
  shows "edits uuid t (pf_authoring db) (pf_authoring (snd (create_item sc t new_id p input db)))"
proof -
  let ?a = "pf_authoring db"
  have "edit_step uuid t ?a (?a\<lparr>db_items := db_items ?a @ [live_row p e]\<rparr>)"
    if own: "owns_group t ?a p" and full: "assertWithinLimit (length (listItems t ?a p)) itemsPerGroup x = None" and "ie_id e = new_id" for e x
  proof -
    have "length (listItems t ?a p) = length (children_in (db_items ?a) p)"
      using mset_eq_length [OF list_owned [where owned = "owns_group t ?a" and p = p, OF own]] by (simp add: listItems_def)
    then show ?thesis using edit_step.items_added [of t ?a p "[e]" uuid] that assms by (simp add: room)
  qed
  then show ?thesis using found_owns(1)
    by (auto simp: create_item_def Let_def intro!: touched_edit split: option.split sum.split)
qed

lemma update_item_edits: "edits uuid t (pf_authoring db) (pf_authoring (snd (update_item sc t i changes db)))"
proof -
  let ?a = "pf_authoring db"
  have "edit_step uuid t ?a (?a\<lparr>db_items := update_scoped ie_id (owns_group t ?a) i f (db_items ?a)\<rparr>)" if "\<And>e. ie_id (f e) = ie_id e" for f
    unfolding update_scoped_alter using that by (intro edit_step.items_altered) (auto intro: scoped_owned)
  then show ?thesis by (auto simp: update_item_def Let_def intro!: touched_edit split: option.split sum.split)
qed

lemma remove_item_edits:
  assumes "now \<noteq> LIVE_SENTINEL"
  shows "edits uuid t (pf_authoring db) (pf_authoring (snd (remove_item t now i db)))"
proof -
  let ?a = "pf_authoring db"
  let ?I = "\<lambda>r. ie_id (row_entity r) = i \<and> scoped (owns_group t ?a) r"
  have "edit_step uuid t ?a (withdraw (\<lambda>_. False) (\<lambda>_. False) (\<lambda>_. False) ?I (\<lambda>_. False) now ?a)"
  proof (rule edit_step.rows_withdrawn [OF assms])
    show "owns_item t ?a (ie_id (row_entity r))" if "r \<in> set (db_items ?a)" "?I r" for r using that by (intro scoped_owned(4)) simp_all
  qed simp_all
  then have "edit_step uuid t ?a (?a\<lparr>db_items := delete_scoped ie_id (owns_group t ?a) i now (db_items ?a)\<rparr>)"
    by (simp add: withdraw_def delete_scoped_retire)
  then show ?thesis by (auto simp: remove_item_def intro!: touched_edit split: option.split)
qed

lemma reorder_items_edits: "edits uuid t (pf_authoring db) (pf_authoring (snd (reorder_items t s entries db)))"
proof -
  have "edits uuid t a (a\<lparr>db_items := reorder_rows ie_id (\<lambda>n e. e\<lparr>ie_sortOrder := n\<rparr>) entries (db_items a)\<rparr>)"
    if "\<forall>i\<in>fst ` set entries. owns_item t a i" for a
    using that by (intro reordered [where owned = "owns_item t" and upd = "\<lambda>f a. a\<lparr>db_items := f (db_items a)\<rparr>"] edit_step.items_altered)
      (auto simp: owns_item_def owns_row_alter)
  then have "edits uuid t a (a\<lparr>db_items := reorder_rows ie_id (\<lambda>n e. e\<lparr>ie_sortOrder := n\<rparr>) entries (db_items a)\<rparr>)"
    if "fst ` set entries \<subseteq> set (map ie_id (listItems t a s))" for a using that listed(4) by blast
  then show ?thesis by (simp add: reorder_items_def Let_def no_unknown touched_edits del: set_map)
qed

section \<open>Rules\<close>

lemma ruleCondition_fits: "ruleCondition uuid c = Some d \<Longrightarrow> condition_fits uuid d"
  by (cases "(uuid, c)" rule: ruleCondition.cases)
    (auto simp: condition_fits_def Let_def split: option.splits jsval.splits if_splits)

lemma those_some: "those (map f xs) = Some ys \<Longrightarrow> map f xs = map Some ys"
proof (induction xs arbitrary: ys)
  case (Cons x xs)
  then show ?case by (auto split: option.splits)
qed simp

lemma conditionsFor_fits:
  assumes "conditionsFor sc raw = Inr v"
  shows "conditions_fit (sc_uuid sc) v"
proof -
  obtain cs where cs: "ruleConditions (sc_uuid sc) raw = Some cs" "v = JArr cs"
    using assms by (auto simp: conditionsFor_def split: option.splits)
  then obtain rs where "raw = JArr rs" "those (map (ruleCondition (sc_uuid sc)) rs) = Some cs" "cs \<noteq> []" "length cs \<le> MAX_CONDITIONS_PER_RULE"
    by (cases raw) (auto split: option.splits if_splits)
  moreover have "condition_fits (sc_uuid sc) c" if "c \<in> set cs" for c
  proof -
    have "Some c \<in> set (map Some cs)" using that by simp
    then have "Some c \<in> ruleCondition (sc_uuid sc) ` set rs"
      unfolding those_some [OF \<open>those _ = _\<close>, symmetric] by simp
    then show ?thesis using ruleCondition_fits by auto
  qed
  ultimately show ?thesis using cs(2) by (simp add: conditions_fit_def list_all_iff)
qed

lemma actionValueFor_fits: "actionValueFor sc action raw = Inr v \<Longrightarrow> payload_fits action v"
  by (auto simp: actionValueFor_def payload_fits_def ruleActionValueSchema_def null_or_def ACTIONS_REQUIRING_A_VALUE_def split: if_splits)

lemma create_rule_edits:
  assumes "unused (pf_authoring db) new_id"
  shows "edits (sc_uuid sc) t (pf_authoring db) (pf_authoring (snd (create_rule sc t new_id s input db)))"
proof -
  let ?a = "pf_authoring db"
  have "edit_step (sc_uuid sc) t ?a (?a\<lparr>db_rules := db_rules ?a @ [live_row s r]\<rparr>)"
    if "owns_set t ?a s" "assertWithinLimit (count_scoped (owns_set t ?a) (db_rules ?a) s) rulesPerSet x = None"
      "conditionsFor sc (ri_conditions input) = Inr cs" "actionValueFor sc (ri_action input) (ri_actionValue input) = Inr v"
      "assertTargetIsWhatItClaims t ?a (ri_targetType input) (ri_targetId input) = None"
      and "rule_key r = new_id" "sr_conditions (re_rule r) = cs" "sr_action (re_rule r) = ri_action input" "sr_actionValue (re_rule r) = v"
      "sr_targetType (re_rule r) = ri_targetType input" "sr_targetId (re_rule r) = ri_targetId input" for r cs v x
    using that assms by (intro edit_step.rule_added)
      (auto simp: room count_owned rule_fits_def assertTargetIsWhatItClaims_def conditionsFor_fits actionValueFor_fits split: if_splits)
  then show ?thesis
    by (auto simp: create_rule_def Let_def rule_key_def intro!: touched_edit split: option.split sum.split)
qed

lemma change_rule_fields: "rule_key (change_rule c v w r) = rule_key r" "re_isEnabled (change_rule c v w r) = re_isEnabled r"
  "sr_targetType (re_rule (change_rule c v w r)) = given (rc_targetType c) (sr_targetType (re_rule r))"
  "sr_targetId (re_rule (change_rule c v w r)) = given (rc_targetId c) (sr_targetId (re_rule r))"
  "sr_action (re_rule (change_rule c v w r)) = given (rc_action c) (sr_action (re_rule r))"
  "sr_conditions (re_rule (change_rule c v w r)) = (if rc_conditions c = JUndef then sr_conditions (re_rule r) else v)"
  "sr_actionValue (re_rule (change_rule c v w r)) = (if revalued c then w else sr_actionValue (re_rule r))"
  by (simp_all add: change_rule_def rule_key_def)

lemma update_rule_edits:
  assumes ids: "unique_ids (pf_authoring db)"
  shows "edits (sc_uuid sc) t (pf_authoring db) (pf_authoring (snd (update_rule sc t i c db)))"
proof -
  let ?a = "pf_authoring db"
  have "edit_step (sc_uuid sc) t ?a (?a\<lparr>db_rules := update_scoped rule_key (owns_set t ?a) i (change_rule c v w) (db_rules ?a)\<rparr>)"
    if row: "findRule t ?a i = Some row"
      and v: "(if rc_conditions c = JUndef then Inr (sr_conditions (re_rule (row_entity row))) else conditionsFor sc (rc_conditions c)) = Inr v"
      and w: "(if revalued c then actionValueFor sc (given (rc_action c) (sr_action (re_rule (row_entity row)))) (payload_of (row_entity row) c)
        else Inr (sr_actionValue (re_rule (row_entity row)))) = Inr w"
      and target: "(if retargeted c then assertTargetIsWhatItClaims t ?a (given (rc_targetType c) (sr_targetType (re_rule (row_entity row))))
        (given (rc_targetId c) (sr_targetId (re_rule (row_entity row)))) else None) = None" for row v w
    unfolding update_scoped_alter
  proof (rule edit_step.rules_altered)
    fix r assume r: "r \<in> set (db_rules ?a)" "rule_key (row_entity r) = i \<and> scoped (owns_set t ?a) r"
    then show "owns_rule t ?a (rule_key (row_entity r))" by (intro scoped_owned(5)) simp_all
    have rr: "r = row" using found(5) [OF row] r(2) by (intro inj_onD [OF unique_rows(5) [OF ids] _ r(1)]) simp_all
    have "payload_fits (given (rc_action c) (sr_action (re_rule (row_entity r)))) w" if "revalued c"
      using w that rr by (auto intro: actionValueFor_fits)
    moreover have "given (rc_action c) x = x" if "\<not> revalued c" for x using that by (simp add: revalued_def given_def)
    moreover have "conditions_fit (sc_uuid sc) v" if "rc_conditions c \<noteq> JUndef" using v that by (auto intro: conditionsFor_fits)
    ultimately show "rule_fits (sc_uuid sc) (change_rule c v w (row_entity r))" if "rule_fits (sc_uuid sc) (row_entity r)"
      using that by (auto simp: rule_fits_def change_rule_fields)
    show "(sr_targetType (re_rule (change_rule c v w (row_entity r))) = sr_targetType (re_rule (row_entity r))
        \<and> sr_targetId (re_rule (change_rule c v w (row_entity r))) = sr_targetId (re_rule (row_entity r)))
      \<or> targetExists t ?a (sr_targetType (re_rule (change_rule c v w (row_entity r)))) (sr_targetId (re_rule (change_rule c v w (row_entity r))))"
      using target rr by (auto simp: change_rule_fields assertTargetIsWhatItClaims_def retargeted_def given_def split: if_splits)
  qed (simp_all add: change_rule_fields)
  then show ?thesis
    by (cases "no_rule_changes c")
      (auto simp: update_rule_def Let_def intro!: touched_edit split: option.split sum.split split del: if_split)
qed

lemma remove_rule_edits:
  assumes "now \<noteq> LIVE_SENTINEL"
  shows "edits uuid t (pf_authoring db) (pf_authoring (snd (remove_rule t now i db)))"
proof -
  let ?a = "pf_authoring db"
  have "edit_step uuid t ?a (?a\<lparr>db_rules := delete_scoped rule_key (owns_set t ?a) i now (db_rules ?a)\<rparr>)"
    unfolding delete_scoped_retire
  proof (rule edit_step.rule_dropped [OF assms])
    show "owns_rule t ?a (rule_key (row_entity r))" if "r \<in> set (db_rules ?a)" "rule_key (row_entity r) = i \<and> scoped (owns_set t ?a) r" for r
      using that by (intro scoped_owned(5)) simp_all
  qed
  then show ?thesis by (auto simp: remove_rule_def intro!: touched_edit split: option.split)
qed

lemma reorder_rules_edits: "edits uuid t (pf_authoring db) (pf_authoring (snd (reorder_rules t s entries db)))"
proof -
  let ?place = "\<lambda>n r. r\<lparr>re_rule := (re_rule r)\<lparr>sr_sortOrder := n\<rparr>\<rparr>"
  have "edits uuid t a (a\<lparr>db_rules := reorder_rows rule_key ?place entries (db_rules a)\<rparr>)"
    if "\<forall>i\<in>fst ` set entries. owns_rule t a i" for a
    using that by (intro reordered [where owned = "owns_rule t" and upd = "\<lambda>f a. a\<lparr>db_rules := f (db_rules a)\<rparr>"] edit_step.rules_altered)
      (auto simp: owns_rule_def owns_row_alter rule_key_def rule_fits_def)
  then have "edits uuid t a (a\<lparr>db_rules := reorder_rows rule_key ?place entries (db_rules a)\<rparr>)"
    if "fst ` set entries \<subseteq> set (map rule_key (listRules t a s))" for a using that listed(5) by blast
  then show ?thesis by (simp add: reorder_rules_def Let_def no_unknown touched_edits del: set_map)
qed

section \<open>Copies\<close>

definition fresh_supply :: "(nat \<Rightarrow> string) \<Rightarrow> authoring_db \<Rightarrow> bool" where
  "fresh_supply new_id adb \<longleftrightarrow> inj new_id \<and> (\<forall>n. unused adb (new_id n))"

lemma numbered_copies:
  assumes "follows \<rho> new_id (Suc m) (map ve_id vs)"
  shows "map (\<lambda>(n, v). live_row p (copy_value (new_id (Suc n)) v)) (enumerate m vs) = map (\<lambda>v. live_row p (copy_value (\<rho> (ve_id v)) v)) vs"
  using assms by (induction vs arbitrary: m) simp_all

lemma values_of_ids: "unique_ids a \<Longrightarrow> distinct (map ve_id (values_of a p))"
  using distinct_nested [of ve_id "db_values a" "[p]" value_position]
  by (simp add: values_of_def unique_ids_def all_ids_def o_def)

lemma duplicate_option_edits:
  assumes fresh: "fresh_supply new_id (pf_authoring db)" and ids: "unique_ids (pf_authoring db)"
  shows "edits uuid t (pf_authoring db) (pf_authoring (snd (duplicate_option t new_id i key db)))"
proof -
  let ?a = "pf_authoring db"
  let ?vs = "values_of ?a i"
  obtain \<rho> where \<rho>: "follows \<rho> new_id (Suc 0) (map ve_id ?vs)" "inj_on \<rho> (set (map ve_id ?vs))"
    using follows_exists [OF values_of_ids [OF ids]] fresh unfolding fresh_supply_def by blast
  have step: "edit_step uuid t ?a (?a\<lparr>db_options := db_options ?a @ [live_row (row_parent row) (copyableOptionFields (row_entity row) (new_option (new_id 0) k l n))],
      db_values := db_values ?a @ copied_values new_id (new_id 0) (map row_entity (find_in_order value_position [i] (db_values ?a)))\<rparr>)"
    if row: "findOption t ?a i = Some row" and room: "assertRoomForOption t ?a (row_parent row) = None"
      and key: "assertKeyAvailable t ?a (row_parent row) k = None" for row k l n
  proof -
    let ?c = "\<lambda>m. copyableOptionFields m (new_option (new_id 0) k l n)" and ?p = "row_parent row"
    have here: "row \<in> set (db_options ?a)" "oe_id (row_entity row) = i" "owns_group t ?a ?p" "alive row"
      using found(2) [OF row] by (simp_all add: scoped_def)
    have c: "oe_id (?c m) = new_id 0" "oe_key (?c m) = k" "presentation (?c m) = presentation m" "textDesign (?c m) = textDesign m" for m
      by (simp_all add: copyableOptionFields_def new_option_def)
    have vs: "grafted_values \<rho> ?c ?a [row_entity row] = map (\<lambda>v. live_row (new_id 0) (copy_value (\<rho> (ve_id v)) v)) ?vs"
      by (simp add: grafted_values_def c here(2))
    have "new_id 0 \<notin> new_id ` {Suc 0..}" "new_id ` {Suc 0..} \<subseteq> range new_id" using fresh by (auto simp: fresh_supply_def dest: injD)
    then have new: "new_id 0 \<notin> \<rho> ` set (map ve_id ?vs)" "\<rho> ` set (map ve_id ?vs) \<subseteq> range new_id"
      using follows_range [OF \<rho>(1)] by blast+
    have "edit_step uuid t ?a (?a\<lparr>db_options := db_options ?a @ map (\<lambda>m. live_row ?p (?c m)) [row_entity row],
        db_values := db_values ?a @ grafted_values \<rho> ?c ?a [row_entity row]\<rparr>)"
    proof (rule edit_step.options_grafted)
      show "length (children_in (db_options ?a) ?p) + length [row_entity row] \<le> optionsPerGroup"
        using room here(3) by (simp add: assertRoomForOption_def Authoring_Correct.room count_owned)
      show "distinct (map (oe_id \<circ> ?c) [row_entity row] @ row_ids ve_id (grafted_values \<rho> ?c ?a [row_entity row]))"
        using new(1) \<rho>(2) values_of_ids [OF ids, of i] by (auto simp: vs c o_def distinct_map comp_inj_on [unfolded o_def])
      show "unused ?a j" if "j \<in> set (map (oe_id \<circ> ?c) [row_entity row] @ row_ids ve_id (grafted_values \<rho> ?c ?a [row_entity row]))" for j
      proof -
        have "j = new_id 0 \<or> j \<in> \<rho> ` set (map ve_id ?vs)" using that by (auto simp: vs c)
        then have "j \<in> range new_id" using new(2) by blast
        then show ?thesis using fresh by (auto simp: fresh_supply_def)
      qed
      show "(?p, oe_key (?c m)) \<notin> set (keys_of oe_key (db_options ?a))" for m
        using key here(3) by (simp add: c assertKeyAvailable_def keyExists_def children_key split: if_splits)
    qed (use here in \<open>auto simp: c text_fits_def\<close>)
    moreover have "copied_values new_id (new_id 0) (map row_entity (find_in_order value_position [i] (db_values ?a)))
        = grafted_values \<rho> ?c ?a [row_entity row]"
      unfolding vs copied_values_def values_of_def [symmetric] by (rule numbered_copies [OF \<rho>(1)])
    ultimately show ?thesis by simp
  qed
  then show ?thesis by (auto simp: duplicate_option_def Let_def intro!: touched_edit split: option.split)
qed

text \<open>What \<open>copyOptionsInto\<close> adds depends neither on the groups nor on the map, and it leaves the other tables.\<close>

definition agree :: "copying \<Rightarrow> copying \<Rightarrow> bool" where
  "agree st st' \<longleftrightarrow> cp_next st = cp_next st' \<and> db_options (cp_db st) = db_options (cp_db st') \<and> db_values (cp_db st) = db_values (cp_db st')
     \<and> db_items (cp_db st) = db_items (cp_db st')"

definition same_rest :: "copying \<Rightarrow> copying \<Rightarrow> bool" where
  "same_rest st st' \<longleftrightarrow> db_sets (cp_db st) = db_sets (cp_db st') \<and> db_groups (cp_db st) = db_groups (cp_db st') \<and> db_rules (cp_db st) = db_rules (cp_db st')"

lemma fold_agree: "agree st st' \<Longrightarrow> (\<And>x st st'. agree st st' \<Longrightarrow> agree (f x st) (f x st')) \<Longrightarrow> agree (fold f xs st) (fold f xs st')"
  by (induction xs arbitrary: st st') simp_all

lemma fold_same_rest: "(\<And>x st. same_rest (f x st) st) \<Longrightarrow> same_rest (fold f xs st) st"
proof (induction xs arbitrary: st)
  case (Cons x xs)
  then have "same_rest (fold f xs (f x st)) (f x st)" "same_rest (f x st) st" by simp_all
  then show ?case by (simp add: same_rest_def)
qed (simp add: same_rest_def)

lemma save_option_agree: "agree st st' \<Longrightarrow> agree (save_option new_id p vs n st) (save_option new_id p vs n st')"
  unfolding save_option_def Let_def
  by (subgoal_tac "cp_next st = cp_next st'", simp only:, rule fold_agree) (auto simp: agree_def save_value_def Let_def)

lemma save_option_same_rest: "same_rest (save_option new_id p vs n st) st"
proof -
  let ?st = "st\<lparr>cp_db := (cp_db st)\<lparr>db_options := db_options (cp_db st) @ [live_row p (copy_option (new_id (cp_next st)) n)]\<rparr>,
      cp_next := Suc (cp_next st), idMap := map_set (oe_id n) (new_id (cp_next st)) (idMap st)\<rparr>"
  have "same_rest (fold (save_value new_id (new_id (cp_next st))) (bucket_of vs (oe_id n)) ?st) ?st"
    by (rule fold_same_rest) (simp add: same_rest_def save_value_def Let_def)
  then show ?thesis by (simp add: save_option_def Let_def same_rest_def)
qed

lemma copyOptionsInto_agree:
  assumes "agree st st'"
  shows "agree (copyOptionsInto new_id p q st) (copyOptionsInto new_id p q st')"
proof -
  let ?ns = "find_in_order option_position [p] (db_options (cp_db st))"
  let ?vs = "groupBy (find_in_order value_position (map (\<lambda>r. oe_id (row_entity r)) ?ns) (db_values (cp_db st)))"
  let ?run = "fold (save_option new_id q ?vs) (map row_entity ?ns)"
  have run: "agree (?run st) (?run st')" using assms by (rule fold_agree) (rule save_option_agree)
  then have "agree (fold (save_item new_id q) is (?run st)) (fold (save_item new_id q) is (?run st'))" for "is"
    by (rule fold_agree) (simp add: agree_def save_item_def)
  then show ?thesis using assms run by (simp add: copyOptionsInto_def Let_def agree_def)
qed

lemma copyOptionsInto_same_rest: "same_rest (copyOptionsInto new_id p q st) st"
proof -
  have options: "same_rest (fold (save_option new_id q vs) ns st) st" for vs ns by (rule fold_same_rest) (rule save_option_same_rest)
  have items: "same_rest (fold (save_item new_id q) is st') st'" for "is" st' by (rule fold_same_rest) (simp add: same_rest_def save_item_def)
  show ?thesis using options items by (simp add: copyOptionsInto_def Let_def same_rest_def)
qed

lemma group_copied:
  assumes fresh: "fresh_supply new_id a" and ids: "unique_ids a" and row: "row \<in> set (db_groups a)" "alive row"
    and st: "st = \<lparr>cp_db = a\<lparr>db_groups := db_groups a @ [live_row s g]\<rparr>, cp_next = 1, idMap = []\<rparr>"
  obtains \<rho> where "follows \<rho> new_id 0 (map job_key (group_jobs a (row_entity row)))" "inj_on \<rho> (set (map job_key (group_jobs a (row_entity row))))"
    "cp_db (copyOptionsInto new_id (ge_id (row_entity row)) (new_id 0) st) = a\<lparr>db_groups := db_groups a @ [live_row s g],
       db_options := db_options a @ map (\<lambda>n. live_row (new_id 0) (copy_option (\<rho> (oe_id n)) n)) (options_of a (ge_id (row_entity row))),
       db_values := db_values a @ grafted_values \<rho> (\<lambda>n. copy_option (\<rho> (oe_id n)) n) a (options_of a (ge_id (row_entity row))),
       db_items := db_items a @ map (\<lambda>e. live_row (new_id 0) (copy_item (\<rho> (ie_id e)) e)) (copied_items a (row_entity row))\<rparr>"
    "distinct (map job_key (group_jobs a (row_entity row)))"
proof -
  let ?e = "row_entity row" and ?i = "ge_id (row_entity row)" and ?st0 = "\<lparr>cp_db = a, cp_next = 0, idMap = []\<rparr>"
  let ?js = "group_jobs a ?e"
  have all: "distinct (all_ids a)" using ids by (simp add: unique_ids_def)
  have "?e \<in> set (groups_of a (row_parent row))" using row by (auto simp: find_in_order_set)
  then obtain xs ys where "groups_of a (row_parent row) = xs @ ?e # ys" by (meson split_list)
  then have keys: "distinct (map job_key ?js)" using copy_keys_distinct [OF all, of "row_parent row"] by simp
  then obtain \<rho> where \<rho>: "follows \<rho> new_id 0 (map job_key ?js)" "inj_on \<rho> (set (map job_key ?js))"
    using follows_exists fresh unfolding fresh_supply_def by blast
  have old: "k \<notin> range new_id" if "k \<in> set (all_ids a)" for k using that fresh by (auto simp: fresh_supply_def unused_def)
  have "?i \<in> set (all_ids a)" using row by (auto simp: all_ids_def)
  moreover have "oe_id ` set (options_of a ?i) \<subseteq> set (all_ids a)" by (auto simp: options_of_def find_in_order_set all_ids_def)
  moreover have "grown (range new_id) a ?st0" by (simp add: grown_def)
  ultimately have saved: "save_group new_id s ?e ?st0 = fold (run_job new_id s) ?js ?st0"
    using keys old by (intro save_group_jobs [where K = "range new_id"]) auto
  have "jobs_done \<rho> s ?js ?st0 (save_group new_id s ?e ?st0)"
    unfolding saved by (rule run_jobs_done) (simp_all add: \<rho>(1) consistent_def parents_known_group)
  then have tables: "db_options (cp_db (save_group new_id s ?e ?st0)) = db_options a @ flat_map (option_row \<rho>) ?js"
    "db_values (cp_db (save_group new_id s ?e ?st0)) = db_values a @ flat_map (value_row \<rho>) ?js"
    "db_items (cp_db (save_group new_id s ?e ?st0)) = db_items a @ flat_map (item_row \<rho>) ?js"
    by (simp_all add: jobs_done_def)
  have zero: "\<rho> ?i = new_id 0" using \<rho>(1) by (simp add: group_jobs_def)
  have "flat_map (option_row \<rho>) ?js = map (\<lambda>n. live_row (new_id 0) (copy_option (\<rho> (oe_id n)) n)) (options_of a ?i)"
    "flat_map (value_row \<rho>) ?js = grafted_values \<rho> (\<lambda>n. copy_option (\<rho> (oe_id n)) n) a (options_of a ?i)"
    "flat_map (item_row \<rho>) ?js = map (\<lambda>e. live_row (new_id 0) (copy_item (\<rho> (ie_id e)) e)) (copied_items a ?e)"
    using group_jobs_rows(2-4) [of \<rho> a "[?e]"] by (simp_all add: zero grafted_values_def copy_option_def new_option_def)
  note tables = tables [unfolded this]
  have "save_group new_id s ?e ?st0 = copyOptionsInto new_id ?i (new_id 0)
      (?st0\<lparr>cp_db := a\<lparr>db_groups := db_groups a @ [live_row s (copy_group (new_id 0) ?e)]\<rparr>, cp_next := 1, idMap := map_set ?i (new_id 0) []\<rparr>)"
    by (simp add: save_group_def Let_def)
  moreover have "agree st (?st0\<lparr>cp_db := a\<lparr>db_groups := db_groups a @ [live_row s (copy_group (new_id 0) ?e)]\<rparr>, cp_next := 1, idMap := map_set ?i (new_id 0) []\<rparr>)"
    by (simp add: agree_def st)
  ultimately have ag: "agree (copyOptionsInto new_id ?i (new_id 0) st) (save_group new_id s ?e ?st0)"
    by (metis copyOptionsInto_agree)
  have "same_rest (copyOptionsInto new_id ?i (new_id 0) st) st" by (rule copyOptionsInto_same_rest)
  then have "cp_db (copyOptionsInto new_id ?i (new_id 0) st) = a\<lparr>db_groups := db_groups a @ [live_row s g],
       db_options := db_options a @ map (\<lambda>n. live_row (new_id 0) (copy_option (\<rho> (oe_id n)) n)) (options_of a ?i),
       db_values := db_values a @ grafted_values \<rho> (\<lambda>n. copy_option (\<rho> (oe_id n)) n) a (options_of a ?i),
       db_items := db_items a @ map (\<lambda>e. live_row (new_id 0) (copy_item (\<rho> (ie_id e)) e)) (copied_items a ?e)\<rparr>"
    using ag tables by (intro authoring_db.equality) (simp_all add: agree_def same_rest_def st)
  then show ?thesis using that \<rho> keys by blast
qed

lemma job_keys_distinct:
  assumes "distinct (map job_key (group_jobs a g))"
  shows "distinct (ge_id g # map oe_id (options_of a (ge_id g))
    @ map ve_id (flat_map (\<lambda>n. values_of a (oe_id n)) (options_of a (ge_id g))) @ map ie_id (copied_items a g))"
    and "set (ge_id g # map oe_id (options_of a (ge_id g))
    @ map ve_id (flat_map (\<lambda>n. values_of a (oe_id n)) (options_of a (ge_id g))) @ map ie_id (copied_items a g)) = set (map job_key (group_jobs a g))"
proof -
  have eq: "mset (map job_key (group_jobs a g)) = mset (ge_id g # map oe_id (options_of a (ge_id g))
    @ map ve_id (flat_map (\<lambda>n. values_of a (oe_id n)) (options_of a (ge_id g))) @ map ie_id (copied_items a g))"
    using job_keys_parts [of a "[g]"] by simp
  from mset_eq_imp_distinct_iff [OF this] show "distinct (ge_id g # map oe_id (options_of a (ge_id g))
    @ map ve_id (flat_map (\<lambda>n. values_of a (oe_id n)) (options_of a (ge_id g))) @ map ie_id (copied_items a g))"
    using assms by (rule iffD1)
  show "set (ge_id g # map oe_id (options_of a (ge_id g))
    @ map ve_id (flat_map (\<lambda>n. values_of a (oe_id n)) (options_of a (ge_id g))) @ map ie_id (copied_items a g)) = set (map job_key (group_jobs a g))"
    by (rule mset_eq_setD [OF eq, symmetric])
qed

lemma grafted_ids: "row_ids ve_id (grafted_values \<rho> c a ns) = map \<rho> (map ve_id (flat_map (\<lambda>n. values_of a (oe_id n)) ns))"
  by (induction ns) (simp_all add: grafted_values_def)

lemma grafted_parents: "set (map row_parent (grafted_values \<rho> c a ns)) \<subseteq> set (map (oe_id \<circ> c) ns)"
  by (auto simp: grafted_values_def)

lemma options_of_length: "length (options_of a p) = length (children_in (db_options a) p)" "length (items_of a p) = length (children_in (db_items a) p)"
  using mset_eq_length [OF find_in_order_perm] by (simp_all add: options_of_def items_of_def)

lemma unused_children: "unused a p \<Longrightarrow> children_in (db_options a) p = []" "unused a p \<Longrightarrow> children_in (db_items a) p = []"
  "unused a p \<Longrightarrow> (p, k) \<notin> set (keys_of oe_key (db_options a))"
  using id_used(5,6) by (auto simp: filter_empty_conv keys_of_def)

lemma distinct_map_parts:
  assumes "distinct (map f (x # xs @ ys @ zs))"
  shows "distinct (map f (xs @ ys))" "distinct (map f zs)" "j \<in> set (xs @ ys @ zs) \<Longrightarrow> f j \<noteq> f x"
    "j \<in> set zs \<Longrightarrow> f j \<notin> set (map f xs)" "j \<in> set zs \<Longrightarrow> f j \<notin> set (map f ys)"
proof -
  have "distinct (f x # map f xs @ map f ys @ map f zs)" using assms by simp
  then have d: "distinct (map f xs)" "distinct (map f ys)" "distinct (map f zs)" "f x \<notin> set (map f xs @ map f ys @ map f zs)"
    "set (map f xs) \<inter> set (map f ys) = {}" "set (map f xs) \<inter> set (map f zs) = {}" "set (map f ys) \<inter> set (map f zs) = {}"
    unfolding distinct.simps distinct_append set_append by blast+
  show "distinct (map f (xs @ ys))" unfolding map_append distinct_append using d by blast
  show "distinct (map f zs)" by (rule d(3))
  show "f j \<noteq> f x" if "j \<in> set (xs @ ys @ zs)"
  proof -
    have "f j \<in> set (map f xs @ map f ys @ map f zs)" using that by auto
    then show ?thesis using d(4) by metis
  qed
  have j: "f j \<in> set (map f zs)" if "j \<in> set zs" using that by simp
  show "f j \<notin> set (map f xs)" "f j \<notin> set (map f ys)" if "j \<in> set zs" using j [OF that] d(6,7) by blast+
qed

lemma group_copied_edits:
  assumes fresh: "fresh_supply new_id a" and sound: "unique_ids a" "keys_unique a" "within_limits a"
    and row: "row \<in> set (db_groups a)" "scoped (owns_set t a) row"
    and room: "length (children_in (db_groups a) (row_parent row)) < groupsPerSet" and g: "ge_id g = new_id 0"
    and st: "st = \<lparr>cp_db = a\<lparr>db_groups := db_groups a @ [live_row (row_parent row) g]\<rparr>, cp_next = 1, idMap = []\<rparr>"
  shows "edits uuid t a (cp_db (copyOptionsInto new_id (ge_id (row_entity row)) (new_id 0) st))"
proof -
  let ?e = "row_entity row" and ?i = "ge_id (row_entity row)" and ?s = "row_parent row" and ?p = "new_id 0"
  have here: "alive row" using row(2) by (simp add: scoped_def)
  obtain \<rho> where \<rho>: "follows \<rho> new_id 0 (map job_key (group_jobs a ?e))" "inj_on \<rho> (set (map job_key (group_jobs a ?e)))"
    and result: "cp_db (copyOptionsInto new_id ?i ?p st) = a\<lparr>db_groups := db_groups a @ [live_row ?s g],
       db_options := db_options a @ map (\<lambda>n. live_row ?p (copy_option (\<rho> (oe_id n)) n)) (options_of a ?i),
       db_values := db_values a @ grafted_values \<rho> (\<lambda>n. copy_option (\<rho> (oe_id n)) n) a (options_of a ?i),
       db_items := db_items a @ map (\<lambda>e. live_row ?p (copy_item (\<rho> (ie_id e)) e)) (copied_items a ?e)\<rparr>"
    and keys: "distinct (map job_key (group_jobs a ?e))"
    by (rule group_copied [OF fresh sound(1) row(1) here st])
  let ?ns = "options_of a ?i" and ?c = "\<lambda>n. copy_option (\<rho> (oe_id n)) n" and ?es = "copied_items a ?e"
  let ?vs = "flat_map (\<lambda>n. values_of a (oe_id n)) ?ns"
  let ?a1 = "a\<lparr>db_groups := db_groups a @ [live_row ?s g]\<rparr>"
  let ?a2 = "?a1\<lparr>db_options := db_options ?a1 @ map (\<lambda>n. live_row ?p (?c n)) ?ns, db_values := db_values ?a1 @ grafted_values \<rho> ?c ?a1 ?ns\<rparr>"
  have parts: "distinct (?i # map oe_id ?ns @ map ve_id ?vs @ map ie_id ?es)"
      "inj_on \<rho> (set (?i # map oe_id ?ns @ map ve_id ?vs @ map ie_id ?es))"
      "\<rho> ` set (?i # map oe_id ?ns @ map ve_id ?vs @ map ie_id ?es) \<subseteq> range new_id"
    using job_keys_distinct [OF keys] \<rho>(2) follows_range [OF \<rho>(1)] by auto
  have copies: "distinct (map \<rho> (?i # map oe_id ?ns @ map ve_id ?vs @ map ie_id ?es))"
    using parts(1,2) by (simp only: distinct_map)
  note copies = distinct_map_parts [OF copies]
  have zero: "\<rho> ?i = ?p" using \<rho>(1) by (simp add: group_jobs_def)
  have unused: "unused a (\<rho> k)" if "k \<in> set (?i # map oe_id ?ns @ map ve_id ?vs @ map ie_id ?es)" for k
  proof -
    have "\<rho> k \<in> range new_id" using that parts(3) by blast
    then show ?thesis using fresh by (auto simp: fresh_supply_def)
  qed
  have unused_p: "unused a ?p" using fresh by (simp add: fresh_supply_def)
  have own_s: "owns_set t a ?s" using row(2) by (simp add: scoped_def)
  then have "?s \<in> st_id ` set (db_sets a)" by (auto simp: owns_set_def list_ex_iff image_iff intro: sym)
  then have s_used: "\<not> unused a ?s" by (simp add: unused_def)
  have c: "oe_id (?c n) = \<rho> (oe_id n)" "oe_key (?c n) = oe_key n" "presentation (?c n) = presentation n" "text_fits (?c n)" for n
    by (simp_all add: copy_option_def new_option_def text_fits_def absent_def)
  have values_same: "values_of ?a1 = values_of a" by (simp add: values_of_def fun_eq_iff)
  then have grafted: "grafted_values \<rho> ?c ?a1 ?ns = grafted_values \<rho> ?c a ?ns" by (simp add: grafted_values_def)
  have all1: "unused ?a1 k" if "unused a k" "k \<noteq> ?p" for k
    using that s_used by (auto simp: unused_def all_ids_def all_parents_def g)
  have step1: "edit_step uuid t a ?a1" using own_s room unused_p g by (intro edit_step.group_added) simp_all
  have own1: "owns_group t ?a1 ?p" using own_s g by (simp add: owns_group_def owns_row_iff)
  have step2: "edit_step uuid t ?a1 ?a2"
  proof (rule edit_step.options_grafted [OF own1])
    show "length (children_in (db_options ?a1) ?p) + length ?ns \<le> optionsPerGroup"
      using within_limitsD(2) [OF sound(3), of ?i] by (simp add: unused_children(1) [OF unused_p] options_of_length)
    show "\<exists>r\<in>set (db_options ?a1). alive r \<and> row_entity r = n" if "n \<in> set ?ns" for n
      using that by (auto simp: options_of_def find_in_order_set)
    have new: "map (oe_id \<circ> ?c) ?ns @ row_ids ve_id (grafted_values \<rho> ?c ?a1 ?ns) = map \<rho> (map oe_id ?ns @ map ve_id ?vs)"
      unfolding grafted grafted_ids by (simp add: o_def c(1))
    show "distinct (map (oe_id \<circ> ?c) ?ns @ row_ids ve_id (grafted_values \<rho> ?c ?a1 ?ns))"
      unfolding new by (rule copies(1))
    show "unused ?a1 k" if k: "k \<in> set (map (oe_id \<circ> ?c) ?ns @ row_ids ve_id (grafted_values \<rho> ?c ?a1 ?ns))" for k
    proof -
      obtain j where j: "j \<in> set (map oe_id ?ns @ map ve_id ?vs)" "k = \<rho> j" using k unfolding new set_map by blast
      then have "k \<noteq> ?p" using copies(3) [of j] unfolding zero [symmetric] by (simp only: set_append Un_iff) blast
      moreover have "unused a k" unfolding j(2) by (rule unused) (use j(1) in auto)
      ultimately show ?thesis by (intro all1)
    qed
    show "distinct (map (oe_key \<circ> ?c) ?ns)" using sound(2) find_in_order_keys [of oe_key "db_options a"]
      by (simp add: c(2) o_def options_of_def keys_unique_def)
    show "(?p, oe_key (?c n)) \<notin> set (keys_of oe_key (db_options ?a1))" for n using unused_children(3) [OF unused_p] by simp
  qed (rule c)+
  have step3: "edit_step uuid t ?a2 (?a2\<lparr>db_items := db_items ?a2 @ map (live_row ?p) (map (\<lambda>e. copy_item (\<rho> (ie_id e)) e) ?es)\<rparr>)"
  proof (rule edit_step.items_added)
    show "owns_group t ?a2 ?p" using own1 by simp
    have "length ?es \<le> length (items_of a ?i)" by (simp add: copied_items_def)
    then show "length (children_in (db_items ?a2) ?p) + length (map (\<lambda>e. copy_item (\<rho> (ie_id e)) e) ?es) \<le> itemsPerGroup"
      using within_limitsD(4) [OF sound(3), of ?i] by (simp add: unused_children(2) [OF unused_p] options_of_length)
    have item: "ie_id (copy_item k e) = k" for k e by (simp add: copy_item_def copyableItemFields_def)
    then have new: "map ie_id (map (\<lambda>e. copy_item (\<rho> (ie_id e)) e) ?es) = map \<rho> (map ie_id ?es)" by simp
    show "distinct (map ie_id (map (\<lambda>e. copy_item (\<rho> (ie_id e)) e) ?es))" unfolding new by (rule copies(2))
    show "unused ?a2 (ie_id e)" if e: "e \<in> set (map (\<lambda>e. copy_item (\<rho> (ie_id e)) e) ?es)" for e
    proof -
      obtain j where j: "j \<in> set (map ie_id ?es)" "ie_id e = \<rho> j" using e item by auto
      have other: "\<rho> j \<noteq> ?p" "\<rho> j \<notin> set (map \<rho> (map oe_id ?ns))" "\<rho> j \<notin> set (map \<rho> (map ve_id ?vs))"
        using copies(3-5) [of j] j(1) unfolding zero [symmetric] by simp_all
      have u: "unused ?a1 (\<rho> j)" by (rule all1 [OF unused other(1)]) (use j(1) in auto)
      have "\<rho> j \<notin> set (row_ids ve_id (grafted_values \<rho> ?c a ?ns))" unfolding grafted_ids by (rule other(3))
      moreover have opts: "map (oe_id \<circ> ?c) ?ns = map \<rho> (map oe_id ?ns)" by (simp add: c(1) o_def)
      then have "\<rho> j \<notin> set (map row_parent (grafted_values \<rho> ?c a ?ns))" using grafted_parents [of \<rho> ?c a ?ns] other(2) by auto
      moreover have "\<rho> j \<notin> set (map (\<lambda>n. oe_id (?c n)) ?ns)" using other(2) opts by (simp add: o_def)
      ultimately show ?thesis using u other(1) unfolding j(2) grafted by (auto simp: unused_def all_ids_def all_parents_def)
    qed
  qed
  have "edits uuid t a (?a2\<lparr>db_items := db_items ?a2 @ map (live_row ?p) (map (\<lambda>e. copy_item (\<rho> (ie_id e)) e) ?es)\<rparr>)"
    using edit_last [OF edit_last [OF one_edit [OF step1] step2] step3] .
  then show ?thesis unfolding result grafted by (simp add: o_def)
qed

lemma duplicate_group_edits:
  assumes fresh: "fresh_supply new_id (pf_authoring db)"
    and sound: "unique_ids (pf_authoring db)" "keys_unique (pf_authoring db)" "within_limits (pf_authoring db)"
  shows "edits uuid t (pf_authoring db) (pf_authoring (snd (duplicate_group t new_id i label db)))"
proof -
  let ?a = "pf_authoring db"
  have "edits uuid t ?a (cp_db (copyOptionsInto new_id i (new_id 0)
      \<lparr>cp_db = ?a\<lparr>db_groups := db_groups ?a @ [live_row (row_parent row) g]\<rparr>, cp_next = Suc 0, idMap = []\<rparr>))"
    if row: "findGroup t ?a i = Some row" and full: "assertRoomForGroup t ?a (row_parent row) = None" and g: "ge_id g = new_id 0" for row g
  proof -
    have here: "row \<in> set (db_groups ?a)" "ge_id (row_entity row) = i" "scoped (owns_set t ?a) row" using found(1) [OF row] by simp_all
    have "length (children_in (db_groups ?a) (row_parent row)) < groupsPerSet"
      using full here(3) by (simp add: assertRoomForGroup_def room count_owned scoped_def)
    from group_copied_edits [OF fresh sound here(1,3) this g refl, of uuid] show ?thesis by (simp add: here(2))
  qed
  then show ?thesis by (auto simp: duplicate_group_def Let_def intro!: touched_edits split: option.split)
qed

section \<open>Sequences of requests\<close>

text \<open>The ids the database hands out are in no row, and rows are not deleted at the date that marks a live row.\<close>

fun admissible :: "request \<Rightarrow> authoring_db \<Rightarrow> bool" where
  "admissible (CreateGroup new_id i input) a = unused a new_id"
| "admissible (RemoveGroup now i) a = (now \<noteq> LIVE_SENTINEL)"
| "admissible (DuplicateGroup new_id i label) a = fresh_supply new_id a"
| "admissible (CreateOption new_id i input) a = unused a new_id"
| "admissible (RemoveOption now i) a = (now \<noteq> LIVE_SENTINEL)"
| "admissible (DuplicateOption new_id i key) a = fresh_supply new_id a"
| "admissible (CreateValue new_id i input) a = unused a new_id"
| "admissible (RemoveValue now i) a = (now \<noteq> LIVE_SENTINEL)"
| "admissible (DuplicateValue new_id i key) a = unused a new_id"
| "admissible (CreateItem new_id i input) a = unused a new_id"
| "admissible (RemoveItem now i) a = (now \<noteq> LIVE_SENTINEL)"
| "admissible (CreateRule new_id i input) a = unused a new_id"
| "admissible (RemoveRule now i) a = (now \<noteq> LIVE_SENTINEL)"
| "admissible _ a = True"

lemma serve_edits:
  assumes "draft_sound (sc_uuid sc) (pf_authoring db)" and "admissible r (pf_authoring db)"
  shows "edits (sc_uuid sc) t (pf_authoring db) (pf_authoring (serve sc t r db))"
  using assms unfolding draft_sound_def
  by (cases r) (simp_all add: create_group_edits update_group_edits remove_group_edits duplicate_group_edits reorder_groups_edits
      create_option_edits update_option_edits remove_option_edits duplicate_option_edits reorder_options_edits
      create_value_edits update_value_edits remove_value_edits duplicate_value_edits reorder_values_edits
      create_item_edits update_item_edits remove_item_edits reorder_items_edits
      create_rule_edits update_rule_edits remove_rule_edits reorder_rules_edits)

lemma edits_sound: "edits uuid t a b \<Longrightarrow> draft_sound uuid a \<Longrightarrow> draft_sound uuid b"
  by (induction rule: rtranclp_induct) (auto intro: step_sound)

lemma edits_other_tenants: "edits uuid t a b \<Longrightarrow> draft_sound uuid a \<Longrightarrow> u \<noteq> t \<Longrightarrow> tenant_view u b = tenant_view u a"
proof (induction rule: rtranclp_induct)
  case (step b c)
  have "draft_sound uuid b" using step by (blast intro: edits_sound)
  then have "tenant_view u c = tenant_view u b" using step.hyps(2) step.prems(2)
    by (intro step_other_tenants) (simp_all add: draft_sound_def)
  then show ?case using step by simp
qed simp

text \<open>The states requests of any tenants lead to, one after the other.\<close>

inductive editing :: "schemas \<Rightarrow> platform \<Rightarrow> platform \<Rightarrow> bool" for sc where
  no_request: "editing sc db db"
| request_served: "editing sc db db' \<Longrightarrow> admissible r (pf_authoring db') \<Longrightarrow> editing sc db (serve sc t r db')"

lemma editing_sound: "editing sc db db' \<Longrightarrow> draft_sound (sc_uuid sc) (pf_authoring db) \<Longrightarrow> draft_sound (sc_uuid sc) (pf_authoring db')"
  by (induction rule: editing.induct) (auto intro: edits_sound serve_edits)

section \<open>Keys for copies\<close>

lemma copy_key_from_find: "copy_key_from taken key n
    = List.find (\<lambda>k. length k \<le> KEY_MAX_LENGTH \<and> \<not> taken k) (map (copy_candidate key) [n..<Suc COPY_KEY_ATTEMPTS])"
proof (induction taken key n rule: copy_key_from.induct)
  case (1 taken key n)
  show ?case
  proof (cases "COPY_KEY_ATTEMPTS < n")
    case False
    then have "[n..<Suc COPY_KEY_ATTEMPTS] = n # [Suc n..<Suc COPY_KEY_ATTEMPTS]" by (intro upt_conv_Cons) simp
    then show ?thesis using "1.IH" [OF False refl] False by (subst copy_key_from.simps) (auto simp: Let_def)
  qed (simp add: copy_key_from.simps)
qed

text \<open>
  The key a copy gets is the first of \<open>key-copy\<close>, \<open>key-copy-2\<close>, \<dots>, \<open>key-copy-50\<close> that is no longer than a key
  may be and not in use; the request is refused when there is none.
\<close>

theorem availableCopyKey_first: "availableCopyKey taken key
    = List.find (\<lambda>k. length k \<le> KEY_MAX_LENGTH \<and> \<not> taken k) (map (copy_candidate key) [1..<Suc COPY_KEY_ATTEMPTS])"
  unfolding availableCopyKey_def by (rule copy_key_from_find)

section \<open>The properties of the editor\<close>



text \<open>C15. A request of one tenant leaves everything another tenant sees exactly as it was.\<close>

theorem edits_stay_in_tenant:
  assumes "draft_sound (sc_uuid sc) (pf_authoring db)" and "admissible r (pf_authoring db)" and "u \<noteq> t"
  shows "tenant_view u (pf_authoring (serve sc t r db)) = tenant_view u (pf_authoring db)"
  using edits_other_tenants [OF serve_edits [OF assms(1,2)] assms(1,3)] .

text \<open>C28. However drafts are edited, a key names one live option of its group and one live value of its option.\<close>

theorem keys_stay_unique:
  assumes "editing sc db db'" and "draft_sound (sc_uuid sc) (pf_authoring db)"
  shows "keys_unique (pf_authoring db')"
  using editing_sound [OF assms] by (simp add: draft_sound_def)


text \<open>
  C38. However drafts are edited, live values hang under options whose type takes values, and artwork is stored
  only where the type can show it.
\<close>

theorem types_stay_respected:
  assumes "editing sc db db'" and "draft_sound (sc_uuid sc) (pf_authoring db)"
  shows "types_respected (pf_authoring db')"
  using editing_sound [OF assms] by (simp add: draft_sound_def)


lemma rules_stay_wellformed:
  assumes "editing sc db db'" and "draft_sound (sc_uuid sc) (pf_authoring db)"
  shows "rules_wellformed (sc_uuid sc) (pf_authoring db')"
  using editing_sound [OF assms] by (simp add: draft_sound_def)

text \<open>
  A rule that sets a price keeps its action: without a new payload \<open>update\<close> falls back to the stored one, which no
  other action accepts, and a payload of null counts as none.
\<close>

lemma set_price_sticks:
  assumes "findRule t (pf_authoring db) i = Some row" and "sr_action (re_rule (row_entity row)) = ''set_price''"
    and "setPriceValue (sr_actionValue (re_rule (row_entity row)))" and "rc_action changes = Some act" and "act \<noteq> ''set_price''"
    and "rc_conditions changes = JUndef"
  shows "\<exists>e. update_rule sc t i changes db = (Inl e, db)"
proof -
  let ?r = "row_entity row"
  have "payload_of ?r changes \<noteq> JNull \<and> payload_of ?r changes \<noteq> JUndef"
    using assms(3) by (auto simp: payload_of_def split: if_splits)
  then have "actionValueFor sc act (payload_of ?r changes) = Inl (Invalid (sc_action_value sc act (payload_of ?r changes)))"
    using assms(5) by (simp add: actionValueFor_def ruleActionValueSchema_def ACTIONS_REQUIRING_A_VALUE_def)
  moreover have "revalued changes" using assms(4) by (simp add: revalued_def)
  ultimately show ?thesis using assms(1,4,6) by (simp add: update_rule_def Let_def given_def)
qed

section \<open>A draft with a rule, beside another tenant's\<close>

definition any_schemas :: schemas where
  "any_schemas = \<lparr>sc_issues = (\<lambda>_ _ _. []), sc_unknown = (\<lambda>_ _ _. []), sc_value_pricing = (\<lambda>_. []), sc_item_display = (\<lambda>_ _. []),
     sc_uuid = (\<lambda>i. i \<noteq> []), sc_conditions = (\<lambda>_. []), sc_action_value = (\<lambda>_ _. [])\<rparr>"

definition draft_set :: "string \<Rightarrow> string \<Rightarrow> set_row" where
  "draft_set i t = \<lparr>st_id = i, st_tenantId = t, st_storeId = ''w1'', st_name = i, st_status = DRAFT, st_version = 0, rowVersion = 0,
     publishedAt = None, publishedBy = None, publishedConfigVersion = 0, st_createdAt = 0, st_deletedAt = LIVE_SENTINEL\<rparr>"

definition draft_shop :: platform where
  "draft_shop = engraving_shop\<lparr>pf_authoring := \<lparr>db_sets = [draft_set ''s1'' ''t1'', draft_set ''s2'' ''t2''],
     db_groups = [live_row ''s1'' (bare_group ''g1''), live_row ''s2'' (bare_group ''g2'')],
     db_options = [live_row ''g1'' ((engraving_option ''o1'' 0 JNull)\<lparr>presentation := ''image_swatch''\<rparr>), live_row ''g2'' (engraving_option ''o2'' 1 JNull)],
     db_items = [], db_values = [live_row ''o1'' (new_value ''v1'' ''oak'' ''Oak'' (Fin 0) True)],
     db_rules = [live_row ''s1'' ((engraving_rule ''r1'' ''v1'' 0)\<lparr>re_rule := (re_rule (engraving_rule ''r1'' ''v1'' 0))\<lparr>sr_targetType := ''value''\<rparr>\<rparr>)]\<rparr>\<rparr>"

abbreviation copied_shop :: platform where
  "copied_shop \<equiv> serve any_schemas ''t1'' (DuplicateGroup next_key ''g1'' None) draft_shop"

abbreviation emptied_shop :: platform where
  "emptied_shop \<equiv> serve any_schemas ''t1'' (RemoveGroup 5 ''g1'') copied_shop"

lemma draft_shop_sound: "draft_sound (sc_uuid any_schemas) (pf_authoring draft_shop)"
proof -
  let ?a = "pf_authoring draft_shop"
  have "unique_ids ?a" by code_simp
  moreover have "keys_unique ?a" by code_simp
  moreover have "one_default ?a" by code_simp
  moreover have "types_respected ?a" by code_simp
  moreover have "rules_wellformed (sc_uuid any_schemas) ?a" by code_simp
  moreover have "rules_attached ?a"
  proof (rule rules_attachedI)
    fix u r assume r: "r \<in> set (db_rules ?a)" "scoped (owns_set u ?a) r"
    have "list_all (\<lambda>r. row_parent r = ''s1'' \<and> targetExists ''t1'' ?a (sr_targetType (re_rule (row_entity r))) (sr_targetId (re_rule (row_entity r)))) (db_rules ?a)"
      by code_simp
    then have here: "row_parent r = ''s1''" "targetExists ''t1'' ?a (sr_targetType (re_rule (row_entity r))) (sr_targetId (re_rule (row_entity r)))"
      using r(1) by (simp_all add: list_all_iff)
    have "owns_set ''t1'' ?a ''s1''" by code_simp
    moreover have "owns_set u ?a ''s1''" using r(2) here(1) by (simp add: scoped_def)
    ultimately have "u = ''t1''" by (intro one_owner(1) [OF \<open>unique_ids ?a\<close>])
    then show "targetExists u ?a (sr_targetType (re_rule (row_entity r))) (sr_targetId (re_rule (row_entity r)))" using here(2) by simp
  qed
  moreover have "within_limits ?a"
  proof -
    have few: "length (children_in rows p) \<le> m" if "length rows \<le> m" for rows :: "'e child_row list" and p m
      using that length_filter_le by (rule order_trans [rotated])
    show ?thesis
      by (intro within_limitsI few) (simp_all add: draft_shop_def groupsPerSet_def optionsPerGroup_def valuesPerOption_def itemsPerGroup_def rulesPerSet_def)
  qed
  ultimately show ?thesis by (simp add: draft_sound_def)
qed

lemma draft_shop_fresh: "fresh_supply next_key (pf_authoring draft_shop)"
proof -
  let ?a = "pf_authoring draft_shop"
  let ?ks = "all_ids ?a @ all_parents ?a @ map st_id (db_sets ?a)"
  have inj: "inj next_key" by (auto simp: inj_def next_key_def dest: arg_cong [where f = length])
  have "list_all (\<lambda>k. k \<noteq> [] \<and> hd k \<noteq> CHR ''n'') ?ks" by code_simp
  then have "\<forall>k\<in>set ?ks. hd k \<noteq> CHR ''n''" by (simp only: list_all_iff) blast
  moreover have "hd (next_key n) = CHR ''n''" for n by (simp add: next_key_def)
  ultimately have "next_key n \<notin> set ?ks" for n by blast
  then have "unused ?a (next_key n)" for n by (simp add: unused_def)
  then show ?thesis using inj by (simp add: fresh_supply_def)
qed

lemma emptied_shop_edited: "editing any_schemas draft_shop emptied_shop"
proof -
  have "editing any_schemas draft_shop copied_shop"
    by (rule editing.request_served [OF editing.no_request]) (simp add: draft_shop_fresh)
  then show ?thesis by (rule editing.request_served) (simp add: LIVE_SENTINEL_def)
qed

text \<open>What is left of the draft: the copy, its one default, and a rule that is off.\<close>

definition draft_view :: "platform \<Rightarrow> bool list \<times> (string \<times> string) list \<times> string list \<times> (string \<times> bool) list \<times> nat" where
  "draft_view db = (let a = pf_authoring db in (map (\<lambda>r. re_isEnabled (row_entity r)) (db_rules a), keys_of oe_key (db_options a),
     map row_parent (defaults (db_values a)), map (\<lambda>v. (row_parent v, alive v)) (db_values a), length (children_in (db_groups a) ''s1'')))"

lemma emptied_view: "draft_view emptied_shop = ([False], [(''g2'', ''o2''), (''n'', ''o1'')], [''nx''], [(''o1'', False), (''nx'', True)], 1)"
  by code_simp



theorem edits_stay_in_tenant_witness:
  "tenant_view ''t2'' (pf_authoring copied_shop) = tenant_view ''t2'' (pf_authoring draft_shop)
    \<and> map (\<lambda>n. oe_id (row_entity n)) (db_options (tenant_view ''t2'' (pf_authoring draft_shop))) = [''o2'']"
proof
  show "tenant_view ''t2'' (pf_authoring copied_shop) = tenant_view ''t2'' (pf_authoring draft_shop)"
    by (rule edits_stay_in_tenant [OF draft_shop_sound]) (simp_all add: draft_shop_fresh)
qed code_simp

theorem keys_stay_unique_witness:
  "keys_unique (pf_authoring emptied_shop) \<and> keys_of oe_key (db_options (pf_authoring emptied_shop)) = [(''g2'', ''o2''), (''n'', ''o1'')]"
proof
  show "keys_unique (pf_authoring emptied_shop)" by (rule keys_stay_unique [OF emptied_shop_edited draft_shop_sound])
qed (use emptied_view in \<open>simp add: draft_view_def Let_def\<close>)


theorem types_stay_respected_witness:
  "types_respected (pf_authoring emptied_shop)
    \<and> map (\<lambda>v. (row_parent v, alive v)) (db_values (pf_authoring emptied_shop)) = [(''o1'', False), (''nx'', True)]"
proof
  show "types_respected (pf_authoring emptied_shop)" by (rule types_stay_respected [OF emptied_shop_edited draft_shop_sound])
qed (use emptied_view in \<open>simp add: draft_view_def Let_def\<close>)


end
