(* ===== verification/Spec2Isabelle.thy ===== *)
theory Spec2Isabelle
  imports Money_Correct Rules_Correct Publish_Correct Pricing_Schema Billing_Events_Correct Sessions_Correct Rule_Tester
    Storefront_Served Catalogue_Correct Design_Store_Correct Store_Access_Correct Duplication_Correct Authoring_Correct

begin

text \<open>
  Optionia: product options, their prices and their rules for WooCommerce stores.

  \<^bold>\<open>The program.\<close> A merchant draws up option sets in a dashboard (a Next.js frontend) over a NestJS
  backend with a MySQL database; a WordPress plugin in the shop fetches the published sets as one
  document, renders the options, evaluates their rules in the browser and charges the prices. The parts
  meet as follows. The authoring tables hold a draft; the loader reads it as a tree; the publish check
  decides whether it may be published; the serializer writes it in the vocabulary of the document; the
  publish service stores that as a snapshot and advances the revision of the store; the delivery joins
  the snapshots, the assignments and the state of the plan into the document a plugin fetches with a
  validator. The storefront's rule engine and the backend's evaluator read the same rules, the backend's
  for the tester and the merchant's preview. Around this sit the plan (its limits, its features and the
  subscription that pays for it, driven by provider events), the connection between a shop and a tenant,
  the sessions of its users, the mirror of the shop's catalogue, and the editor of printable designs.

  In the paths below, \<open>backend\<close> is \<open>src/optioniaWooCommerceBackend/src\<close>, \<open>frontend\<close> is
  \<open>src/optioniaWooCommerceFrontend/src/lib\<close> and \<open>plugin\<close> is \<open>src/optioniaWooCommercePlugin\<close>.

  \<^bold>\<open>The language.\<close>
  \<^item> \<open>Prelude\<close>: results that may be a thrown error, the insertion-ordered \<open>Map\<close> and \<open>Set\<close>.
  \<^item> \<open>Js_Number\<close>, \<open>Js_Rounding\<close>: doubles as the rationals they denote, with the infinities and NaN, each
    operation rounded once to nearest-even; \<open>Js_Rounding\<close> has exactness below \<open>2 ^ 53\<close> and monotonicity.
  \<^item> \<open>Js_Value\<close>: values typed \<open>unknown\<close>, conversions to and from strings, property access.
  \<^item> \<open>Tables\<close>: tables as lists of rows with find, update and delete, dates as milliseconds.
  \<^item> \<open>Claims\<close>: the locale \<open>claim_once\<close>, requests that compete for something one of them may have.

  \<^bold>\<open>Prices and rules.\<close>
  \<^item> \<open>Money\<close>, \<open>Money_Correct\<close>: \<open>backend/common/money\<close> and \<open>common/text/measure.ts\<close>. On doubles it computes
    the integer specification or throws; halves round away from zero; totals are exact.
  \<^item> \<open>Rules\<close>, \<open>Rules_Correct\<close>: \<open>backend/common/rules/rule-evaluator.ts\<close>. One pass is a specification per
    target; ten passes (\<open>MAX_RULE_PASSES\<close>) are enough for nine hide targets, and a settled outcome is a fixed point.
  \<^item> \<open>Storefront_Rules\<close>: \<open>plugin/assets/js/rules.js\<close>, a second implementation over the document, and
    that it agrees with the first; \<open>Rule_Tester\<close>: \<open>backend/option-sets/rule-tester.service.ts\<close>.
  \<^item> \<open>Type_Registry\<close>, \<open>Pricing_Schema\<close>: \<open>backend/option-sets/types\<close>; every tiered price the schema accepts
    has exactly one bracket for each quantity.

  \<^bold>\<open>Publishing.\<close>
  \<^item> \<open>Publish_Check\<close>, \<open>Cycle_Detection\<close>, \<open>Publish_Correct\<close>: \<open>backend/option-sets/publishing/publish-check.ts\<close>,
    every validator; the cycle search decides cyclicity; the gate refines a specification of a set that works.
  \<^item> \<open>Publish_Config\<close>, \<open>Serializer\<close>, \<open>Tree_Loader\<close>: \<open>backend/option-sets/serialization\<close>, from the tables to
    the document, whatever order the storage engine returns rows in.
  \<^item> \<open>Platform\<close>, \<open>Publish_Service\<close>, \<open>Store_Writes\<close>, \<open>Plan_Limits\<close>, \<open>Config_Document\<close>: the publish service,
    the writes beside it (\<open>option-sets.service.ts\<close>, \<open>cascade.service.ts\<close>, \<open>assignments.service.ts\<close>), the plan's
    ceilings (\<open>backend/usage\<close>) and the delivery (\<open>config-document.ts\<close>, \<open>backend/config-delivery\<close>).
  \<^item> \<open>Storefront_Correct\<close>, \<open>Storefront_Served\<close>: requests one after the other over these tables; history is
    append only, a publish goes live, a rollback restores, and not-modified answers are true.

  \<^bold>\<open>Accounts.\<close>
  \<^item> \<open>Invoices\<close>, \<open>Subscriptions\<close>, \<open>Subscriptions_Correct\<close>, \<open>Lifecycle_Idempotent\<close>: \<open>backend/billing\<close>: the
    mapping of invoices, the lifecycle (fourteen days of grace) and its guard; the locale \<open>event_handler\<close> states
    that a redelivery changes nothing and every handler is an interpretation of it.
  \<^item> \<open>Billing_Events\<close>, \<open>Billing_Events_Correct\<close>: the inbox of provider events and the retry worker (fifty
    rows a pass, five attempts), with several workers and crashes as a step relation.
  \<^item> \<open>Sessions\<close>, \<open>Sessions_Correct\<close>: \<open>backend/auth/sessions.service.ts\<close>. A rotation is six statements
    (\<open>rotate_step\<close>), any number of rotations run side by side, logouts in between.
  \<^item> \<open>Connect\<close>, \<open>Store_Access\<close>, \<open>Store_Access_Invariant\<close>, \<open>Store_Access_Correct\<close>: \<open>backend/stores\<close>: the
    handshake that connects a shop (thirty minutes to approve, five to redeem), disconnecting, re-keying, the daily
    report. Each request is a run whose reads and transactions are separate steps of the relation \<open>connect_reachable\<close>;
    the invariant joins the tables and what the runs have read. The rotation of tokens and the redemption of codes
    are interpretations of \<open>claim_once\<close>.

  \<^bold>\<open>Catalogue and designs.\<close>
  \<^item> \<open>Text_Cursor\<close>, \<open>Catalogue\<close>, \<open>Catalogue_Correct\<close>: \<open>backend/common/pagination\<close> and \<open>backend/products\<close>:
    cursors of at most 512 characters, the sweep by pages of 10000 ids, the list a client walks.
  \<^item> \<open>Design_Geometry\<close>, \<open>Design_Parts\<close>, \<open>Design_Store\<close> and their \<open>_Correct\<close> theories:
    \<open>backend/shared/design\<close> and \<open>frontend/design-lab\<close>: the geometry of layers on both sides and the editor
    with its history of at most 80 snapshots.

  \<^bold>\<open>Conventions.\<close> A definition has the name of the code it models. A call that throws is \<open>Inl\<close> of the error, or
  \<open>None\<close> where the error has no content. Statements of one transaction are one step; what a request reads outside
  a transaction is a step of its own where another request can come between. Library and platform code is a
  parameter: \<open>regexp_ok\<close> (is a pattern a regular expression), the parser of JSON, hash functions and random tokens,
  the parser of URLs, the collation of the database as a weight per string, the matching of LIKE, the parsing of
  dates. What is assumed of a parameter is a hypothesis of the theorem that needs it, and the witness
  of the theorem gives an instance.

  \<^bold>\<open>Representation.\<close> Strings are lists of the 256 characters of HOL; where the width of a character matters
  (\<open>Text_Cursor\<close>) a string is a list of UTF-16 units. \<open>-0\<close> and \<open>0\<close> are one number: nothing the models compute
  distinguishes them. The columns of JSON are \<open>jsval\<close>; a number JSON cannot write is stored as null.

  \<^bold>\<open>Not modelled.\<close> React components, routes and the ORM (markup, wiring and query builders); the rendering of
  designs (trigonometry, font metrics and an image library); analytics and the activation report (SQL
  aggregations); the calls of the payment provider; mail, cryptography and logging; the DOM code of the plugin.
  The schemas of validation and display documents are the work of a validation library.
  Transactions are atomic and isolated for the rows they lock: anomalies inside a transaction are not modelled.
\<close>

end
